(* ===== verification/LV_Prelude.thy ===== *)
theory LV_Prelude
  imports Main "HOL-Library.Word"
begin

text \<open>
  Shared vocabulary of the LocalVault development: the error values of
  \<^verbatim>\<open>include/localvault/error.hpp\<close>, the machine integers of
  \<^verbatim>\<open>include/localvault/types.hpp\<close>, the state-and-exception procedures in which the
  stateful components are written, a weakest-precondition calculus for them, and the generic list
  and word lemmas that more than one component uses.
\<close>

section \<open>Errors\<close>

text \<open>\<^verbatim>\<open>enum class ErrorCode\<close>; the prefix keeps the constructors apart from those of the
  other enumerations.\<close>

datatype ErrorCode =
    E_invalid_argument
  | E_repository_not_found
  | E_invalid_repository
  | E_unsupported_repository_version
  | E_repository_busy
  | E_filesystem_error
  | E_database_error
  | E_compression_error
  | E_hashing_error
  | E_object_missing
  | E_object_corrupt
  | E_unsafe_restore_path
  | E_destination_exists
  | E_source_changed
  | E_cancelled
  | E_partial_success
  | E_internal_error

text \<open>\<^verbatim>\<open>class LocalVaultError\<close>: the code and the text of \<open>what()\<close>. The path that the
  class also carries is only used for display and is left out.\<close>

datatype LocalVaultError = LocalVaultError (error_code: ErrorCode) (what: string)

text \<open>What a C++ \<^verbatim>\<open>catch\<close> chain can tell apart: a LocalVault error, any other
  \<^verbatim>\<open>std::exception\<close>, and everything else.\<close>

datatype exn =
    Lv LocalVaultError
  | StdException string
  | UnknownException

abbreviation throw_lv :: "ErrorCode \<Rightarrow> string \<Rightarrow> exn + 'a" where
  "throw_lv c m \<equiv> Inl (Lv (LocalVaultError c m))"

fun code_of :: "exn \<Rightarrow> ErrorCode option" where
  "code_of (Lv e) = Some (error_code e)"
| "code_of (StdException m) = None"
| "code_of UnknownException = None"

fun what_of :: "exn \<Rightarrow> string" where
  "what_of (Lv e) = what e"
| "what_of (StdException m) = m"
| "what_of UnknownException = []"

section \<open>Machine integers\<close>

type_synonym u8 = "8 word"
type_synonym u32 = "32 word"
type_synonym u64 = "64 word"
type_synonym ByteCount = u64
type_synonym size_t = u64

text \<open>\<^verbatim>\<open>std::int64_t\<close> values, as SQLite stores them, are integers in this range.\<close>

abbreviation int64_max :: int where "int64_max \<equiv> 9223372036854775807"
abbreviation int64_min :: int where "int64_min \<equiv> - 9223372036854775808"

abbreviation u64_max :: u64 where "u64_max \<equiv> 18446744073709551615"

type_synonym bytes = "u8 list"

section \<open>Procedures with state and exceptions\<close>

text \<open>
  A procedure maps a state to an outcome and a state. The state survives an exception, as side
  effects do in C++.
\<close>

type_synonym ('s, 'a) proc = "'s \<Rightarrow> (exn + 'a) \<times> 's"

definition ret :: "'a \<Rightarrow> ('s, 'a) proc" where
  "ret a s = (Inr a, s)"

definition raise :: "exn \<Rightarrow> ('s, 'a) proc" where
  "raise e s = (Inl e, s)"

definition raise_lv :: "ErrorCode \<Rightarrow> string \<Rightarrow> ('s, 'a) proc" where
  "raise_lv c m = raise (Lv (LocalVaultError c m))"

definition liftp :: "exn + 'a \<Rightarrow> ('s, 'a) proc" where
  "liftp r s = (r, s)"

definition bindp :: "('s, 'a) proc \<Rightarrow> ('a \<Rightarrow> ('s, 'b) proc) \<Rightarrow> ('s, 'b) proc" where
  "bindp m k s = (case m s of (Inl e, t) \<Rightarrow> (Inl e, t) | (Inr a, t) \<Rightarrow> k a t)"

definition seqp :: "('s, 'a) proc \<Rightarrow> ('s, 'b) proc \<Rightarrow> ('s, 'b) proc" where
  "seqp m n = bindp m (\<lambda>_. n)"

definition handle :: "('s, 'a) proc \<Rightarrow> (exn \<Rightarrow> ('s, 'a) proc) \<Rightarrow> ('s, 'a) proc" where
  "handle m h s = (case m s of (Inl e, t) \<Rightarrow> h e t | (Inr a, t) \<Rightarrow> (Inr a, t))"

definition gets :: "('s \<Rightarrow> 'a) \<Rightarrow> ('s, 'a) proc" where
  "gets f s = (Inr (f s), s)"

definition modifyp :: "('s \<Rightarrow> 's) \<Rightarrow> ('s, unit) proc" where
  "modifyp f s = (Inr (), f s)"

definition guardp :: "bool \<Rightarrow> ErrorCode \<Rightarrow> string \<Rightarrow> ('s, unit) proc" where
  "guardp b c m = (if b then ret () else raise_lv c m)"

lemmas proc_defs = ret_def raise_def raise_lv_def liftp_def bindp_def seqp_def handle_def
  gets_def modifyp_def guardp_def

lemma bindp_simps [simp]:
  "bindp (ret a) k = k a" "bindp (raise e) k = raise e" "bindp (raise_lv c m) k = raise_lv c m"
  "seqp (ret a) n = n" "seqp (raise e) n = raise e" "seqp (raise_lv c m) n = raise_lv c m"
  by (simp_all add: proc_defs fun_eq_iff)

fun mapp :: "('a \<Rightarrow> ('s, 'b) proc) \<Rightarrow> 'a list \<Rightarrow> ('s, 'b list) proc" where
  "mapp f [] = ret []"
| "mapp f (x # xs) = bindp (f x) (\<lambda>y. bindp (mapp f xs) (\<lambda>ys. ret (y # ys)))"

fun iterp :: "('a \<Rightarrow> ('s, unit) proc) \<Rightarrow> 'a list \<Rightarrow> ('s, unit) proc" where
  "iterp f [] = ret ()"
| "iterp f (x # xs) = seqp (f x) (iterp f xs)"

text \<open>Fallible functions without state, chained and mapped.\<close>

definition bindE :: "exn + 'a \<Rightarrow> ('a \<Rightarrow> exn + 'b) \<Rightarrow> exn + 'b" where
  "bindE r k = (case r of Inl e \<Rightarrow> Inl e | Inr a \<Rightarrow> k a)"

fun mapE :: "('a \<Rightarrow> exn + 'b) \<Rightarrow> 'a list \<Rightarrow> exn + 'b list" where
  "mapE f [] = Inr []"
| "mapE f (x # xs) = bindE (f x) (\<lambda>y. bindE (mapE f xs) (\<lambda>ys. Inr (y # ys)))"

lemma bindE_simps [simp]: "bindE (Inl e) k = Inl e" "bindE (Inr a) k = k a"
  by (simp_all add: bindE_def)

lemma bindE_Inr_iff: "bindE r k = Inr b \<longleftrightarrow> (\<exists>a. r = Inr a \<and> k a = Inr b)"
  by (cases r) auto

lemma mapE_Inr: "(\<And>x. x \<in> set xs \<Longrightarrow> f x = Inr (g x)) \<Longrightarrow> mapE f xs = Inr (map g xs)"
  by (induction xs) auto

lemma mapE_Inr_iff: "mapE f xs = Inr ys \<longleftrightarrow> list_all2 (\<lambda>x y. f x = Inr y) xs ys"
  by (induction xs arbitrary: ys) (auto simp: bindE_Inr_iff list_all2_Cons1)

subsection \<open>Weakest preconditions\<close>

named_theorems wp_simps "weakest preconditions of the procedure combinators"

definition wp :: "('s, 'a) proc \<Rightarrow> ('a \<Rightarrow> 's \<Rightarrow> bool) \<Rightarrow> (exn \<Rightarrow> 's \<Rightarrow> bool) \<Rightarrow> 's \<Rightarrow> bool" where
  "wp m Q E s = (case m s of (Inr a, t) \<Rightarrow> Q a t | (Inl e, t) \<Rightarrow> E e t)"

lemma wp_ret [wp_simps]: "wp (ret a) Q E s = Q a s"
  by (simp add: wp_def ret_def)

lemma wp_raise [wp_simps]: "wp (raise e) Q E s = E e s"
  by (simp add: wp_def raise_def)

lemma wp_raise_lv [wp_simps]: "wp (raise_lv c m) Q E s = E (Lv (LocalVaultError c m)) s"
  by (simp add: raise_lv_def wp_raise)

lemma wp_liftp [wp_simps]:
  "wp (liftp r) Q E s = (case r of Inl e \<Rightarrow> E e s | Inr a \<Rightarrow> Q a s)"
  by (simp add: wp_def liftp_def split: sum.splits)

lemma wp_bindp [wp_simps]: "wp (bindp m k) Q E s = wp m (\<lambda>a. wp (k a) Q E) E s"
  by (simp add: wp_def bindp_def split: prod.splits sum.splits)

lemma wp_seqp [wp_simps]: "wp (seqp m n) Q E s = wp m (\<lambda>_. wp n Q E) E s"
  by (simp add: seqp_def wp_bindp)

lemma wp_handle [wp_simps]: "wp (handle m h) Q E s = wp m Q (\<lambda>e. wp (h e) Q E) s"
  by (simp add: wp_def handle_def split: prod.splits sum.splits)

lemma wp_gets [wp_simps]: "wp (gets f) Q E s = Q (f s) s"
  by (simp add: wp_def gets_def)

lemma wp_modifyp [wp_simps]: "wp (modifyp f) Q E s = Q () (f s)"
  by (simp add: wp_def modifyp_def)

lemma wp_guardp [wp_simps]:
  "wp (guardp b c m) Q E s = (if b then Q () s else E (Lv (LocalVaultError c m)) s)"
  by (simp add: guardp_def wp_ret wp_raise_lv)

lemma wp_mono:
  assumes "wp m Q E s" and "\<And>a t. Q a t \<Longrightarrow> Q' a t" and "\<And>e t. E e t \<Longrightarrow> E' e t"
  shows "wp m Q' E' s"
  using assms by (auto simp: wp_def split: prod.splits sum.splits)

lemma wp_conj:
  "wp m (\<lambda>a t. Q a t \<and> Q' a t) (\<lambda>e t. E e t \<and> E' e t) s \<longleftrightarrow> wp m Q E s \<and> wp m Q' E' s"
  by (auto simp: wp_def split: prod.splits sum.splits)

lemma wp_returns: "wp m Q E s \<Longrightarrow> m s = (Inr a, t) \<Longrightarrow> Q a t"
  by (simp add: wp_def)

lemma wp_raises: "wp m Q E s \<Longrightarrow> m s = (Inl e, t) \<Longrightarrow> E e t"
  by (simp add: wp_def)

subsection \<open>Running a procedure on a concrete state\<close>

text \<open>Unfolding these equations, with congruence rules that leave continuations alone until their
  argument is known, evaluates a procedure on a concrete state in the order of the program.\<close>

lemma bindp_run: "bindp m k s = (case m s of (r, t) \<Rightarrow> case r of Inl e \<Rightarrow> (Inl e, t) | Inr a \<Rightarrow> k a t)"
  by (simp add: bindp_def split: prod.split)

lemma seqp_run: "seqp m n s = (case m s of (r, t) \<Rightarrow> case r of Inl e \<Rightarrow> (Inl e, t) | Inr a \<Rightarrow> n t)"
  by (simp add: seqp_def bindp_run)

lemma handle_run: "handle m h s = (case m s of (r, t) \<Rightarrow> case r of Inl e \<Rightarrow> h e t | Inr a \<Rightarrow> (Inr a, t))"
  by (simp add: handle_def split: prod.split)

lemma if_run: "(if b then f else g) x = (if b then f x else g x)"
  by simp

lemma run_cong:
  "s = s' \<Longrightarrow> bindp m k s = bindp m k s'" "s = s' \<Longrightarrow> seqp m n s = seqp m n s'"
  "s = s' \<Longrightarrow> handle m h s = handle m h s'"
  by simp_all

lemmas run_congs = run_cong if_weak_cong prod.case_cong_weak sum.case_cong_weak option.case_cong_weak
  list.case_cong_weak

lemmas run_simps = bindp_run seqp_run handle_run if_run Let_def ret_def raise_def raise_lv_def liftp_def
  gets_def modifyp_def guardp_def

subsection \<open>Predicates that a procedure keeps on every exit\<close>

named_theorems keeps_intros "rules for predicates kept on normal and exceptional exit"

definition keeps :: "('s \<Rightarrow> bool) \<Rightarrow> ('s, 'a) proc \<Rightarrow> bool" where
  "keeps I m \<longleftrightarrow> (\<forall>s. I s \<longrightarrow> I (snd (m s)))"

lemma keepsD: "keeps I m \<Longrightarrow> I s \<Longrightarrow> m s = (r, t) \<Longrightarrow> I t"
  by (metis keeps_def snd_conv)

lemma keepsI: "(\<And>s r t. I s \<Longrightarrow> m s = (r, t) \<Longrightarrow> I t) \<Longrightarrow> keeps I m"
  unfolding keeps_def by (metis prod.collapse)

lemma keeps_wp: "keeps I m \<longleftrightarrow> (\<forall>s. I s \<longrightarrow> wp m (\<lambda>_. I) (\<lambda>_. I) s)"
  unfolding keeps_def wp_def by (intro all_cong1 imp_cong refl) (simp split: prod.split sum.split)

lemma keeps_ret [keeps_intros]: "keeps I (ret a)"
  by (simp add: keeps_def ret_def)

lemma keeps_raise [keeps_intros]: "keeps I (raise e)"
  by (simp add: keeps_def raise_def)

lemma keeps_raise_lv [keeps_intros]: "keeps I (raise_lv c m)"
  by (simp add: raise_lv_def keeps_raise)

lemma keeps_liftp [keeps_intros]: "keeps I (liftp r)"
  by (simp add: keeps_def liftp_def)

lemma keeps_gets [keeps_intros]: "keeps I (gets f)"
  by (simp add: keeps_def gets_def)

lemma keeps_guardp [keeps_intros]: "keeps I (guardp b c m)"
  by (simp add: guardp_def keeps_ret keeps_raise_lv)

lemma keeps_bindp [keeps_intros]: "keeps I m \<Longrightarrow> (\<And>a. keeps I (k a)) \<Longrightarrow> keeps I (bindp m k)"
  unfolding keeps_def bindp_def by (simp split: prod.split sum.split) (metis snd_conv)

lemma keeps_seqp [keeps_intros]: "keeps I m \<Longrightarrow> keeps I n \<Longrightarrow> keeps I (seqp m n)"
  by (simp add: seqp_def keeps_bindp)

lemma keeps_handle [keeps_intros]: "keeps I m \<Longrightarrow> (\<And>e. keeps I (h e)) \<Longrightarrow> keeps I (handle m h)"
  unfolding keeps_def handle_def by (simp split: prod.split sum.split) (metis snd_conv)

lemma keeps_modifyp [keeps_intros]: "(\<And>s. I s \<Longrightarrow> I (f s)) \<Longrightarrow> keeps I (modifyp f)"
  by (simp add: keeps_def modifyp_def)

lemma keeps_if [keeps_intros]: "keeps I m \<Longrightarrow> keeps I n \<Longrightarrow> keeps I (if b then m else n)"
  by simp

lemma keeps_mapp [keeps_intros]: "(\<And>x. keeps I (f x)) \<Longrightarrow> keeps I (mapp f xs)"
  by (induction xs) (auto intro!: keeps_intros)

lemma keeps_iterp [keeps_intros]: "(\<And>x. keeps I (f x)) \<Longrightarrow> keeps I (iterp f xs)"
  by (induction xs) (auto intro!: keeps_intros)

section \<open>Checked 64-bit addition\<close>

text \<open>
  Three components add byte counters under an overflow guard: \<^verbatim>\<open>add_bytes\<close> and
  \<^verbatim>\<open>add_atomic\<close> of the snapshot engine and \<^verbatim>\<open>checked_add\<close> of the restore engine. The
  contract they share is that a sum is returned exactly when it fits, and then without
  wrap-around.
\<close>

locale checked_adder =
  fixes add :: "u64 \<Rightarrow> u64 \<Rightarrow> exn + u64"
  assumes add_fits: "unat a + unat b < 2 ^ 64 \<Longrightarrow> add a b = Inr (a + b)"
    and add_overflows: "2 ^ 64 \<le> unat a + unat b \<Longrightarrow> \<exists>e. add a b = Inl e"
begin

lemma add_returns: "add a b = Inr c \<Longrightarrow> unat c = unat a + unat b"
proof -
  assume *: "add a b = Inr c"
  have "unat a + unat b < 2 ^ 64"
    using add_overflows [of a b] * by (metis Inl_Inr_False not_less)
  then show ?thesis
    using add_fits [of a b] * by (simp add: unat_word_ariths)
qed

lemma add_returns_iff: "(\<exists>c. add a b = Inr c) \<longleftrightarrow> unat a + unat b < 2 ^ 64"
  by (metis add_fits add_overflows Inl_Inr_False not_less)

end

text \<open>The guard all three write: \<open>total > max - value\<close> on unsigned 64-bit integers.\<close>

lemma u64_guard_iff: "(a :: u64) > u64_max - b \<longleftrightarrow> 2 ^ 64 \<le> unat a + unat b"
proof -
  have max: "u64_max = - 1"
    by simp
  have "unat (u64_max - b) = 2 ^ 64 - 1 - unat b"
  proof -
    have "b \<le> u64_max"
      unfolding max by (rule word_n1_ge)
    then have "unat (u64_max - b) = unat u64_max - unat b"
      by (rule unat_sub)
    then show ?thesis by simp
  qed
  moreover have "unat b < 2 ^ 64"
    using unsigned_less [of b] by simp
  ultimately show ?thesis
    by (simp add: word_less_nat_alt) arith
qed

lemma u64_unat_less: "unat (x :: u64) < 18446744073709551616"
  using unsigned_less [of x] by simp

lemma u64_unat_of_nat: "n < 2 ^ 64 \<Longrightarrow> unat (word_of_nat n :: u64) = n"
  by (simp add: unat_of_nat take_bit_nat_eq_self)

section \<open>Lists\<close>

lemma sum_list_take_le: "sum_list (take n (xs :: nat list)) \<le> sum_list xs"
  by (metis append_take_drop_id le_add1 sum_list_append)

lemma filter_out_shorter:
  "filter p xs \<noteq> [] \<Longrightarrow> length (filter (\<lambda>x. \<not> p x) xs) < length xs"
  by (metis (mono_tags, lifting) filter_empty_conv length_filter_less)

lemma drop_decreases: "xs \<noteq> [] \<Longrightarrow> 0 < n \<Longrightarrow> length (drop n xs) < length xs"
  by (cases xs) auto

lemma concat_snoc [simp]: "concat (xss @ [xs]) = concat xss @ xs"
  by simp

lemma wp_bindp_keeps:
  "keeps I m \<Longrightarrow> I s \<Longrightarrow> (\<And>a t. I t \<Longrightarrow> wp (n a) Q E t) \<Longrightarrow> (\<And>e t. I t \<Longrightarrow> E e t) \<Longrightarrow> wp (bindp m n) Q E s"
  unfolding wp_bindp keeps_wp by (blast intro: wp_mono)

lemma wp_seqp_keeps:
  "keeps I m \<Longrightarrow> I s \<Longrightarrow> (\<And>t. I t \<Longrightarrow> wp n Q E t) \<Longrightarrow> (\<And>e t. I t \<Longrightarrow> E e t) \<Longrightarrow> wp (seqp m n) Q E s"
  unfolding seqp_def by (rule wp_bindp_keeps)

end
