(* ===== verification/Bounded_Queue.thy ===== *)
theory Bounded_Queue
  imports LV_Prelude
begin

text \<open>
  The bounded queue between the threads of the snapshot pipeline
  (\<^verbatim>\<open>src/core/concurrency/bounded_queue.hpp\<close>). The mutex makes every critical section atomic,
  so an operation is a function of the queue it finds under the lock; the stop token is shared with
  other threads and may change between two readings, so every reading is an argument of its own. A
  call that has to wait returns \<open>Blocked\<close>: it leaves the queue as it is and runs again when it is
  notified.
\<close>

section \<open>State and operations\<close>

record 'a queue =
  item_capacity :: size_t
  byte_capacity :: "size_t option"
  size_function :: "('a \<Rightarrow> size_t) option"
  items :: "(size_t \<times> 'a) list"
  bytes_used :: size_t
  closed :: bool

definition new_queue :: "size_t \<Rightarrow> exn + 'a queue" where
  "new_queue item_cap =
     (if item_cap = 0 then Inl (StdException ''queue item capacity must be positive'')
      else Inr \<lparr>item_capacity = item_cap, byte_capacity = None, size_function = None,
                items = [], bytes_used = 0, closed = False\<rparr>)"

definition new_byte_queue ::
  "size_t \<Rightarrow> size_t \<Rightarrow> ('a \<Rightarrow> size_t) option \<Rightarrow> exn + 'a queue" where
  "new_byte_queue item_cap byte_cap sz =
     (if item_cap = 0 then Inl (StdException ''queue item capacity must be positive'')
      else if byte_cap = 0 \<or> sz = None then
        Inl (StdException ''queue byte budget requires a positive capacity and size function'')
      else Inr \<lparr>item_capacity = item_cap, byte_capacity = Some byte_cap, size_function = sz,
                items = [], bytes_used = 0, closed = False\<rparr>)"

definition has_capacity :: "'a queue \<Rightarrow> size_t \<Rightarrow> bool" where
  "has_capacity q item_bytes =
     (if unat (item_capacity q) \<le> length (items q) then False
      else (case byte_capacity q of None \<Rightarrow> True
            | Some cap \<Rightarrow> item_bytes \<le> cap - bytes_used q))"

definition item_size :: "'a queue \<Rightarrow> 'a \<Rightarrow> size_t" where
  "item_size q v = (case size_function q of None \<Rightarrow> 0 | Some f \<Rightarrow> f v)"

datatype ('a, 'b) outcome = Blocked | Returned 'b "'a queue"

text \<open>\<open>stop0\<close> is the reading of the stop token before the lock, \<open>stop1\<close> the one before the wait,
  \<open>stop2\<close> the one inside \<^verbatim>\<open>condition_variable_any::wait\<close> and \<open>stop3\<close> the one after it.\<close>

definition push_impl ::
  "bool \<Rightarrow> bool \<Rightarrow> bool \<Rightarrow> bool \<Rightarrow> 'a \<Rightarrow> 'a queue \<Rightarrow> ('a, bool) outcome" where
  "push_impl stop0 stop1 stop2 stop3 v q =
     (if stop0 then Returned False q
      else
        let item_bytes = item_size q v in
        if stop1 \<or> (case byte_capacity q of None \<Rightarrow> False | Some cap \<Rightarrow> cap < item_bytes)
        then Returned False q
        else
          let ready = (closed q \<or> has_capacity q item_bytes) in
          if \<not> ready \<and> \<not> stop2 then Blocked
          else if \<not> ready \<or> stop3 \<or> closed q then Returned False q
          else Returned True (q\<lparr>items := items q @ [(item_bytes, v)],
                                bytes_used := bytes_used q + item_bytes\<rparr>))"

definition pop :: "bool \<Rightarrow> bool \<Rightarrow> 'a queue \<Rightarrow> ('a, 'a option) outcome" where
  "pop stop2 stop3 q =
     (let ready = (closed q \<or> items q \<noteq> []) in
      if \<not> ready \<and> \<not> stop2 then Blocked
      else if \<not> ready \<or> stop3 then Returned None q
      else (case items q of
              [] \<Rightarrow> Returned None q
            | (item_bytes, v) # rest \<Rightarrow>
                Returned (Some v) (q\<lparr>items := rest, bytes_used := bytes_used q - item_bytes\<rparr>)))"

definition close :: "'a queue \<Rightarrow> 'a queue" where
  "close q = q\<lparr>closed := True\<rparr>"

definition contents :: "'a queue \<Rightarrow> 'a list" where
  "contents q = map snd (items q)"

section \<open>Invariant\<close>

definition queue_bytes :: "'a queue \<Rightarrow> nat" where
  "queue_bytes q = sum_list (map (unat \<circ> fst) (items q))"

definition queue_ok :: "'a queue \<Rightarrow> bool" where
  "queue_ok q \<longleftrightarrow>
     item_capacity q \<noteq> 0 \<and>
     length (items q) \<le> unat (item_capacity q) \<and>
     (size_function q = None \<longleftrightarrow> byte_capacity q = None) \<and>
     unat (bytes_used q) = queue_bytes q \<and>
     (case byte_capacity q of None \<Rightarrow> bytes_used q = 0
      | Some cap \<Rightarrow> cap \<noteq> 0 \<and> bytes_used q \<le> cap) \<and>
     (\<forall>(b, v) \<in> set (items q). b = item_size q v)"

lemma new_queue_ok: "new_queue n = Inr q \<Longrightarrow> queue_ok q \<and> contents q = []"
  by (auto simp: new_queue_def queue_ok_def queue_bytes_def contents_def split: if_splits)

lemma new_byte_queue_ok: "new_byte_queue n b sz = Inr q \<Longrightarrow> queue_ok q \<and> contents q = []"
  by (auto simp: new_byte_queue_def queue_ok_def queue_bytes_def contents_def split: if_splits)

lemma close_ok: "queue_ok q \<Longrightarrow> queue_ok (close q)"
  by (auto simp: queue_ok_def close_def queue_bytes_def item_size_def split: option.splits)

lemma push_true_cases:
  assumes "push_impl s0 s1 s2 s3 v q = Returned True q'"
  shows "\<not> closed q" and "has_capacity q (item_size q v)"
    and "q' = q\<lparr>items := items q @ [(item_size q v, v)],
                bytes_used := bytes_used q + item_size q v\<rparr>"
  using assms by (auto simp: push_impl_def Let_def split: if_splits)

lemma push_false_unchanged: "push_impl s0 s1 s2 s3 v q = Returned False q' \<Longrightarrow> q' = q"
  by (auto simp: push_impl_def Let_def split: if_splits)

lemma capacity_no_wrap:
  assumes "(u :: size_t) \<le> cap" and "b \<le> cap - u"
  shows "unat (u + b) = unat u + unat b" and "u + b \<le> cap"
proof -
  have le: "unat b \<le> unat cap - unat u"
    using assms by (simp add: word_le_nat_alt unat_sub)
  have cap: "unat u \<le> unat cap"
    using assms(1) by (simp add: word_le_nat_alt)
  have "unat u + unat b < 2 ^ 64"
    using le cap u64_unat_less [of cap] by simp
  then show eq: "unat (u + b) = unat u + unat b"
    by (simp add: unat_word_ariths)
  show "u + b \<le> cap"
    using eq le cap by (simp add: word_le_nat_alt)
qed

lemma has_capacity_bytes:
  assumes "queue_ok q" and "has_capacity q (item_size q v)"
  shows "unat (bytes_used q + item_size q v) = queue_bytes q + unat (item_size q v)"
    and "case byte_capacity q of None \<Rightarrow> bytes_used q + item_size q v = 0
         | Some cap \<Rightarrow> bytes_used q + item_size q v \<le> cap"
  using assms capacity_no_wrap [of "bytes_used q"]
  by (auto simp: queue_ok_def has_capacity_def item_size_def split: option.splits if_splits)

lemma push_ok:
  assumes "queue_ok q" and "push_impl s0 s1 s2 s3 v q = Returned True q'"
  shows "queue_ok q'"
proof -
  note q' = push_true_cases [OF assms(2)]
  have "length (items q) < unat (item_capacity q)"
    using q'(2) by (auto simp: has_capacity_def split: if_splits)
  moreover have "unat (bytes_used q') = queue_bytes q'"
    using has_capacity_bytes(1) [OF assms(1) q'(2)] by (simp add: q'(3) queue_bytes_def)
  moreover have "item_size q' = item_size q"
    by (simp add: q'(3) item_size_def fun_eq_iff)
  ultimately show ?thesis
    using assms(1) has_capacity_bytes(2) [OF assms(1) q'(2)]
    by (auto simp: queue_ok_def q'(3) split: option.splits)
qed

lemma pop_some_cases:
  assumes "pop s2 s3 q = Returned (Some v) q'"
  obtains b rest where "items q = (b, v) # rest" "\<not> s3"
    "q' = q\<lparr>items := rest, bytes_used := bytes_used q - b\<rparr>"
  using assms by (auto simp: pop_def Let_def split: if_splits list.splits)

lemma pop_none_unchanged: "pop s2 s3 q = Returned None q' \<Longrightarrow> q' = q"
  by (auto simp: pop_def Let_def split: if_splits list.splits)

lemma pop_ok:
  assumes "queue_ok q" and "pop s2 s3 q = Returned (Some v) q'"
  shows "queue_ok q'"
proof -
  from assms(2) obtain b rest where q: "items q = (b, v) # rest"
    and q': "q' = q\<lparr>items := rest, bytes_used := bytes_used q - b\<rparr>"
    by (rule pop_some_cases)
  have used: "unat (bytes_used q) = unat b + sum_list (map (unat \<circ> fst) rest)"
    using assms(1) q by (simp add: queue_ok_def queue_bytes_def)
  then have le: "b \<le> bytes_used q"
    by (simp add: word_le_nat_alt)
  then have sub: "unat (bytes_used q - b) = unat (bytes_used q) - unat b"
    by (rule unat_sub)
  then have "bytes_used q - b \<le> bytes_used q"
    by (simp add: word_le_nat_alt)
  moreover have "item_size q' = item_size q"
    by (simp add: q' item_size_def fun_eq_iff)
  ultimately show ?thesis
    using assms(1) used sub q
    by (auto simp: queue_ok_def q' queue_bytes_def item_size_def split: option.splits)
qed

section \<open>The contract the pipeline relies on\<close>

text \<open>
  What a producer and a consumer may assume of a channel: an accepted item joins the back, a
  delivered item was the front, a refusal changes nothing, and closing refuses all later items but
  keeps the accepted ones.
\<close>

locale fifo_channel =
  fixes put :: "'env \<Rightarrow> 'a \<Rightarrow> 'q \<Rightarrow> (bool \<times> 'q) option"
    and get :: "'env \<Rightarrow> 'q \<Rightarrow> ('a option \<times> 'q) option"
    and shut :: "'q \<Rightarrow> 'q"
    and listed :: "'q \<Rightarrow> 'a list"
    and is_shut :: "'q \<Rightarrow> bool"
    and inv :: "'q \<Rightarrow> bool"
  assumes put_accepts: "inv q \<Longrightarrow> put w v q = Some (True, q') \<Longrightarrow>
      inv q' \<and> listed q' = listed q @ [v] \<and> \<not> is_shut q \<and> \<not> is_shut q'"
    and put_refuses: "inv q \<Longrightarrow> put w v q = Some (False, q') \<Longrightarrow> q' = q"
    and get_delivers: "inv q \<Longrightarrow> get w q = Some (Some v, q') \<Longrightarrow>
      inv q' \<and> listed q = v # listed q' \<and> is_shut q' = is_shut q"
    and get_empty: "inv q \<Longrightarrow> get w q = Some (None, q') \<Longrightarrow> q' = q"
    and shut_keeps: "inv q \<Longrightarrow> inv (shut q) \<and> listed (shut q) = listed q \<and> is_shut (shut q)"
begin

text \<open>An interleaving of producers, consumers and a closer, with the items accepted and delivered
  so far; a blocked call takes no step.\<close>

inductive channel_run :: "'q \<Rightarrow> 'a list \<Rightarrow> 'a list \<Rightarrow> 'q \<Rightarrow> bool" for q0 :: 'q where
  run_start: "channel_run q0 [] [] q0"
| run_accept: "channel_run q0 acc del q \<Longrightarrow> put w v q = Some (True, q') \<Longrightarrow>
     channel_run q0 (acc @ [v]) del q'"
| run_refuse: "channel_run q0 acc del q \<Longrightarrow> put w v q = Some (False, q') \<Longrightarrow>
     channel_run q0 acc del q'"
| run_deliver: "channel_run q0 acc del q \<Longrightarrow> get w q = Some (Some v, q') \<Longrightarrow>
     channel_run q0 acc (del @ [v]) q'"
| run_none: "channel_run q0 acc del q \<Longrightarrow> get w q = Some (None, q') \<Longrightarrow>
     channel_run q0 acc del q'"
| run_shut: "channel_run q0 acc del q \<Longrightarrow> channel_run q0 acc del (shut q)"

lemma run_fifo:
  "channel_run q0 acc del q \<Longrightarrow> inv q0 \<Longrightarrow> inv q \<and> listed q0 @ acc = del @ listed q"
proof (induction rule: channel_run.induct)
  case run_start
  then show ?case by simp
next
  case (run_accept acc del q w v q')
  then show ?case using put_accepts [of q w v q'] by auto
next
  case (run_refuse acc del q w v q')
  then show ?case using put_refuses [of q w v q'] by auto
next
  case (run_deliver acc del q w v q')
  then show ?case using get_delivers [of q w v q'] by auto
next
  case (run_none acc del q w q')
  then show ?case using get_empty [of q w q'] by auto
next
  case (run_shut acc del q)
  then show ?case using shut_keeps [of q] by auto
qed

lemma run_shut_accepts_nothing:
  "channel_run q0 acc del q \<Longrightarrow> inv q0 \<Longrightarrow> is_shut q0 \<Longrightarrow> is_shut q \<and> acc = []"
proof (induction rule: channel_run.induct)
  case run_start
  then show ?case by simp
next
  case (run_accept acc del q w v q')
  then have "inv q" using run_fifo by blast
  with run_accept show ?case using put_accepts [of q w v q'] by auto
next
  case (run_refuse acc del q w v q')
  then have "inv q" using run_fifo by blast
  with run_refuse show ?case using put_refuses [of q w v q'] by auto
next
  case (run_deliver acc del q w v q')
  then have "inv q" using run_fifo by blast
  with run_deliver show ?case using get_delivers [of q w v q'] by auto
next
  case (run_none acc del q w q')
  then have "inv q" using run_fifo by blast
  with run_none show ?case using get_empty [of q w q'] by auto
next
  case (run_shut acc del q)
  then have "inv q" using run_fifo by blast
  with run_shut show ?case using shut_keeps [of q] by auto
qed

end

text \<open>The queue as a channel: the environment of a call is its readings of the stop token.\<close>

definition queue_put ::
  "bool \<times> bool \<times> bool \<times> bool \<Rightarrow> 'a \<Rightarrow> 'a queue \<Rightarrow> (bool \<times> 'a queue) option" where
  "queue_put w v q =
     (case w of (s0, s1, s2, s3) \<Rightarrow>
        (case push_impl s0 s1 s2 s3 v q of Blocked \<Rightarrow> None | Returned b q' \<Rightarrow> Some (b, q')))"

definition queue_get ::
  "bool \<times> bool \<times> bool \<times> bool \<Rightarrow> 'a queue \<Rightarrow> ('a option \<times> 'a queue) option" where
  "queue_get w q =
     (case w of (s0, s1, s2, s3) \<Rightarrow>
        (case pop s2 s3 q of Blocked \<Rightarrow> None | Returned r q' \<Rightarrow> Some (r, q')))"

interpretation bq: fifo_channel queue_put queue_get close contents closed queue_ok
proof unfold_locales
  fix q q' :: "'a queue" and w v
  assume ok: "queue_ok q"
  { assume "queue_put w v q = Some (True, q')"
    then obtain s0 s1 s2 s3 where p: "push_impl s0 s1 s2 s3 v q = Returned True q'"
      by (auto simp: queue_put_def split: outcome.splits prod.splits)
    show "queue_ok q' \<and> contents q' = contents q @ [v] \<and> \<not> closed q \<and> \<not> closed q'"
      using push_ok [OF ok p] push_true_cases [OF p] by (simp add: contents_def) }
  { assume "queue_put w v q = Some (False, q')"
    then show "q' = q"
      by (auto simp: queue_put_def dest: push_false_unchanged split: outcome.splits prod.splits) }
  { assume "queue_get w q = Some (Some v, q')"
    then obtain s2 s3 where p: "pop s2 s3 q = Returned (Some v) q'"
      by (auto simp: queue_get_def split: outcome.splits prod.splits)
    obtain b rest where "items q = (b, v) # rest"
      and "q' = q\<lparr>items := rest, bytes_used := bytes_used q - b\<rparr>"
      using p by (rule pop_some_cases)
    then show "queue_ok q' \<and> contents q = v # contents q' \<and> closed q' = closed q"
      using pop_ok [OF ok p] by (simp add: contents_def) }
  { assume "queue_get w q = Some (None, q')"
    then show "q' = q"
      by (auto simp: queue_get_def dest: pop_none_unchanged split: outcome.splits prod.splits) }
  show "queue_ok (close q) \<and> contents (close q) = contents q \<and> closed (close q)"
    using close_ok [OF ok] by (simp add: close_def contents_def)
qed

section \<open>Blocking\<close>









section \<open>Interleavings\<close>

text \<open>Any interleaving of calls on one queue, with the items accepted and delivered so far.\<close>

inductive queue_run :: "'a queue \<Rightarrow> 'a list \<Rightarrow> 'a list \<Rightarrow> 'a queue \<Rightarrow> bool" for q0 :: "'a queue" where
  start: "queue_run q0 [] [] q0"
| accept: "queue_run q0 acc del q \<Longrightarrow> push_impl s0 s1 s2 s3 v q = Returned True q' \<Longrightarrow>
     queue_run q0 (acc @ [v]) del q'"
| refuse: "queue_run q0 acc del q \<Longrightarrow> push_impl s0 s1 s2 s3 v q = Returned False q' \<Longrightarrow>
     queue_run q0 acc del q'"
| deliver: "queue_run q0 acc del q \<Longrightarrow> pop s2 s3 q = Returned (Some v) q' \<Longrightarrow>
     queue_run q0 acc (del @ [v]) q'"
| give_up: "queue_run q0 acc del q \<Longrightarrow> pop s2 s3 q = Returned None q' \<Longrightarrow>
     queue_run q0 acc del q'"
| shut: "queue_run q0 acc del q \<Longrightarrow> queue_run q0 acc del (close q)"

lemma queue_run_channel: "queue_run q0 acc del q \<Longrightarrow> bq.channel_run q0 acc del q"
proof (induction rule: queue_run.induct)
  case start
  show ?case by (rule bq.run_start)
next
  case (accept acc del q s0 s1 s2 s3 v q')
  then have "queue_put (s0, s1, s2, s3) v q = Some (True, q')" by (simp add: queue_put_def)
  with accept.IH show ?case by (rule bq.run_accept)
next
  case (refuse acc del q s0 s1 s2 s3 v q')
  then have "queue_put (s0, s1, s2, s3) v q = Some (False, q')" by (simp add: queue_put_def)
  with refuse.IH show ?case by (rule bq.run_refuse)
next
  case (deliver acc del q s2 s3 v q')
  then have "queue_get (s2, s2, s2, s3) q = Some (Some v, q')" by (simp add: queue_get_def)
  with deliver.IH show ?case by (rule bq.run_deliver)
next
  case (give_up acc del q s2 s3 q')
  then have "queue_get (s2, s2, s2, s3) q = Some (None, q')" by (simp add: queue_get_def)
  with give_up.IH show ?case by (rule bq.run_none)
next
  case (shut acc del q)
  show ?case by (rule bq.run_shut) (rule shut.IH)
qed

section \<open>Properties\<close>

text \<open>[C16] Whatever the interleaving of producers, consumers, refusals, cancellations and closes,
  the items delivered so far followed by the items still queued are exactly the accepted items in
  the order of acceptance, and the byte and item budgets hold: nothing is lost, duplicated or
  reordered, and the unsigned byte counter never wraps.\<close>

theorem queue_run_fifo:
  assumes "queue_run q0 acc del q" and "queue_ok q0" and "contents q0 = []"
  shows "acc = del @ contents q \<and> length (contents q) \<le> unat (item_capacity q) \<and>
    unat (bytes_used q) = queue_bytes q \<and>
    (case byte_capacity q of None \<Rightarrow> True | Some cap \<Rightarrow> queue_bytes q \<le> unat cap)"
  using bq.run_fifo [OF queue_run_channel [OF assms(1)] assms(2)] assms(3)
  by (auto simp: queue_ok_def contents_def word_le_nat_alt split: option.splits)

definition demo_queue :: "nat queue" where
  "demo_queue = \<lparr>item_capacity = 2, byte_capacity = Some 8, size_function = Some of_nat,
                 items = [], bytes_used = 0, closed = False\<rparr>"

theorem queue_run_fifo_witness:
  "\<exists>q. queue_run demo_queue [5, 3] [5] q \<and> [5, 3] = [5] @ contents q \<and> queue_bytes q \<le> 8"
proof -
  let ?q1 = "demo_queue\<lparr>items := [(5, 5)], bytes_used := 5\<rparr>"
  let ?q2 = "demo_queue\<lparr>items := [(5, 5), (3, 3)], bytes_used := 8\<rparr>"
  let ?q3 = "demo_queue\<lparr>items := [(3, 3)], bytes_used := 3\<rparr>"
  have "queue_run demo_queue ([] @ [5]) [] ?q1"
    by (rule queue_run.accept [OF queue_run.start, of False False False False])
      (simp add: push_impl_def demo_queue_def item_size_def has_capacity_def)
  then have "queue_run demo_queue (([] @ [5]) @ [3]) [] ?q2"
    by (rule queue_run.accept [of _ _ _ _ False False False False])
      (simp add: push_impl_def demo_queue_def item_size_def has_capacity_def)
  then have "queue_run demo_queue (([] @ [5]) @ [3]) ([] @ [5]) ?q3"
    by (rule queue_run.deliver [of _ _ _ _ False False]) (simp add: pop_def demo_queue_def)
  then have run: "queue_run demo_queue [5, 3] [5] ?q3" by simp
  have ok: "queue_ok demo_queue" "contents demo_queue = []"
    by (simp_all add: queue_ok_def demo_queue_def queue_bytes_def contents_def)
  have "byte_capacity ?q3 = Some 8" by (simp add: demo_queue_def)
  then have "queue_bytes ?q3 \<le> 8" using queue_run_fifo [OF run ok] by simp
  then show ?thesis using run queue_run_fifo [OF run ok] by blast
qed



end
