(* ===== verification/Chunker.thy ===== *)
theory Chunker
  imports LV_Prelude
begin

text \<open>
  The fixed-size chunker of \<^verbatim>\<open>src/core/storage/chunker.cpp\<close>: a loop that reads a stream into a
  buffer and hands every piece with its offset to a callback. The stream is a
  \<^verbatim>\<open>std::istream\<close> over finitely many bytes that may hit a device error; the stop token is read
  from the state of the surrounding procedure.
\<close>

section \<open>Streams\<close>

text \<open>The bytes still to come, and how many of them the device delivers before it fails.\<close>

record istream =
  rest :: bytes
  fault_after :: "nat option"

text \<open>What \<^verbatim>\<open>input.read\<close> leaves behind: the bytes counted by \<^verbatim>\<open>gcount\<close> and the three
  state bits. A short read at the end of the data sets \<open>eofbit\<close> and \<open>failbit\<close>; a device error sets
  \<open>badbit\<close>.\<close>

record read_result =
  got :: bytes
  eof :: bool
  failed :: bool
  bad :: bool

definition stream_read :: "istream \<Rightarrow> nat \<Rightarrow> read_result \<times> istream" where
  "stream_read inp n =
     (case fault_after inp of
        Some k \<Rightarrow>
          (if k < n \<and> k \<le> length (rest inp) then
             (\<lparr>got = take k (rest inp), eof = False, failed = True, bad = True\<rparr>,
              inp\<lparr>rest := drop k (rest inp), fault_after := Some 0\<rparr>)
           else
             (\<lparr>got = take n (rest inp), eof = length (rest inp) < n,
               failed = length (rest inp) < n, bad = False\<rparr>,
              inp\<lparr>rest := drop n (rest inp), fault_after := Some (k - n)\<rparr>))
      | None \<Rightarrow>
          (\<lparr>got = take n (rest inp), eof = length (rest inp) < n,
            failed = length (rest inp) < n, bad = False\<rparr>,
           inp\<lparr>rest := drop n (rest inp)\<rparr>))"

lemma stream_read_shorter:
  "stream_read inp n = (r, inp') \<Longrightarrow> got r \<noteq> [] \<Longrightarrow> length (rest inp') < length (rest inp)"
  by (auto simp: stream_read_def split: option.splits if_splits)

section \<open>The chunker\<close>

definition kMaximumSupportedChunkSize :: ByteCount where
  "kMaximumSupportedChunkSize = 4 * 1024 * 1024"

text \<open>On a 64-bit platform the two \<open>numeric_limits\<close> comparisons of the constructor are against
  \<open>2 ^ 64 - 1\<close> and \<open>2 ^ 63 - 1\<close>.\<close>

definition new_chunker :: "ByteCount \<Rightarrow> exn + size_t" where
  "new_chunker maximum_chunk_size =
     (if maximum_chunk_size = 0 \<or> maximum_chunk_size > kMaximumSupportedChunkSize \<or>
         maximum_chunk_size > u64_max \<or> maximum_chunk_size > 9223372036854775807
      then throw_lv E_invalid_argument ''maximum chunk size is outside the supported range''
      else Inr maximum_chunk_size)"

type_synonym 's chunk_callback = "ByteCount \<Rightarrow> bytes \<Rightarrow> ('s, unit) proc"

function chunk_loop ::
  "size_t \<Rightarrow> ('s \<Rightarrow> bool) \<Rightarrow> 's chunk_callback \<Rightarrow> istream \<Rightarrow> ByteCount \<Rightarrow> ('s, unit) proc" where
  "chunk_loop maximum_chunk_size stop callback inp raw_offset s =
     (if stop s then (throw_lv E_cancelled ''snapshot cancelled'', s)
      else
        let (r, inp') = stream_read inp (unat maximum_chunk_size) in
        if bad r \<or> failed r \<and> \<not> eof r
        then (throw_lv E_filesystem_error ''failed to read source file'', s)
        else if got r = [] then
          (if eof r then (Inr (), s)
           else (throw_lv E_filesystem_error ''failed to read source file'', s))
        else
          let chunk_byte_count = word_of_nat (length (got r)) in
          if raw_offset > u64_max - chunk_byte_count
          then (throw_lv E_filesystem_error ''source file size is outside the supported range'', s)
          else
            (case callback raw_offset (got r) s of
               (Inl e, s') \<Rightarrow> (Inl e, s')
             | (Inr _, s') \<Rightarrow>
                 if eof r then (Inr (), s')
                 else chunk_loop maximum_chunk_size stop callback inp'
                        (raw_offset + chunk_byte_count) s'))"
  by pat_completeness auto
termination
  by (relation "measure (\<lambda>(_, _, _, inp, _). length (rest inp))")
    (auto intro: stream_read_shorter [OF sym])

declare chunk_loop.simps [simp del]

text \<open>\<^verbatim>\<open>for_each_chunk\<close> on a path: \<open>source\<close> is the stream the path opens to, or nothing when it
  cannot be opened.\<close>

definition for_each_chunk ::
  "size_t \<Rightarrow> istream option \<Rightarrow> ('s \<Rightarrow> bool) \<Rightarrow> 's chunk_callback option \<Rightarrow> ('s, unit) proc" where
  "for_each_chunk maximum_chunk_size source stop callback s =
     (case callback of
        None \<Rightarrow> (throw_lv E_invalid_argument ''chunk callback must not be empty'', s)
      | Some cb \<Rightarrow>
          if stop s then (throw_lv E_cancelled ''snapshot cancelled'', s)
          else (case source of
                  None \<Rightarrow> (throw_lv E_filesystem_error ''failed to open source file'', s)
                | Some inp \<Rightarrow> chunk_loop maximum_chunk_size stop cb inp 0 s))"

section \<open>Reference: the chunks of a byte string\<close>

function split_chunks :: "nat \<Rightarrow> nat \<Rightarrow> bytes \<Rightarrow> (nat \<times> bytes) list" where
  "split_chunks n off bs =
     (if n = 0 \<or> bs = [] then []
      else (off, take n bs) # split_chunks n (off + n) (drop n bs))"
  by pat_completeness auto
termination
  by (relation "measure (\<lambda>(_, _, bs). length bs)") auto

declare split_chunks.simps [simp del]

lemma split_chunks_Nil [simp]: "split_chunks n off [] = []"
  by (simp add: split_chunks.simps)

lemma split_chunks_concat: "0 < n \<Longrightarrow> concat (map snd (split_chunks n off bs)) = bs"
proof (induction n off bs rule: split_chunks.induct)
  case (1 n off bs)
  then show ?case by (cases "bs = []") (simp_all add: split_chunks.simps [of n off bs])
qed

lemma split_chunks_sizes:
  "(o', c) \<in> set (split_chunks n off bs) \<Longrightarrow> c \<noteq> [] \<and> length c \<le> n"
proof (induction n off bs rule: split_chunks.induct)
  case (1 n off bs)
  then show ?case
    by (cases "n = 0 \<or> bs = []") (auto simp: split_chunks.simps [of n off bs])
qed

text \<open>Every chunk sits at the offset the previous chunks leave, and only the last may be short.\<close>

fun contiguous_from :: "nat \<Rightarrow> nat \<Rightarrow> (nat \<times> bytes) list \<Rightarrow> bool" where
  "contiguous_from n off [] = True"
| "contiguous_from n off ((o', c) # cs) =
     (o' = off \<and> (cs \<noteq> [] \<longrightarrow> length c = n) \<and> contiguous_from n (off + length c) cs)"

lemma split_chunks_contiguous: "contiguous_from n off (split_chunks n off bs)"
proof (induction n off bs rule: split_chunks.induct)
  case (1 n off bs)
  show ?case
  proof (cases "n = 0 \<or> bs = []")
    case False
    show ?thesis
    proof (cases "length bs \<le> n")
      case True
      with False show ?thesis by (simp add: split_chunks.simps [of n off bs])
    next
      case long: False
      with False "1.IH" show ?thesis by (simp add: split_chunks.simps [of n off bs] min_def)
    qed
  qed (auto simp: split_chunks.simps [of n off bs])
qed

definition run_chunks :: "'s chunk_callback \<Rightarrow> (nat \<times> bytes) list \<Rightarrow> ('s, unit) proc" where
  "run_chunks cb cs = iterp (\<lambda>(off, c). cb (word_of_nat off) c) cs"

lemma run_chunks_simps [simp]:
  "run_chunks cb [] s = (Inr (), s)"
  "run_chunks cb ((off, c) # cs) s =
     (case cb (word_of_nat off) c s of (Inl e, t) \<Rightarrow> (Inl e, t) | (Inr _, t) \<Rightarrow> run_chunks cb cs t)"
  by (simp_all add: run_chunks_def ret_def seqp_def bindp_def cong: prod.case_cong sum.case_cong)

lemma offset_guard_passes:
  assumes "off + k < 2 ^ 64"
  shows "\<not> (word_of_nat off > u64_max - (word_of_nat k :: u64))"
  using assms by (simp only: u64_guard_iff) (simp add: u64_unat_of_nat)

lemma chunk_loop_reads:
  assumes "0 < unat mx" and "off + length bs < 2 ^ 64"
  shows "chunk_loop mx (\<lambda>_. False) cb \<lparr>rest = bs, fault_after = None\<rparr> (word_of_nat off) s =
         run_chunks cb (split_chunks (unat mx) off bs) s"
  using assms(2)
proof (induction "length bs" arbitrary: bs off s rule: less_induct)
  case less
  let ?n = "unat mx" and ?c = "take (unat mx) bs"
  let ?inp = "\<lparr>rest = bs, fault_after = None\<rparr>"
  let ?inp' = "\<lparr>rest = drop ?n bs, fault_after = None\<rparr>"
  show ?case
  proof (cases "bs = []")
    case True
    then show ?thesis using assms(1)
      by (subst chunk_loop.simps) (simp add: stream_read_def)
  next
    case False
    have guard: "\<not> (word_of_nat off > u64_max - (word_of_nat (length ?c) :: u64))"
      by (rule offset_guard_passes) (use less.prems in auto)
    have loop: "chunk_loop mx (\<lambda>_. False) cb ?inp (word_of_nat off) s =
        (case cb (word_of_nat off) ?c s of
           (Inl e, t) \<Rightarrow> (Inl e, t)
         | (Inr _, t) \<Rightarrow> if length bs < ?n then (Inr (), t)
             else chunk_loop mx (\<lambda>_. False) cb ?inp' (word_of_nat off + word_of_nat (length ?c)) t)"
      using False assms(1) guard
      by (subst chunk_loop.simps) (simp add: stream_read_def Let_def split: prod.split sum.split)
    have step: "chunk_loop mx (\<lambda>_. False) cb ?inp' (word_of_nat (off + ?n)) t =
        run_chunks cb (split_chunks ?n (off + ?n) (drop ?n bs)) t" if "?n \<le> length bs" for t
      by (rule less.hyps) (use that False assms(1) less.prems in auto)
    show ?thesis
      unfolding loop using False assms(1) step
      by (auto simp: split_chunks.simps [of ?n off bs] min_def split: prod.splits sum.splits)
  qed
qed

section \<open>Properties\<close>

lemma new_chunker_range:
  "new_chunker n = Inr m \<longleftrightarrow> m = n \<and> 0 < unat n \<and> unat n \<le> 4 * 1024 * 1024"
  by (auto simp: new_chunker_def kMaximumSupportedChunkSize_def word_less_nat_alt unat_gt_0
      split: if_splits)

text \<open>[C23] On a readable file whose size fits in 64 bits, with no cancellation, the chunk loop
  terminates and calls the callback exactly on the reference chunks of the file, in order and each
  with its offset: the chunks concatenate to the file, are non-empty, at most the configured size
  and contiguous from offset 0.\<close>

theorem for_each_chunk_correct:
  assumes "new_chunker n = Inr mx" and "length bs < 2 ^ 64"
  shows "for_each_chunk mx (Some \<lparr>rest = bs, fault_after = None\<rparr>) (\<lambda>_. False) (Some cb) s =
           run_chunks cb (split_chunks (unat n) 0 bs) s \<and>
         concat (map snd (split_chunks (unat n) 0 bs)) = bs \<and>
         contiguous_from (unat n) 0 (split_chunks (unat n) 0 bs) \<and>
         (\<forall>(off, c) \<in> set (split_chunks (unat n) 0 bs). c \<noteq> [] \<and> length c \<le> unat n)"
proof (intro conjI)
  have n: "mx = n" "0 < unat n"
    using assms(1) by (simp_all add: new_chunker_range)
  show "for_each_chunk mx (Some \<lparr>rest = bs, fault_after = None\<rparr>) (\<lambda>_. False) (Some cb) s =
          run_chunks cb (split_chunks (unat n) 0 bs) s"
    using chunk_loop_reads [of n 0 bs cb s] n assms(2) by (simp add: for_each_chunk_def)
  show "concat (map snd (split_chunks (unat n) 0 bs)) = bs"
    using n(2) by (rule split_chunks_concat)
qed (use split_chunks_contiguous split_chunks_sizes in fast)+

theorem for_each_chunk_correct_witness:
  "for_each_chunk 2 (Some \<lparr>rest = [1, 2, 3], fault_after = None\<rparr>) (\<lambda>_. False)
     (Some (\<lambda>off c. modifyp (\<lambda>log. log @ [(off, c)]))) [] = (Inr (), [(0, [1, 2]), (2, [3])])"
proof -
  have h: "new_chunker 2 = Inr 2" "length [1, 2, 3 :: u8] < 2 ^ 64"
    by (simp_all add: new_chunker_range)
  show ?thesis
    unfolding for_each_chunk_correct [OF h, THEN conjunct1]
    by (simp add: split_chunks.simps modifyp_def)
qed

end
