(* ===== verification/LV_Types.thy ===== *)
theory LV_Types
  imports LV_Prelude
begin

text \<open>
  The value types the components exchange: \<^verbatim>\<open>include/localvault/types.hpp\<close>,
  \<^verbatim>\<open>failure_injector.hpp\<close>, \<^verbatim>\<open>progress.hpp\<close>, and the records of
  \<^verbatim>\<open>src/core/filesystem/file_scanner.hpp\<close> and
  \<^verbatim>\<open>src/core/database/metadata_store.hpp\<close>. A \<^verbatim>\<open>std::filesystem::path\<close> is the byte
  string of its generic form.
\<close>

datatype EntryType = regular_file | directory | symbolic_link

datatype SnapshotStatus = S_pending | S_complete | S_failed | S_cancelled | S_deleting

datatype OverwritePolicy = P_never | P_prompt | P_always

datatype FailurePoint =
    after_temp_object_write
  | after_object_fsync
  | after_object_rename
  | before_metadata_batch_commit
  | before_snapshot_publish
  | during_restore_write

type_synonym SnapshotId = int

record SnapshotSummary =
  ss_id :: SnapshotId
  ss_created_at :: int
  ss_source_root :: string
  ss_message :: string
  ss_status :: SnapshotStatus
  ss_file_count :: u64
  ss_directory_count :: u64
  ss_logical_size :: ByteCount
  ss_new_stored_size :: ByteCount
  ss_duration :: int

record EntryInfo =
  ei_id :: int
  ei_snapshot_id :: SnapshotId
  ei_relative_path :: string
  ei_type :: EntryType
  ei_logical_size :: ByteCount
  ei_modified_time_ns :: int
  ei_posix_mode :: u32
  ei_windows_attributes :: "u32 option"
  ei_file_hash_hex :: "string option"
  ei_symlink_target :: "string option"

record ScannedEntry =
  se_source_path :: string
  se_relative_path :: string
  se_parent_path :: string
  se_name :: string
  se_type :: EntryType
  se_logical_size :: ByteCount
  se_modified_time_ns :: int
  se_posix_mode :: u32
  se_symlink_target :: "string option"

record ScanWarning =
  sw_relative_path :: string
  sw_code :: string
  sw_message :: string

record SkippedEntry =
  sk_relative_path :: string
  sk_reason :: string

record IncompleteSnapshotInfo =
  is_id :: SnapshotId
  is_status :: SnapshotStatus

record SnapshotTotals =
  st_file_count :: u64
  st_directory_count :: u64
  st_symlink_count :: u64
  st_logical_size :: ByteCount
  st_new_stored_size :: ByteCount
  st_new_chunk_count :: u64
  st_reused_chunk_count :: u64
  st_duration_ms :: int

record StoredChunkInfo =
  sc_hash_hex :: string
  sc_raw_size :: ByteCount
  sc_stored_size :: ByteCount
  sc_object_path :: string
  sc_created_at_ns :: int

record ChunkReferenceInfo =
  cr_sequence_number :: int
  cr_hash_hex :: string
  cr_object_path :: string
  cr_raw_offset :: ByteCount
  cr_raw_length :: ByteCount
  cr_raw_size :: ByteCount
  cr_stored_size :: ByteCount

section \<open>Lowercase BLAKE3 hexadecimal\<close>

definition is_hex_char :: "char \<Rightarrow> bool" where
  "is_hex_char c = (let n = of_char c :: nat in (48 \<le> n \<and> n \<le> 57) \<or> (97 \<le> n \<and> n \<le> 102))"

definition is_lowercase_blake3_hex :: "string \<Rightarrow> bool" where
  "is_lowercase_blake3_hex value = (length value = 64 \<and> list_all is_hex_char value)"

section \<open>Checked conversions between unsigned counters and SQLite integers\<close>

definition checked_int64 :: "ByteCount \<Rightarrow> string \<Rightarrow> exn + int" where
  "checked_int64 value field =
     (if uint value > int64_max
      then throw_lv E_database_error (field @ '' is outside SQLite's integer range'')
      else Inr (uint value))"

definition checked_uint32 :: "int \<Rightarrow> string \<Rightarrow> exn + u32" where
  "checked_uint32 value field =
     (if value < 0 \<or> value > 4294967295
      then throw_lv E_database_error (field @ '' is outside the supported range'')
      else Inr (word_of_int value))"

definition checked_byte_count :: "int \<Rightarrow> string \<Rightarrow> exn + ByteCount" where
  "checked_byte_count value field =
     (if value < 0
      then throw_lv E_database_error (field @ '' is outside the supported range'')
      else Inr (word_of_int value))"

definition checked_uint64 :: "int \<Rightarrow> string \<Rightarrow> exn + u64" where
  "checked_uint64 value field =
     (if value < 0
      then throw_lv E_database_error (field @ '' is outside the supported range'')
      else Inr (word_of_int value))"

lemma uint_u64_bounds: "0 \<le> uint (w :: u64)" "uint (w :: u64) < 18446744073709551616"
  using uint_lt2p [of w] by simp_all

lemma uint_u32_bounds: "0 \<le> uint (w :: u32)" "uint (w :: u32) < 4294967296"
  using uint_lt2p [of w] by simp_all

lemma checked_byte_count_int64:
  "checked_int64 w f = Inr i \<Longrightarrow> checked_byte_count i g = Inr w"
  by (auto simp: checked_int64_def checked_byte_count_def split: if_splits)

lemma checked_uint32_uint: "checked_uint32 (uint w) f = Inr w"
  using uint_u32_bounds [of w] by (auto simp: checked_uint32_def)

lemma checked_int64_range: "checked_int64 w f = Inr i \<Longrightarrow> 0 \<le> i \<and> i \<le> int64_max \<and> i = uint w"
  using uint_u64_bounds [of w] by (auto simp: checked_int64_def split: if_splits)

section \<open>Stored names of the enumerations\<close>

fun stored_entry_type :: "EntryType \<Rightarrow> string" where
  "stored_entry_type regular_file = ''file''"
| "stored_entry_type directory = ''directory''"
| "stored_entry_type symbolic_link = ''symlink''"

definition entry_type_from_storage :: "string \<Rightarrow> exn + EntryType" where
  "entry_type_from_storage t =
     (if t = ''file'' then Inr regular_file
      else if t = ''directory'' then Inr directory
      else if t = ''symlink'' then Inr symbolic_link
      else throw_lv E_database_error ''database contains an unknown entry type'')"

definition snapshot_status_from_storage :: "string \<Rightarrow> exn + SnapshotStatus" where
  "snapshot_status_from_storage status =
     (if status = ''pending'' then Inr S_pending
      else if status = ''failed'' then Inr S_failed
      else if status = ''cancelled'' then Inr S_cancelled
      else if status = ''deleting'' then Inr S_deleting
      else throw_lv E_database_error ''database contains an unexpected incomplete snapshot status'')"

lemma entry_type_round_trip: "entry_type_from_storage (stored_entry_type t) = Inr t"
  by (cases t) (simp_all add: entry_type_from_storage_def)

end
