(* ===== verification/Database.thy ===== *)
theory Database
  imports LV_Types "HOL-Library.Char_ord" "HOL-Library.List_Lexorder"
    "HOL-Library.Product_Lexorder"
begin

text \<open>
  The SQLite database below the metadata store: the tables of
  \<^verbatim>\<open>src/core/database/migrations.cpp\<close> with their declared constraints, statements
  (\<^verbatim>\<open>statement.cpp\<close>) and transactions (\<^verbatim>\<open>transaction.cpp\<close>). SQLite itself is outside
  the sources; what the model takes from it is the meaning of the SQL text the sources contain, that
  a failing statement changes nothing, and that any statement may fail: \<open>faults\<close> and
  \<open>injector\<close> are arbitrary parameters of the connection that decide which statement fails and what
  the failure injector throws.
\<close>

section \<open>Tables\<close>

record snapshot_row =
  sn_id :: int
  sn_created_at_ns :: int
  sn_completed_at_ns :: "int option"
  sn_source_root :: string
  sn_message :: string
  sn_status :: string
  sn_file_count :: int
  sn_directory_count :: int
  sn_symlink_count :: int
  sn_logical_size :: int
  sn_new_stored_size :: int
  sn_new_chunk_count :: int
  sn_reused_chunk_count :: int
  sn_duration_ms :: int
  sn_failure_message :: "string option"

record entry_row =
  en_id :: int
  en_snapshot_id :: int
  en_relative_path :: string
  en_parent_path :: string
  en_name :: string
  en_type :: string
  en_logical_size :: int
  en_modified_time_ns :: int
  en_posix_mode :: int
  en_windows_attributes :: "int option"
  en_file_hash :: "string option"
  en_symlink_target :: "string option"

record chunk_row =
  ck_hash :: string
  ck_raw_size :: int
  ck_compressed_size :: int
  ck_object_path :: string
  ck_created_at_ns :: int

record entry_chunk_row =
  ec_entry_id :: int
  ec_sequence_number :: int
  ec_chunk_hash :: string
  ec_raw_offset :: int
  ec_raw_length :: int

record warning_row =
  wa_id :: int
  wa_snapshot_id :: int
  wa_relative_path :: string
  wa_warning_code :: string
  wa_message :: string

text \<open>The three \<open>seq\<close> fields are the \<^verbatim>\<open>AUTOINCREMENT\<close> counters.\<close>

record tables =
  snapshots :: "snapshot_row list"
  entries :: "entry_row list"
  chunks :: "chunk_row list"
  entry_chunks :: "entry_chunk_row list"
  snapshot_warnings :: "warning_row list"
  snapshot_seq :: int
  entry_seq :: int
  warning_seq :: int

definition empty_tables :: tables where
  "empty_tables = \<lparr>snapshots = [], entries = [], chunks = [], entry_chunks = [],
     snapshot_warnings = [], snapshot_seq = 0, entry_seq = 0, warning_seq = 0\<rparr>"

section \<open>Declared constraints\<close>

definition status_values :: "string list" where
  "status_values = [''pending'', ''complete'', ''failed'', ''cancelled'', ''deleting'']"

definition entry_type_values :: "string list" where
  "entry_type_values = [''file'', ''directory'', ''symlink'']"

definition snapshots_ok :: "tables \<Rightarrow> bool" where
  "snapshots_ok t \<longleftrightarrow>
     distinct (map sn_id (snapshots t)) \<and>
     (\<forall>s \<in> set (snapshots t). sn_status s \<in> set status_values \<and>
        0 < sn_id s \<and> sn_id s \<le> snapshot_seq t) \<and>
     0 \<le> snapshot_seq t \<and> snapshot_seq t \<le> int64_max"

definition entries_ok :: "tables \<Rightarrow> bool" where
  "entries_ok t \<longleftrightarrow>
     distinct (map en_id (entries t)) \<and>
     distinct (map (\<lambda>e. (en_snapshot_id e, en_relative_path e)) (entries t)) \<and>
     (\<forall>e \<in> set (entries t). en_type e \<in> set entry_type_values \<and>
        en_snapshot_id e \<in> sn_id ` set (snapshots t) \<and> 0 < en_id e \<and> en_id e \<le> entry_seq t) \<and>
     0 \<le> entry_seq t \<and> entry_seq t \<le> int64_max"

definition chunks_ok :: "tables \<Rightarrow> bool" where
  "chunks_ok t \<longleftrightarrow>
     distinct (map ck_hash (chunks t)) \<and> distinct (map ck_object_path (chunks t)) \<and>
     (\<forall>c \<in> set (chunks t). 0 < ck_raw_size c \<and> 0 < ck_compressed_size c)"

definition entry_chunks_ok :: "tables \<Rightarrow> bool" where
  "entry_chunks_ok t \<longleftrightarrow>
     distinct (map (\<lambda>r. (ec_entry_id r, ec_sequence_number r)) (entry_chunks t)) \<and>
     (\<forall>r \<in> set (entry_chunks t). 0 \<le> ec_sequence_number r \<and> 0 \<le> ec_raw_offset r \<and>
        0 < ec_raw_length r \<and> ec_entry_id r \<in> en_id ` set (entries t) \<and>
        ec_chunk_hash r \<in> ck_hash ` set (chunks t))"

definition warnings_ok :: "tables \<Rightarrow> bool" where
  "warnings_ok t \<longleftrightarrow>
     distinct (map wa_id (snapshot_warnings t)) \<and>
     (\<forall>w \<in> set (snapshot_warnings t). wa_snapshot_id w \<in> sn_id ` set (snapshots t) \<and>
        0 < wa_id w \<and> wa_id w \<le> warning_seq t) \<and>
     0 \<le> warning_seq t \<and> warning_seq t \<le> int64_max"

text \<open>Primary keys, unique constraints, checks and foreign keys of migration 1 together.\<close>

definition schema_ok :: "tables \<Rightarrow> bool" where
  "schema_ok t \<longleftrightarrow>
     snapshots_ok t \<and> entries_ok t \<and> chunks_ok t \<and> entry_chunks_ok t \<and> warnings_ok t"

lemmas schema_defs = schema_ok_def snapshots_ok_def entries_ok_def chunks_ok_def
  entry_chunks_ok_def warnings_ok_def

lemma empty_tables_ok: "schema_ok empty_tables"
  by (simp add: schema_defs empty_tables_def)

section \<open>Keyed tables\<close>

text \<open>
  Lookup by a unique key, as the metadata queries use it. The contract is stated for any key
  projection and interpreted for the four tables the store looks rows up in.
\<close>

definition rows_with :: "('r \<Rightarrow> 'k) \<Rightarrow> 'k \<Rightarrow> 'r list \<Rightarrow> 'r list" where
  "rows_with key k rs = filter (\<lambda>r. key r = k) rs"

lemma rows_with_absent: "k \<notin> key ` set rs \<longleftrightarrow> rows_with key k rs = []"
  by (auto simp: rows_with_def filter_empty_conv image_iff)

locale keyed_table =
  fixes key :: "'r \<Rightarrow> 'k"
    and rows :: "tables \<Rightarrow> 'r list"
    and ok :: "tables \<Rightarrow> bool"
  assumes keys_distinct: "ok t \<Longrightarrow> distinct (map key (rows t))"
begin

lemma lookup_member:
  assumes "ok t" and "r \<in> set (rows t)"
  shows "rows_with key (key r) (rows t) = [r]"
proof -
  have "rows_with key (key r) rs = [r]" if "distinct (map key rs)" "r \<in> set rs" for rs
    using that
  proof (induction rs)
    case (Cons r' rs)
    then have "key r \<notin> key ` set rs \<longrightarrow> rows_with key (key r) rs = []"
      using rows_with_absent by metis
    with Cons show ?case by (auto simp: rows_with_def)
  qed simp
  then show ?thesis using assms keys_distinct by blast
qed

lemma lookup_cases:
  assumes "ok t"
  obtains "rows_with key k (rows t) = []"
  | r where "rows_with key k (rows t) = [r]" "r \<in> set (rows t)" "key r = k"
proof (cases "k \<in> key ` set (rows t)")
  case True
  then show ?thesis using that(2) lookup_member [OF assms] by blast
next
  case False
  then show ?thesis using that(1) rows_with_absent by metis
qed

lemma lookup_unique: "ok t \<Longrightarrow> length (rows_with key k (rows t)) \<le> 1"
  by (erule lookup_cases [of _ k]) simp_all

lemma same_key: "ok t \<Longrightarrow> r \<in> set (rows t) \<Longrightarrow> r' \<in> set (rows t) \<Longrightarrow> key r = key r' \<Longrightarrow> r = r'"
  using lookup_member by (metis list.inject)

end

interpretation snapshot_table: keyed_table sn_id snapshots schema_ok
  by unfold_locales (simp add: schema_defs)

interpretation entry_table: keyed_table en_id entries schema_ok
  by unfold_locales (simp add: schema_defs)

interpretation chunk_table: keyed_table ck_hash chunks schema_ok
  by unfold_locales (simp add: schema_defs)

interpretation warning_table: keyed_table wa_id snapshot_warnings schema_ok
  by unfold_locales (simp add: schema_defs)

section \<open>Connections\<close>

record conn =
  db :: tables
  saved :: "tables option"
  faults :: "nat \<Rightarrow> string option"
  injector :: "FailurePoint \<Rightarrow> nat \<Rightarrow> exn option"
  tick :: nat

text \<open>The tables a reader finds after a crash: those of the last commit.\<close>

definition committed :: "conn \<Rightarrow> tables" where
  "committed c = (case saved c of None \<Rightarrow> db c | Some t \<Rightarrow> t)"

definition next_tick :: "conn \<Rightarrow> conn" where
  "next_tick c = c\<lparr>tick := Suc (tick c)\<rparr>"

text \<open>One prepared statement, bound and stepped to completion (\<^verbatim>\<open>Statement::step\<close>): SQLite
  may refuse it, a constraint may refuse it, or it yields its rows and the new tables.\<close>

definition sql :: "(tables \<Rightarrow> exn + ('a \<times> tables)) \<Rightarrow> (conn, 'a) proc" where
  "sql f c =
     (case faults c (tick c) of
        Some m \<Rightarrow> (throw_lv E_database_error m, next_tick c)
      | None \<Rightarrow>
          (case f (db c) of
             Inl e \<Rightarrow> (Inl e, next_tick c)
           | Inr (a, t) \<Rightarrow> (Inr a, (next_tick c)\<lparr>db := t\<rparr>)))"

definition query :: "(tables \<Rightarrow> 'a) \<Rightarrow> (conn, 'a) proc" where
  "query f = sql (\<lambda>t. Inr (f t, t))"

text \<open>\<^verbatim>\<open>Statement::bind\<close> on text refuses values that do not fit a C \<open>int\<close> length.\<close>

definition bind_text :: "string \<Rightarrow> exn + unit" where
  "bind_text value =
     (if length value > 2147483647
      then throw_lv E_database_error ''SQLite text value is too large'' else Inr ())"

definition bind_texts :: "string list \<Rightarrow> (conn, unit) proc" where
  "bind_texts vs = iterp (\<lambda>v. liftp (bind_text v)) vs"

definition hit :: "FailurePoint \<Rightarrow> (conn, unit) proc" where
  "hit p c =
     (case injector c p (tick c) of
        None \<Rightarrow> (Inr (), next_tick c)
      | Some e \<Rightarrow> (Inl e, next_tick c))"

section \<open>Transactions\<close>

definition begin_transaction :: "(conn, unit) proc" where
  "begin_transaction c =
     (case faults c (tick c) of
        Some m \<Rightarrow> (throw_lv E_database_error m, next_tick c)
      | None \<Rightarrow>
          (case saved c of
             Some _ \<Rightarrow> (throw_lv E_database_error
                          ''cannot start a transaction within a transaction'', next_tick c)
           | None \<Rightarrow> (Inr (), (next_tick c)\<lparr>saved := Some (db c)\<rparr>)))"

definition commit :: "(conn, unit) proc" where
  "commit c =
     (case faults c (tick c) of
        Some m \<Rightarrow> (throw_lv E_database_error m, next_tick c)
      | None \<Rightarrow>
          (case saved c of
             None \<Rightarrow> (throw_lv E_database_error ''cannot commit - no transaction is active'',
                       next_tick c)
           | Some _ \<Rightarrow> (Inr (), (next_tick c)\<lparr>saved := None\<rparr>)))"

text \<open>The destructor of an uncommitted \<^verbatim>\<open>Transaction\<close>: a failing \<^verbatim>\<open>ROLLBACK\<close> is
  reported and swallowed.\<close>

definition rollback :: "(conn, unit) proc" where
  "rollback c =
     (case faults c (tick c) of
        Some m \<Rightarrow> (Inr (), next_tick c)
      | None \<Rightarrow>
          (case saved c of
             None \<Rightarrow> (Inr (), next_tick c)
           | Some t \<Rightarrow> (Inr (), (next_tick c)\<lparr>db := t, saved := None\<rparr>)))"

text \<open>The scope of a \<^verbatim>\<open>Transaction\<close> object whose last statement is \<^verbatim>\<open>commit()\<close>.\<close>

definition transaction :: "(conn, 'a) proc \<Rightarrow> (conn, 'a) proc" where
  "transaction body =
     seqp begin_transaction
       (handle (bindp body (\<lambda>a. seqp commit (ret a)))
          (\<lambda>e. seqp rollback (raise e)))"

subsection \<open>Predicates on tables lifted to connections\<close>

text \<open>\<open>on_db I\<close> holds when both the tables in use and the committed ones satisfy \<open>I\<close>.\<close>

definition on_db :: "(tables \<Rightarrow> bool) \<Rightarrow> conn \<Rightarrow> bool" where
  "on_db I c \<longleftrightarrow> I (db c) \<and> I (committed c)"

lemma on_db_next_tick [simp]: "on_db I (next_tick c) = on_db I c"
  by (simp add: on_db_def next_tick_def committed_def split: option.split)

lemma next_tick_simps [simp]:
  "db (next_tick c) = db c" "saved (next_tick c) = saved c" "faults (next_tick c) = faults c"
  "injector (next_tick c) = injector c" "committed (next_tick c) = committed c"
  by (simp_all add: next_tick_def committed_def split: option.split)

lemma keeps_hit [keeps_intros]: "keeps (on_db I) (hit p)"
  by (auto simp: keeps_def hit_def split: option.splits)

lemma keeps_begin [keeps_intros]: "keeps (on_db I) begin_transaction"
  by (auto simp: keeps_def begin_transaction_def on_db_def committed_def split: option.splits)

lemma keeps_commit [keeps_intros]: "keeps (on_db I) commit"
  by (auto simp: keeps_def commit_def on_db_def committed_def split: option.splits)

lemma keeps_rollback [keeps_intros]: "keeps (on_db I) rollback"
  by (auto simp: keeps_def rollback_def on_db_def committed_def split: option.splits)

lemma keeps_transaction [keeps_intros]:
  "keeps (on_db I) body \<Longrightarrow> keeps (on_db I) (transaction body)"
  unfolding transaction_def by (intro keeps_intros)

lemma keeps_bind_texts [keeps_intros]: "keeps I (bind_texts vs)"
  unfolding bind_texts_def by (intro keeps_intros)

lemma keeps_sql:
  assumes "\<And>t a t'. I t \<Longrightarrow> f t = Inr (a, t') \<Longrightarrow> I t'"
  shows "keeps (on_db I) (sql f)"
  using assms unfolding keeps_def sql_def on_db_def
  by (auto simp: committed_def split: option.splits sum.splits)

lemma keeps_query [keeps_intros]: "keeps (on_db I) (query f)"
  unfolding query_def by (rule keeps_sql) auto

subsection \<open>Transaction boundaries\<close>

text \<open>Procedures without transaction control leave \<open>saved\<close> alone, so nothing they do is committed
  while a transaction is open.\<close>

lemma keeps_saved_basic [keeps_intros]:
  "keeps (\<lambda>c. saved c = x) (sql f)" "keeps (\<lambda>c. saved c = x) (query g)"
  "keeps (\<lambda>c. saved c = x) (hit p)"
  by (auto simp: keeps_def sql_def query_def hit_def split: option.splits sum.splits)

lemma begin_transaction_Inr:
  "begin_transaction c = (Inr u, c') \<Longrightarrow>
     saved c = None \<and> c' = (next_tick c)\<lparr>saved := Some (db c)\<rparr>"
  by (auto simp: begin_transaction_def split: option.splits)

lemma begin_transaction_Inl: "begin_transaction c = (Inl e, c') \<Longrightarrow> c' = next_tick c"
  by (auto simp: begin_transaction_def split: option.splits)

lemma commit_Inr:
  "commit c = (Inr u, c') \<Longrightarrow> saved c \<noteq> None \<and> c' = (next_tick c)\<lparr>saved := None\<rparr>"
  by (auto simp: commit_def split: option.splits)

lemma commit_Inl: "commit c = (Inl e, c') \<Longrightarrow> c' = next_tick c"
  by (auto simp: commit_def split: option.splits)

lemma rollback_committed: "rollback c = (r, c') \<Longrightarrow> r = Inr () \<and> committed c' = committed c"
  by (auto simp: rollback_def committed_def split: option.splits)

lemma transaction_cases:
  assumes "transaction body c = (r, c')" and "\<And>x. keeps (\<lambda>c. saved c = x) body"
  obtains (returned) a c1 c2 where "r = Inr a" "saved c = None"
      "c1 = (next_tick c)\<lparr>saved := Some (db c)\<rparr>" "body c1 = (Inr a, c2)" "saved c' = None"
      "db c' = db c2"
    | (raised) e where "r = Inl e" "committed c' = committed c"
proof (cases "begin_transaction c")
  case (Pair b c1)
  show ?thesis
  proof (cases b)
    case (Inl e)
    with Pair assms(1) have "r = Inl e" "c' = c1"
      by (simp_all add: transaction_def seqp_def bindp_def)
    with Pair Inl begin_transaction_Inl [of c e c1] show ?thesis by (intro raised) auto
  next
    case (Inr u)
    with Pair have s: "saved c = None" and c1: "c1 = (next_tick c)\<lparr>saved := Some (db c)\<rparr>"
      using begin_transaction_Inr by blast+
    obtain rb c2 where body: "body c1 = (rb, c2)" by fastforce
    have saved2: "saved c2 = Some (db c)"
      using keepsD [OF assms(2) _ body] c1 by simp
    obtain rc c3 where com: "commit c2 = (rc, c3)" by fastforce
    obtain rr c4 where rb2: "rollback c2 = (rr, c4)" by fastforce
    obtain rr' c5 where rb3: "rollback c3 = (rr', c5)" by fastforce
    note run = assms(1) Pair Inr body com rb2 rb3 rollback_committed [OF rb2] rollback_committed [OF rb3]
    show ?thesis
    proof (cases rb)
      case (Inl e)
      with run have "r = Inl e" "c' = c4"
        by (simp_all add: transaction_def seqp_def bindp_def handle_def raise_def)
      with run(8) saved2 s show ?thesis by (intro raised) (auto simp: committed_def)
    next
      case rb: (Inr a)
      show ?thesis
      proof (cases rc)
        case (Inl e)
        with run rb have "r = Inl e" "c' = c5"
          by (simp_all add: transaction_def seqp_def bindp_def handle_def raise_def ret_def)
        with run(9) commit_Inl [of c2 e c3] com Inl saved2 s show ?thesis
          by (intro raised) (auto simp: committed_def)
      next
        case (Inr u')
        with run rb have "r = Inr a" "c' = c3"
          by (simp_all add: transaction_def seqp_def bindp_def handle_def raise_def ret_def)
        with com Inr commit_Inr [of c2 u' c3] body rb s c1 show ?thesis
          by (intro returned [of a c1 c2]) auto
      qed
    qed
  qed
qed

text \<open>A transaction that raises leaves the committed tables as they were; one that returns commits
  what its body computed from them.\<close>

lemma transaction_raises_committed:
  assumes "transaction body c = (Inl e, c')" and "\<And>x. keeps (\<lambda>c. saved c = x) body"
  shows "committed c' = committed c"
  using assms by (rule transaction_cases) auto

section \<open>Connections without faults\<close>

definition healthy :: "conn \<Rightarrow> bool" where
  "healthy c \<longleftrightarrow> (\<forall>n. faults c n = None) \<and> (\<forall>p n. injector c p n = None)"

lemma healthy_next_tick [simp]: "healthy (next_tick c) = healthy c"
  by (simp add: healthy_def)

lemma sql_healthy: "healthy c \<Longrightarrow> sql f c = (case f (db c) of
    Inl e \<Rightarrow> (Inl e, next_tick c) | Inr (a, t) \<Rightarrow> (Inr a, (next_tick c)\<lparr>db := t\<rparr>))"
  by (simp add: sql_def healthy_def)

lemma hit_healthy: "healthy c \<Longrightarrow> hit p c = (Inr (), next_tick c)"
  by (simp add: hit_def healthy_def)

end
