(* ===== verification/Metadata_Store.thy ===== *)
theory Metadata_Store
  imports Database
begin

text \<open>
  The metadata store of \<^verbatim>\<open>src/core/database/metadata_store.cpp\<close>: one definition per member
  function over the connections of \<^verbatim>\<open>Database\<close>. The SQL text of a statement is a function on
  tables (the \<open>t_\<close> definitions) and the C++ around it is a procedure: conversions and bindings,
  the statement, the checks on the rows it returned.
\<close>

section \<open>Row checks\<close>

definition single_row :: "ErrorCode \<Rightarrow> string \<Rightarrow> string \<Rightarrow> 'a list \<Rightarrow> exn + 'a" where
  "single_row none_code none_message many_message rows =
     (case rows of
        [] \<Rightarrow> throw_lv none_code none_message
      | [r] \<Rightarrow> Inr r
      | _ \<Rightarrow> throw_lv E_database_error many_message)"

definition require_single_updated_row :: "string \<Rightarrow> 'a list \<Rightarrow> exn + unit" where
  "require_single_updated_row action rows =
     bindE (single_row E_invalid_argument (action @ '' requires a pending snapshot'')
              (action @ '' updated multiple snapshots'') rows) (\<lambda>_. Inr ())"

lemma single_row_Inr_iff: "single_row c m m' rows = Inr r \<longleftrightarrow> rows = [r]"
  by (auto simp: single_row_def split: list.splits)

lemma require_single_Inr_iff: "require_single_updated_row a rows = Inr u \<longleftrightarrow> (\<exists>r. rows = [r])"
  by (auto simp: require_single_updated_row_def bindE_Inr_iff single_row_Inr_iff)

definition update_rows :: "('r \<Rightarrow> bool) \<Rightarrow> ('r \<Rightarrow> 'r) \<Rightarrow> 'r list \<Rightarrow> 'r list" where
  "update_rows p f rs = map (\<lambda>r. if p r then f r else r) rs"

definition constraint_failed :: "string \<Rightarrow> exn + 'a" where
  "constraint_failed m = throw_lv E_database_error m"

section \<open>Snapshots\<close>

definition t_insert_snapshot :: "int \<Rightarrow> string \<Rightarrow> string \<Rightarrow> tables \<Rightarrow> exn + (int list \<times> tables)" where
  "t_insert_snapshot created_at root msg t =
     (if snapshot_seq t \<ge> int64_max then constraint_failed ''database or disk is full''
      else
        let i = snapshot_seq t + 1 in
        Inr ([i], t\<lparr>snapshots := snapshots t @
               [\<lparr>sn_id = i, sn_created_at_ns = created_at, sn_completed_at_ns = None,
                 sn_source_root = root, sn_message = msg, sn_status = ''pending'',
                 sn_file_count = 0, sn_directory_count = 0, sn_symlink_count = 0,
                 sn_logical_size = 0, sn_new_stored_size = 0, sn_new_chunk_count = 0,
                 sn_reused_chunk_count = 0, sn_duration_ms = 0, sn_failure_message = None\<rparr>],
               snapshot_seq := i\<rparr>))"

definition create_pending_snapshot :: "string \<Rightarrow> string \<Rightarrow> int \<Rightarrow> (conn, SnapshotId) proc" where
  "create_pending_snapshot source_root msg created_at_ns =
     seqp (bind_texts [source_root, msg])
       (bindp (sql (t_insert_snapshot created_at_ns source_root msg))
          (\<lambda>rows. liftp (single_row E_database_error
              ''snapshot insertion returned no database identifier''
              ''snapshot insertion returned multiple database identifiers'' rows)))"

definition t_update_snapshots ::
  "(tables \<Rightarrow> snapshot_row \<Rightarrow> bool) \<Rightarrow> (snapshot_row \<Rightarrow> snapshot_row) \<Rightarrow> tables \<Rightarrow>
   exn + (int list \<times> tables)" where
  "t_update_snapshots p f t =
     Inr (map sn_id (filter (p t) (snapshots t)),
          t\<lparr>snapshots := update_rows (p t) f (snapshots t)\<rparr>)"

text \<open>SQLite's \<^verbatim>\<open>SUM\<close> over integers raises an error when a partial sum leaves the 64-bit
  range.\<close>

fun sql_sum :: "int \<Rightarrow> int list \<Rightarrow> exn + int" where
  "sql_sum acc [] = Inr acc"
| "sql_sum acc (x # xs) =
     (if acc + x > int64_max \<or> acc + x < int64_min then constraint_failed ''integer overflow''
      else sql_sum (acc + x) xs)"

definition entries_of :: "tables \<Rightarrow> SnapshotId \<Rightarrow> entry_row list" where
  "entries_of t sid = filter (\<lambda>e. en_snapshot_id e = sid) (entries t)"

definition count_type :: "tables \<Rightarrow> SnapshotId \<Rightarrow> string \<Rightarrow> int" where
  "count_type t sid ty = int (length (filter (\<lambda>e. en_type e = ty) (entries_of t sid)))"

definition t_count_entries ::
  "SnapshotId \<Rightarrow> tables \<Rightarrow> exn + ((int \<times> int \<times> int \<times> int) \<times> tables)" where
  "t_count_entries sid t =
     bindE (sql_sum 0 (map en_logical_size (filter (\<lambda>e. en_type e = ''file'') (entries_of t sid))))
       (\<lambda>size. Inr ((count_type t sid ''file'', count_type t sid ''directory'',
                     count_type t sid ''symlink'', size), t))"

definition has_unhashed_file :: "tables \<Rightarrow> SnapshotId \<Rightarrow> bool" where
  "has_unhashed_file t sid =
     list_ex (\<lambda>e. en_type e = ''file'' \<and> en_file_hash e = None) (entries_of t sid)"

definition mark_snapshot_complete :: "SnapshotId \<Rightarrow> SnapshotTotals \<Rightarrow> int \<Rightarrow> (conn, unit) proc" where
  "mark_snapshot_complete sid totals completed_at_ns =
     bindp (sql (t_count_entries sid)) (\<lambda>(files, dirs, links, size).
     bindp (liftp (checked_uint64 files ''snapshot file count'')) (\<lambda>file_count.
     bindp (liftp (checked_uint64 dirs ''snapshot directory count'')) (\<lambda>directory_count.
     bindp (liftp (checked_uint64 links ''snapshot symlink count'')) (\<lambda>symlink_count.
     bindp (liftp (checked_byte_count size ''snapshot logical size'')) (\<lambda>logical_size.
     bindp (liftp (checked_int64 file_count ''snapshot file count'')) (\<lambda>b_files.
     bindp (liftp (checked_int64 directory_count ''snapshot directory count'')) (\<lambda>b_dirs.
     bindp (liftp (checked_int64 symlink_count ''snapshot symlink count'')) (\<lambda>b_links.
     bindp (liftp (checked_int64 logical_size ''snapshot logical size'')) (\<lambda>b_size.
     bindp (liftp (checked_int64 (st_new_stored_size totals) ''snapshot stored size'')) (\<lambda>b_stored.
     bindp (liftp (checked_int64 (st_new_chunk_count totals) ''snapshot new chunk count'')) (\<lambda>b_new.
     bindp (liftp (checked_int64 (st_reused_chunk_count totals) ''snapshot reused chunk count''))
       (\<lambda>b_reused.
     bindp (sql (t_update_snapshots
                   (\<lambda>t s. sn_id s = sid \<and> sn_status s = ''pending'' \<and> \<not> has_unhashed_file t sid)
                   (\<lambda>s. s\<lparr>sn_completed_at_ns := Some completed_at_ns, sn_status := ''complete'',
                          sn_file_count := b_files, sn_directory_count := b_dirs,
                          sn_symlink_count := b_links, sn_logical_size := b_size,
                          sn_new_stored_size := b_stored, sn_new_chunk_count := b_new,
                          sn_reused_chunk_count := b_reused,
                          sn_duration_ms := st_duration_ms totals\<rparr>)))
       (\<lambda>rows. liftp (require_single_updated_row ''completing a snapshot'' rows))))))))))))))"

definition mark_snapshot_incomplete ::
  "SnapshotId \<Rightarrow> SnapshotStatus \<Rightarrow> string \<Rightarrow> int \<Rightarrow> (conn, unit) proc" where
  "mark_snapshot_incomplete sid status failure_message completed_at_ns =
     (if status \<noteq> S_failed \<and> status \<noteq> S_cancelled
      then raise_lv E_invalid_argument ''an incomplete snapshot must be failed or cancelled''
      else
        seqp (bind_texts [failure_message])
          (bindp (sql (t_update_snapshots
                    (\<lambda>t s. sn_id s = sid \<and> sn_status s = ''pending'')
                    (\<lambda>s. s\<lparr>sn_completed_at_ns := Some completed_at_ns,
                           sn_status := (if status = S_cancelled then ''cancelled'' else ''failed''),
                           sn_failure_message := Some failure_message\<rparr>)))
             (\<lambda>rows. liftp (require_single_updated_row ''finishing an incomplete snapshot'' rows))))"

definition read_snapshot :: "snapshot_row \<Rightarrow> exn + SnapshotSummary" where
  "read_snapshot r =
     bindE (checked_uint64 (sn_file_count r) ''snapshot file count'') (\<lambda>files.
     bindE (checked_uint64 (sn_directory_count r) ''snapshot directory count'') (\<lambda>dirs.
     bindE (checked_byte_count (sn_logical_size r) ''snapshot logical size'') (\<lambda>size.
     bindE (checked_byte_count (sn_new_stored_size r) ''snapshot stored size'') (\<lambda>stored.
     Inr \<lparr>ss_id = sn_id r, ss_created_at = sn_created_at_ns r, ss_source_root = sn_source_root r,
          ss_message = sn_message r, ss_status = S_complete, ss_file_count = files,
          ss_directory_count = dirs, ss_logical_size = size, ss_new_stored_size = stored,
          ss_duration = sn_duration_ms r\<rparr>))))"

definition require_complete_snapshot :: "SnapshotId \<Rightarrow> (conn, SnapshotSummary) proc" where
  "require_complete_snapshot sid =
     bindp (query (\<lambda>t. filter (\<lambda>s. sn_id s = sid \<and> sn_status s = ''complete'') (snapshots t)))
       (\<lambda>rows. case rows of
          [] \<Rightarrow> raise_lv E_invalid_argument ''snapshot does not exist or is not complete''
        | r # others \<Rightarrow>
            bindp (liftp (read_snapshot r)) (\<lambda>snapshot.
              if others \<noteq> [] then raise_lv E_database_error ''snapshot identifier selected multiple rows''
              else ret snapshot))"

definition list_complete_snapshots :: "(conn, SnapshotSummary list) proc" where
  "list_complete_snapshots =
     bindp (query (\<lambda>t. sort_key (\<lambda>s. (- sn_created_at_ns s, - sn_id s))
                         (filter (\<lambda>s. sn_status s = ''complete'') (snapshots t))))
       (\<lambda>rows. liftp (mapE read_snapshot rows))"

definition list_incomplete_snapshots :: "(conn, IncompleteSnapshotInfo list) proc" where
  "list_incomplete_snapshots =
     bindp (query (\<lambda>t. sort_key sn_id (filter (\<lambda>s. sn_status s \<noteq> ''complete'') (snapshots t))))
       (\<lambda>rows. liftp (mapE (\<lambda>r. bindE (snapshot_status_from_storage (sn_status r))
                                  (\<lambda>st. Inr \<lparr>is_id = sn_id r, is_status = st\<rparr>)) rows))"

definition transition_snapshot_to_deleting :: "SnapshotId \<Rightarrow> (conn, unit) proc" where
  "transition_snapshot_to_deleting sid =
     transaction
       (bindp (sql (t_update_snapshots
                 (\<lambda>t s. sn_id s = sid \<and> sn_status s = ''complete'')
                 (\<lambda>s. s\<lparr>sn_status := ''deleting''\<rparr>)))
          (\<lambda>rows. seqp (liftp (single_row E_invalid_argument
                          ''deleting requires an existing complete snapshot''
                          ''deleting updated multiple snapshots'' rows))
                    (hit before_metadata_batch_commit)))"

definition mark_stale_pending_snapshot_failed ::
  "SnapshotId \<Rightarrow> string \<Rightarrow> int \<Rightarrow> (conn, unit) proc" where
  "mark_stale_pending_snapshot_failed sid failure_message completed_at_ns =
     transaction
       (seqp (bind_texts [failure_message])
          (bindp (sql (t_update_snapshots
                    (\<lambda>t s. sn_id s = sid \<and> sn_status s = ''pending'')
                    (\<lambda>s. s\<lparr>sn_completed_at_ns := Some completed_at_ns, sn_status := ''failed'',
                           sn_failure_message := Some failure_message\<rparr>)))
             (\<lambda>rows. seqp (liftp (single_row E_invalid_argument
                             ''recovery requires a stale pending snapshot''
                             ''recovery failed multiple pending snapshots'' rows))
                       (hit before_metadata_batch_commit))))"

section \<open>Batched deletion\<close>

definition checked_batch_limit :: "size_t \<Rightarrow> exn + int" where
  "checked_batch_limit n =
     (if n = 0 \<or> uint n > int64_max
      then throw_lv E_invalid_argument ''snapshot entry batch limit is outside the supported range''
      else Inr (uint n))"

text \<open>\<^verbatim>\<open>DELETE FROM entries\<close> cascades to \<^verbatim>\<open>entry_chunks\<close>.\<close>

definition t_remove_entries :: "(entry_row \<Rightarrow> bool) \<Rightarrow> tables \<Rightarrow> tables" where
  "t_remove_entries p t =
     t\<lparr>entries := filter (\<lambda>e. \<not> p e) (entries t),
       entry_chunks := filter (\<lambda>r. \<not> (\<exists>e \<in> set (entries t). p e \<and> en_id e = ec_entry_id r))
                         (entry_chunks t)\<rparr>"

definition t_delete_entry_batch :: "SnapshotId \<Rightarrow> int \<Rightarrow> tables \<Rightarrow> exn + (nat \<times> tables)" where
  "t_delete_entry_batch sid limit t =
     (let ids = take (nat limit) (sort (map en_id (entries_of t sid)))
      in Inr (length (filter (\<lambda>e. en_id e \<in> set ids) (entries t)),
              t_remove_entries (\<lambda>e. en_id e \<in> set ids) t))"

definition warnings_of :: "tables \<Rightarrow> SnapshotId \<Rightarrow> warning_row list" where
  "warnings_of t sid = filter (\<lambda>w. wa_snapshot_id w = sid) (snapshot_warnings t)"

definition t_delete_warning_batch :: "SnapshotId \<Rightarrow> int \<Rightarrow> tables \<Rightarrow> exn + (nat \<times> tables)" where
  "t_delete_warning_batch sid limit t =
     (let ids = take (nat limit) (sort (map wa_id (warnings_of t sid)))
      in Inr (length (filter (\<lambda>w. wa_id w \<in> set ids) (snapshot_warnings t)),
              t\<lparr>snapshot_warnings := filter (\<lambda>w. wa_id w \<notin> set ids) (snapshot_warnings t)\<rparr>))"

text \<open>One round of the two loops: check the status, delete a batch, commit.\<close>

definition status_rows :: "string list \<Rightarrow> SnapshotId \<Rightarrow> tables \<Rightarrow> int list" where
  "status_rows sts sid t =
     map sn_id (filter (\<lambda>s. sn_id s = sid \<and> sn_status s \<in> set sts) (snapshots t))"

definition batch_round ::
  "string list \<Rightarrow> string \<Rightarrow> string \<Rightarrow> SnapshotId \<Rightarrow> (tables \<Rightarrow> exn + (nat \<times> tables)) \<Rightarrow>
   (conn, nat) proc" where
  "batch_round sts none_message many_message sid delete_batch =
     transaction
       (bindp (query (status_rows sts sid)) (\<lambda>rows.
        seqp (liftp (single_row E_invalid_argument none_message many_message rows))
          (bindp (sql delete_batch) (\<lambda>removed.
             seqp (hit before_metadata_batch_commit) (ret removed)))))"

abbreviation deleting_round ::
  "SnapshotId \<Rightarrow> (tables \<Rightarrow> exn + (nat \<times> tables)) \<Rightarrow> (conn, nat) proc" where
  "deleting_round sid \<equiv>
     batch_round [''deleting''] ''resuming deletion requires a deleting snapshot''
       ''deleting snapshot identifier selected multiple rows'' sid"

abbreviation cleaning_round ::
  "SnapshotId \<Rightarrow> (tables \<Rightarrow> exn + (nat \<times> tables)) \<Rightarrow> (conn, nat) proc" where
  "cleaning_round sid \<equiv>
     batch_round [''failed'', ''cancelled''] ''cleanup requires a failed or cancelled snapshot''
       ''incomplete snapshot identifier selected multiple rows'' sid"

lemma keeps_saved_batch_body:
  "keeps (\<lambda>c. saved c = x)
     (bindp (query (status_rows sts sid)) (\<lambda>rows.
        seqp (liftp (single_row E_invalid_argument m m' rows))
          (bindp (sql d) (\<lambda>removed.
             seqp (hit before_metadata_batch_commit) (ret removed)))))"
  by (intro keeps_intros)

text \<open>What a round that returns has done: it found the one snapshot in an expected status and
  committed the batch.\<close>

lemma batch_round_returns:
  assumes "batch_round sts m m' sid d c = (Inr n, c')"
  shows "saved c = None \<and> saved c' = None \<and> d (db c) = Inr (n, db c') \<and>
         (\<exists>i. status_rows sts sid (db c) = [i])"
  using assms unfolding batch_round_def
proof (rule transaction_cases [OF _ keeps_saved_batch_body])
  fix a c1 c2
  assume c1: "c1 = (next_tick c)\<lparr>saved := Some (db c)\<rparr>"
    and body: "bindp (query (status_rows sts sid)) (\<lambda>rows.
        seqp (liftp (single_row E_invalid_argument m m' rows))
          (bindp (sql d) (\<lambda>removed.
             seqp (hit before_metadata_batch_commit) (ret removed)))) c1 = (Inr a, c2)"
    and eqs: "Inr n = (Inr a :: exn + nat)" "saved c = None" "saved c' = None" "db c' = db c2"
  have "d (db c1) = Inr (a, db c2) \<and> (\<exists>i. status_rows sts sid (db c1) = [i])"
    using body
    by (auto simp: proc_defs query_def sql_def hit_def single_row_def
        split: option.splits sum.splits prod.splits list.splits)
  then show ?thesis using eqs c1 by auto
qed auto

lemma entry_batch_decreases:
  assumes "t_delete_entry_batch sid limit t = Inr (n, t')" and "n \<noteq> 0"
  shows "length (entries t') < length (entries t)"
proof -
  let ?p = "\<lambda>e. en_id e \<in> set (take (nat limit) (sort (map en_id (entries_of t sid))))"
  have t': "entries t' = filter (\<lambda>e. \<not> ?p e) (entries t)" and n: "n = length (filter ?p (entries t))"
    using assms(1) by (auto simp: t_delete_entry_batch_def t_remove_entries_def Let_def)
  show ?thesis
    unfolding t' by (rule filter_out_shorter) (use assms(2) n in simp)
qed

lemma warning_batch_decreases:
  assumes "t_delete_warning_batch sid limit t = Inr (n, t')" and "n \<noteq> 0"
  shows "length (snapshot_warnings t') < length (snapshot_warnings t)"
proof -
  let ?p = "\<lambda>w. wa_id w \<in> set (take (nat limit) (sort (map wa_id (warnings_of t sid))))"
  have t': "snapshot_warnings t' = filter (\<lambda>w. \<not> ?p w) (snapshot_warnings t)"
    and n: "n = length (filter ?p (snapshot_warnings t))"
    using assms(1) by (auto simp: t_delete_warning_batch_def Let_def)
  show ?thesis
    unfolding t' by (rule filter_out_shorter) (use assms(2) n in simp)
qed

text \<open>The two \<^verbatim>\<open>for (;;)\<close> loops end because every committed round with a non-zero count
  leaves fewer rows.\<close>

function entry_loop ::
  "string list \<Rightarrow> string \<Rightarrow> string \<Rightarrow> SnapshotId \<Rightarrow> int \<Rightarrow> (conn, unit) proc" where
  "entry_loop sts m m' sid limit c =
     (case batch_round sts m m' sid (t_delete_entry_batch sid limit) c of
        (Inl e, c') \<Rightarrow> (Inl e, c')
      | (Inr removed, c') \<Rightarrow>
          if removed = 0 then (Inr (), c') else entry_loop sts m m' sid limit c')"
  by pat_completeness auto
termination
  by (relation "measure (\<lambda>(_, _, _, _, _, c). length (entries (db c)))")
    (auto dest!: sym [of "(_, _)"] batch_round_returns intro: entry_batch_decreases)

function warning_loop ::
  "string list \<Rightarrow> string \<Rightarrow> string \<Rightarrow> SnapshotId \<Rightarrow> int \<Rightarrow> (conn, unit) proc" where
  "warning_loop sts m m' sid limit c =
     (case batch_round sts m m' sid (t_delete_warning_batch sid limit) c of
        (Inl e, c') \<Rightarrow> (Inl e, c')
      | (Inr removed, c') \<Rightarrow>
          if removed = 0 then (Inr (), c') else warning_loop sts m m' sid limit c')"
  by pat_completeness auto
termination
  by (relation "measure (\<lambda>(_, _, _, _, _, c). length (snapshot_warnings (db c)))")
    (auto dest!: sym [of "(_, _)"] batch_round_returns intro: warning_batch_decreases)

declare entry_loop.simps [simp del] warning_loop.simps [simp del]

text \<open>\<^verbatim>\<open>DELETE FROM snapshots\<close> cascades to entries, their chunk references and warnings.\<close>

definition t_delete_snapshot :: "SnapshotId \<Rightarrow> tables \<Rightarrow> exn + (int list \<times> tables)" where
  "t_delete_snapshot sid t =
     (let gone = (\<lambda>s. sn_id s = sid \<and> sn_status s = ''deleting'');
          ids = map sn_id (filter gone (snapshots t));
          t' = t_remove_entries (\<lambda>e. en_snapshot_id e \<in> set ids) t
      in Inr (ids, t'\<lparr>snapshots := filter (\<lambda>s. \<not> gone s) (snapshots t),
                      snapshot_warnings := filter (\<lambda>w. wa_snapshot_id w \<notin> set ids)
                                             (snapshot_warnings t)\<rparr>))"

definition delete_deleting_snapshot :: "SnapshotId \<Rightarrow> size_t \<Rightarrow> (conn, unit) proc" where
  "delete_deleting_snapshot sid entry_batch_limit =
     bindp (liftp (checked_batch_limit entry_batch_limit)) (\<lambda>batch_limit.
     seqp (entry_loop [''deleting''] ''resuming deletion requires a deleting snapshot''
             ''deleting snapshot identifier selected multiple rows'' sid batch_limit)
     (seqp (warning_loop [''deleting''] ''resuming deletion requires a deleting snapshot''
              ''deleting snapshot identifier selected multiple rows'' sid batch_limit)
     (transaction
        (bindp (sql (t_delete_snapshot sid)) (\<lambda>rows.
           seqp (liftp (single_row E_invalid_argument
                   ''finishing deletion requires a deleting snapshot''
                   ''finishing deletion removed multiple snapshots'' rows))
             (hit before_metadata_batch_commit))))))"

definition clean_incomplete_snapshot :: "SnapshotId \<Rightarrow> size_t \<Rightarrow> (conn, unit) proc" where
  "clean_incomplete_snapshot sid entry_batch_limit =
     bindp (liftp (checked_batch_limit entry_batch_limit)) (\<lambda>batch_limit.
     seqp (entry_loop [''failed'', ''cancelled''] ''cleanup requires a failed or cancelled snapshot''
             ''incomplete snapshot identifier selected multiple rows'' sid batch_limit)
     (warning_loop [''failed'', ''cancelled''] ''cleanup requires a failed or cancelled snapshot''
        ''incomplete snapshot identifier selected multiple rows'' sid batch_limit))"

section \<open>Relationship check\<close>

text \<open>\<^verbatim>\<open>PRAGMA foreign_key_check\<close> reports every row whose parent row is missing.\<close>

definition foreign_keys_hold :: "tables \<Rightarrow> bool" where
  "foreign_keys_hold t \<longleftrightarrow>
     (\<forall>e \<in> set (entries t). en_snapshot_id e \<in> sn_id ` set (snapshots t)) \<and>
     (\<forall>r \<in> set (entry_chunks t). ec_entry_id r \<in> en_id ` set (entries t) \<and>
        ec_chunk_hash r \<in> ck_hash ` set (chunks t)) \<and>
     (\<forall>w \<in> set (snapshot_warnings t). wa_snapshot_id w \<in> sn_id ` set (snapshots t))"

definition snapshot_has_status :: "tables \<Rightarrow> SnapshotId \<Rightarrow> string list \<Rightarrow> bool" where
  "snapshot_has_status t sid sts =
     list_ex (\<lambda>s. sn_id s = sid \<and> sn_status s \<in> set sts) (snapshots t)"

definition invalid_relationship :: "tables \<Rightarrow> bool" where
  "invalid_relationship t \<longleftrightarrow>
     list_ex (\<lambda>s. sn_status s \<in> {''pending'', ''deleting''}) (snapshots t) \<or>
     list_ex (\<lambda>e. snapshot_has_status t (en_snapshot_id e) [''failed'', ''cancelled'']) (entries t) \<or>
     list_ex (\<lambda>w. snapshot_has_status t (wa_snapshot_id w) [''failed'', ''cancelled''])
       (snapshot_warnings t) \<or>
     list_ex (\<lambda>e. snapshot_has_status t (en_snapshot_id e) [''complete''] \<and> en_type e = ''file'' \<and>
                  (case en_file_hash e of None \<Rightarrow> True | Some h \<Rightarrow> \<not> is_lowercase_blake3_hex h))
       (entries t)"

definition quick_relationship_check :: "(conn, unit) proc" where
  "quick_relationship_check =
     bindp (query foreign_keys_hold) (\<lambda>fk_ok.
     seqp (guardp fk_ok E_database_error ''repository metadata contains a foreign-key violation'')
     (bindp (query invalid_relationship) (\<lambda>has_invalid.
      guardp (\<not> has_invalid) E_database_error
        ''repository metadata failed the quick relationship check'')))"

section \<open>Entries, chunks and warnings\<close>

definition new_entry_row :: "int \<Rightarrow> SnapshotId \<Rightarrow> ScannedEntry \<Rightarrow> int \<Rightarrow> entry_row" where
  "new_entry_row i sid entry logical_size =
     \<lparr>en_id = i, en_snapshot_id = sid, en_relative_path = se_relative_path entry,
      en_parent_path = se_parent_path entry, en_name = se_name entry,
      en_type = stored_entry_type (se_type entry), en_logical_size = logical_size,
      en_modified_time_ns = se_modified_time_ns entry,
      en_posix_mode = uint (se_posix_mode entry), en_windows_attributes = None,
      en_file_hash = None, en_symlink_target = se_symlink_target entry\<rparr>"

definition t_insert_entry ::
  "SnapshotId \<Rightarrow> ScannedEntry \<Rightarrow> int \<Rightarrow> tables \<Rightarrow> exn + (int list \<times> tables)" where
  "t_insert_entry sid entry logical_size t =
     (if list_ex (\<lambda>e. en_snapshot_id e = sid \<and> en_relative_path e = se_relative_path entry)
           (entries t)
      then constraint_failed ''UNIQUE constraint failed: entries.snapshot_id, entries.relative_path''
      else if sid \<notin> sn_id ` set (snapshots t)
      then constraint_failed ''FOREIGN KEY constraint failed''
      else if entry_seq t \<ge> int64_max then constraint_failed ''database or disk is full''
      else
        let i = entry_seq t + 1 in
        Inr ([i], t\<lparr>entries := entries t @ [new_entry_row i sid entry logical_size],
                     entry_seq := i\<rparr>))"

definition insert_entry :: "SnapshotId \<Rightarrow> ScannedEntry \<Rightarrow> (conn, int) proc" where
  "insert_entry sid entry =
     seqp (bind_texts [se_relative_path entry, se_parent_path entry, se_name entry])
     (bindp (liftp (checked_int64 (se_logical_size entry) ''entry logical size'')) (\<lambda>size.
      seqp (bind_texts (case se_symlink_target entry of None \<Rightarrow> [] | Some target \<Rightarrow> [target]))
      (bindp (sql (t_insert_entry sid entry size)) (\<lambda>rows.
         liftp (single_row E_database_error ''entry insertion returned no database identifier''
                  ''entry insertion returned multiple database identifiers'' rows)))))"

definition t_set_file_hash :: "int \<Rightarrow> string \<Rightarrow> tables \<Rightarrow> exn + (int list \<times> tables)" where
  "t_set_file_hash entry_id h t =
     (let p = (\<lambda>e. en_id e = entry_id \<and> en_type e = ''file'' \<and> en_file_hash e = None \<and>
                   snapshot_has_status t (en_snapshot_id e) [''pending''])
      in Inr (map en_id (filter p (entries t)),
              t\<lparr>entries := update_rows p (\<lambda>e. e\<lparr>en_file_hash := Some h\<rparr>) (entries t)\<rparr>))"

definition set_regular_file_hash :: "int \<Rightarrow> string \<Rightarrow> (conn, unit) proc" where
  "set_regular_file_hash entry_id file_hash_hex =
     seqp (guardp (is_lowercase_blake3_hex file_hash_hex) E_invalid_argument
             ''file hash must be exactly 64 lowercase hexadecimal characters'')
     (seqp (bind_texts [file_hash_hex])
      (bindp (sql (t_set_file_hash entry_id file_hash_hex)) (\<lambda>rows.
         seqp (liftp (single_row E_invalid_argument
                  ''setting a file hash requires an unhashed regular file in a pending snapshot''
                  ''setting a file hash updated multiple entries'' rows)) (ret ()))))"

definition t_insert_chunk ::
  "string \<Rightarrow> int \<Rightarrow> int \<Rightarrow> string \<Rightarrow> int \<Rightarrow> tables \<Rightarrow> exn + (unit \<times> tables)" where
  "t_insert_chunk h raw stored path created t =
     (if raw \<le> 0 then constraint_failed ''CHECK constraint failed: raw_size > 0''
      else if stored \<le> 0 then constraint_failed ''CHECK constraint failed: compressed_size > 0''
      else if list_ex (\<lambda>c. ck_hash c = h \<or> ck_object_path c = path) (chunks t) then Inr ((), t)
      else Inr ((), t\<lparr>chunks := chunks t @
             [\<lparr>ck_hash = h, ck_raw_size = raw, ck_compressed_size = stored,
               ck_object_path = path, ck_created_at_ns = created\<rparr>]\<rparr>))"

definition verify_chunk_row :: "StoredChunkInfo \<Rightarrow> chunk_row list \<Rightarrow> exn + unit" where
  "verify_chunk_row chunk rows =
     (case rows of
        [] \<Rightarrow> throw_lv E_object_corrupt ''chunk object path conflicts with existing metadata''
      | r # others \<Rightarrow>
          bindE (checked_byte_count (ck_raw_size r) ''chunk raw size'') (\<lambda>raw_size.
          bindE (checked_byte_count (ck_compressed_size r) ''chunk stored size'') (\<lambda>stored_size.
          if others \<noteq> [] then throw_lv E_database_error ''chunk hash selected multiple rows''
          else if raw_size \<noteq> sc_raw_size chunk \<or> stored_size \<noteq> sc_stored_size chunk \<or>
                  ck_object_path r \<noteq> sc_object_path chunk
          then throw_lv E_object_corrupt ''existing chunk metadata conflicts with stored content''
          else Inr ())))"

definition ensure_chunk :: "StoredChunkInfo \<Rightarrow> (conn, unit) proc" where
  "ensure_chunk chunk =
     seqp (bind_texts [sc_hash_hex chunk])
     (bindp (liftp (checked_int64 (sc_raw_size chunk) ''chunk raw size'')) (\<lambda>raw_size.
      bindp (liftp (checked_int64 (sc_stored_size chunk) ''chunk stored size'')) (\<lambda>stored_size.
      seqp (bind_texts [sc_object_path chunk])
      (seqp (sql (t_insert_chunk (sc_hash_hex chunk) raw_size stored_size (sc_object_path chunk)
                    (sc_created_at_ns chunk)))
      (bindp (query (\<lambda>t. rows_with ck_hash (sc_hash_hex chunk) (chunks t))) (\<lambda>rows.
       liftp (verify_chunk_row chunk rows)))))))"

definition read_chunk_row :: "string \<Rightarrow> chunk_row list \<Rightarrow> exn + StoredChunkInfo option" where
  "read_chunk_row hash_hex rows =
     (case rows of
        [] \<Rightarrow> Inr None
      | r # others \<Rightarrow>
          if ck_raw_size r \<le> 0 \<or> ck_compressed_size r \<le> 0
          then throw_lv E_object_corrupt ''chunk metadata contains invalid object sizes''
          else if others \<noteq> [] then throw_lv E_database_error ''chunk hash selected multiple rows''
          else Inr (Some \<lparr>sc_hash_hex = hash_hex, sc_raw_size = word_of_int (ck_raw_size r),
                          sc_stored_size = word_of_int (ck_compressed_size r),
                          sc_object_path = ck_object_path r,
                          sc_created_at_ns = ck_created_at_ns r\<rparr>))"

definition find_chunk :: "string \<Rightarrow> (conn, StoredChunkInfo option) proc" where
  "find_chunk hash_hex =
     seqp (bind_texts [hash_hex])
     (bindp (query (\<lambda>t. rows_with ck_hash hash_hex (chunks t))) (\<lambda>rows.
      liftp (read_chunk_row hash_hex rows)))"

definition t_insert_entry_chunk ::
  "int \<Rightarrow> int \<Rightarrow> string \<Rightarrow> int \<Rightarrow> int \<Rightarrow> tables \<Rightarrow> exn + (unit \<times> tables)" where
  "t_insert_entry_chunk entry_id seq h off len t =
     (if seq < 0 then constraint_failed ''CHECK constraint failed: sequence_number >= 0''
      else if off < 0 then constraint_failed ''CHECK constraint failed: raw_offset >= 0''
      else if len \<le> 0 then constraint_failed ''CHECK constraint failed: raw_length > 0''
      else if list_ex (\<lambda>r. ec_entry_id r = entry_id \<and> ec_sequence_number r = seq) (entry_chunks t)
      then constraint_failed
        ''UNIQUE constraint failed: entry_chunks.entry_id, entry_chunks.sequence_number''
      else if entry_id \<notin> en_id ` set (entries t) \<or> h \<notin> ck_hash ` set (chunks t)
      then constraint_failed ''FOREIGN KEY constraint failed''
      else Inr ((), t\<lparr>entry_chunks := entry_chunks t @
             [\<lparr>ec_entry_id = entry_id, ec_sequence_number = seq, ec_chunk_hash = h,
               ec_raw_offset = off, ec_raw_length = len\<rparr>]\<rparr>))"

definition insert_entry_chunk ::
  "int \<Rightarrow> int \<Rightarrow> string \<Rightarrow> ByteCount \<Rightarrow> ByteCount \<Rightarrow> (conn, unit) proc" where
  "insert_entry_chunk entry_id sequence_number chunk_hash raw_offset raw_length =
     seqp (bind_texts [chunk_hash])
     (bindp (liftp (checked_int64 raw_offset ''chunk raw offset'')) (\<lambda>off.
      bindp (liftp (checked_int64 raw_length ''chunk raw length'')) (\<lambda>len.
      sql (t_insert_entry_chunk entry_id sequence_number chunk_hash off len))))"

definition t_insert_warning ::
  "SnapshotId \<Rightarrow> string \<Rightarrow> string \<Rightarrow> string \<Rightarrow> tables \<Rightarrow> exn + (unit \<times> tables)" where
  "t_insert_warning sid path code msg t =
     (if sid \<notin> sn_id ` set (snapshots t) then constraint_failed ''FOREIGN KEY constraint failed''
      else if warning_seq t \<ge> int64_max then constraint_failed ''database or disk is full''
      else
        let i = warning_seq t + 1 in
        Inr ((), t\<lparr>snapshot_warnings := snapshot_warnings t @
               [\<lparr>wa_id = i, wa_snapshot_id = sid, wa_relative_path = path,
                 wa_warning_code = code, wa_message = msg\<rparr>],
               warning_seq := i\<rparr>))"

definition insert_warning :: "SnapshotId \<Rightarrow> string \<Rightarrow> string \<Rightarrow> string \<Rightarrow> (conn, unit) proc" where
  "insert_warning sid relative_path warning_code msg =
     seqp (bind_texts [relative_path, warning_code, msg])
       (sql (t_insert_warning sid relative_path warning_code msg))"

section \<open>Reading a complete snapshot\<close>

definition read_entry :: "entry_row \<Rightarrow> exn + EntryInfo" where
  "read_entry r =
     bindE (entry_type_from_storage (en_type r)) (\<lambda>ty.
     bindE (checked_byte_count (en_logical_size r) ''entry logical size'') (\<lambda>size.
     bindE (checked_uint32 (en_posix_mode r) ''entry POSIX mode'') (\<lambda>mode.
     bindE (case en_windows_attributes r of None \<Rightarrow> Inr None
            | Some a \<Rightarrow> bindE (checked_uint32 a ''entry Windows attributes'') (\<lambda>w. Inr (Some w)))
       (\<lambda>attributes.
     Inr \<lparr>ei_id = en_id r, ei_snapshot_id = en_snapshot_id r,
          ei_relative_path = en_relative_path r, ei_type = ty, ei_logical_size = size,
          ei_modified_time_ns = en_modified_time_ns r, ei_posix_mode = mode,
          ei_windows_attributes = attributes, ei_file_hash_hex = en_file_hash r,
          ei_symlink_target = en_symlink_target r\<rparr>))))"

definition complete_entries :: "SnapshotId \<Rightarrow> tables \<Rightarrow> entry_row list" where
  "complete_entries sid t =
     filter (\<lambda>e. en_snapshot_id e = sid \<and> snapshot_has_status t (en_snapshot_id e) [''complete''])
       (entries t)"

definition list_entries :: "SnapshotId \<Rightarrow> (conn, EntryInfo list) proc" where
  "list_entries sid =
     bindp (query (\<lambda>t. sort_key en_relative_path (complete_entries sid t)))
       (\<lambda>rows. liftp (mapE read_entry rows))"

definition list_children :: "SnapshotId \<Rightarrow> string \<Rightarrow> (conn, EntryInfo list) proc" where
  "list_children sid parent_path =
     seqp (bind_texts [parent_path])
     (bindp (query (\<lambda>t. sort_key (\<lambda>e. (en_name e, en_relative_path e))
         (filter (\<lambda>e. en_parent_path e = parent_path \<and> en_relative_path e \<noteq> [])
            (complete_entries sid t))))
       (\<lambda>rows. liftp (mapE read_entry rows)))"

definition chunk_reference_rows ::
  "int \<Rightarrow> tables \<Rightarrow> (entry_chunk_row \<times> chunk_row) list" where
  "chunk_reference_rows entry_id t =
     sort_key (\<lambda>(r, c). ec_sequence_number r)
       [(r, c). r \<leftarrow> entry_chunks t, ec_entry_id r = entry_id,
          c \<leftarrow> chunks t, ck_hash c = ec_chunk_hash r,
          e \<leftarrow> entries t, en_id e = ec_entry_id r,
          s \<leftarrow> snapshots t, sn_id s = en_snapshot_id e, sn_status s = ''complete'']"

definition read_chunk_reference ::
  "entry_chunk_row \<times> chunk_row \<Rightarrow> exn + ChunkReferenceInfo" where
  "read_chunk_reference rc =
     (case rc of (r, c) \<Rightarrow>
        bindE (checked_byte_count (ec_raw_offset r) ''chunk raw offset'') (\<lambda>off.
        bindE (checked_byte_count (ec_raw_length r) ''chunk raw length'') (\<lambda>len.
        bindE (checked_byte_count (ck_raw_size c) ''chunk raw size'') (\<lambda>raw.
        bindE (checked_byte_count (ck_compressed_size c) ''chunk stored size'') (\<lambda>stored.
        Inr \<lparr>cr_sequence_number = ec_sequence_number r, cr_hash_hex = ec_chunk_hash r,
             cr_object_path = ck_object_path c, cr_raw_offset = off, cr_raw_length = len,
             cr_raw_size = raw, cr_stored_size = stored\<rparr>)))))"

definition list_entry_chunks :: "int \<Rightarrow> (conn, ChunkReferenceInfo list) proc" where
  "list_entry_chunks entry_id =
     bindp (query (chunk_reference_rows entry_id))
       (\<lambda>rows. liftp (mapE read_chunk_reference rows))"

end
