(* ===== verification/Metadata_Invariants.thy ===== *)
theory Metadata_Invariants
  imports Metadata_Store
begin

text \<open>
  What every member function of the metadata store keeps, on normal and exceptional exit alike: the
  declared constraints of the schema, and the rows of every complete snapshot. The statement-level
  lemmas come first, one per statement; the procedures follow from them by the \<open>keeps_intros\<close>
  rules.
\<close>

section \<open>Statements keep the schema\<close>

named_theorems schema_keeps "statements that keep the declared constraints"

lemma map_update_rows: "(\<And>r. key (f r) = key r) \<Longrightarrow> map key (update_rows p f rs) = map key rs"
  by (simp add: update_rows_def)

lemma set_update_rows: "set (update_rows p f rs) = (\<lambda>r. if p r then f r else r) ` set rs"
  by (simp add: update_rows_def)

lemma filter_update_rows:
  "(\<And>r. r \<in> set rs \<Longrightarrow> q r \<Longrightarrow> \<not> p r) \<Longrightarrow> (\<And>r. q (f r) = q r) \<Longrightarrow>
   filter q (update_rows p f rs) = filter q rs"
  by (induction rs) (auto simp: update_rows_def)

lemma t_insert_snapshot_ok [schema_keeps]:
  assumes "schema_ok t" and "t_insert_snapshot a b d t = Inr (x, t')"
  shows "schema_ok t'"
proof -
  have same: "entries t' = entries t" "chunks t' = chunks t" "entry_chunks t' = entry_chunks t"
    "snapshot_warnings t' = snapshot_warnings t" "entry_seq t' = entry_seq t"
    "warning_seq t' = warning_seq t" and more: "sn_id ` set (snapshots t) \<subseteq> sn_id ` set (snapshots t')"
    using assms(2) by (auto simp: t_insert_snapshot_def Let_def constraint_failed_def split: if_splits)
  have "snapshots_ok t'"
    using assms by (fastforce simp: schema_ok_def snapshots_ok_def t_insert_snapshot_def Let_def
        status_values_def constraint_failed_def split: if_splits)
  moreover have "entries_ok t'" "warnings_ok t'"
    using assms(1) same more by (auto simp: schema_ok_def entries_ok_def warnings_ok_def)
  ultimately show ?thesis
    using assms(1) same by (simp add: schema_ok_def chunks_ok_def entry_chunks_ok_def)
qed

lemma t_update_snapshots_ok:
  assumes "schema_ok t" and "t_update_snapshots p f t = Inr (x, t')"
    and "\<And>s. sn_id (f s) = sn_id s" and "\<And>s. p t s \<Longrightarrow> sn_status (f s) \<in> set status_values"
  shows "schema_ok t'"
proof -
  have t': "t' = t\<lparr>snapshots := update_rows (p t) f (snapshots t)\<rparr>"
    using assms(2) by (simp add: t_update_snapshots_def)
  have ids: "map sn_id (snapshots t') = map sn_id (snapshots t)"
    by (simp add: t' map_update_rows assms(3))
  then have idset: "sn_id ` set (snapshots t') = sn_id ` set (snapshots t)"
    by (metis list.set_map)
  have "snapshots_ok t'"
    using assms(1,3,4) ids by (auto simp: schema_ok_def snapshots_ok_def t' set_update_rows)
  then show ?thesis
    using assms(1) idset by (simp add: schema_defs t')
qed

lemma t_remove_entries_ok:
  assumes "schema_ok t"
  shows "schema_ok (t_remove_entries p t)"
proof -
  let ?t = "t_remove_entries p t"
  have "entries_ok ?t"
    using assms by (simp add: schema_ok_def entries_ok_def t_remove_entries_def distinct_map_filter)
  moreover have "entry_chunks_ok ?t"
  proof -
    have "ec_entry_id r \<in> en_id ` set (entries ?t)" if "r \<in> set (entry_chunks ?t)" for r
    proof -
      from that assms obtain e where "e \<in> set (entries t)" "en_id e = ec_entry_id r"
        by (auto simp: schema_ok_def entry_chunks_ok_def t_remove_entries_def)
      moreover from this that have "\<not> p e"
        by (auto simp: t_remove_entries_def)
      ultimately show ?thesis
        by (auto simp: t_remove_entries_def image_iff intro: sym)
    qed
    then show ?thesis
      using assms by (simp add: schema_ok_def entry_chunks_ok_def t_remove_entries_def
          distinct_map_filter)
  qed
  ultimately show ?thesis
    using assms by (simp add: schema_ok_def snapshots_ok_def chunks_ok_def warnings_ok_def
        t_remove_entries_def)
qed

lemma t_delete_entry_batch_ok [schema_keeps]:
  "schema_ok t \<Longrightarrow> t_delete_entry_batch sid n t = Inr (x, t') \<Longrightarrow> schema_ok t'"
  by (auto simp: t_delete_entry_batch_def Let_def t_remove_entries_ok)

lemma t_delete_warning_batch_ok [schema_keeps]:
  "schema_ok t \<Longrightarrow> t_delete_warning_batch sid n t = Inr (x, t') \<Longrightarrow> schema_ok t'"
  by (auto simp: t_delete_warning_batch_def Let_def schema_defs distinct_map_filter)

lemma t_delete_snapshot_ok [schema_keeps]:
  assumes "schema_ok t" and "t_delete_snapshot sid t = Inr (x, t')"
  shows "schema_ok t'"
proof -
  let ?gone = "\<lambda>s. sn_id s = sid \<and> sn_status s = ''deleting''"
  let ?ids = "map sn_id (filter ?gone (snapshots t))"
  let ?u = "t_remove_entries (\<lambda>e. en_snapshot_id e \<in> set ?ids) t"
  have t': "t' = ?u\<lparr>snapshots := filter (\<lambda>s. \<not> ?gone s) (snapshots t),
      snapshot_warnings := filter (\<lambda>w. wa_snapshot_id w \<notin> set ?ids) (snapshot_warnings t)\<rparr>"
    using assms(2) unfolding t_delete_snapshot_def Let_def by (metis (lifting) Inr_inject prod.inject)
  have u: "schema_ok ?u" "snapshots ?u = snapshots t" "snapshot_warnings ?u = snapshot_warnings t"
    using assms(1) by (simp_all add: t_remove_entries_ok) (simp_all add: t_remove_entries_def)
  have left: "i \<in> sn_id ` {s \<in> set (snapshots t). \<not> ?gone s}"
    if "i \<in> sn_id ` set (snapshots t)" "i \<notin> set ?ids" for i
    using that by auto
  have "\<forall>e \<in> set (entries ?u). en_snapshot_id e \<in> sn_id ` {s \<in> set (snapshots t). \<not> ?gone s}"
    using u left by (auto simp: schema_ok_def entries_ok_def t_remove_entries_def)
  moreover have "\<forall>w \<in> set (snapshot_warnings t'). wa_snapshot_id w \<in>
      sn_id ` {s \<in> set (snapshots t). \<not> ?gone s}"
    using assms(1) left by (auto simp: schema_ok_def warnings_ok_def t')
  ultimately show ?thesis
    using u by (simp add: schema_defs t' distinct_map_filter)
qed

lemma t_insert_entry_Inr:
  assumes "t_insert_entry sid e n t = Inr (x, t')"
  obtains "t' = t\<lparr>entries := entries t @ [new_entry_row (entry_seq t + 1) sid e n],
      entry_seq := entry_seq t + 1\<rparr>" "x = [entry_seq t + 1]" "sid \<in> sn_id ` set (snapshots t)"
    "entry_seq t < int64_max"
    "\<forall>r \<in> set (entries t). en_snapshot_id r = sid \<longrightarrow> en_relative_path r \<noteq> se_relative_path e"
  using assms
  by (simp add: t_insert_entry_def Let_def constraint_failed_def list_ex_iff split: if_splits)

lemma new_entry_row_simps [simp]:
  "en_id (new_entry_row i sid e n) = i" "en_snapshot_id (new_entry_row i sid e n) = sid"
  "en_relative_path (new_entry_row i sid e n) = se_relative_path e"
  "en_type (new_entry_row i sid e n) = stored_entry_type (se_type e)"
  "en_file_hash (new_entry_row i sid e n) = None"
  by (simp_all add: new_entry_row_def)

lemma stored_entry_type_allowed: "stored_entry_type ty \<in> set entry_type_values"
  by (cases ty) (simp_all add: entry_type_values_def)

lemma t_insert_entry_ok [schema_keeps]:
  assumes "schema_ok t" and "t_insert_entry sid e n t = Inr (x, t')"
  shows "schema_ok t'"
  using assms(2)
proof (rule t_insert_entry_Inr)
  assume row: "t' = t\<lparr>entries := entries t @ [new_entry_row (entry_seq t + 1) sid e n],
      entry_seq := entry_seq t + 1\<rparr>" "sid \<in> sn_id ` set (snapshots t)" "entry_seq t < int64_max"
    "\<forall>r \<in> set (entries t). en_snapshot_id r = sid \<longrightarrow> en_relative_path r \<noteq> se_relative_path e"
  have "entries_ok t'"
    using assms(1) row stored_entry_type_allowed [of "se_type e"]
    by (fastforce simp: schema_ok_def entries_ok_def)
  moreover have "entry_chunks_ok t'"
    using assms(1) row by (simp add: schema_ok_def entry_chunks_ok_def)
  ultimately show ?thesis
    using assms(1) row by (simp add: schema_ok_def snapshots_ok_def chunks_ok_def warnings_ok_def)
qed

lemma t_set_file_hash_ok [schema_keeps]:
  assumes "schema_ok t" and "t_set_file_hash i h t = Inr (x, t')"
  shows "schema_ok t'"
proof -
  let ?p = "\<lambda>e. en_id e = i \<and> en_type e = ''file'' \<and> en_file_hash e = None \<and>
    snapshot_has_status t (en_snapshot_id e) [''pending'']"
  have t': "t' = t\<lparr>entries := update_rows ?p (\<lambda>e. e\<lparr>en_file_hash := Some h\<rparr>) (entries t)\<rparr>"
    using assms(2) by (simp add: t_set_file_hash_def Let_def)
  have keys: "map en_id (entries t') = map en_id (entries t)"
    "map (\<lambda>e. (en_snapshot_id e, en_relative_path e)) (entries t') =
     map (\<lambda>e. (en_snapshot_id e, en_relative_path e)) (entries t)"
    by (simp_all add: t' map_update_rows)
  then have "en_id ` set (entries t') = en_id ` set (entries t)"
    by (metis list.set_map)
  moreover have "entries_ok t'"
    using assms(1) keys by (auto simp: schema_ok_def entries_ok_def t' set_update_rows)
  ultimately show ?thesis
    using assms(1) by (simp add: schema_defs t')
qed

lemma t_insert_chunk_ok [schema_keeps]:
  assumes "schema_ok t" and "t_insert_chunk h r s p c t = Inr (x, t')"
  shows "schema_ok t'"
proof -
  have same: "snapshots t' = snapshots t" "entries t' = entries t" "entry_chunks t' = entry_chunks t"
    "snapshot_warnings t' = snapshot_warnings t" "snapshot_seq t' = snapshot_seq t"
    "entry_seq t' = entry_seq t" "warning_seq t' = warning_seq t"
    and more: "ck_hash ` set (chunks t) \<subseteq> ck_hash ` set (chunks t')"
    using assms(2) by (auto simp: t_insert_chunk_def constraint_failed_def split: if_splits)
  have "chunks_ok t'"
    using assms by (auto simp: schema_ok_def chunks_ok_def t_insert_chunk_def list_ex_iff
        constraint_failed_def split: if_splits)
  moreover have "entry_chunks_ok t'"
    using assms(1) same more by (auto simp: schema_ok_def entry_chunks_ok_def)
  ultimately show ?thesis
    using assms(1) same by (simp add: schema_ok_def snapshots_ok_def entries_ok_def warnings_ok_def)
qed

lemma t_insert_entry_chunk_Inr:
  assumes "t_insert_entry_chunk i s h off n t = Inr (x, t')"
  obtains "t' = t\<lparr>entry_chunks := entry_chunks t @ [\<lparr>ec_entry_id = i, ec_sequence_number = s,
      ec_chunk_hash = h, ec_raw_offset = off, ec_raw_length = n\<rparr>]\<rparr>"
    "0 \<le> s" "0 \<le> off" "0 < n" "i \<in> en_id ` set (entries t)" "h \<in> ck_hash ` set (chunks t)"
    "\<forall>r \<in> set (entry_chunks t). ec_entry_id r = i \<longrightarrow> ec_sequence_number r \<noteq> s"
  using assms
  by (simp add: t_insert_entry_chunk_def constraint_failed_def list_ex_iff not_less not_le
      split: if_splits)

lemma t_insert_entry_chunk_ok [schema_keeps]:
  assumes "schema_ok t" and "t_insert_entry_chunk i s h off n t = Inr (x, t')"
  shows "schema_ok t'"
  using assms(2)
proof (rule t_insert_entry_chunk_Inr)
  assume *: "t' = t\<lparr>entry_chunks := entry_chunks t @ [\<lparr>ec_entry_id = i, ec_sequence_number = s,
      ec_chunk_hash = h, ec_raw_offset = off, ec_raw_length = n\<rparr>]\<rparr>"
    "0 \<le> s" "0 \<le> off" "0 < n" "i \<in> en_id ` set (entries t)" "h \<in> ck_hash ` set (chunks t)"
    "\<forall>r \<in> set (entry_chunks t). ec_entry_id r = i \<longrightarrow> ec_sequence_number r \<noteq> s"
  then have "entry_chunks_ok t'"
    using assms(1) by (auto simp: schema_ok_def entry_chunks_ok_def)
  then show ?thesis
    using assms(1) * by (simp add: schema_ok_def snapshots_ok_def entries_ok_def chunks_ok_def
        warnings_ok_def)
qed

lemma t_insert_warning_ok [schema_keeps]:
  assumes "schema_ok t" and "t_insert_warning sid p c m t = Inr (x, t')"
  shows "schema_ok t'"
proof -
  have "snapshots t' = snapshots t" "entries t' = entries t" "chunks t' = chunks t"
    "entry_chunks t' = entry_chunks t" "snapshot_seq t' = snapshot_seq t" "entry_seq t' = entry_seq t"
    using assms(2) by (auto simp: t_insert_warning_def Let_def constraint_failed_def split: if_splits)
  moreover have "warnings_ok t'"
    using assms by (fastforce simp: schema_ok_def warnings_ok_def t_insert_warning_def Let_def
        constraint_failed_def split: if_splits)
  ultimately show ?thesis
    using assms(1) by (simp add: schema_defs)
qed

section \<open>Row counts\<close>

text \<open>Row identifiers are 64-bit, so the number of entries is as well.\<close>

lemma entry_count_bound:
  assumes "schema_ok t"
  shows "int (length (filter p (entries t))) \<le> int64_max"
proof -
  have d: "distinct (map en_id (filter p (entries t)))"
    and sub: "en_id ` set (filter p (entries t)) \<subseteq> {1..entry_seq t}"
    using assms by (auto simp: schema_ok_def entries_ok_def distinct_map_filter)
  have "length (filter p (entries t)) = card (en_id ` set (filter p (entries t)))"
    using distinct_card [OF d] by simp
  also have "\<dots> \<le> card {1..entry_seq t}"
    using sub by (rule card_mono [OF finite_atLeastAtMost_int])
  finally have "int (length (filter p (entries t))) \<le> max 0 (entry_seq t)"
    by simp
  moreover have "entry_seq t \<le> int64_max"
    using assms by (simp add: schema_ok_def entries_ok_def)
  ultimately show ?thesis
    by linarith
qed

section \<open>Draining loops\<close>

text \<open>
  The contract of a loop that runs a committed round until the round reports zero rows: what the
  round keeps the loop keeps, and a loop that returns has ended with an empty round.
\<close>

locale drain =
  fixes round :: "(conn, nat) proc" and loop :: "(conn, unit) proc" and left :: "conn \<Rightarrow> nat"
  assumes unfold: "loop c = (case round c of (Inl e, c') \<Rightarrow> (Inl e, c')
      | (Inr removed, c') \<Rightarrow> if removed = 0 then (Inr (), c') else loop c')"
    and fewer: "round c = (Inr removed, c') \<Longrightarrow> removed \<noteq> 0 \<Longrightarrow> left c' < left c"
begin

lemma loop_cases:
  assumes "loop c = (r, c')"
  obtains e where "round c = (Inl e, c')" "r = Inl e"
  | "round c = (Inr 0, c')" "r = Inr ()"
  | k c1 where "round c = (Inr k, c1)" "k \<noteq> 0" "loop c1 = (r, c')" "left c1 < left c"
  using assms unfold [of c] fewer [of c]
  by (cases "round c") (auto split: sum.splits if_splits)

lemma loop_keeps:
  assumes round: "keeps J round"
  shows "keeps J loop"
proof (rule keepsI)
  fix c r c'
  show "J c \<Longrightarrow> loop c = (r, c') \<Longrightarrow> J c'"
  proof (induction c rule: measure_induct_rule [of left])
    case (less c)
    from less.prems(2) show ?case
    proof (rule loop_cases)
      fix k c1
      assume "round c = (Inr k, c1)" "loop c1 = (r, c')" "left c1 < left c"
      then show ?case
        using less.IH [of c1] keepsD [OF round less.prems(1)] by simp
    qed (use keepsD [OF round less.prems(1)] in simp_all)
  qed
qed

text \<open>A round that cannot fail from states in \<open>J\<close> makes a loop that returns, after an empty round.\<close>

lemma loop_succeeds:
  assumes "\<And>c. J c \<Longrightarrow> \<exists>k c'. round c = (Inr k, c') \<and> J c'" and "J c"
  shows "\<exists>c' c0. loop c = (Inr (), c') \<and> J c' \<and> round c0 = (Inr 0, c') \<and> J c0"
  using assms(2)
proof (induction c rule: measure_induct_rule [of left])
  case (less c)
  obtain k c1 where r: "round c = (Inr k, c1)" and "J c1"
    using assms(1) [OF less.prems] by blast
  show ?case
  proof (cases "k = 0")
    case True
    then show ?thesis
      using r \<open>J c1\<close> less.prems unfold [of c] by auto
  next
    case False
    then have "loop c = loop c1"
      using r unfold [of c] by simp
    then show ?thesis
      using less.IH [OF fewer [OF r False] \<open>J c1\<close>] by simp
  qed
qed

end

interpretation entry_drain: drain "batch_round sts m m' i (t_delete_entry_batch i n)"
    "entry_loop sts m m' i n" "\<lambda>c. length (entries (db c))" for sts m m' i n
  by unfold_locales
    (rule entry_loop.simps, drule batch_round_returns, elim conjE, erule entry_batch_decreases)

interpretation warning_drain: drain "batch_round sts m m' i (t_delete_warning_batch i n)"
    "warning_loop sts m m' i n" "\<lambda>c. length (snapshot_warnings (db c))" for sts m m' i n
  by unfold_locales
    (rule warning_loop.simps, drule batch_round_returns, elim conjE, erule warning_batch_decreases)

end
