(* ===== verification/Metadata_Safety.thy ===== *)
theory Metadata_Safety
  imports Metadata_Invariants
begin

text \<open>
  Predicates on the tables that every member function of the metadata store keeps on every exit,
  whichever statements fail. What a predicate has to satisfy is the locale \<open>store_invariant\<close>, one
  law per SQL statement; the member functions are covered once, inside it. It is interpreted for the
  declared constraints and for the rows of one complete snapshot.
\<close>

section \<open>The contract of a kept predicate\<close>

text \<open>
  \<open>target\<close> are the snapshots that \<^verbatim>\<open>insert_entry\<close> and \<^verbatim>\<open>insert_warning\<close> may name,
  \<open>entry_target\<close> the entries that \<^verbatim>\<open>insert_entry_chunk\<close> may name, \<open>deletable\<close> the
  snapshots that \<^verbatim>\<open>transition_snapshot_to_deleting\<close> may name. All other operations may name anything: their own status
  conditions keep them away from complete snapshots.
\<close>

text \<open>The status changes the \<^verbatim>\<open>UPDATE\<close> statements make.\<close>

definition lifecycle :: "(string \<times> string) set" where
  "lifecycle = {(''pending'', ''complete''), (''pending'', ''failed''), (''pending'', ''cancelled''),
     (''complete'', ''deleting'')}"

text \<open>What recovery and the handling of a failed snapshot need: rows are only retired, and only rows below a
  snapshot that is not complete are deleted.\<close>

definition retirement :: "(string \<times> string) set" where
  "retirement = {(''pending'', ''failed''), (''pending'', ''cancelled'')}"

locale maintenance_invariant =
  fixes I :: "tables \<Rightarrow> bool"
  assumes retire_law: "I t \<Longrightarrow> t_update_snapshots p f t = Inr (x, t') \<Longrightarrow>
      (\<And>s. sn_id (f s) = sn_id s) \<Longrightarrow> (\<And>s. p t s \<Longrightarrow> (sn_status s, sn_status (f s)) \<in> retirement) \<Longrightarrow> I t'"
    and entry_batch_law: "I t \<Longrightarrow> t_delete_entry_batch i n t = Inr (k, t') \<Longrightarrow>
      status_rows sts i t \<noteq> [] \<Longrightarrow> ''complete'' \<notin> set sts \<Longrightarrow> I t'"
    and warning_batch_law: "I t \<Longrightarrow> t_delete_warning_batch i n t = Inr (k, t') \<Longrightarrow>
      status_rows sts i t \<noteq> [] \<Longrightarrow> ''complete'' \<notin> set sts \<Longrightarrow> I t'"
    and delete_snapshot_law: "I t \<Longrightarrow> t_delete_snapshot i t = Inr (x, t') \<Longrightarrow> I t'"
begin

lemma mark_snapshot_incomplete_keeps [keeps_intros]:
  "keeps (on_db I) (mark_snapshot_incomplete i st m at)"
  unfolding mark_snapshot_incomplete_def
  by (intro keeps_intros keeps_sql, erule retire_law, assumption)
    (auto simp: retirement_def split: if_splits)

lemma mark_stale_pending_snapshot_failed_keeps [keeps_intros]:
  "keeps (on_db I) (mark_stale_pending_snapshot_failed i m at)"
  unfolding mark_stale_pending_snapshot_failed_def
  by (intro keeps_intros keeps_sql, erule retire_law, assumption) (auto simp: retirement_def)

text \<open>A round deletes only below a snapshot it has just found in one of the statuses \<open>sts\<close>.\<close>

lemma batch_round_keeps:
  assumes "\<And>t k t'. I t \<Longrightarrow> d t = Inr (k, t') \<Longrightarrow> status_rows sts i t \<noteq> [] \<Longrightarrow> I t'"
  shows "keeps (on_db I) (batch_round sts m m' i d)"
  unfolding batch_round_def
proof (intro keeps_transaction keepsI)
  fix c r c'
  assume "on_db I c"
    and "bindp (query (status_rows sts i)) (\<lambda>rows.
        seqp (liftp (single_row E_invalid_argument m m' rows))
         (bindp (sql d) (\<lambda>removed. seqp (hit before_metadata_batch_commit) (ret removed)))) c = (r, c')"
  then show "on_db I c'"
    using assms [of "db c"]
    by (auto simp: proc_defs query_def sql_def hit_def single_row_def on_db_def committed_def
        split: option.splits sum.splits prod.splits list.splits)
qed

lemma entry_loop_keeps:
  "''complete'' \<notin> set sts \<Longrightarrow> keeps (on_db I) (entry_loop sts m m' i n)"
  by (rule entry_drain.loop_keeps, rule batch_round_keeps) (rule entry_batch_law)

lemma warning_loop_keeps:
  "''complete'' \<notin> set sts \<Longrightarrow> keeps (on_db I) (warning_loop sts m m' i n)"
  by (rule warning_drain.loop_keeps, rule batch_round_keeps) (rule warning_batch_law)

lemma delete_deleting_snapshot_keeps [keeps_intros]:
  "keeps (on_db I) (delete_deleting_snapshot i n)"
  unfolding delete_deleting_snapshot_def
  by (intro keeps_intros entry_loop_keeps warning_loop_keeps keeps_sql; simp?)
    (erule delete_snapshot_law)

lemma clean_incomplete_snapshot_keeps [keeps_intros]:
  "keeps (on_db I) (clean_incomplete_snapshot i n)"
  unfolding clean_incomplete_snapshot_def
  by (intro keeps_intros entry_loop_keeps warning_loop_keeps) simp_all

end

locale store_invariant =
  fixes I :: "tables \<Rightarrow> bool"
    and target :: "SnapshotId \<Rightarrow> bool"
    and entry_target :: "int \<Rightarrow> bool"
    and deletable :: "SnapshotId \<Rightarrow> bool"
  assumes insert_snapshot_law: "I t \<Longrightarrow> t_insert_snapshot a b d t = Inr (x, t') \<Longrightarrow> I t'"
    and update_law: "I t \<Longrightarrow> t_update_snapshots p f t = Inr (x, t') \<Longrightarrow>
      (\<And>s. sn_id (f s) = sn_id s) \<Longrightarrow>
      (\<And>s. p t s \<Longrightarrow> (sn_status s, sn_status (f s)) \<in> lifecycle) \<Longrightarrow>
      (\<And>s. p t s \<Longrightarrow> sn_status s = ''complete'' \<Longrightarrow> deletable (sn_id s)) \<Longrightarrow>
      (\<And>s. p t s \<Longrightarrow> sn_status (f s) = ''complete'' \<Longrightarrow> \<not> has_unhashed_file t (sn_id s)) \<Longrightarrow> I t'"
    and drop_entries_law: "I t \<Longrightarrow> t_delete_entry_batch i n t = Inr (k, t') \<Longrightarrow>
      status_rows sts i t \<noteq> [] \<Longrightarrow> ''complete'' \<notin> set sts \<Longrightarrow> I t'"
    and drop_warnings_law: "I t \<Longrightarrow> t_delete_warning_batch i n t = Inr (k, t') \<Longrightarrow>
      status_rows sts i t \<noteq> [] \<Longrightarrow> ''complete'' \<notin> set sts \<Longrightarrow> I t'"
    and drop_snapshot_law: "I t \<Longrightarrow> t_delete_snapshot i t = Inr (x, t') \<Longrightarrow> I t'"
    and insert_entry_law: "I t \<Longrightarrow> t_insert_entry i e n t = Inr (x, t') \<Longrightarrow> target i \<Longrightarrow> I t'"
    and set_hash_law: "I t \<Longrightarrow> t_set_file_hash j h t = Inr (x, t') \<Longrightarrow> is_lowercase_blake3_hex h \<Longrightarrow> I t'"
    and insert_chunk_law: "I t \<Longrightarrow> t_insert_chunk h rs ss pa cr t = Inr (u, t') \<Longrightarrow> I t'"
    and insert_entry_chunk_law: "I t \<Longrightarrow> t_insert_entry_chunk j sq h off len t = Inr (u, t') \<Longrightarrow>
      entry_target j \<Longrightarrow> I t'"
    and insert_warning_law: "I t \<Longrightarrow> t_insert_warning i p' cd m t = Inr (u, t') \<Longrightarrow> target i \<Longrightarrow> I t'"
begin

lemma create_pending_snapshot_keeps [keeps_intros]:
  "keeps (on_db I) (create_pending_snapshot root msg at)"
  unfolding create_pending_snapshot_def
  by (intro keeps_intros keeps_sql) (erule insert_snapshot_law)

lemma mark_snapshot_complete_keeps [keeps_intros]:
  "keeps (on_db I) (mark_snapshot_complete i totals at)"
  unfolding mark_snapshot_complete_def case_prod_unfold
  by (intro keeps_intros keeps_sql, (auto simp: t_count_entries_def bindE_Inr_iff)[1],
      erule update_law, assumption) (auto simp: lifecycle_def)

lemma transition_snapshot_to_deleting_keeps [keeps_intros]:
  "deletable i \<Longrightarrow> keeps (on_db I) (transition_snapshot_to_deleting i)"
  unfolding transition_snapshot_to_deleting_def
  by (intro keeps_intros keeps_sql, erule update_law, assumption) (auto simp: lifecycle_def)

lemma insert_entry_keeps [keeps_intros]: "target i \<Longrightarrow> keeps (on_db I) (insert_entry i e)"
  unfolding insert_entry_def
  by (intro keeps_intros keeps_sql) (erule insert_entry_law)

lemma set_regular_file_hash_keeps [keeps_intros]: "keeps (on_db I) (set_regular_file_hash j h)"
proof (cases "is_lowercase_blake3_hex h")
  case True
  then show ?thesis
    unfolding set_regular_file_hash_def by (intro keeps_intros keeps_sql) (erule (1) set_hash_law)
next
  case False
  then show ?thesis
    by (simp add: set_regular_file_hash_def guardp_def keeps_raise_lv)
qed

lemma ensure_chunk_keeps [keeps_intros]: "keeps (on_db I) (ensure_chunk ch)"
  unfolding ensure_chunk_def
  by (intro keeps_intros keeps_sql) (erule insert_chunk_law)

lemma insert_entry_chunk_keeps [keeps_intros]:
  "entry_target j \<Longrightarrow> keeps (on_db I) (insert_entry_chunk j sq h off len)"
  unfolding insert_entry_chunk_def
  by (intro keeps_intros keeps_sql) (erule insert_entry_chunk_law)

lemma insert_warning_keeps [keeps_intros]: "target i \<Longrightarrow> keeps (on_db I) (insert_warning i p c m)"
  unfolding insert_warning_def
  by (intro keeps_intros keeps_sql) (erule insert_warning_law)

end

sublocale store_invariant \<subseteq> maintenance_invariant I
proof unfold_locales
  fix t p f x t'
  assume inv: "I t" and upd: "t_update_snapshots p f t = Inr (x, t')" "\<And>s. sn_id (f s) = sn_id s"
    and retired: "\<And>s. p t s \<Longrightarrow> (sn_status s, sn_status (f s)) \<in> retirement"
  have "(sn_status s, sn_status (f s)) \<in> lifecycle" "sn_status s \<noteq> ''complete''" "sn_status (f s) \<noteq> ''complete''"
    if "p t s" for s
    using retired [OF that] by (auto simp: retirement_def lifecycle_def)
  then show "I t'" by (intro update_law [OF inv upd]) blast+
qed (erule (3) drop_entries_law drop_warnings_law | erule (1) drop_snapshot_law)+

text \<open>The reading operations keep every predicate.\<close>

lemma reads_keep [keeps_intros]:
  "keeps (on_db I) (require_complete_snapshot i)" "keeps (on_db I) list_complete_snapshots"
  "keeps (on_db I) list_incomplete_snapshots" "keeps (on_db I) quick_relationship_check"
  "keeps (on_db I) (find_chunk h)" "keeps (on_db I) (list_entries i)"
  "keeps (on_db I) (list_children i p)" "keeps (on_db I) (list_entry_chunks j)"
  unfolding require_complete_snapshot_def list_complete_snapshots_def list_incomplete_snapshots_def
    quick_relationship_check_def find_chunk_def list_entries_def list_children_def
    list_entry_chunks_def
  by (intro keeps_intros; simp split: list.split; intro allI impI conjI keeps_intros)+

section \<open>The schema\<close>

lemma lifecycle_values: "(a, b) \<in> lifecycle \<Longrightarrow> b \<in> set status_values"
  by (auto simp: lifecycle_def status_values_def)

interpretation schema: store_invariant schema_ok "\<lambda>_. True" "\<lambda>_. True" "\<lambda>_. True"
proof unfold_locales
  fix t p f x t'
  assume "schema_ok t" "t_update_snapshots p f t = Inr (x, t')" "\<And>s. sn_id (f s) = sn_id s"
    "\<And>s. p t s \<Longrightarrow> (sn_status s, sn_status (f s)) \<in> lifecycle"
  then show "schema_ok t'" by (auto intro: t_update_snapshots_ok lifecycle_values)
qed (auto intro: schema_keeps)

section \<open>The rows of a complete snapshot\<close>

text \<open>Everything the reading operations can return about a snapshot: its row, its entries, their
  chunk references with the chunk rows they name, and its warnings.\<close>

type_synonym published = "snapshot_row list \<times> entry_row list \<times>
  (entry_chunk_row \<times> chunk_row list) list \<times> warning_row list"

definition entry_ids :: "tables \<Rightarrow> SnapshotId \<Rightarrow> int set" where
  "entry_ids t sid = en_id ` set (entries_of t sid)"

definition published_view :: "SnapshotId \<Rightarrow> tables \<Rightarrow> published" where
  "published_view sid t =
     (rows_with sn_id sid (snapshots t), entries_of t sid,
      map (\<lambda>r. (r, rows_with ck_hash (ec_chunk_hash r) (chunks t)))
        (filter (\<lambda>r. ec_entry_id r \<in> entry_ids t sid) (entry_chunks t)),
      warnings_of t sid)"

definition frozen :: "SnapshotId \<Rightarrow> published \<Rightarrow> tables \<Rightarrow> bool" where
  "frozen sid V t \<longleftrightarrow>
     schema_ok t \<and> snapshot_has_status t sid [''complete''] \<and> published_view sid t = V"

definition view_entry_ids :: "published \<Rightarrow> int set" where
  "view_entry_ids V = en_id ` set (fst (snd V))"

lemma frozen_entry_ids: "frozen sid V t \<Longrightarrow> entry_ids t sid = view_entry_ids V"
  by (auto simp: frozen_def published_view_def view_entry_ids_def entry_ids_def)

text \<open>A complete snapshot has exactly one row, and its status is not any other one.\<close>

lemma complete_row:
  assumes "schema_ok t" and "snapshot_has_status t sid [''complete'']" and "s \<in> set (snapshots t)"
    and "sn_id s = sid"
  shows "sn_status s = ''complete''"
proof -
  obtain s' where "s' \<in> set (snapshots t)" "sn_id s' = sid" "sn_status s' = ''complete''"
    using assms(2) by (auto simp: snapshot_has_status_def list_ex_iff)
  then show ?thesis
    using snapshot_table.same_key [OF assms(1,3), of s'] assms(4) by simp
qed

lemma complete_not_other_status:
  assumes "schema_ok t" and "snapshot_has_status t sid [''complete'']"
    and "status_rows sts i t \<noteq> []" and "''complete'' \<notin> set sts"
  shows "i \<noteq> sid"
  using assms(3,4) complete_row [OF assms(1,2)] by (auto simp: status_rows_def filter_empty_conv)

text \<open>An operation that leaves the parts of the view alone keeps the snapshot frozen.\<close>

lemma frozenI:
  assumes "frozen sid V t" and "schema_ok t'"
    and "rows_with sn_id sid (snapshots t') = rows_with sn_id sid (snapshots t)"
    and "entries_of t' sid = entries_of t sid"
    and "filter (\<lambda>r. ec_entry_id r \<in> entry_ids t sid) (entry_chunks t') =
         filter (\<lambda>r. ec_entry_id r \<in> entry_ids t sid) (entry_chunks t)"
    and "\<And>h. h \<in> ck_hash ` set (chunks t) \<Longrightarrow> rows_with ck_hash h (chunks t') = rows_with ck_hash h (chunks t)"
    and "warnings_of t' sid = warnings_of t sid"
  shows "frozen sid V t'"
proof -
  have has: "snapshot_has_status u sid sts \<longleftrightarrow>
      list_ex (\<lambda>s. sn_status s \<in> set sts) (rows_with sn_id sid (snapshots u))" for u sts
    by (auto simp: snapshot_has_status_def rows_with_def list_ex_iff)
  have refs: "map (\<lambda>r. (r, rows_with ck_hash (ec_chunk_hash r) (chunks t')))
        (filter (\<lambda>r. ec_entry_id r \<in> entry_ids t sid) (entry_chunks t)) =
      map (\<lambda>r. (r, rows_with ck_hash (ec_chunk_hash r) (chunks t)))
        (filter (\<lambda>r. ec_entry_id r \<in> entry_ids t sid) (entry_chunks t))"
    using assms(1) by (auto simp: frozen_def schema_ok_def entry_chunks_ok_def intro!: assms(6))
  have ids: "entry_ids t' sid = entry_ids t sid"
    using assms(4) by (simp add: entry_ids_def)
  have "published_view sid t' = published_view sid t"
    unfolding published_view_def assms(3-5,7) ids refs ..
  then show ?thesis
    using assms(1-3) has [of t] has [of t'] by (simp add: frozen_def)
qed

lemma filter_filter_id: "(\<And>x. x \<in> set xs \<Longrightarrow> p x \<Longrightarrow> q x) \<Longrightarrow> filter p (filter q xs) = filter p xs"
  by (induction xs) auto

lemma rows_with_append: "rows_with key k (rs @ rs') = rows_with key k rs @ rows_with key k rs'"
  by (simp add: rows_with_def)

lemma rows_with_single: "rows_with key k [r] = (if key r = k then [r] else [])"
  by (simp add: rows_with_def)

lemma frozen_insert_snapshot:
  assumes "frozen sid V t" and "t_insert_snapshot a b d t = Inr (x, t')"
  shows "frozen sid V t'"
proof (rule frozenI [OF assms(1)])
  obtain s where "s \<in> set (snapshots t)" "sn_id s = sid"
    using assms(1) by (auto simp: frozen_def snapshot_has_status_def list_ex_iff)
  then have "sid \<noteq> snapshot_seq t + 1"
    using assms(1) by (auto simp: frozen_def schema_ok_def snapshots_ok_def)
  then show "rows_with sn_id sid (snapshots t') = rows_with sn_id sid (snapshots t)"
    using assms(2) by (auto simp: t_insert_snapshot_def Let_def constraint_failed_def
        rows_with_def split: if_splits)
  show "schema_ok t'"
    using assms by (auto simp: frozen_def intro: t_insert_snapshot_ok)
qed (use assms(2) in \<open>auto simp: t_insert_snapshot_def Let_def constraint_failed_def entries_of_def
      warnings_of_def split: if_splits\<close>)

lemma frozen_update:
  assumes "frozen sid V t" and "t_update_snapshots p f t = Inr (x, t')"
    and "\<And>s. sn_id (f s) = sn_id s"
    and "\<And>s. p t s \<Longrightarrow> (sn_status s, sn_status (f s)) \<in> lifecycle"
    and "\<And>s. p t s \<Longrightarrow> sn_status s = ''complete'' \<Longrightarrow> sn_id s \<noteq> sid"
  shows "frozen sid V t'"
proof (rule frozenI [OF assms(1)])
  have t': "t' = t\<lparr>snapshots := update_rows (p t) f (snapshots t)\<rparr>"
    using assms(2) by (simp add: t_update_snapshots_def)
  have "rows_with sn_id sid (update_rows (p t) f (snapshots t)) = rows_with sn_id sid (snapshots t)"
    unfolding rows_with_def
  proof (rule filter_update_rows)
    fix s assume "s \<in> set (snapshots t)" "sn_id s = sid"
    moreover from this have "sn_status s = ''complete''"
      using assms(1) complete_row [of t sid s] by (simp add: frozen_def)
    ultimately show "\<not> p t s" using assms(5) by blast
  qed (simp add: assms(3))
  then show "rows_with sn_id sid (snapshots t') = rows_with sn_id sid (snapshots t)"
    by (simp add: t')
  show "schema_ok t'"
    using assms(1) t_update_snapshots_ok [OF _ assms(2,3)] lifecycle_values [OF assms(4)]
    by (simp add: frozen_def)
qed (use assms(2) in \<open>auto simp: t_update_snapshots_def entries_of_def warnings_of_def\<close>)

text \<open>Entries of other snapshots can be removed together with their chunk references.\<close>

lemma remove_entries_view:
  assumes "schema_ok t" and "\<And>e. e \<in> set (entries t) \<Longrightarrow> p e \<Longrightarrow> en_snapshot_id e \<noteq> sid"
  shows "entries_of (t_remove_entries p t) sid = entries_of t sid"
    and "filter (\<lambda>r. ec_entry_id r \<in> entry_ids t sid) (entry_chunks (t_remove_entries p t)) =
         filter (\<lambda>r. ec_entry_id r \<in> entry_ids t sid) (entry_chunks t)"
proof -
  show "entries_of (t_remove_entries p t) sid = entries_of t sid"
    using assms(2)
    by (auto simp: entries_of_def t_remove_entries_def simp del: filter_filter intro!: filter_filter_id)
  have "\<not> p e" if e: "e \<in> set (entries t)" "en_id e = ec_entry_id r" "ec_entry_id r \<in> entry_ids t sid"
    for e and r :: entry_chunk_row
  proof -
    obtain e' where "e' \<in> set (entries t)" "en_snapshot_id e' = sid" "en_id e' = en_id e"
      using e(2,3) by (auto simp: entry_ids_def entries_of_def image_iff)
    then have "e = e'"
      using entry_table.same_key [OF assms(1) e(1)] by simp
    then show ?thesis
      using assms(2) e(1) \<open>en_snapshot_id e' = sid\<close> by blast
  qed
  then show "filter (\<lambda>r. ec_entry_id r \<in> entry_ids t sid) (entry_chunks (t_remove_entries p t)) =
         filter (\<lambda>r. ec_entry_id r \<in> entry_ids t sid) (entry_chunks t)"
    by (auto simp: t_remove_entries_def simp del: filter_filter intro!: filter_filter_id)
qed

lemma frozen_entry_batch:
  assumes "frozen sid V t" and "t_delete_entry_batch i n t = Inr (k, t')"
    and "status_rows sts i t \<noteq> []" and "''complete'' \<notin> set sts"
  shows "frozen sid V t'"
proof -
  let ?p = "\<lambda>e. en_id e \<in> set (take (nat n) (sort (map en_id (entries_of t i))))"
  have t': "t' = t_remove_entries ?p t"
    using assms(2) by (simp add: t_delete_entry_batch_def Let_def)
  have ok: "schema_ok t" and "i \<noteq> sid"
    using assms complete_not_other_status [OF _ _ assms(3,4)] by (auto simp: frozen_def)
  have other: "en_snapshot_id e \<noteq> sid" if e: "e \<in> set (entries t)" "?p e" for e
  proof -
    obtain e' where e': "e' \<in> set (entries t)" "en_snapshot_id e' = i" "en_id e' = en_id e"
      using e(2) by (auto simp: entries_of_def dest!: in_set_takeD)
    then have "e' = e"
      using entry_table.same_key [OF ok e'(1) e(1)] by simp
    then show ?thesis using e' \<open>i \<noteq> sid\<close> by simp
  qed
  show ?thesis
    using remove_entries_view [OF ok other] ok
    by (intro frozenI [OF assms(1)])
      (simp_all add: t' t_remove_entries_ok, simp_all add: t_remove_entries_def warnings_of_def)
qed

lemma frozen_warning_batch:
  assumes "frozen sid V t" and "t_delete_warning_batch i n t = Inr (k, t')"
    and "status_rows sts i t \<noteq> []" and "''complete'' \<notin> set sts"
  shows "frozen sid V t'"
proof (rule frozenI [OF assms(1)])
  have ok: "schema_ok t" and "i \<noteq> sid"
    using assms complete_not_other_status [OF _ _ assms(3,4)] by (auto simp: frozen_def)
  let ?ids = "set (take (nat n) (sort (map wa_id (warnings_of t i))))"
  have "wa_id w \<notin> ?ids" if w: "w \<in> set (snapshot_warnings t)" "wa_snapshot_id w = sid" for w
  proof
    assume "wa_id w \<in> ?ids"
    then obtain w' where w': "w' \<in> set (snapshot_warnings t)" "wa_snapshot_id w' = i" "wa_id w' = wa_id w"
      by (auto simp: warnings_of_def dest!: in_set_takeD)
    then show False
      using warning_table.same_key [OF ok w'(1) w(1)] w(2) \<open>i \<noteq> sid\<close> by simp
  qed
  then show "warnings_of t' sid = warnings_of t sid"
    using assms(2) unfolding t_delete_warning_batch_def Let_def
    by (auto simp: warnings_of_def simp del: filter_filter intro!: filter_filter_id)
  show "schema_ok t'"
    using ok assms(2) by (rule t_delete_warning_batch_ok)
qed (use assms(2) in \<open>auto simp: t_delete_warning_batch_def Let_def entries_of_def\<close>)

lemma frozen_delete_snapshot:
  assumes "frozen sid V t" and "t_delete_snapshot i t = Inr (x, t')"
  shows "frozen sid V t'"
proof -
  let ?gone = "\<lambda>s. sn_id s = i \<and> sn_status s = ''deleting''"
  let ?ids = "map sn_id (filter ?gone (snapshots t))"
  let ?u = "t_remove_entries (\<lambda>e. en_snapshot_id e \<in> set ?ids) t"
  have t': "t' = ?u\<lparr>snapshots := filter (\<lambda>s. \<not> ?gone s) (snapshots t),
      snapshot_warnings := filter (\<lambda>w. wa_snapshot_id w \<notin> set ?ids) (snapshot_warnings t)\<rparr>"
    using assms(2) unfolding t_delete_snapshot_def Let_def by (metis (lifting) Inr_inject prod.inject)
  have ok: "schema_ok t" and complete: "snapshot_has_status t sid [''complete'']"
    using assms(1) by (simp_all add: frozen_def)
  have not_gone: "\<not> ?gone s" if "s \<in> set (snapshots t)" "sn_id s = sid" for s
    using complete_row [OF ok complete that] by simp
  then have sid: "sid \<notin> set ?ids" by auto
  note view = remove_entries_view [OF ok, of "\<lambda>e. en_snapshot_id e \<in> set ?ids" sid]
  show ?thesis
  proof (rule frozenI [OF assms(1)])
    show "schema_ok t'" using ok assms(2) by (rule t_delete_snapshot_ok)
    show "rows_with sn_id sid (snapshots t') = rows_with sn_id sid (snapshots t)"
      using not_gone by (auto simp: t' rows_with_def simp del: filter_filter intro!: filter_filter_id)
    show "warnings_of t' sid = warnings_of t sid"
      using sid by (auto simp: t' warnings_of_def simp del: filter_filter intro!: filter_filter_id)
    show "entries_of t' sid = entries_of t sid"
      using view(1) sid by (auto simp: t' entries_of_def)
    show "filter (\<lambda>r. ec_entry_id r \<in> entry_ids t sid) (entry_chunks t') =
         filter (\<lambda>r. ec_entry_id r \<in> entry_ids t sid) (entry_chunks t)"
      using view(2) sid by (auto simp: t')
    show "\<And>h. rows_with ck_hash h (chunks t') = rows_with ck_hash h (chunks t)"
      by (simp add: t' t_remove_entries_def)
  qed
qed

lemma frozen_insert_entry:
  assumes "frozen sid V t" and "t_insert_entry i e n t = Inr (x, t')" and "i \<noteq> sid"
  shows "frozen sid V t'"
  using assms(2)
proof (rule t_insert_entry_Inr)
  assume t': "t' = t\<lparr>entries := entries t @ [new_entry_row (entry_seq t + 1) i e n],
      entry_seq := entry_seq t + 1\<rparr>"
  have "schema_ok t'"
    using assms t_insert_entry_ok by (auto simp: frozen_def)
  then show ?thesis
    using assms(3) by (intro frozenI [OF assms(1)]) (simp_all add: t' entries_of_def warnings_of_def)
qed

lemma frozen_set_hash:
  assumes "frozen sid V t" and "t_set_file_hash j h t = Inr (x, t')"
  shows "frozen sid V t'"
proof (rule frozenI [OF assms(1)])
  have ok: "schema_ok t" and complete: "snapshot_has_status t sid [''complete'']"
    using assms(1) by (simp_all add: frozen_def)
  then have "\<not> snapshot_has_status t sid [''pending'']"
    using complete_row [OF ok complete] by (auto simp: snapshot_has_status_def list_ex_iff)
  then show "entries_of t' sid = entries_of t sid"
    using assms(2) by (auto simp: t_set_file_hash_def Let_def entries_of_def intro!: filter_update_rows)
  show "schema_ok t'"
    using ok assms(2) by (rule t_set_file_hash_ok)
qed (use assms(2) in \<open>auto simp: t_set_file_hash_def Let_def warnings_of_def\<close>)

lemma frozen_insert_chunk:
  assumes "frozen sid V t" and "t_insert_chunk h rs ss pa cr t = Inr (u, t')"
  shows "frozen sid V t'"
proof (rule frozenI [OF assms(1)])
  show "schema_ok t'"
    using assms t_insert_chunk_ok by (auto simp: frozen_def)
  show "rows_with ck_hash k (chunks t') = rows_with ck_hash k (chunks t)"
    if "k \<in> ck_hash ` set (chunks t)" for k
    using assms(2) that by (auto simp: t_insert_chunk_def constraint_failed_def list_ex_iff
        rows_with_def split: if_splits)
qed (use assms(2) in \<open>auto simp: t_insert_chunk_def constraint_failed_def entries_of_def
      warnings_of_def split: if_splits\<close>)

lemma frozen_insert_entry_chunk:
  assumes "frozen sid V t" and "t_insert_entry_chunk j sq h off len t = Inr (u, t')"
    and "j \<notin> view_entry_ids V"
  shows "frozen sid V t'"
  using assms(2)
proof (rule t_insert_entry_chunk_Inr)
  assume t': "t' = t\<lparr>entry_chunks := entry_chunks t @ [\<lparr>ec_entry_id = j, ec_sequence_number = sq,
      ec_chunk_hash = h, ec_raw_offset = off, ec_raw_length = len\<rparr>]\<rparr>"
  have "schema_ok t'"
    using assms t_insert_entry_chunk_ok by (auto simp: frozen_def)
  then show ?thesis
    using assms(3) frozen_entry_ids [OF assms(1)]
    by (intro frozenI [OF assms(1)]) (simp_all add: t' entries_of_def warnings_of_def)
qed

lemma frozen_insert_warning:
  assumes "frozen sid V t" and "t_insert_warning i p cd m t = Inr (u, t')" and "i \<noteq> sid"
  shows "frozen sid V t'"
proof (rule frozenI [OF assms(1)])
  show "schema_ok t'"
    using assms t_insert_warning_ok by (auto simp: frozen_def)
qed (use assms(2,3) in \<open>auto simp: t_insert_warning_def Let_def constraint_failed_def entries_of_def
      warnings_of_def split: if_splits\<close>)

interpretation frozen: store_invariant "frozen sid V" "\<lambda>i. i \<noteq> sid" "\<lambda>j. j \<notin> view_entry_ids V"
    "\<lambda>i. i \<noteq> sid" for sid V
proof unfold_locales
  fix t p f x t'
  assume "frozen sid V t" "t_update_snapshots p f t = Inr (x, t')"
    "\<And>s. sn_id (f s) = sn_id s" "\<And>s. p t s \<Longrightarrow> (sn_status s, sn_status (f s)) \<in> lifecycle"
    "\<And>s. p t s \<Longrightarrow> sn_status s = ''complete'' \<Longrightarrow> sn_id s \<noteq> sid"
  then show "frozen sid V t'" by (rule frozen_update)
qed (erule (3) frozen_entry_batch frozen_warning_batch
  | erule (2) frozen_insert_entry frozen_insert_entry_chunk frozen_insert_warning
  | erule (1) frozen_insert_snapshot frozen_delete_snapshot frozen_set_hash frozen_insert_chunk)+

section \<open>The history of snapshot rows\<close>

text \<open>
  \<open>history t0 t\<close>: since \<open>t0\<close> no identifier was reused, every row went through the declared status
  changes only, and only rows that were being deleted have gone.
\<close>

definition history :: "tables \<Rightarrow> tables \<Rightarrow> bool" where
  "history t0 t \<longleftrightarrow>
     schema_ok t0 \<and> schema_ok t \<and> snapshot_seq t0 \<le> snapshot_seq t \<and>
     (\<forall>s \<in> set (snapshots t). sn_id s \<le> snapshot_seq t0 \<longrightarrow>
        (\<exists>s0 \<in> set (snapshots t0). sn_id s0 = sn_id s \<and> (sn_status s0, sn_status s) \<in> lifecycle\<^sup>*)) \<and>
     (\<forall>s0 \<in> set (snapshots t0). sn_id s0 \<notin> sn_id ` set (snapshots t) \<longrightarrow>
        (sn_status s0, ''deleting'') \<in> lifecycle\<^sup>*)"

lemma history_same_snapshots:
  "history t0 t \<Longrightarrow> schema_ok t' \<Longrightarrow> snapshots t' = snapshots t \<Longrightarrow> snapshot_seq t' = snapshot_seq t \<Longrightarrow>
   history t0 t'"
  by (simp add: history_def)

lemma history_refl: "schema_ok t \<Longrightarrow> history t t"
  by (auto simp: history_def)

lemma history_insert_snapshot:
  assumes "history t0 t" and "t_insert_snapshot a b d t = Inr (x, t')"
  shows "history t0 t'"
proof -
  have "schema_ok t'"
    using assms t_insert_snapshot_ok by (auto simp: history_def)
  then show ?thesis
    using assms by (auto simp: history_def t_insert_snapshot_def Let_def constraint_failed_def
        split: if_splits)
qed

lemma history_update:
  assumes "history t0 t" and "t_update_snapshots p f t = Inr (x, t')"
    and "\<And>s. sn_id (f s) = sn_id s"
    and step: "\<And>s. p t s \<Longrightarrow> (sn_status s, sn_status (f s)) \<in> lifecycle"
  shows "history t0 t'"
proof -
  have t': "t' = t\<lparr>snapshots := update_rows (p t) f (snapshots t)\<rparr>"
    using assms(2) by (simp add: t_update_snapshots_def)
  have "sn_id ` set (snapshots t') = sn_id ` set (snapshots t)"
    using map_update_rows [of sn_id f "p t" "snapshots t"] assms(3)
    by (metis list.set_map t' tables.select_convs(1) tables.surjective tables.update_convs(1))
  moreover have "schema_ok t'"
    using assms(1) t_update_snapshots_ok [OF _ assms(2,3)] lifecycle_values [OF step]
    by (simp add: history_def)
  moreover have "\<exists>s0 \<in> set (snapshots t0). sn_id s0 = sn_id s' \<and>
      (sn_status s0, sn_status s') \<in> lifecycle\<^sup>*"
    if new: "s' \<in> set (snapshots t')" "sn_id s' \<le> snapshot_seq t0" for s'
  proof -
    obtain s where s: "s \<in> set (snapshots t)" "s' = (if p t s then f s else s)"
      using new(1) by (auto simp: t' set_update_rows)
    then obtain s0 where "s0 \<in> set (snapshots t0)" "sn_id s0 = sn_id s"
        "(sn_status s0, sn_status s) \<in> lifecycle\<^sup>*"
      using assms(1,3) new(2) by (auto simp: history_def split: if_splits)
    then show ?thesis
      using s(2) assms(3) step [of s] rtrancl_into_rtrancl [of "sn_status s0" "sn_status s" lifecycle]
      by (cases "p t s") auto
  qed
  ultimately show ?thesis
    using assms(1) by (auto simp: history_def t')
qed

lemma history_delete_snapshot:
  assumes "history t0 t" and "t_delete_snapshot i t = Inr (x, t')"
  shows "history t0 t'"
proof -
  have "schema_ok t'"
    using assms t_delete_snapshot_ok by (auto simp: history_def)
  moreover have same: "snapshots t' = filter (\<lambda>s. \<not> (sn_id s = i \<and> sn_status s = ''deleting'')) (snapshots t)"
    "snapshot_seq t' = snapshot_seq t"
    using assms(2) by (auto simp: t_delete_snapshot_def Let_def t_remove_entries_def)
  moreover have "(sn_status s0, ''deleting'') \<in> lifecycle\<^sup>*"
    if gone: "s0 \<in> set (snapshots t0)" "sn_id s0 \<notin> sn_id ` set (snapshots t')" for s0
  proof (cases "sn_id s0 \<in> sn_id ` set (snapshots t)")
    case True
    then obtain s where s: "s \<in> set (snapshots t)" "sn_id s = sn_id s0" "sn_status s = ''deleting''"
      using gone(2) same(1) by (auto simp: image_iff)
    moreover have "sn_id s \<le> snapshot_seq t0"
      using gone(1) s(2) assms(1) by (auto simp: history_def schema_ok_def snapshots_ok_def)
    ultimately obtain s1 where "s1 \<in> set (snapshots t0)" "sn_id s1 = sn_id s0"
        "(sn_status s1, ''deleting'') \<in> lifecycle\<^sup>*"
      using assms(1) by (fastforce simp: history_def)
    then show ?thesis
      using snapshot_table.same_key [of t0 s1 s0] gone(1) assms(1) by (auto simp: history_def)
  next
    case False
    then show ?thesis using assms(1) gone(1) by (auto simp: history_def)
  qed
  ultimately show ?thesis
    using assms(1) by (auto simp: history_def)
qed

end
