(* ===== verification/Store_Runs.thy ===== *)
theory Store_Runs
  imports Metadata_Safety
begin

text \<open>
  Histories of a metadata database: any sequence of store operations, transactions that are committed
  or rolled back, and crashes at any point, with any statement failing at any time. The kept
  predicates of \<^verbatim>\<open>Metadata_Safety\<close> become statements about every state such a history reaches.
\<close>

interpretation history: store_invariant "history t0" "\<lambda>_. True" "\<lambda>_. True" "\<lambda>_. True" for t0
proof unfold_locales
  fix t p f x t'
  assume "history t0 t" "t_update_snapshots p f t = Inr (x, t')" "\<And>s. sn_id (f s) = sn_id s"
    "\<And>s. p t s \<Longrightarrow> (sn_status s, sn_status (f s)) \<in> lifecycle"
  then show "history t0 t'" by (rule history_update)
next
  fix t t' i e n x
  assume *: "history t0 t" "t_insert_entry i e n t = Inr (x, t')"
  then have "schema_ok t'" by (auto simp: history_def intro: t_insert_entry_ok)
  with * show "history t0 t'"
    by (auto elim!: t_insert_entry_Inr intro: history_same_snapshots)
next
  fix t t' j sq h off len u
  assume *: "history t0 t" "t_insert_entry_chunk j sq h off len t = Inr (u, t')"
  then have "schema_ok t'" by (auto simp: history_def intro: t_insert_entry_chunk_ok)
  with * show "history t0 t'"
    by (auto elim!: t_insert_entry_chunk_Inr intro: history_same_snapshots)
qed (erule (1) history_insert_snapshot history_delete_snapshot
  | (rule history_same_snapshots, assumption,
     (fastforce simp: history_def intro: schema_keeps)[1],
     (fastforce simp: t_delete_entry_batch_def t_delete_warning_batch_def t_remove_entries_def
       t_set_file_hash_def t_insert_chunk_def t_insert_warning_def constraint_failed_def Let_def
       split: if_splits)+))+

section \<open>Calls\<close>

datatype store_call =
    Create_pending_snapshot string string int
  | Mark_snapshot_complete SnapshotId SnapshotTotals int
  | Mark_snapshot_incomplete SnapshotId SnapshotStatus string int
  | Transition_snapshot_to_deleting SnapshotId
  | Mark_stale_pending_snapshot_failed SnapshotId string int
  | Delete_deleting_snapshot SnapshotId size_t
  | Clean_incomplete_snapshot SnapshotId size_t
  | Insert_entry SnapshotId ScannedEntry
  | Set_regular_file_hash int string
  | Ensure_chunk StoredChunkInfo
  | Insert_entry_chunk int int string ByteCount ByteCount
  | Insert_warning SnapshotId string string string
  | Begin_transaction
  | Commit
  | Rollback
  | Crash "nat \<Rightarrow> string option" "FailurePoint \<Rightarrow> nat \<Rightarrow> exn option"

text \<open>A crash loses the open transaction; the next process finds the committed tables, and other
  faults.\<close>

definition crash ::
  "(nat \<Rightarrow> string option) \<Rightarrow> (FailurePoint \<Rightarrow> nat \<Rightarrow> exn option) \<Rightarrow> conn \<Rightarrow> conn" where
  "crash f g c = c\<lparr>db := committed c, saved := None, faults := f, injector := g\<rparr>"

fun exec_call :: "store_call \<Rightarrow> conn \<Rightarrow> conn" where
  "exec_call (Create_pending_snapshot root msg at) c = snd (create_pending_snapshot root msg at c)"
| "exec_call (Mark_snapshot_complete i totals at) c = snd (mark_snapshot_complete i totals at c)"
| "exec_call (Mark_snapshot_incomplete i st m at) c = snd (mark_snapshot_incomplete i st m at c)"
| "exec_call (Transition_snapshot_to_deleting i) c = snd (transition_snapshot_to_deleting i c)"
| "exec_call (Mark_stale_pending_snapshot_failed i m at) c =
     snd (mark_stale_pending_snapshot_failed i m at c)"
| "exec_call (Delete_deleting_snapshot i n) c = snd (delete_deleting_snapshot i n c)"
| "exec_call (Clean_incomplete_snapshot i n) c = snd (clean_incomplete_snapshot i n c)"
| "exec_call (Insert_entry i e) c = snd (insert_entry i e c)"
| "exec_call (Set_regular_file_hash j h) c = snd (set_regular_file_hash j h c)"
| "exec_call (Ensure_chunk ch) c = snd (ensure_chunk ch c)"
| "exec_call (Insert_entry_chunk j sq h off len) c = snd (insert_entry_chunk j sq h off len c)"
| "exec_call (Insert_warning i p cd m) c = snd (insert_warning i p cd m c)"
| "exec_call Begin_transaction c = snd (begin_transaction c)"
| "exec_call Commit c = snd (commit c)"
| "exec_call Rollback c = snd (rollback c)"
| "exec_call (Crash f g) c = crash f g c"

text \<open>The calls that name snapshot \<open>sid\<close> as the one to extend or delete.\<close>

fun spares :: "SnapshotId \<Rightarrow> published \<Rightarrow> store_call \<Rightarrow> bool" where
  "spares sid V (Transition_snapshot_to_deleting i) = (i \<noteq> sid)"
| "spares sid V (Insert_entry i e) = (i \<noteq> sid)"
| "spares sid V (Insert_warning i p cd m) = (i \<noteq> sid)"
| "spares sid V (Insert_entry_chunk j sq h off len) = (j \<notin> view_entry_ids V)"
| "spares sid V call = True"

inductive store_reach :: "(store_call \<Rightarrow> bool) \<Rightarrow> conn \<Rightarrow> conn \<Rightarrow> bool" for ok c0 where
  start: "store_reach ok c0 c0"
| step: "store_reach ok c0 c \<Longrightarrow> ok call \<Longrightarrow> store_reach ok c0 (exec_call call c)"

lemma crash_keeps: "on_db I c \<Longrightarrow> on_db I (crash f g c)"
  by (simp add: on_db_def crash_def committed_def)

text \<open>Every kept predicate holds in every reachable state.\<close>

context store_invariant
begin

lemma exec_call_keeps:
  assumes "on_db I c"
    and "\<And>i. call = Transition_snapshot_to_deleting i \<Longrightarrow> deletable i"
    and "\<And>i e. call = Insert_entry i e \<Longrightarrow> target i"
    and "\<And>i p cd m. call = Insert_warning i p cd m \<Longrightarrow> target i"
    and "\<And>j sq h off len. call = Insert_entry_chunk j sq h off len \<Longrightarrow> entry_target j"
  shows "on_db I (exec_call call c)"
proof -
  have exec_int: "keeps (on_db I) m \<Longrightarrow> on_db I (snd (m c))" for m :: "(conn, int) proc"
    using assms(1) by (simp add: keeps_def)
  have exec_unit: "keeps (on_db I) m \<Longrightarrow> on_db I (snd (m c))" for m :: "(conn, unit) proc"
    using assms(1) by (simp add: keeps_def)
  show ?thesis
    using assms
    by (cases call) (auto intro!: exec_int exec_unit crash_keeps intro: keeps_intros)
qed

end

section \<open>What every history keeps\<close>

lemma store_reach_keeps:
  assumes "store_reach ok c0 c" and "on_db I c0"
    and "\<And>call c. ok call \<Longrightarrow> on_db I c \<Longrightarrow> on_db I (exec_call call c)"
  shows "on_db I c"
  using assms(1,2)
proof (induction rule: store_reach.induct)
  case (step c call)
  then show ?case by (auto intro: assms(3))
qed simp

text \<open>A database with one complete snapshot of one file, and a quiet connection to it.\<close>

definition demo_hash :: string where
  "demo_hash = replicate 64 (CHR ''a'')"

definition demo_tables :: tables where
  "demo_tables = \<lparr>
     snapshots = [\<lparr>sn_id = 1, sn_created_at_ns = 5, sn_completed_at_ns = Some 6,
        sn_source_root = ''/home'', sn_message = ''first'', sn_status = ''complete'',
        sn_file_count = 1, sn_directory_count = 0, sn_symlink_count = 0, sn_logical_size = 3,
        sn_new_stored_size = 12, sn_new_chunk_count = 1, sn_reused_chunk_count = 0,
        sn_duration_ms = 1, sn_failure_message = None\<rparr>],
     entries = [\<lparr>en_id = 1, en_snapshot_id = 1, en_relative_path = ''a'', en_parent_path = [],
        en_name = ''a'', en_type = ''file'', en_logical_size = 3, en_modified_time_ns = 0,
        en_posix_mode = 420, en_windows_attributes = None, en_file_hash = Some demo_hash,
        en_symlink_target = None\<rparr>],
     chunks = [\<lparr>ck_hash = demo_hash, ck_raw_size = 3, ck_compressed_size = 12,
        ck_object_path = ''objects/aa/aaaa'', ck_created_at_ns = 5\<rparr>],
     entry_chunks = [\<lparr>ec_entry_id = 1, ec_sequence_number = 0, ec_chunk_hash = demo_hash,
        ec_raw_offset = 0, ec_raw_length = 3\<rparr>],
     snapshot_warnings = [], snapshot_seq = 1, entry_seq = 1, warning_seq = 0\<rparr>"

definition quiet :: "tables \<Rightarrow> conn" where
  "quiet t = \<lparr>db = t, saved = None, faults = (\<lambda>_. None), injector = (\<lambda>_ _. None), tick = 0\<rparr>"

lemma quiet_simps [simp]: "db (quiet t) = t" "saved (quiet t) = None" "committed (quiet t) = t"
  by (simp_all add: quiet_def committed_def)

lemma demo_tables_ok: "schema_ok demo_tables"
  by (simp add: schema_defs demo_tables_def status_values_def entry_type_values_def)

text \<open>A second snapshot is started, a file is recorded for it, and the process dies.\<close>

definition demo_calls :: "store_call list" where
  "demo_calls = [Begin_transaction, Create_pending_snapshot ''/home'' ''second'' 7,
     Insert_entry 2 \<lparr>se_source_path = ''/home/b'', se_relative_path = ''b'', se_parent_path = [],
       se_name = ''b'', se_type = regular_file, se_logical_size = 4, se_modified_time_ns = 0,
       se_posix_mode = 420, se_symlink_target = None\<rparr>, Commit,
     Crash (\<lambda>_. None) (\<lambda>_ _. None)]"

lemma fold_reach:
  assumes "store_reach ok c0 c" and "\<forall>call \<in> set calls. ok call"
  shows "store_reach ok c0 (fold exec_call calls c)"
  using assms by (induction calls arbitrary: c) (auto intro: store_reach.step)

lemma published_frozen:
  assumes "schema_ok (db c0)" and "saved c0 = None" and "snapshot_has_status (db c0) sid [''complete'']"
    and "store_reach (spares sid (published_view sid (db c0))) c0 c"
  shows "on_db (frozen sid (published_view sid (db c0))) c"
proof (rule store_reach_keeps [OF assms(4)])
  let ?V = "published_view sid (db c0)"
  show "on_db (frozen sid ?V) c0"
    using assms by (simp add: on_db_def committed_def frozen_def)
  show "on_db (frozen sid ?V) (exec_call call c)"
    if "spares sid ?V call" "on_db (frozen sid ?V) c" for call c
    using that(1) by (intro frozen.exec_call_keeps that(2)) auto
qed

text \<open>
  [C2] The rows of a complete snapshot do not change: after any history in which no call names that
  snapshot as the one to delete, or it or its entries as the one to extend (other snapshots may be created,
  completed, failed, cleaned and deleted, and the process may crash at any statement), the snapshot is
  still complete and its row, entries, chunk references, chunk rows and warnings are the same, in the
  working and in the committed tables. The calls that complete, fail or clean snapshots and those that set
  file hashes may name the snapshot: their conditions protect it. The insertions do not look at the status;
  that they name pending snapshots only is up to the caller.
\<close>

theorem complete_snapshot_immutable:
  assumes "schema_ok (db c0)" and "saved c0 = None"
    and "snapshot_has_status (db c0) sid [''complete'']"
    and "store_reach (spares sid (published_view sid (db c0))) c0 c"
  shows "snapshot_has_status (committed c) sid [''complete''] \<and>
         published_view sid (committed c) = published_view sid (db c0) \<and>
         published_view sid (db c) = published_view sid (db c0)"
  using published_frozen [OF assms] by (auto simp: on_db_def frozen_def)

theorem complete_snapshot_immutable_witness:
  "published_view 1 (committed (fold exec_call demo_calls (quiet demo_tables))) =
   published_view 1 demo_tables"
proof -
  have "snapshot_has_status demo_tables 1 [''complete'']"
    by (simp add: demo_tables_def snapshot_has_status_def)
  moreover have "\<forall>call \<in> set demo_calls. spares 1 (published_view 1 demo_tables) call"
    by (simp add: demo_calls_def demo_tables_def view_entry_ids_def published_view_def)
  ultimately show ?thesis
    using complete_snapshot_immutable [of "quiet demo_tables" 1, OF _ _ _
        fold_reach [OF store_reach.start]] demo_tables_ok by simp
qed

text \<open>
  [C17] Snapshot rows follow their life cycle: over any history identifiers are never reused, every
  surviving row's status is reached from its earlier one by pending to complete, failed or cancelled
  and complete to deleting, and a row disappears only after it was deleting.
\<close>

theorem snapshot_lifecycle:
  assumes "schema_ok (db c0)" and "saved c0 = None" and "store_reach (\<lambda>_. True) c0 c"
  shows "history (db c0) (committed c)"
proof -
  have "on_db (history (db c0)) c"
  proof (rule store_reach_keeps [OF assms(3)])
    show "on_db (history (db c0)) c0"
      using assms by (simp add: on_db_def committed_def history_refl)
  qed (rule history.exec_call_keeps, simp_all)
  then show ?thesis by (simp add: on_db_def)
qed

theorem snapshot_lifecycle_witness:
  "history demo_tables (committed (fold exec_call demo_calls (quiet demo_tables)))"
  using snapshot_lifecycle [of "quiet demo_tables", OF _ _ fold_reach [OF store_reach.start]]
  by (simp add: demo_tables_ok)

section \<open>Reading a complete snapshot\<close>

text \<open>The entries and chunk references that the readers return are those of the published view.\<close>

definition view_references :: "published \<Rightarrow> int \<Rightarrow> (entry_chunk_row \<times> chunk_row) list" where
  "view_references V j =
     sort_key (\<lambda>(r, c). ec_sequence_number r)
       [(r, c). (r, cs) \<leftarrow> fst (snd (snd V)), ec_entry_id r = j, c \<leftarrow> cs]"

lemma complete_entries_view: "frozen sid V t \<Longrightarrow> complete_entries sid t = fst (snd V)"
  by (auto simp: frozen_def published_view_def complete_entries_def entries_of_def intro!: filter_cong)

lemma comp_of_filter:
  assumes "\<And>x. p x \<Longrightarrow> q x" and "\<And>x. p x \<Longrightarrow> F x = G x (R x)"
  shows "concat (map (\<lambda>x. if p x then F x else []) xs) =
    concat (map (\<lambda>(x, y). if p x then G x y else []) (map (\<lambda>x. (x, R x)) (filter q xs)))"
  using assms by (induction xs) auto

lemma comp_rows_with: "concat (map (\<lambda>x. if key x = k then f x else []) xs) = concat (map f (rows_with key k xs))"
  by (induction xs) (auto simp: rows_with_def)

lemma chunk_reference_rows_view:
  assumes "frozen sid V t" and "j \<in> view_entry_ids V"
  shows "chunk_reference_rows j t = view_references V j"
proof -
  have ok: "schema_ok t" and complete: "snapshot_has_status t sid [''complete'']"
    and V: "published_view sid t = V"
    using assms(1) by (auto simp: frozen_def)
  have ids: "j \<in> entry_ids t sid"
    using assms frozen_entry_ids by simp
  then obtain e where e: "e \<in> set (entries t)" "en_id e = j" "en_snapshot_id e = sid"
    by (auto simp: entry_ids_def entries_of_def)
  obtain s where s: "s \<in> set (snapshots t)" "sn_id s = sid" "sn_status s = ''complete''"
    using complete by (auto simp: snapshot_has_status_def list_ex_iff)
  have rows_e: "rows_with en_id j (entries t) = [e]" and rows_s: "rows_with sn_id sid (snapshots t) = [s]"
    using entry_table.lookup_member [OF ok e(1)] snapshot_table.lookup_member [OF ok s(1)] e s by simp_all
  show ?thesis
    unfolding chunk_reference_rows_def view_references_def V [symmetric] published_view_def fst_conv
      snd_conv
  proof (intro arg_cong [where f = "sort_key _"] comp_of_filter)
    fix r :: entry_chunk_row assume r: "ec_entry_id r = j"
    then show "ec_entry_id r \<in> entry_ids t sid" using ids by simp
    show "concat (map (\<lambda>c. if ck_hash c = ec_chunk_hash r then
          concat (map (\<lambda>e. if en_id e = ec_entry_id r then
            concat (map (\<lambda>s. if sn_id s = en_snapshot_id e then
              if sn_status s = ''complete'' then [(r, c)] else [] else []) (snapshots t)) else [])
            (entries t)) else []) (chunks t)) =
        map (Pair r) (rows_with ck_hash (ec_chunk_hash r) (chunks t))"
      unfolding r comp_rows_with rows_e by (simp add: e rows_s rows_with_single s)
  qed
qed

lemma incomplete_entries: "\<not> snapshot_has_status t s [''complete''] \<Longrightarrow> complete_entries s t = []"
  by (auto simp: complete_entries_def)

lemma list_entries_frozen:
  "frozen sid V (db c) \<Longrightarrow> healthy c \<Longrightarrow>
   fst (list_entries sid c) = mapE read_entry (sort_key en_relative_path (fst (snd V)))"
  by (simp add: list_entries_def bindp_def query_def sql_healthy liftp_def complete_entries_view)

lemma list_entry_chunks_frozen:
  "frozen sid V (db c) \<Longrightarrow> healthy c \<Longrightarrow> j \<in> view_entry_ids V \<Longrightarrow>
   fst (list_entry_chunks j c) = mapE read_chunk_reference (view_references V j)"
  by (simp add: list_entry_chunks_def bindp_def query_def sql_healthy liftp_def chunk_reference_rows_view)

text \<open>
  [C18] Readers get exactly what was published. After any history that neither extends nor deletes a complete
  snapshot, whatever else was written, failed or crashed in between, \<^verbatim>\<open>list_entries\<close> returns the entries that
  the snapshot had at the beginning, all of them and in the order of their paths, and
  \<^verbatim>\<open>list_entry_chunks\<close> returns for each of them the chunk references that it had, joined with their chunk
  rows and in the order of their sequence numbers. Of a snapshot that is not complete, \<^verbatim>\<open>list_entries\<close> returns
  nothing.
\<close>

theorem readers_see_published_view:
  assumes "schema_ok (db c0)" and "saved c0 = None" and "snapshot_has_status (db c0) sid [''complete'']"
    and "store_reach (spares sid (published_view sid (db c0))) c0 c" and "healthy c"
  shows "fst (list_entries sid c) = mapE read_entry (sort_key en_relative_path (entries_of (db c0) sid)) \<and>
    (\<forall>e \<in> set (entries_of (db c0) sid). fst (list_entry_chunks (en_id e) c) =
       mapE read_chunk_reference (view_references (published_view sid (db c0)) (en_id e))) \<and>
    (\<forall>s. \<not> snapshot_has_status (db c) s [''complete''] \<longrightarrow> fst (list_entries s c) = Inr [])"
proof (intro conjI ballI allI impI)
  let ?V = "published_view sid (db c0)"
  have frozen: "frozen sid ?V (db c)" using published_frozen [OF assms(1-4)] by (simp add: on_db_def)
  then show "fst (list_entries sid c) = mapE read_entry (sort_key en_relative_path (entries_of (db c0) sid))"
    using list_entries_frozen [OF _ assms(5)] by (simp add: published_view_def)
  show "fst (list_entry_chunks (en_id e) c) = mapE read_chunk_reference (view_references ?V (en_id e))"
    if "e \<in> set (entries_of (db c0) sid)" for e
    by (rule list_entry_chunks_frozen [OF frozen assms(5)]) (use that in \<open>simp add: view_entry_ids_def published_view_def\<close>)
  show "fst (list_entries s c) = Inr []" if "\<not> snapshot_has_status (db c) s [''complete'']" for s
    using that assms(5)
    by (simp add: list_entries_def bindp_def query_def sql_healthy liftp_def incomplete_entries)
qed

theorem readers_see_published_view_witness:
  "fst (list_entries 1 (fold exec_call demo_calls (quiet demo_tables))) = mapE read_entry (entries demo_tables) \<and>
   fst (list_entry_chunks 1 (fold exec_call demo_calls (quiet demo_tables))) =
     mapE read_chunk_reference [(hd (entry_chunks demo_tables), hd (chunks demo_tables))]"
proof -
  let ?V = "published_view 1 demo_tables" and ?c = "fold exec_call demo_calls (quiet demo_tables)"
  have "\<forall>call \<in> set demo_calls. spares 1 ?V call"
    by (simp add: demo_calls_def demo_tables_def view_entry_ids_def published_view_def)
  then have run: "store_reach (spares 1 (published_view 1 (db (quiet demo_tables)))) (quiet demo_tables) ?c"
    using fold_reach [OF store_reach.start] by simp
  have complete: "snapshot_has_status demo_tables 1 [''complete'']"
    by (simp add: demo_tables_def snapshot_has_status_def)
  have healthy: "healthy ?c" by (simp add: demo_calls_def healthy_def crash_def)
  have refs: "view_references ?V 1 = [(hd (entry_chunks demo_tables), hd (chunks demo_tables))]"
    by (simp add: view_references_def published_view_def demo_tables_def entry_ids_def entries_of_def rows_with_def)
  have stored: "entries_of demo_tables 1 = entries demo_tables"
    "sort_key en_relative_path (entries demo_tables) = entries demo_tables"
    by (simp_all add: demo_tables_def entries_of_def)
  obtain e where e: "e \<in> set (entries demo_tables)" "en_id e = 1" by (simp add: demo_tables_def)
  have start: "schema_ok (db (quiet demo_tables))" "saved (quiet demo_tables) = None"
    "snapshot_has_status (db (quiet demo_tables)) 1 [''complete'']"
    using demo_tables_ok complete by simp_all
  note read = readers_see_published_view [OF start run healthy, unfolded quiet_simps stored]
  show ?thesis
    using read [THEN conjunct1] bspec [OF read [THEN conjunct2, THEN conjunct1] e(1)] unfolding e(2) refs by simp
qed

end
