(* ===== verification/Publication.thy ===== *)
theory Publication
  imports Store_Runs
begin

text \<open>
  Publication of a snapshot: what \<^verbatim>\<open>mark_snapshot_complete\<close> checks and records, and the
  predicate \<open>hashed_except\<close>, that every regular file of every complete snapshot carries a valid
  content hash.
\<close>

section \<open>Complete snapshots are hashed\<close>

text \<open>\<open>P\<close> are the snapshots still being written; \<open>hashed_except {}\<close> speaks of all of them.\<close>

definition hashed_except :: "SnapshotId set \<Rightarrow> tables \<Rightarrow> bool" where
  "hashed_except P t \<longleftrightarrow> schema_ok t \<and>
     (\<forall>e \<in> set (entries t). \<forall>h. en_file_hash e = Some h \<longrightarrow> is_lowercase_blake3_hex h) \<and>
     (\<forall>e \<in> set (entries t). en_type e = ''file'' \<longrightarrow> en_snapshot_id e \<notin> P \<longrightarrow>
        snapshot_has_status t (en_snapshot_id e) [''complete''] \<longrightarrow> en_file_hash e \<noteq> None)"

lemma hashed_shrink:
  assumes "hashed_except P t" and "schema_ok t'" and "set (entries t') \<subseteq> set (entries t)"
    and "\<And>i. snapshot_has_status t' i [''complete''] \<Longrightarrow> snapshot_has_status t i [''complete'']"
  shows "hashed_except P t'"
  using assms unfolding hashed_except_def by blast

lemma hashed_insert_snapshot:
  assumes "hashed_except P t" and "t_insert_snapshot a b d t = Inr (x, t')"
  shows "hashed_except P t'"
  by (rule hashed_shrink [OF assms(1)])
    (use assms t_insert_snapshot_ok in \<open>auto simp: hashed_except_def t_insert_snapshot_def Let_def
      constraint_failed_def snapshot_has_status_def split: if_splits\<close>)

lemma hashed_update:
  assumes "hashed_except P t" and "t_update_snapshots p f t = Inr (x, t')"
    and "\<And>s. sn_id (f s) = sn_id s"
    and step: "\<And>s. p t s \<Longrightarrow> (sn_status s, sn_status (f s)) \<in> lifecycle"
    and hashed: "\<And>s. p t s \<Longrightarrow> sn_status (f s) = ''complete'' \<Longrightarrow> \<not> has_unhashed_file t (sn_id s)"
  shows "hashed_except P t'"
proof -
  have t': "t' = t\<lparr>snapshots := update_rows (p t) f (snapshots t)\<rparr>"
    using assms(2) by (simp add: t_update_snapshots_def)
  have "schema_ok t'"
    using assms(1) t_update_snapshots_ok [OF _ assms(2,3)] lifecycle_values [OF step]
    by (simp add: hashed_except_def)
  moreover have "snapshot_has_status t i [''complete''] \<or> \<not> has_unhashed_file t i"
    if "snapshot_has_status t' i [''complete'']" for i
    using that hashed assms(3)
    by (auto simp: t' snapshot_has_status_def list_ex_iff set_update_rows split: if_splits)
  moreover have "en_file_hash e \<noteq> None"
    if "\<not> has_unhashed_file t (en_snapshot_id e)" "e \<in> set (entries t)" "en_type e = ''file''" for e
    using that by (auto simp: has_unhashed_file_def entries_of_def list_ex_iff)
  ultimately show ?thesis
    using assms(1) unfolding hashed_except_def by (simp add: t') metis
qed

lemma hashed_insert_entry:
  assumes "hashed_except P t" and "t_insert_entry i e n t = Inr (x, t')" and "i \<in> P"
  shows "hashed_except P t'"
  using assms(2)
proof (rule t_insert_entry_Inr)
  assume "t' = t\<lparr>entries := entries t @ [new_entry_row (entry_seq t + 1) i e n],
      entry_seq := entry_seq t + 1\<rparr>"
  moreover have "schema_ok t'"
    using assms t_insert_entry_ok by (auto simp: hashed_except_def)
  ultimately show ?thesis
    using assms(1,3) by (auto simp: hashed_except_def snapshot_has_status_def)
qed

lemma hashed_set_hash:
  assumes "hashed_except P t" and "t_set_file_hash j h t = Inr (x, t')"
    and "is_lowercase_blake3_hex h"
  shows "hashed_except P t'"
proof -
  have "schema_ok t'"
    using assms t_set_file_hash_ok by (auto simp: hashed_except_def)
  then show ?thesis
    using assms by (auto simp: hashed_except_def t_set_file_hash_def Let_def set_update_rows
        snapshot_has_status_def)
qed

lemma hashed_insert_entry_chunk:
  assumes "hashed_except P t" and "t_insert_entry_chunk j sq h off len t = Inr (u, t')"
  shows "hashed_except P t'"
  using assms(2) by (rule t_insert_entry_chunk_Inr, intro hashed_shrink [OF assms(1)])
    (use assms t_insert_entry_chunk_ok in \<open>auto simp: hashed_except_def snapshot_has_status_def\<close>)

lemma hashed_delete_snapshot:
  assumes "hashed_except P t" and "t_delete_snapshot i t = Inr (x, t')"
  shows "hashed_except P t'"
  by (rule hashed_shrink [OF assms(1)])
    (use assms t_delete_snapshot_ok in \<open>auto simp: hashed_except_def t_delete_snapshot_def Let_def
      t_remove_entries_def snapshot_has_status_def list_ex_iff\<close>)

interpretation hashed: store_invariant "hashed_except P" "\<lambda>i. i \<in> P" "\<lambda>_. True" "\<lambda>_. True" for P
proof unfold_locales
  fix t p f x t'
  assume "hashed_except P t" "t_update_snapshots p f t = Inr (x, t')" "\<And>s. sn_id (f s) = sn_id s"
    "\<And>s. p t s \<Longrightarrow> (sn_status s, sn_status (f s)) \<in> lifecycle"
    "\<And>s. p t s \<Longrightarrow> sn_status (f s) = ''complete'' \<Longrightarrow> \<not> has_unhashed_file t (sn_id s)"
  then show "hashed_except P t'" by (rule hashed_update)
qed (erule (2) hashed_insert_entry hashed_set_hash
  | erule (1) hashed_insert_snapshot hashed_delete_snapshot hashed_insert_entry_chunk
  | (rule hashed_shrink, assumption,
     (fastforce simp: hashed_except_def intro: schema_keeps)[1],
     (fastforce simp: t_delete_entry_batch_def t_delete_warning_batch_def t_remove_entries_def
       t_insert_chunk_def t_insert_warning_def constraint_failed_def Let_def snapshot_has_status_def
       split: if_splits)+))+

section \<open>Publication\<close>

text \<open>The row a completed snapshot is to have: its counts are those of its entries.\<close>

definition published_row :: "tables \<Rightarrow> SnapshotTotals \<Rightarrow> int \<Rightarrow> snapshot_row \<Rightarrow> snapshot_row" where
  "published_row t totals at s =
     s\<lparr>sn_completed_at_ns := Some at, sn_status := ''complete'',
       sn_file_count := count_type t (sn_id s) ''file'',
       sn_directory_count := count_type t (sn_id s) ''directory'',
       sn_symlink_count := count_type t (sn_id s) ''symlink'',
       sn_logical_size := sum_list (map en_logical_size
          (filter (\<lambda>e. en_type e = ''file'') (entries_of t (sn_id s)))),
       sn_new_stored_size := uint (st_new_stored_size totals),
       sn_new_chunk_count := uint (st_new_chunk_count totals),
       sn_reused_chunk_count := uint (st_reused_chunk_count totals),
       sn_duration_ms := st_duration_ms totals\<rparr>"

lemma sql_sum_Inr: "sql_sum acc xs = Inr n \<Longrightarrow> n = acc + sum_list xs"
  by (induction acc xs rule: sql_sum.induct) (auto simp: constraint_failed_def split: if_splits)

lemma sql_sum_range:
  "sql_sum acc xs = Inr n \<Longrightarrow> int64_min \<le> acc \<Longrightarrow> acc \<le> int64_max \<Longrightarrow> int64_min \<le> n \<and> n \<le> int64_max"
  by (induction acc xs rule: sql_sum.induct) (auto simp: constraint_failed_def split: if_splits)

text \<open>A count that went out to an unsigned 64-bit value and back is unchanged.\<close>

lemma checked_there_and_back:
  assumes "checked_uint64 n f = Inr w \<or> checked_byte_count n f = Inr w" and "checked_int64 w g = Inr m"
    and "n \<le> int64_max"
  shows "m = n"
proof -
  have "0 \<le> n" "w = word_of_int n"
    using assms(1) by (auto simp: checked_uint64_def checked_byte_count_def split: if_splits)
  then have "uint w = n"
    using assms(3) by (simp add: uint_word_of_int_eq take_bit_int_eq_self)
  then show ?thesis
    using assms(2) by (simp add: checked_int64_def split: if_splits)
qed

lemma count_type_bound: "schema_ok t \<Longrightarrow> count_type t sid ty \<le> int64_max"
  using entry_count_bound [of t "\<lambda>e. en_type e = ty \<and> en_snapshot_id e = sid"]
  by (simp add: count_type_def entries_of_def conj_commute)

lemma update_rows_cong:
  "(\<And>r. r \<in> set rs \<Longrightarrow> p r = q r) \<Longrightarrow> (\<And>r. r \<in> set rs \<Longrightarrow> p r \<Longrightarrow> f r = g r) \<Longrightarrow>
   update_rows p f rs = update_rows q g rs"
  by (auto simp: update_rows_def)

lemma update_rows_none: "filter p rs = [] \<Longrightarrow> update_rows p f rs = rs"
  by (auto simp: update_rows_def filter_empty_conv intro!: map_idI)

definition publishes ::
  "SnapshotId \<Rightarrow> SnapshotTotals \<Rightarrow> int \<Rightarrow> tables \<Rightarrow> tables \<Rightarrow> bool" where
  "publishes sid totals at t t' \<longleftrightarrow>
     snapshot_has_status t sid [''pending''] \<and> \<not> has_unhashed_file t sid \<and>
     t' = t\<lparr>snapshots := update_rows (\<lambda>s. sn_id s = sid) (published_row t totals at) (snapshots t)\<rparr>"

lemma wp_sql [wp_simps]:
  "wp (sql f) Q E c =
     (case faults c (tick c) of
        Some m \<Rightarrow> E (Lv (LocalVaultError E_database_error m)) (next_tick c)
      | None \<Rightarrow> (case f (db c) of Inl e \<Rightarrow> E e (next_tick c)
                  | Inr (a, t) \<Rightarrow> Q a ((next_tick c)\<lparr>db := t\<rparr>)))"
  by (simp add: wp_def sql_def split: option.split sum.split)

lemma publish_step:
  fixes t totals at
  defines "f \<equiv> \<lambda>nf nd nl sz. \<lambda>s. s\<lparr>sn_completed_at_ns := Some at, sn_status := ''complete'',
      sn_file_count := nf, sn_directory_count := nd, sn_symlink_count := nl, sn_logical_size := sz,
      sn_new_stored_size := uint (st_new_stored_size totals),
      sn_new_chunk_count := uint (st_new_chunk_count totals),
      sn_reused_chunk_count := uint (st_reused_chunk_count totals),
      sn_duration_ms := st_duration_ms totals\<rparr>"
  assumes "schema_ok t"
    and rows: "filter (\<lambda>s. sn_id s = sid \<and> sn_status s = ''pending'' \<and> \<not> has_unhashed_file t sid)
      (snapshots t) = [r]"
    and "nf = count_type t sid ''file''" "nd = count_type t sid ''directory''"
      "nl = count_type t sid ''symlink''"
    and "sz = sum_list (map en_logical_size (filter (\<lambda>e. en_type e = ''file'') (entries_of t sid)))"
  shows "publishes sid totals at t (t\<lparr>snapshots := update_rows
    (\<lambda>s. sn_id s = sid \<and> sn_status s = ''pending'' \<and> \<not> has_unhashed_file t sid) (f nf nd nl sz)
    (snapshots t)\<rparr>)"
proof -
  have "r \<in> set (filter (\<lambda>s. sn_id s = sid \<and> sn_status s = ''pending'' \<and> \<not> has_unhashed_file t sid)
      (snapshots t))"
    unfolding rows by simp
  then have r: "r \<in> set (snapshots t)" "sn_id r = sid" "sn_status r = ''pending''"
    "\<not> has_unhashed_file t sid" by auto
  have "update_rows (\<lambda>s. sn_id s = sid \<and> sn_status s = ''pending'' \<and> \<not> has_unhashed_file t sid)
      (f nf nd nl sz) (snapshots t) = update_rows (\<lambda>s. sn_id s = sid) (published_row t totals at) (snapshots t)"
  proof (rule update_rows_cong)
    fix s assume "s \<in> set (snapshots t)"
    then have "sn_id s = sid \<Longrightarrow> s = r"
      using snapshot_table.same_key [OF assms(2) _ r(1)] r(2) by simp
    then show "(sn_id s = sid \<and> sn_status s = ''pending'' \<and> \<not> has_unhashed_file t sid) = (sn_id s = sid)"
      using r by blast
  qed (simp add: published_row_def f_def assms(4-7))
  moreover have "snapshot_has_status t sid [''pending'']"
    using r by (auto simp: snapshot_has_status_def list_ex_iff)
  ultimately show ?thesis
    using r(4) by (simp add: publishes_def)
qed

lemma t_count_entries_Inr:
  assumes "t_count_entries sid t = Inr ((nf, nd, nl, sz), t')"
  shows "t' = t" and "nf = count_type t sid ''file''" and "nd = count_type t sid ''directory''"
    and "nl = count_type t sid ''symlink''"
    and "sz = sum_list (map en_logical_size (filter (\<lambda>e. en_type e = ''file'') (entries_of t sid)))"
    and "sz \<le> int64_max"
  using assms sql_sum_range [of 0 _ sz]
  by (auto simp: t_count_entries_def bindE_Inr_iff dest: sql_sum_Inr)

lemma single_pending_row:
  assumes "schema_ok t" and "\<nexists>r. map sn_id (filter (\<lambda>s. sn_id s = sid \<and> q s) (snapshots t)) = [r]"
  shows "update_rows (\<lambda>s. sn_id s = sid \<and> q s) f (snapshots t) = snapshots t"
proof (rule update_rows_none)
  have "filter (\<lambda>s. sn_id s = sid \<and> q s) (snapshots t) = filter q (rows_with sn_id sid (snapshots t))"
    by (simp add: rows_with_def)
  moreover have "length (filter q (rows_with sn_id sid (snapshots t))) \<le> 1"
    using snapshot_table.lookup_unique [OF assms(1), of sid] length_filter_le order_trans by blast
  ultimately show "filter (\<lambda>s. sn_id s = sid \<and> q s) (snapshots t) = []"
    using assms(2) by (cases "filter q (rows_with sn_id sid (snapshots t))") (simp_all add: Suc_le_eq)
qed

lemma mark_snapshot_complete_wp:
  assumes ok: "schema_ok (db c)"
  shows "wp (mark_snapshot_complete sid totals at)
    (\<lambda>_ c'. publishes sid totals at (db c) (db c')) (\<lambda>_ c'. db c' = db c) c"
proof (cases "t_count_entries sid (db c)")
  case (Inl e)
  then show ?thesis
    by (simp add: mark_snapshot_complete_def wp_simps split: option.split)
next
  case (Inr counted)
  then obtain nf nd nl sz t' where n: "t_count_entries sid (db c) = Inr ((nf, nd, nl, sz), t')"
    by (metis prod_cases4 surj_pair)
  note counts = t_count_entries_Inr [OF n]
  have same: "m = k"
    if "checked_uint64 k x = Inr w \<or> checked_byte_count k x = Inr w" and "checked_int64 w y = Inr m"
      and "k \<in> {nf, nd, nl, sz}" for k m :: int and w x y
    using checked_there_and_back [OF that(1,2)] that(3) counts count_type_bound [OF ok] by auto
  show ?thesis
    unfolding mark_snapshot_complete_def
    apply (simp add: wp_simps n counts(1) t_update_snapshots_def split: option.split sum.split)
    apply (intro allI impI conjI)
    subgoal
      by (subst single_pending_row [OF ok]) (auto simp: require_single_updated_row_def single_row_def)
    subgoal premises p for c_files c_dirs c_links c_size b_files b_dirs b_links b_size b_stored b_new b_reused
    proof -
      have "b_files = nf" "b_dirs = nd" "b_links = nl" "b_size = sz"
        using p same [of nf "''snapshot file count''" c_files "''snapshot file count''" b_files]
          same [of nd "''snapshot directory count''" c_dirs "''snapshot directory count''" b_dirs]
          same [of nl "''snapshot symlink count''" c_links "''snapshot symlink count''" b_links]
          same [of sz "''snapshot logical size''" c_size "''snapshot logical size''" b_size]
        by simp_all
      moreover have "b_stored = uint (st_new_stored_size totals)" "b_new = uint (st_new_chunk_count totals)"
        "b_reused = uint (st_reused_chunk_count totals)"
        using p checked_int64_range by blast+
      moreover obtain r where "filter (\<lambda>s. sn_id s = sid \<and> sn_status s = ''pending'' \<and>
          \<not> has_unhashed_file (db c) sid) (snapshots (db c)) = [r]"
        using p by (auto simp: require_single_Inr_iff)
      ultimately show ?thesis
        using publish_step [OF ok _ counts(2-5)] by simp
    qed
    done
qed

text \<open>
  [C15] Publication: a call of \<^verbatim>\<open>mark_snapshot_complete\<close> that returns found the snapshot
  pending and all its regular files hashed, and changed nothing but its row, which is now complete
  and records the number of file, directory and symlink entries and the sum of the file sizes; a call
  that raises, for whatever reason, changed nothing.
\<close>

theorem publication_correct:
  assumes "schema_ok (db c)" and "mark_snapshot_complete sid totals at c = (r, c')"
  shows "case r of Inr _ \<Rightarrow> publishes sid totals at (db c) (db c') | Inl _ \<Rightarrow> db c' = db c"
  using mark_snapshot_complete_wp [OF assms(1), of sid totals at] assms(2)
  by (auto simp: wp_def split: sum.splits)

text \<open>A pending snapshot with one hashed file, ready to be published.\<close>

definition pending_tables :: tables where
  "pending_tables = demo_tables\<lparr>snapshots := map (\<lambda>s. s\<lparr>sn_status := ''pending''\<rparr>) (snapshots demo_tables)\<rparr>"

definition demo_totals :: SnapshotTotals where
  "demo_totals = \<lparr>st_file_count = 0, st_directory_count = 0, st_symlink_count = 0, st_logical_size = 0,
     st_new_stored_size = 12, st_new_chunk_count = 1, st_reused_chunk_count = 0,
     st_duration_ms = 2\<rparr>"

theorem publication_correct_witness:
  "publishes 1 demo_totals 9 pending_tables (db (snd (mark_snapshot_complete 1 demo_totals 9 (quiet pending_tables))))"
proof -
  have "schema_ok pending_tables"
    by (simp add: schema_defs pending_tables_def demo_tables_def status_values_def entry_type_values_def)
  moreover have "fst (mark_snapshot_complete 1 demo_totals 9 (quiet pending_tables)) = Inr ()"
    by code_simp
  ultimately show ?thesis
    using publication_correct [of "quiet pending_tables" 1 demo_totals 9, OF _ prod.collapse [symmetric]]
    by simp
qed

end
