(* ===== verification/Recovery.thy ===== *)
theory Recovery
  imports Publication
begin

text \<open>
  Crash recovery (\<^verbatim>\<open>Repository::recover_after_writer_lock\<close> and its helpers in
  \<^verbatim>\<open>src/core/repository.cpp\<close>): unfinished snapshots are failed and emptied, interrupted
  deletions are finished, the temporary tree is cleared, and the relationships of the metadata are
  checked.
\<close>

section \<open>The temporary tree\<close>

text \<open>
  The children of \<^verbatim>\<open><root>/temporary\<close>. What the file system answers is a parameter: whether
  a directory can be listed and the listing continued after a name, what \<^verbatim>\<open>remove_all\<close> does
  with a path (given by its components below \<^verbatim>\<open>temporary\<close>), whether a directory can be
  created.
\<close>

datatype temp_node = T_dir "string list" | T_other

datatype remove_outcome = Removed | Sharing_violation | Remove_failed string

record temp_tree =
  tt_children :: "(string \<times> temp_node) list"
  tt_list_error :: "string list \<Rightarrow> string option"
  tt_next_error :: "string list \<Rightarrow> string option"
  tt_remove :: "string list \<Rightarrow> remove_outcome"
  tt_create_error :: "string \<Rightarrow> string option"

definition tt_delete :: "string list \<Rightarrow> temp_tree \<Rightarrow> temp_tree" where
  "tt_delete path t =
     (case path of
        [name] \<Rightarrow> t\<lparr>tt_children := filter (\<lambda>(n, _). n \<noteq> name) (tt_children t)\<rparr>
      | [name, child] \<Rightarrow> t\<lparr>tt_children := map (\<lambda>(n, node).
            (n, if n = name then (case node of T_dir ns \<Rightarrow> T_dir (filter (\<lambda>c. c \<noteq> child) ns) | T_other \<Rightarrow> T_other)
                else node)) (tt_children t)\<rparr>
      | _ \<Rightarrow> t)"

definition remove_recovery_path :: "string list \<Rightarrow> (temp_tree, bool) proc" where
  "remove_recovery_path path t =
     (case tt_remove t path of
        Removed \<Rightarrow> (Inr True, tt_delete path t)
      | Sharing_violation \<Rightarrow> (Inr False, t)
      | Remove_failed m \<Rightarrow>
          (throw_lv E_filesystem_error (''failed to remove temporary recovery path: '' @ m), t))"

definition next_or_fail :: "string \<Rightarrow> string list \<Rightarrow> (temp_tree, unit) proc" where
  "next_or_fail text path t =
     (case tt_next_error t path of
        None \<Rightarrow> (Inr (), t)
      | Some m \<Rightarrow> (throw_lv E_filesystem_error (text @ m), t))"

fun clear_names :: "string \<Rightarrow> string list \<Rightarrow> bool \<Rightarrow> (temp_tree, bool) proc" where
  "clear_names dir [] complete = ret complete"
| "clear_names dir (name # names) complete =
     bindp (remove_recovery_path [dir, name]) (\<lambda>removed.
     seqp (next_or_fail ''failed to continue inspecting temporary recovery directory: ''
             [dir, name])
       (clear_names dir names (removed \<and> complete)))"

definition child_names :: "string \<Rightarrow> temp_tree \<Rightarrow> string list" where
  "child_names dir t =
     (case map_of (tt_children t) dir of Some (T_dir ns) \<Rightarrow> ns | _ \<Rightarrow> [])"

definition clear_directory_contents :: "string \<Rightarrow> (temp_tree, bool) proc" where
  "clear_directory_contents dir =
     bindp (gets (\<lambda>t. tt_list_error t [dir])) (\<lambda>err.
     case err of
       Some m \<Rightarrow> raise_lv E_filesystem_error (''failed to inspect temporary recovery directory: '' @ m)
     | None \<Rightarrow> bindp (gets (child_names dir)) (\<lambda>names. clear_names dir names True))"

definition require_recovery_directory :: "string \<Rightarrow> (temp_tree, unit) proc" where
  "require_recovery_directory dir t =
     (case map_of (tt_children t) dir of
        None \<Rightarrow>
          (case tt_create_error t dir of
             None \<Rightarrow> (Inr (), t\<lparr>tt_children := tt_children t @ [(dir, T_dir [])]\<rparr>)
           | Some m \<Rightarrow>
               (throw_lv E_filesystem_error
                  (''failed to recreate temporary recovery directory: '' @ m), t))
      | Some (T_dir _) \<Rightarrow> (Inr (), t)
      | Some T_other \<Rightarrow>
          (throw_lv E_filesystem_error ''temporary recovery path is not a real directory'', t))"

fun clear_tree_names :: "string list \<Rightarrow> bool \<Rightarrow> (temp_tree, bool) proc" where
  "clear_tree_names [] complete = ret complete"
| "clear_tree_names (name # names) complete =
     bindp (if name = ''objects'' \<or> name = ''restores''
            then seqp (require_recovery_directory name) (clear_directory_contents name)
            else remove_recovery_path [name]) (\<lambda>cleared.
     seqp (next_or_fail ''failed to continue inspecting repository temporary directory: '' [name])
       (clear_tree_names names (cleared \<and> complete)))"

definition clear_temporary_tree :: "(temp_tree, bool) proc" where
  "clear_temporary_tree =
     bindp (gets (\<lambda>t. tt_list_error t [])) (\<lambda>err.
     case err of
       Some m \<Rightarrow> raise_lv E_filesystem_error (''failed to inspect repository temporary directory: '' @ m)
     | None \<Rightarrow>
         bindp (gets (\<lambda>t. map fst (tt_children t))) (\<lambda>names.
         bindp (clear_tree_names names True) (\<lambda>complete.
         seqp (require_recovery_directory ''objects'')
         (seqp (require_recovery_directory ''restores'') (ret complete)))))"

section \<open>Recovery\<close>

datatype OpenMode = read_only | read_write

record repository =
  r_conn :: conn
  r_temporary :: temp_tree
  r_mode :: OpenMode
  r_batch_limit :: size_t
  r_recovery_complete :: bool

definition in_conn :: "(conn, 'a) proc \<Rightarrow> (repository, 'a) proc" where
  "in_conn m r = (case m (r_conn r) of (x, c) \<Rightarrow> (x, r\<lparr>r_conn := c\<rparr>))"

definition in_temporary :: "(temp_tree, 'a) proc \<Rightarrow> (repository, 'a) proc" where
  "in_temporary m r = (case m (r_temporary r) of (x, t) \<Rightarrow> (x, r\<lparr>r_temporary := t\<rparr>))"

text \<open>\<open>now\<close> is the clock, read once per stale pending snapshot.\<close>

definition recover_snapshot ::
  "(SnapshotId \<Rightarrow> int) \<Rightarrow> size_t \<Rightarrow> IncompleteSnapshotInfo \<Rightarrow> (conn, unit) proc" where
  "recover_snapshot now limit snapshot =
     (case is_status snapshot of
        S_pending \<Rightarrow>
          seqp (mark_stale_pending_snapshot_failed (is_id snapshot)
                  ''snapshot operation was interrupted before publication'' (now (is_id snapshot)))
            (clean_incomplete_snapshot (is_id snapshot) limit)
      | S_failed \<Rightarrow> clean_incomplete_snapshot (is_id snapshot) limit
      | S_cancelled \<Rightarrow> clean_incomplete_snapshot (is_id snapshot) limit
      | S_deleting \<Rightarrow> delete_deleting_snapshot (is_id snapshot) limit
      | S_complete \<Rightarrow>
          raise_lv E_internal_error ''recovery selected an already complete snapshot'')"

definition recover_metadata :: "(SnapshotId \<Rightarrow> int) \<Rightarrow> size_t \<Rightarrow> (conn, unit) proc" where
  "recover_metadata now limit =
     bindp list_incomplete_snapshots (\<lambda>snapshots. iterp (recover_snapshot now limit) snapshots)"

definition recover_after_writer_lock :: "(SnapshotId \<Rightarrow> int) \<Rightarrow> (repository, unit) proc" where
  "recover_after_writer_lock now =
     bindp (gets (\<lambda>r. (r_recovery_complete r, r_mode r, r_batch_limit r))) (\<lambda>(finished, mode, limit).
     if finished then ret ()
     else if mode \<noteq> read_write
     then raise_lv E_invalid_argument ''recovery requires a read-write repository''
     else
       seqp (in_conn (recover_metadata now limit))
       (bindp (in_temporary clear_temporary_tree) (\<lambda>temporary_cleanup_complete.
        seqp (in_conn quick_relationship_check)
          (modifyp (\<lambda>r. r\<lparr>r_recovery_complete := temporary_cleanup_complete\<rparr>)))))"

definition set_recovery_entry_batch_limit :: "size_t \<Rightarrow> (repository, unit) proc" where
  "set_recovery_entry_batch_limit limit =
     seqp (guardp (limit \<noteq> 0) E_invalid_argument ''recovery entry batch limit must not be zero'')
       (modifyp (\<lambda>r. r\<lparr>r_batch_limit := limit\<rparr>))"

section \<open>Runs without faults\<close>

text \<open>A connection between transactions on which no statement fails.\<close>

definition idle :: "conn \<Rightarrow> bool" where
  "idle c \<longleftrightarrow> healthy c \<and> saved c = None"

lemma idle_committed: "idle c \<Longrightarrow> committed c = db c"
  by (simp add: idle_def committed_def)

lemma transaction_idle:
  assumes "idle c" and "\<And>c1. healthy c1 \<Longrightarrow> db c1 = db c \<Longrightarrow>
      \<exists>c2. body c1 = (Inr a, c2) \<and> healthy c2 \<and> saved c2 = saved c1 \<and> db c2 = t'"
  shows "\<exists>c'. transaction body c = (Inr a, c') \<and> idle c' \<and> db c' = t'"
proof -
  let ?c1 = "(next_tick c)\<lparr>saved := Some (db c)\<rparr>"
  have "healthy ?c1" using assms(1) by (simp add: idle_def healthy_def)
  then obtain c2 where c2: "body ?c1 = (Inr a, c2)" "healthy c2" "saved c2 = Some (db c)" "db c2 = t'"
    using assms(2) [of ?c1] by auto
  have "begin_transaction c = (Inr (), ?c1)"
    using assms(1) by (simp add: idle_def healthy_def begin_transaction_def)
  moreover have "commit c2 = (Inr (), (next_tick c2)\<lparr>saved := None\<rparr>)"
    using c2 by (simp add: healthy_def commit_def)
  ultimately show ?thesis
    using c2 by (simp add: transaction_def proc_defs idle_def healthy_def)
qed

lemma batch_round_idle:
  assumes "idle c" and "status_rows sts i (db c) = [x]" and "d (db c) = Inr (n, t')"
  shows "\<exists>c'. batch_round sts m m' i d c = (Inr n, c') \<and> idle c' \<and> db c' = t'"
  unfolding batch_round_def
  by (rule transaction_idle [OF assms(1)])
    (use assms in \<open>auto simp: proc_defs query_def sql_healthy hit_healthy single_row_def healthy_def
      intro!: exI\<close>)

text \<open>The condition under which the deletion loops run to the end.\<close>

definition draining :: "string list \<Rightarrow> SnapshotId \<Rightarrow> snapshot_row list \<Rightarrow> conn \<Rightarrow> bool" where
  "draining sts i rows c \<longleftrightarrow> idle c \<and> schema_ok (db c) \<and> snapshots (db c) = rows \<and>
     (\<exists>s \<in> set rows. sn_id s = i \<and> sn_status s \<in> set sts)"

lemma draining_status_rows: "draining sts i rows c \<Longrightarrow> \<exists>x. status_rows sts i (db c) = [x]"
proof -
  assume d: "draining sts i rows c"
  then obtain s where s: "s \<in> set (snapshots (db c))" "sn_id s = i" "sn_status s \<in> set sts"
    by (auto simp: draining_def)
  have "rows_with sn_id i (snapshots (db c)) = [s]"
    using snapshot_table.lookup_member [of "db c" s] d s by (simp add: draining_def)
  then have "filter (\<lambda>s. sn_status s \<in> set sts) (rows_with sn_id i (snapshots (db c))) = [s]"
    using s by simp
  then show ?thesis
    by (simp add: status_rows_def rows_with_def conj_commute)
qed

lemma entry_batch_snapshots:
  "t_delete_entry_batch i n t = Inr (k, t') \<Longrightarrow> snapshots t' = snapshots t \<and>
     set (entries t') \<subseteq> set (entries t) \<and> snapshot_warnings t' = snapshot_warnings t"
  by (auto simp: t_delete_entry_batch_def Let_def t_remove_entries_def)

lemma warning_batch_snapshots:
  "t_delete_warning_batch i n t = Inr (k, t') \<Longrightarrow> snapshots t' = snapshots t \<and>
     entries t' = entries t \<and> set (snapshot_warnings t') \<subseteq> set (snapshot_warnings t)"
  by (auto simp: t_delete_warning_batch_def Let_def)

lemma batch_covers:
  assumes "\<And>x. x \<in> set xs \<Longrightarrow> key x \<notin> set (take (nat n) (sort (map key (filter p xs))))" and "0 < n"
  shows "filter p xs = []"
proof (rule ccontr)
  let ?ids = "take (nat n) (sort (map key (filter p xs)))"
  assume "filter p xs \<noteq> []"
  then have "sort (map key (filter p xs)) \<noteq> []"
    by (metis length_0_conv length_map length_sort)
  then have "?ids \<noteq> []" using assms(2) by simp
  then obtain j where j: "j \<in> set ?ids" by (meson list.set_sel(1))
  then have "j \<in> key ` set (filter p xs)" by (auto dest!: in_set_takeD)
  then show False using assms(1) j by auto
qed

lemma entry_batch_zero:
  assumes "t_delete_entry_batch i n t = Inr (0, t')" and "0 < n"
  shows "entries_of t' i = []"
proof -
  have "entries_of t i = []"
    unfolding entries_of_def using assms(1)
    by (intro batch_covers [OF _ assms(2), where key = en_id])
      (auto simp: t_delete_entry_batch_def Let_def filter_empty_conv entries_of_def)
  then show ?thesis
    using entry_batch_snapshots [OF assms(1)] by (auto simp: entries_of_def filter_empty_conv)
qed

lemma warning_batch_zero:
  assumes "t_delete_warning_batch i n t = Inr (0, t')" and "0 < n"
  shows "warnings_of t' i = []"
proof -
  have "warnings_of t i = []"
    unfolding warnings_of_def using assms(1)
    by (intro batch_covers [OF _ assms(2), where key = wa_id])
      (auto simp: t_delete_warning_batch_def Let_def filter_empty_conv warnings_of_def)
  then show ?thesis
    using warning_batch_snapshots [OF assms(1)] by (auto simp: warnings_of_def filter_empty_conv)
qed

text \<open>What both loops do to the other tables: they only remove rows.\<close>

definition shrinks :: "tables \<Rightarrow> tables \<Rightarrow> bool" where
  "shrinks t t' \<longleftrightarrow> set (entries t') \<subseteq> set (entries t) \<and>
     set (snapshot_warnings t') \<subseteq> set (snapshot_warnings t)"

lemma shrinks_refl: "shrinks t t"
  by (simp add: shrinks_def)

lemma shrinks_trans: "shrinks t t' \<Longrightarrow> shrinks t' t'' \<Longrightarrow> shrinks t t''"
  by (auto simp: shrinks_def)

lemma shrinks_empty:
  "shrinks t t' \<Longrightarrow> entries_of t i = [] \<Longrightarrow> entries_of t' i = []"
  "shrinks t t' \<Longrightarrow> warnings_of t i = [] \<Longrightarrow> warnings_of t' i = []"
  by (auto simp: shrinks_def entries_of_def warnings_of_def filter_empty_conv)

lemma draining_round:
  assumes "draining sts i rows c" and "d (db c) = Inr (n, t')"
  shows "\<exists>c'. batch_round sts m m' i d c = (Inr n, c') \<and> idle c' \<and> db c' = t'"
proof -
  obtain x where "status_rows sts i (db c) = [x]"
    using draining_status_rows [OF assms(1)] by blast
  then show ?thesis
    using batch_round_idle [of c sts i x d n t' m m'] assms by (simp add: draining_def)
qed

lemma entry_loop_idle:
  assumes "draining sts i rows c" and "0 < n"
  shows "\<exists>c'. entry_loop sts m m' i n c = (Inr (), c') \<and> draining sts i rows c' \<and>
    shrinks (db c) (db c') \<and> entries_of (db c') i = []"
proof -
  let ?round = "batch_round sts m m' i (t_delete_entry_batch i n)"
  let ?J = "\<lambda>d. draining sts i rows d \<and> shrinks (db c) (db d)"
  have round: "\<exists>k d'. ?round d = (Inr k, d') \<and> ?J d'" if J: "?J d" for d
  proof -
    obtain k t' where t': "t_delete_entry_batch i n (db d) = Inr (k, t')"
      by (simp add: t_delete_entry_batch_def Let_def)
    then obtain d' where d': "?round d = (Inr k, d')" "idle d'" "db d' = t'"
      using draining_round [of sts i rows d] J by metis
    have "schema_ok t'"
      using J t' by (auto simp: draining_def intro: t_delete_entry_batch_ok)
    then have "?J d'"
      using J d' entry_batch_snapshots [OF t'] by (auto simp: draining_def shrinks_def)
    then show ?thesis using d'(1) by blast
  qed
  have "?J c" using assms(1) by (simp add: shrinks_refl)
  from entry_drain.loop_succeeds [of ?J sts m m' i n c, OF round this]
  obtain c' c0 where loop: "entry_loop sts m m' i n c = (Inr (), c')" "?J c'" "?round c0 = (Inr 0, c')"
    by blast
  then have "entries_of (db c') i = []"
    using batch_round_returns [OF loop(3)] entry_batch_zero [OF _ assms(2)] by blast
  then show ?thesis using loop by blast
qed

lemma warning_loop_idle:
  assumes "draining sts i rows c" and "0 < n"
  shows "\<exists>c'. warning_loop sts m m' i n c = (Inr (), c') \<and> draining sts i rows c' \<and>
    shrinks (db c) (db c') \<and> warnings_of (db c') i = []"
proof -
  let ?round = "batch_round sts m m' i (t_delete_warning_batch i n)"
  let ?J = "\<lambda>d. draining sts i rows d \<and> shrinks (db c) (db d)"
  have round: "\<exists>k d'. ?round d = (Inr k, d') \<and> ?J d'" if J: "?J d" for d
  proof -
    obtain k t' where t': "t_delete_warning_batch i n (db d) = Inr (k, t')"
      by (simp add: t_delete_warning_batch_def Let_def)
    then obtain d' where d': "?round d = (Inr k, d')" "idle d'" "db d' = t'"
      using draining_round [of sts i rows d] J by metis
    have "schema_ok t'"
      using J t' by (auto simp: draining_def intro: t_delete_warning_batch_ok)
    then have "?J d'"
      using J d' warning_batch_snapshots [OF t'] by (auto simp: draining_def shrinks_def)
    then show ?thesis using d'(1) by blast
  qed
  have "?J c" using assms(1) by (simp add: shrinks_refl)
  from warning_drain.loop_succeeds [of ?J sts m m' i n c, OF round this]
  obtain c' c0 where loop: "warning_loop sts m m' i n c = (Inr (), c')" "?J c'" "?round c0 = (Inr 0, c')"
    by blast
  then have "warnings_of (db c') i = []"
    using batch_round_returns [OF loop(3)] warning_batch_zero [OF _ assms(2)] by blast
  then show ?thesis using loop by blast
qed

subsection \<open>One snapshot\<close>

text \<open>A snapshot recovery has nothing left to do for.\<close>

definition settled :: "tables \<Rightarrow> SnapshotId \<Rightarrow> bool" where
  "settled t i \<longleftrightarrow> (\<forall>s \<in> set (snapshots t). sn_id s = i \<longrightarrow> sn_status s = ''complete'' \<or>
     (sn_status s \<in> {''failed'', ''cancelled''} \<and> entries_of t i = [] \<and> warnings_of t i = []))"

definition recovers :: "SnapshotId \<Rightarrow> tables \<Rightarrow> tables \<Rightarrow> bool" where
  "recovers i t t' \<longleftrightarrow> settled t' i \<and> shrinks t t' \<and> schema_ok t' \<and>
     (\<forall>s. sn_id s \<noteq> i \<longrightarrow> s \<in> set (snapshots t') \<longleftrightarrow> s \<in> set (snapshots t))"

definition has_row :: "SnapshotId \<Rightarrow> string list \<Rightarrow> conn \<Rightarrow> bool" where
  "has_row i sts c \<longleftrightarrow> idle c \<and> schema_ok (db c) \<and>
     (\<exists>s \<in> set (snapshots (db c)). sn_id s = i \<and> sn_status s \<in> set sts)"

lemma has_row_draining: "has_row i sts c \<Longrightarrow> draining sts i (snapshots (db c)) c"
  by (simp add: has_row_def draining_def)

lemma checked_batch_limit_pos:
  assumes "checked_batch_limit limit = Inr n"
  shows "0 < n"
proof -
  have "limit \<noteq> 0" and n: "n = uint limit"
    using assms by (auto simp: checked_batch_limit_def split: if_splits)
  then have "uint limit \<noteq> 0"
    by (simp add: uint_0_iff)
  then show ?thesis
    using n uint_u64_bounds(1) [of limit] by linarith
qed

lemma clean_incomplete_snapshot_idle:
  assumes "has_row i [''failed'', ''cancelled''] c" and "checked_batch_limit limit = Inr n"
  shows "\<exists>c'. clean_incomplete_snapshot i limit c = (Inr (), c') \<and> idle c' \<and>
    recovers i (db c) (db c')"
proof -
  let ?sts = "[''failed'', ''cancelled'']" and ?rows = "snapshots (db c)"
  let ?m = "''cleanup requires a failed or cancelled snapshot''"
  let ?m' = "''incomplete snapshot identifier selected multiple rows''"
  have n: "0 < n"
    using assms(2) by (rule checked_batch_limit_pos)
  obtain c1 where c1: "entry_loop ?sts ?m ?m' i n c = (Inr (), c1)" "draining ?sts i ?rows c1"
    "shrinks (db c) (db c1)" "entries_of (db c1) i = []"
    using entry_loop_idle [OF has_row_draining [OF assms(1)] n] by blast
  obtain c2 where c2: "warning_loop ?sts ?m ?m' i n c1 = (Inr (), c2)" "draining ?sts i ?rows c2"
    "shrinks (db c1) (db c2)" "warnings_of (db c2) i = []"
    using warning_loop_idle [OF c1(2) n] by blast
  have "settled (db c2) i"
    using c2 shrinks_empty(1) [OF c2(3) c1(4)] snapshot_table.same_key [of "db c2"]
    by (fastforce simp: settled_def draining_def)
  then have "recovers i (db c) (db c2)"
    using c2 shrinks_trans [OF c1(3) c2(3)] by (auto simp: recovers_def draining_def)
  moreover have "clean_incomplete_snapshot i limit c = (Inr (), c2)"
    using assms(2) c1(1) c2(1) by (simp add: clean_incomplete_snapshot_def proc_defs)
  ultimately show ?thesis using c2(2) by (auto simp: draining_def)
qed

lemma delete_deleting_snapshot_idle:
  assumes "has_row i [''deleting''] c" and "checked_batch_limit limit = Inr n"
  shows "\<exists>c'. delete_deleting_snapshot i limit c = (Inr (), c') \<and> idle c' \<and>
    recovers i (db c) (db c')"
proof -
  let ?sts = "[''deleting'']" and ?rows = "snapshots (db c)"
  let ?m = "''resuming deletion requires a deleting snapshot''"
  let ?m' = "''deleting snapshot identifier selected multiple rows''"
  have n: "0 < n"
    using assms(2) by (rule checked_batch_limit_pos)
  obtain c1 where c1: "entry_loop ?sts ?m ?m' i n c = (Inr (), c1)" "draining ?sts i ?rows c1"
    "shrinks (db c) (db c1)"
    using entry_loop_idle [OF has_row_draining [OF assms(1)] n] by blast
  obtain c2 where c2: "warning_loop ?sts ?m ?m' i n c1 = (Inr (), c2)" "draining ?sts i ?rows c2"
    "shrinks (db c1) (db c2)"
    using warning_loop_idle [OF c1(2) n] by blast
  obtain s where s: "s \<in> set (snapshots (db c2))" "sn_id s = i" "sn_status s = ''deleting''"
    using c2(2) by (auto simp: draining_def)
  have ok: "schema_ok (db c2)" and "idle c2"
    using c2(2) by (simp_all add: draining_def)
  have rows: "rows_with sn_id i (snapshots (db c2)) = [s]"
    using snapshot_table.lookup_member [OF ok s(1)] s(2) by simp
  have "filter (\<lambda>s. sn_id s = i \<and> sn_status s = ''deleting'') (snapshots (db c2)) =
      filter (\<lambda>s. sn_status s = ''deleting'') (rows_with sn_id i (snapshots (db c2)))"
    by (simp add: rows_with_def conj_commute)
  then have gone: "filter (\<lambda>s. sn_id s = i \<and> sn_status s = ''deleting'') (snapshots (db c2)) = [s]"
    unfolding rows using s by simp
  obtain t' where t': "t_delete_snapshot i (db c2) = Inr ([i], t')"
    unfolding t_delete_snapshot_def Let_def gone using s(2) by simp
  have "snapshots t' = filter (\<lambda>s. \<not> (sn_id s = i \<and> sn_status s = ''deleting'')) (snapshots (db c2))"
    using t' by (auto simp: t_delete_snapshot_def Let_def t_remove_entries_def)
  moreover have "x \<in> set (snapshots (db c2)) \<Longrightarrow> sn_id x = i \<Longrightarrow> sn_status x = ''deleting''" for x
    using snapshot_table.same_key [OF ok s(1), of x] s by simp
  ultimately have left: "x \<in> set (snapshots t') \<longleftrightarrow> x \<in> set (snapshots (db c2)) \<and> sn_id x \<noteq> i" for x
    by auto
  have "shrinks (db c2) t'"
    using t' by (auto simp: t_delete_snapshot_def Let_def t_remove_entries_def shrinks_def)
  then have "recovers i (db c) t'"
    using left c2(2) shrinks_trans [OF shrinks_trans [OF c1(3) c2(3)]] t_delete_snapshot_ok [OF ok t']
    by (auto simp: recovers_def settled_def draining_def)
  moreover obtain c3 where "transaction (bindp (sql (t_delete_snapshot i)) (\<lambda>rows.
        seqp (liftp (single_row E_invalid_argument ''finishing deletion requires a deleting snapshot''
          ''finishing deletion removed multiple snapshots'' rows))
          (hit before_metadata_batch_commit))) c2 = (Inr (), c3) \<and> idle c3 \<and> db c3 = t'"
    using transaction_idle [OF \<open>idle c2\<close>, of _ "()" t'] t'
    by (fastforce simp: proc_defs sql_healthy hit_healthy single_row_def healthy_def)
  ultimately show ?thesis
    using assms(2) c1(1) c2(1) by (auto simp: delete_deleting_snapshot_def seqp_def bindp_def liftp_def)
qed

lemma mark_stale_idle:
  assumes "has_row i [''pending''] c" and "length msg \<le> 2147483647"
  shows "\<exists>c'. mark_stale_pending_snapshot_failed i msg at c = (Inr (), c') \<and>
    has_row i [''failed'', ''cancelled''] c' \<and> shrinks (db c) (db c') \<and>
    (\<forall>s. sn_id s \<noteq> i \<longrightarrow> s \<in> set (snapshots (db c')) \<longleftrightarrow> s \<in> set (snapshots (db c)))"
proof -
  let ?p = "\<lambda>t s. sn_id s = i \<and> sn_status s = ''pending''"
  let ?f = "\<lambda>s. s\<lparr>sn_completed_at_ns := Some at, sn_status := ''failed'', sn_failure_message := Some msg\<rparr>"
  let ?t = "(db c)\<lparr>snapshots := update_rows (?p (db c)) ?f (snapshots (db c))\<rparr>"
  have ok: "schema_ok (db c)" and "idle c"
    using assms(1) by (simp_all add: has_row_def)
  obtain s where s: "s \<in> set (snapshots (db c))" "sn_id s = i" "sn_status s = ''pending''"
    using assms(1) by (auto simp: has_row_def)
  have "filter (?p (db c)) (snapshots (db c)) =
      filter (\<lambda>s. sn_status s = ''pending'') (rows_with sn_id i (snapshots (db c)))"
    by (simp add: rows_with_def conj_commute)
  also have "\<dots> = [s]"
    using snapshot_table.lookup_member [OF ok s(1)] s by simp
  finally have upd: "t_update_snapshots ?p ?f (db c) = Inr ([i], ?t)"
    using s(2) by (simp add: t_update_snapshots_def)
  have run: "\<exists>c'. mark_stale_pending_snapshot_failed i msg at c = (Inr (), c') \<and> idle c' \<and> db c' = ?t"
    unfolding mark_stale_pending_snapshot_failed_def
    by (rule transaction_idle [OF \<open>idle c\<close>]) (use upd assms(2) in \<open>simp add: proc_defs sql_healthy
        hit_healthy single_row_def bind_texts_def bind_text_def healthy_def\<close>)
  have "schema_ok ?t"
    by (rule t_update_snapshots_ok [OF ok upd]) (simp_all add: status_values_def)
  moreover have "?f s \<in> set (snapshots ?t)"
    using s by (auto simp: set_update_rows intro!: image_eqI [of _ _ s])
  ultimately have "has_row i [''failed'', ''cancelled''] d" if "idle d" "db d = ?t" for d
    using that s(2) by (auto simp: has_row_def intro!: bexI [of _ "?f s"])
  moreover have "x \<in> set (snapshots ?t) \<longleftrightarrow> x \<in> set (snapshots (db c))" if "sn_id x \<noteq> i" for x
    using that by (auto simp: set_update_rows image_iff split: if_splits)
  moreover have "shrinks (db c) ?t"
    by (simp add: shrinks_def)
  moreover obtain c' where "mark_stale_pending_snapshot_failed i msg at c = (Inr (), c')" "idle c'"
      "db c' = ?t"
    using run by blast
  ultimately show ?thesis
    by (intro exI [of _ c'] conjI allI impI) simp_all
qed

text \<open>The status recorded in a row, in the spelling of the enumeration.\<close>

definition info_of :: "snapshot_row \<Rightarrow> IncompleteSnapshotInfo \<Rightarrow> bool" where
  "info_of s info \<longleftrightarrow> is_id info = sn_id s \<and> snapshot_status_from_storage (sn_status s) = Inr (is_status info)"

lemma recover_snapshot_idle:
  assumes "idle c" and "schema_ok (db c)" and "s \<in> set (snapshots (db c))" and "info_of s info"
    and "checked_batch_limit limit = Inr n"
  shows "\<exists>c'. recover_snapshot now limit info c = (Inr (), c') \<and> idle c' \<and>
    recovers (sn_id s) (db c) (db c')"
proof -
  have row: "has_row (sn_id s) sts c" if "sn_status s \<in> set sts" for sts
    using assms(1-3) that by (auto simp: has_row_def)
  have id: "is_id info = sn_id s"
    using assms(4) by (simp add: info_of_def)
  consider "sn_status s = ''pending''" "is_status info = S_pending"
    | "sn_status s = ''deleting''" "is_status info = S_deleting"
    | "sn_status s \<in> {''failed'', ''cancelled''}" "is_status info \<in> {S_failed, S_cancelled}"
    using assms(4) by (auto simp: info_of_def snapshot_status_from_storage_def split: if_splits)
  then show ?thesis
  proof cases
    case 1
    let ?m = "''snapshot operation was interrupted before publication''"
    obtain c1 where c1: "mark_stale_pending_snapshot_failed (sn_id s) ?m (now (sn_id s)) c = (Inr (), c1)"
        "has_row (sn_id s) [''failed'', ''cancelled''] c1" "shrinks (db c) (db c1)"
        "\<forall>x. sn_id x \<noteq> sn_id s \<longrightarrow> x \<in> set (snapshots (db c1)) \<longleftrightarrow> x \<in> set (snapshots (db c))"
      using mark_stale_idle [OF row [of "[''pending'']"], of ?m "now (sn_id s)"] 1 by auto
    obtain c2 where "clean_incomplete_snapshot (sn_id s) limit c1 = (Inr (), c2)" "idle c2"
        "recovers (sn_id s) (db c1) (db c2)"
      using clean_incomplete_snapshot_idle [OF c1(2) assms(5)] by blast
    then show ?thesis
      using c1 1(2) shrinks_trans
      by (auto simp: recover_snapshot_def id seqp_def bindp_def recovers_def)
  next
    case 2
    then show ?thesis
      using delete_deleting_snapshot_idle [OF row assms(5)] by (simp add: recover_snapshot_def id)
  next
    case 3
    then show ?thesis
      using clean_incomplete_snapshot_idle [OF row assms(5)]
      by (auto simp: recover_snapshot_def id)
  qed
qed

text \<open>All listed snapshots in turn.\<close>

lemma recover_list_idle:
  assumes "idle c" and "schema_ok (db c)" and "checked_batch_limit limit = Inr n"
    and "list_all2 info_of rows infos" and "set rows \<subseteq> set (snapshots (db c))" and "distinct (map sn_id rows)"
    and "\<And>s. s \<in> set (snapshots (db c)) \<Longrightarrow> sn_id s \<notin> sn_id ` set rows \<Longrightarrow> settled (db c) (sn_id s)"
  shows "\<exists>c'. iterp (recover_snapshot now limit) infos c = (Inr (), c') \<and> idle c' \<and> schema_ok (db c') \<and>
    (\<forall>s \<in> set (snapshots (db c')). settled (db c') (sn_id s))"
  using assms(4,1,2,5-7)
proof (induction rows infos arbitrary: c rule: list_all2_induct)
  case Nil
  then show ?case by (simp add: ret_def)
next
  case (Cons s rows info infos)
  obtain c1 where c1: "recover_snapshot now limit info c = (Inr (), c1)" "idle c1"
      "recovers (sn_id s) (db c) (db c1)"
    using recover_snapshot_idle [OF Cons.prems(1,2) _ Cons.hyps(1) assms(3)] Cons.prems(3) by auto
  note r = c1(3) [unfolded recovers_def]
  have "set rows \<subseteq> set (snapshots (db c1))"
    using r Cons.prems(3,4) by (fastforce simp: image_iff)
  moreover have "settled (db c1) (sn_id x)"
    if x: "x \<in> set (snapshots (db c1))" "sn_id x \<notin> sn_id ` set rows" for x
  proof (cases "sn_id x = sn_id s")
    case True
    then show ?thesis using r by simp
  next
    case False
    then have "settled (db c) (sn_id x)"
      using Cons.prems(5) [of x] r x by auto
    then show ?thesis
      using r False shrinks_empty by (auto simp: settled_def)
  qed
  ultimately obtain c' where "iterp (recover_snapshot now limit) infos c1 = (Inr (), c')" "idle c'"
      "schema_ok (db c')" "\<forall>s \<in> set (snapshots (db c')). settled (db c') (sn_id s)"
    using Cons.IH [OF c1(2)] r Cons.prems(4) by auto
  then show ?case
    using c1(1) by (auto simp: seqp_def bindp_def)
qed

lemma list_incomplete_snapshots_idle:
  assumes "idle c" and "schema_ok (db c)"
  shows "\<exists>c' rows infos. list_incomplete_snapshots c = (Inr infos, c') \<and> idle c' \<and> db c' = db c \<and>
    list_all2 info_of rows infos \<and> distinct (map sn_id rows) \<and>
    set rows = {s \<in> set (snapshots (db c)). sn_status s \<noteq> ''complete''}"
proof -
  let ?rows = "sort_key sn_id (filter (\<lambda>s. sn_status s \<noteq> ''complete'') (snapshots (db c)))"
  let ?read = "\<lambda>r. bindE (snapshot_status_from_storage (sn_status r)) (\<lambda>st. Inr \<lparr>is_id = sn_id r, is_status = st\<rparr>)"
  have "\<exists>st. snapshot_status_from_storage (sn_status s) = Inr st" if "s \<in> set ?rows" for s
    using that assms(2) by (auto simp: schema_ok_def snapshots_ok_def status_values_def
        snapshot_status_from_storage_def)
  then have "\<exists>info. ?read s = Inr info \<and> info_of s info" if "s \<in> set ?rows" for s
    using that by (fastforce simp: info_of_def)
  then obtain g where g: "\<And>s. s \<in> set ?rows \<Longrightarrow> ?read s = Inr (g s) \<and> info_of s (g s)"
    by metis
  have read: "mapE ?read ?rows = Inr (map g ?rows)"
    by (rule mapE_Inr) (use g in blast)
  have infos: "list_all2 info_of ?rows (map g ?rows)"
    unfolding list_all2_map2 by (rule list.rel_refl_strong) (use g in blast)
  have "distinct (map sn_id ?rows)"
    using assms(2) by (simp add: schema_ok_def snapshots_ok_def distinct_map inj_on_def)
  moreover have "list_incomplete_snapshots c = (Inr (map g ?rows), next_tick c)"
    using assms(1) read by (simp add: list_incomplete_snapshots_def query_def proc_defs sql_healthy idle_def
        next_tick_def)
  ultimately show ?thesis
    using assms(1) infos by (intro exI [of _ "next_tick c"] exI [of _ ?rows] exI [of _ "map g ?rows"])
      (auto simp: idle_def)
qed

lemma recover_metadata_idle:
  assumes "idle c" and "schema_ok (db c)" and "checked_batch_limit limit = Inr n"
  shows "\<exists>c'. recover_metadata now limit c = (Inr (), c') \<and> idle c' \<and> schema_ok (db c') \<and>
    (\<forall>s \<in> set (snapshots (db c')). settled (db c') (sn_id s))"
proof -
  obtain c1 rows infos where c1: "list_incomplete_snapshots c = (Inr infos, c1)" "idle c1" "db c1 = db c"
      "list_all2 info_of rows infos" "distinct (map sn_id rows)"
      "set rows = {s \<in> set (snapshots (db c)). sn_status s \<noteq> ''complete''}"
    using list_incomplete_snapshots_idle [OF assms(1,2)] by blast
  have "settled (db c1) (sn_id s)"
    if s: "s \<in> set (snapshots (db c1))" "sn_id s \<notin> sn_id ` set rows" for s
  proof -
    have "sn_status x = ''complete''" if "x \<in> set (snapshots (db c1))" "sn_id x = sn_id s" for x
    proof (rule ccontr)
      assume "sn_status x \<noteq> ''complete''"
      then have "x \<in> set rows" using c1(3,6) that(1) by simp
      then show False using s(2) that(2) by (metis imageI)
    qed
    then show ?thesis by (simp add: settled_def)
  qed
  then have "\<exists>c'. iterp (recover_snapshot now limit) infos c1 = (Inr (), c') \<and> idle c' \<and> schema_ok (db c') \<and>
    (\<forall>s \<in> set (snapshots (db c')). settled (db c') (sn_id s))"
    using recover_list_idle [OF c1(2) _ assms(3) c1(4) _ c1(5)] assms(2) c1(3,6) by auto
  then show ?thesis
    using c1(1) by (simp add: recover_metadata_def bindp_def)
qed

text \<open>Settled and hashed metadata passes the relationship check.\<close>

lemma settled_relationships:
  assumes "hashed_except {} t" and "\<forall>s \<in> set (snapshots t). settled t (sn_id s)"
  shows "\<not> invalid_relationship t" and "foreign_keys_hold t"
proof -
  have ok: "schema_ok t" using assms(1) by (simp add: hashed_except_def)
  then show "foreign_keys_hold t"
    by (simp add: foreign_keys_hold_def schema_ok_def entries_ok_def entry_chunks_ok_def warnings_ok_def)
  have status: "sn_status s = ''complete'' \<or> sn_status s \<in> {''failed'', ''cancelled''} \<and>
      entries_of t (sn_id s) = [] \<and> warnings_of t (sn_id s) = []" if "s \<in> set (snapshots t)" for s
    using assms(2) that by (auto simp: settled_def)
  have "\<not> snapshot_has_status t (en_snapshot_id e) [''failed'', ''cancelled'']" if "e \<in> set (entries t)" for e
    using status that by (force simp: snapshot_has_status_def list_ex_iff entries_of_def filter_empty_conv)
  moreover have "\<not> snapshot_has_status t (wa_snapshot_id w) [''failed'', ''cancelled'']"
    if "w \<in> set (snapshot_warnings t)" for w
    using status that by (force simp: snapshot_has_status_def list_ex_iff warnings_of_def filter_empty_conv)
  moreover have "sn_status s \<notin> {''pending'', ''deleting''}" if "s \<in> set (snapshots t)" for s
    using status [OF that] by auto
  ultimately show "\<not> invalid_relationship t"
    using assms(1) by (auto simp: invalid_relationship_def list_ex_iff hashed_except_def split: option.splits)
qed

section \<open>The cleared temporary tree\<close>

definition tt_quiet :: "temp_tree \<Rightarrow> bool" where
  "tt_quiet t \<longleftrightarrow> (\<forall>p. tt_list_error t p = None) \<and> (\<forall>p. tt_next_error t p = None) \<and>
     (\<forall>p. tt_remove t p = Removed) \<and> (\<forall>n. tt_create_error t n = None)"

fun prune :: "string set \<Rightarrow> temp_node \<Rightarrow> temp_node" where
  "prune S (T_dir ns) = T_dir (filter (\<lambda>c. c \<notin> S) ns)"
| "prune S T_other = T_other"

abbreviation tt_map :: "temp_tree \<Rightarrow> string \<rightharpoonup> temp_node" where
  "tt_map t \<equiv> map_of (tt_children t)"

lemma prune_simps [simp]: "prune S (prune S' node) = prune (S \<union> S') node" "prune {} node = node"
  by (cases node; auto intro!: filter_cong)+

lemma map_of_filter_key: "map_of (filter (\<lambda>(n, _). n \<noteq> k) xs) = (map_of xs)(k := None)"
  by (induction xs) auto

lemma map_of_map_key:
  "map_of (map (\<lambda>(n, v). (n, if n = k then f v else v)) xs) = (map_of xs)(k := map_option f (map_of xs k))"
  by (induction xs) auto

lemma tt_map_delete:
  "tt_map (tt_delete [n] t) = (tt_map t)(n := None)"
  "tt_map (tt_delete [d, c] t) = (tt_map t)(d := map_option (prune {c}) (tt_map t d))"
proof -
  show "tt_map (tt_delete [n] t) = (tt_map t)(n := None)"
    by (simp add: tt_delete_def map_of_filter_key)
  have "(case v of T_dir ns \<Rightarrow> T_dir (filter (\<lambda>x. x \<noteq> c) ns) | T_other \<Rightarrow> T_other) = prune {c} v" for v
    by (cases v) auto
  then show "tt_map (tt_delete [d, c] t) = (tt_map t)(d := map_option (prune {c}) (tt_map t d))"
    by (simp add: tt_delete_def map_of_map_key)
qed

lemma clear_names_True:
  assumes "clear_names d names b t = (Inr True, t')"
  shows "b \<and> tt_map t' = (tt_map t)(d := map_option (prune (set names)) (tt_map t d))"
  using assms
proof (induction names arbitrary: b t)
  case Nil
  then show ?case by (auto simp: ret_def option.map_id0 id_def[symmetric] map_option_cong)
next
  case (Cons n names)
  then obtain t1 where "tt_remove t [d, n] = Removed" "t1 = tt_delete [d, n] t"
      "clear_names d names b t1 = (Inr True, t')"
    by (auto simp: bindp_def seqp_def remove_recovery_path_def next_or_fail_def
        split: remove_outcome.splits option.splits)
  then show ?case
    using Cons.IH [of b t1] tt_map_delete(2) [of d n t]
    by (auto simp: option.map_comp comp_def)
qed

lemma require_recovery_directory_Inr:
  assumes "require_recovery_directory d t = (Inr u, t')"
  shows "\<exists>ns. tt_map t' = (tt_map t)(d \<mapsto> T_dir ns) \<and> (tt_map t d = None \<longrightarrow> ns = []) \<and>
    (\<forall>node. tt_map t d = Some node \<longrightarrow> node = T_dir ns)"
  using assms by (auto simp: require_recovery_directory_def map_add_def map_upd_triv fun_upd_def
      split: option.splits temp_node.splits)

text \<open>What is left of a name: the two working directories, empty.\<close>

definition cleared :: "string \<Rightarrow> temp_node option" where
  "cleared n = (if n = ''objects'' \<or> n = ''restores'' then Some (T_dir []) else None)"

lemma clear_step_True:
  assumes "(if n = ''objects'' \<or> n = ''restores''
            then seqp (require_recovery_directory n) (clear_directory_contents n)
            else remove_recovery_path [n]) t = (Inr True, t1)"
  shows "tt_map t1 = (tt_map t)(n := cleared n)"
proof (cases "n = ''objects'' \<or> n = ''restores''")
  case True
  with assms obtain t0 u where req: "require_recovery_directory n t = (Inr u, t0)"
      and clear: "clear_directory_contents n t0 = (Inr True, t1)"
    by (auto simp: seqp_def bindp_def split: prod.splits sum.splits)
  have "clear_names n (child_names n t0) True t0 = (Inr True, t1)"
    using clear by (auto simp: clear_directory_contents_def bindp_def gets_def raise_lv_def raise_def
        split: option.splits)
  then have t1: "tt_map t1 = (tt_map t0)(n := map_option (prune (set (child_names n t0))) (tt_map t0 n))"
    using clear_names_True by blast
  obtain ns where ns: "tt_map t0 n = Some (T_dir ns)" and "tt_map t0 = (tt_map t)(n \<mapsto> T_dir ns)"
    using require_recovery_directory_Inr [OF req] by auto
  then show ?thesis
    using t1 True by (simp add: child_names_def cleared_def filter_empty_conv)
next
  case False
  then show ?thesis
    using assms tt_map_delete(1) [of n t]
    by (auto simp: remove_recovery_path_def cleared_def split: remove_outcome.splits)
qed

lemma clear_tree_names_True:
  assumes "clear_tree_names names b t = (Inr True, t')"
  shows "b \<and> (\<forall>n. tt_map t' n = (if n \<in> set names then cleared n else tt_map t n))"
  using assms
proof (induction names arbitrary: b t)
  case Nil
  then show ?case by (simp add: ret_def)
next
  case (Cons n names)
  then obtain c t1 where step: "(if n = ''objects'' \<or> n = ''restores''
            then seqp (require_recovery_directory n) (clear_directory_contents n)
            else remove_recovery_path [n]) t = (Inr c, t1)"
      and rest: "clear_tree_names names (c \<and> b) t1 = (Inr True, t')"
    by (auto simp: bindp_def [of "if _ then _ else _"] bindp_def [of "next_or_fail _ _"] seqp_def
        next_or_fail_def split: prod.splits sum.splits option.splits)
  then show ?case
    using Cons.IH [OF rest] clear_step_True [of n t t1] by auto
qed

lemma clear_temporary_tree_map:
  assumes "clear_temporary_tree t = (Inr True, t')"
  shows "tt_map t' = cleared"
proof -
  obtain t1 t2 u v where names: "clear_tree_names (map fst (tt_children t)) True t = (Inr True, t1)"
      and req: "require_recovery_directory ''objects'' t1 = (Inr u, t2)"
        "require_recovery_directory ''restores'' t2 = (Inr v, t')"
    using assms by (auto simp: clear_temporary_tree_def bindp_def seqp_def gets_def raise_lv_def
        raise_def ret_def split: prod.splits sum.splits option.splits)
  have "tt_map t1 n = (if n \<in> fst ` set (tt_children t) then cleared n else None)" for n
    using clear_tree_names_True [OF names] by (auto simp: map_of_eq_None_iff)
  then show ?thesis
    using require_recovery_directory_Inr [OF req(1)] require_recovery_directory_Inr [OF req(2)]
    by (auto simp: cleared_def fun_eq_iff split: if_splits)
qed

lemma query_healthy: "healthy c \<Longrightarrow> query f c = (Inr (f (db c)), next_tick c)"
  by (simp add: query_def sql_healthy next_tick_def)

text \<open>A file system that does what it is asked to clears the tree.\<close>

lemma tt_quiet_children [simp]: "tt_quiet (t\<lparr>tt_children := x\<rparr>) = tt_quiet t"
  by (simp add: tt_quiet_def)

lemma tt_quiet_delete [simp]: "tt_quiet (tt_delete p t) = tt_quiet t"
  by (simp add: tt_delete_def split: list.split)

lemma clear_names_quiet: "tt_quiet t \<Longrightarrow> \<exists>t'. clear_names d names b t = (Inr b, t') \<and> tt_quiet t'"
proof (induction names arbitrary: t)
  case (Cons n names)
  then have "clear_names d (n # names) b t = clear_names d names b (tt_delete [d, n] t)"
    by (simp add: bindp_def seqp_def remove_recovery_path_def next_or_fail_def tt_quiet_def tt_delete_def)
  then show ?case using Cons by simp
qed (simp add: ret_def)

lemma require_quiet:
  "tt_quiet t \<Longrightarrow> tt_map t d \<noteq> Some T_other \<Longrightarrow>
   \<exists>t'. require_recovery_directory d t = (Inr (), t') \<and> tt_quiet t' \<and>
     (\<forall>n. tt_map t' n \<noteq> Some T_other \<or> tt_map t n = Some T_other)"
  by (auto simp: require_recovery_directory_def tt_quiet_def map_add_def
      split: option.split temp_node.split)

definition no_blockers :: "temp_tree \<Rightarrow> bool" where
  "no_blockers t \<longleftrightarrow> tt_quiet t \<and> tt_map t ''objects'' \<noteq> Some T_other \<and> tt_map t ''restores'' \<noteq> Some T_other"

lemma clear_step_quiet:
  assumes "no_blockers t"
  shows "\<exists>t1. (if n = ''objects'' \<or> n = ''restores''
            then seqp (require_recovery_directory n) (clear_directory_contents n)
            else remove_recovery_path [n]) t = (Inr True, t1) \<and> no_blockers t1"
proof -
  have quiet: "tt_quiet t" using assms by (simp add: no_blockers_def)
  have "\<exists>t1. (if n = ''objects'' \<or> n = ''restores''
            then seqp (require_recovery_directory n) (clear_directory_contents n)
            else remove_recovery_path [n]) t = (Inr True, t1) \<and> tt_quiet t1"
  proof (cases "n = ''objects'' \<or> n = ''restores''")
    case True
    then obtain t0 where t0: "require_recovery_directory n t = (Inr (), t0)" "tt_quiet t0"
      using require_quiet [OF quiet, of n] assms by (auto simp: no_blockers_def)
    then obtain t1 where "clear_names n (child_names n t0) True t0 = (Inr True, t1)" "tt_quiet t1"
      using clear_names_quiet by blast
    moreover have "tt_list_error t0 [n] = None"
      using t0(2) by (simp add: tt_quiet_def)
    ultimately show ?thesis
      using True t0 by (simp add: seqp_def clear_directory_contents_def gets_def bindp_def)
  next
    case False
    then show ?thesis using quiet by (auto simp: remove_recovery_path_def tt_quiet_def tt_delete_def)
  qed
  then show ?thesis
    using clear_step_True [of n t] assms by (fastforce simp: no_blockers_def cleared_def)
qed

lemma clear_tree_names_quiet:
  "no_blockers t \<Longrightarrow> \<exists>t'. clear_tree_names names b t = (Inr b, t') \<and> no_blockers t'"
proof (induction names arbitrary: t)
  case (Cons n names)
  then obtain t1 where t1: "(if n = ''objects'' \<or> n = ''restores''
            then seqp (require_recovery_directory n) (clear_directory_contents n)
            else remove_recovery_path [n]) t = (Inr True, t1)" "no_blockers t1"
    using clear_step_quiet by blast
  then have "clear_tree_names (n # names) b t = clear_tree_names names b t1"
    by (simp add: bindp_def [of "if _ then _ else _"] bindp_def [of "next_or_fail _ _"] seqp_def
        next_or_fail_def no_blockers_def tt_quiet_def)
  then show ?case using Cons.IH [OF t1(2)] by simp
qed (simp add: ret_def)

lemma clear_temporary_tree_quiet:
  assumes "no_blockers t"
  shows "\<exists>t'. clear_temporary_tree t = (Inr True, t')"
proof -
  obtain t1 where t1: "clear_tree_names (map fst (tt_children t)) True t = (Inr True, t1)" "no_blockers t1"
    using clear_tree_names_quiet [OF assms] by blast
  obtain t2 where t2: "require_recovery_directory ''objects'' t1 = (Inr (), t2)" "no_blockers t2"
    using require_quiet [of t1 "''objects''"] t1(2) by (auto simp: no_blockers_def)
  obtain t3 where "require_recovery_directory ''restores'' t2 = (Inr (), t3)"
    using require_quiet [of t2 "''restores''"] t2(2) by (auto simp: no_blockers_def)
  then show ?thesis
    using assms t1(1) t2(1)
    by (simp add: clear_temporary_tree_def bindp_def seqp_def gets_def ret_def no_blockers_def tt_quiet_def)
qed

section \<open>Recovery as a whole\<close>

text \<open>Only the connection matters for the metadata.\<close>

definition on_conn :: "(conn \<Rightarrow> bool) \<Rightarrow> repository \<Rightarrow> bool" where
  "on_conn P r \<longleftrightarrow> P (r_conn r)"

lemma keeps_in_conn [keeps_intros]: "keeps P m \<Longrightarrow> keeps (on_conn P) (in_conn m)"
  by (auto simp: keeps_def in_conn_def on_conn_def split: prod.split)

lemma keeps_in_temporary [keeps_intros]: "keeps (on_conn P) (in_temporary m)"
  by (auto simp: keeps_def in_temporary_def on_conn_def split: prod.split)

context maintenance_invariant
begin

lemma recover_snapshot_keeps [keeps_intros]: "keeps (on_db I) (recover_snapshot now limit info)"
  unfolding recover_snapshot_def by (cases "is_status info"; simp; intro keeps_intros)

lemma recover_metadata_keeps [keeps_intros]: "keeps (on_db I) (recover_metadata now limit)"
  unfolding recover_metadata_def by (intro keeps_intros)

lemma recover_after_writer_lock_keeps: "keeps (on_conn (on_db I)) (recover_after_writer_lock now)"
  unfolding recover_after_writer_lock_def case_prod_unfold
  by (intro keeps_intros) (simp add: on_conn_def)

end

text \<open>
  [C19] Recovery never touches a complete snapshot: on every exit, whichever statements or injected
  failures interrupt it, every snapshot that was complete before is still complete with all its
  rows, chunk references and chunk rows, and the committed tables satisfy the schema.
\<close>

theorem recovery_spares_complete_snapshots:
  assumes "schema_ok (db (r_conn r))" and "saved (r_conn r) = None"
    and "snapshot_has_status (db (r_conn r)) sid [''complete'']"
    and "recover_after_writer_lock now r = (result, r')"
  shows "schema_ok (committed (r_conn r')) \<and> snapshot_has_status (committed (r_conn r')) sid [''complete''] \<and>
    published_view sid (committed (r_conn r')) = published_view sid (db (r_conn r))"
proof -
  let ?I = "frozen sid (published_view sid (db (r_conn r)))"
  have "on_conn (on_db ?I) r"
    using assms(1-3) by (simp add: on_conn_def on_db_def committed_def frozen_def)
  then have "on_conn (on_db ?I) r'"
    using keepsD [OF frozen.recover_after_writer_lock_keeps] assms(4) by blast
  then show ?thesis
    by (simp add: on_conn_def on_db_def frozen_def)
qed

text \<open>
  [C13] Recovery finishes: on a writable repository whose complete snapshots are fully hashed, with a
  batch limit in range and no failing statement or file-system call, recovery returns and records its
  completion; afterwards no snapshot is pending or deleting, every failed or cancelled snapshot is
  without entries and warnings, the metadata passes the relationship check and the temporary tree
  holds two empty directories.
\<close>

theorem recovery_finishes:
  assumes "idle (r_conn r)" and "hashed_except {} (db (r_conn r))"
    and "r_mode r = read_write" and "\<not> r_recovery_complete r"
    and "r_batch_limit r \<noteq> 0" and "uint (r_batch_limit r) \<le> int64_max"
    and "no_blockers (r_temporary r)"
  shows "\<exists>r'. recover_after_writer_lock now r = (Inr (), r') \<and> r_recovery_complete r' \<and>
    (\<forall>s \<in> set (snapshots (db (r_conn r'))). settled (db (r_conn r')) (sn_id s)) \<and>
    \<not> invalid_relationship (db (r_conn r')) \<and> tt_map (r_temporary r') = cleared"
proof -
  have ok: "schema_ok (db (r_conn r))" using assms(2) by (simp add: hashed_except_def)
  have limit: "checked_batch_limit (r_batch_limit r) = Inr (uint (r_batch_limit r))"
    using assms(5,6) by (simp add: checked_batch_limit_def)
  obtain c1 where c1: "recover_metadata now (r_batch_limit r) (r_conn r) = (Inr (), c1)" "idle c1"
      "\<forall>s \<in> set (snapshots (db c1)). settled (db c1) (sn_id s)"
    using recover_metadata_idle [OF assms(1) ok limit] by blast
  have "on_db (hashed_except {}) (r_conn r)"
    using assms(1,2) idle_committed by (simp add: on_db_def)
  then have "hashed_except {} (db c1)"
    using keepsD [OF hashed.recover_metadata_keeps _ c1(1)] by (simp add: on_db_def)
  then have rel: "\<not> invalid_relationship (db c1)" "foreign_keys_hold (db c1)"
    using settled_relationships c1(3) by blast+
  obtain t1 where t1: "clear_temporary_tree (r_temporary r) = (Inr True, t1)"
    using clear_temporary_tree_quiet [OF assms(7)] by blast
  have "quick_relationship_check c1 = (Inr (), next_tick (next_tick c1))"
    using rel c1(2) by (simp add: quick_relationship_check_def seqp_def bindp_def guardp_def ret_def
        query_healthy idle_def)
  then have "recover_after_writer_lock now r = (Inr (), r\<lparr>r_conn := next_tick (next_tick c1),
      r_temporary := t1, r_recovery_complete := True\<rparr>)"
    using assms(3,4) c1(1) t1
    by (simp add: recover_after_writer_lock_def proc_defs in_conn_def in_temporary_def)
  then show ?thesis
    using c1(3) rel(1) clear_temporary_tree_map [OF t1] by simp
qed

text \<open>
  [C24] Clearing the temporary tree: when \<^verbatim>\<open>clear_temporary_tree\<close> reports that the cleanup is
  complete, the directory holds the two working directories \<^verbatim>\<open>objects\<close> and
  \<^verbatim>\<open>restores\<close>, both empty, and nothing else.
\<close>

theorem clear_temporary_tree_complete:
  "clear_temporary_tree t = (Inr True, t') \<Longrightarrow> tt_map t' = cleared"
  by (rule clear_temporary_tree_map)

text \<open>A repository left behind by a crash: one complete snapshot, one still pending with an entry, one
  whose deletion was under way, and a stray temporary file.\<close>

definition crashed_tables :: tables where
  "crashed_tables = demo_tables\<lparr>
     snapshots := snapshots demo_tables @
       [(hd (snapshots demo_tables))\<lparr>sn_id := 2, sn_status := ''pending''\<rparr>,
        (hd (snapshots demo_tables))\<lparr>sn_id := 3, sn_status := ''deleting''\<rparr>],
     entries := entries demo_tables @
       [(hd (entries demo_tables))\<lparr>en_id := 2, en_snapshot_id := 2, en_file_hash := None\<rparr>,
        (hd (entries demo_tables))\<lparr>en_id := 3, en_snapshot_id := 3\<rparr>],
     snapshot_seq := 3, entry_seq := 3\<rparr>"

definition crashed_repository :: repository where
  "crashed_repository = \<lparr>r_conn = quiet crashed_tables,
     r_temporary = \<lparr>tt_children = [(''objects'', T_dir [''x.tmp'']), (''stray'', T_other)],
       tt_list_error = (\<lambda>_. None), tt_next_error = (\<lambda>_. None), tt_remove = (\<lambda>_. Removed),
       tt_create_error = (\<lambda>_. None)\<rparr>,
     r_mode = read_write, r_batch_limit = 10000, r_recovery_complete = False\<rparr>"

lemma demo_hash_ok: "is_lowercase_blake3_hex demo_hash"
  by (simp add: is_lowercase_blake3_hex_def demo_hash_def is_hex_char_def list_all_iff)

lemma crashed_tables_ok: "hashed_except {} crashed_tables" "schema_ok crashed_tables"
  by (simp_all add: hashed_except_def schema_defs crashed_tables_def demo_tables_def status_values_def
      entry_type_values_def snapshot_has_status_def demo_hash_ok)

theorem recovery_spares_complete_snapshots_witness:
  "published_view 1 (committed (r_conn (snd (recover_after_writer_lock (\<lambda>_. 9) crashed_repository)))) =
   published_view 1 crashed_tables"
  using recovery_spares_complete_snapshots [of crashed_repository 1 "\<lambda>_. 9", OF _ _ _ prod.collapse [symmetric]]
    crashed_tables_ok
  by (simp add: crashed_repository_def) (simp add: snapshot_has_status_def crashed_tables_def demo_tables_def)

theorem recovery_finishes_witness:
  "\<exists>r'. recover_after_writer_lock (\<lambda>_. 9) crashed_repository = (Inr (), r') \<and> r_recovery_complete r'"
  using recovery_finishes [of crashed_repository "\<lambda>_. 9"] crashed_tables_ok
  by (auto simp: crashed_repository_def idle_def healthy_def no_blockers_def tt_quiet_def quiet_def)

theorem clear_temporary_tree_complete_witness:
  "tt_map (snd (clear_temporary_tree (r_temporary crashed_repository))) = cleared"
proof -
  have "clear_temporary_tree (r_temporary crashed_repository) =
      (Inr True, snd (clear_temporary_tree (r_temporary crashed_repository)))"
    by (simp add: crashed_repository_def clear_temporary_tree_def proc_defs remove_recovery_path_def
        require_recovery_directory_def clear_directory_contents_def child_names_def next_or_fail_def
        tt_delete_def)
  then show ?thesis by (rule clear_temporary_tree_complete)
qed

end
