(* ===== verification/Codec.thy ===== *)
theory Codec
  imports LV_Types
begin

text \<open>
  Content identity and compression: the hexadecimal digest of
  \<^verbatim>\<open>src/core/storage/blake3_hasher.cpp\<close> and the codec of
  \<^verbatim>\<open>src/core/storage/zstd_codec.cpp\<close>. BLAKE3 and zstd themselves are outside the sources:
  the digest function and the zstd entry points are parameters, and what the code relies on is
  stated by \<open>digest_law\<close> and \<open>zstd_laws\<close>.
\<close>

section \<open>BLAKE3 identifiers\<close>

definition hexadecimal :: string where
  "hexadecimal = ''0123456789abcdef''"

definition to_hex :: "bytes \<Rightarrow> string" where
  "to_hex digest = concat (map (\<lambda>b. [hexadecimal ! (unat b div 16), hexadecimal ! (unat b mod 16)]) digest)"

type_synonym blake3 = "bytes \<Rightarrow> bytes"

text \<open>BLAKE3 with the default output length.\<close>

definition digest_law :: "blake3 \<Rightarrow> bool" where
  "digest_law blake \<longleftrightarrow> (\<forall>bs. length (blake bs) = 32)"

definition hash_raw :: "blake3 \<Rightarrow> bytes \<Rightarrow> string" where
  "hash_raw blake raw = to_hex (blake raw)"

lemma unat_u8_less: "unat (b :: u8) < 256"
  using unsigned_less [of b] by simp

lemma hexadecimal_length: "length hexadecimal = 16"
  by (simp add: hexadecimal_def)

lemma hexadecimal_distinct: "distinct hexadecimal"
  by (simp add: hexadecimal_def)

lemma hexadecimal_all: "list_all is_hex_char hexadecimal"
  by (simp add: hexadecimal_def is_hex_char_def)

lemma hexadecimal_char: "i < 16 \<Longrightarrow> is_hex_char (hexadecimal ! i)"
  using hexadecimal_all hexadecimal_length by (simp add: list_all_length)

lemma hexadecimal_inj: "i < 16 \<Longrightarrow> j < 16 \<Longrightarrow> hexadecimal ! i = hexadecimal ! j \<Longrightarrow> i = j"
  using nth_eq_iff_index_eq [OF hexadecimal_distinct, of i j] hexadecimal_length by simp

lemma to_hex_length: "length (to_hex d) = 2 * length d"
  by (induction d) (simp_all add: to_hex_def)

lemma u8_high_digit: "unat (b :: u8) div 16 < 16"
  using unat_u8_less [of b] by simp

lemma to_hex_chars: "list_all is_hex_char (to_hex d)"
  by (induction d) (auto simp: to_hex_def u8_high_digit intro!: hexadecimal_char)

lemma to_hex_inj: "to_hex d = to_hex d' \<Longrightarrow> d = d'"
proof (induction d arbitrary: d')
  case Nil
  then show ?case by (cases d') (simp_all add: to_hex_def)
next
  case (Cons b d)
  then obtain b' e where d': "d' = b' # e" by (cases d') (simp_all add: to_hex_def)
  have "unat b div 16 = unat b' div 16" "unat b mod 16 = unat b' mod 16"
    using Cons.prems unat_u8_less [of b] unat_u8_less [of b'] unfolding d'
    by (auto simp: to_hex_def intro!: hexadecimal_inj)
  then have "unat b = unat b'"
    by (metis div_mult_mod_eq)
  then show ?case
    using Cons d' by (simp add: to_hex_def word_unat_eq_iff)
qed

text \<open>The identifiers the program computes are the ones it accepts.\<close>

lemma hash_raw_valid: "digest_law blake \<Longrightarrow> is_lowercase_blake3_hex (hash_raw blake raw)"
  by (simp add: is_lowercase_blake3_hex_def hash_raw_def to_hex_length to_hex_chars digest_law_def)

section \<open>The zstd codec\<close>

text \<open>The entry points of zstd: an error name, or the value.\<close>

record zstd =
  compress_bound :: "nat \<Rightarrow> string + nat"
  zstd_compress :: "int \<Rightarrow> nat \<Rightarrow> bytes \<Rightarrow> string + bytes"
  frame_compressed_size :: "bytes \<Rightarrow> string + nat"
  zstd_decompress :: "nat \<Rightarrow> bytes \<Rightarrow> string + bytes"

definition zstd_error :: "string \<Rightarrow> string + 'a \<Rightarrow> exn + 'a" where
  "zstd_error operation r =
     (case r of Inl name \<Rightarrow> throw_lv E_compression_error (operation @ '' failed: '' @ name) | Inr a \<Rightarrow> Inr a)"

definition compression_bound :: "zstd \<Rightarrow> nat \<Rightarrow> exn + nat" where
  "compression_bound z raw_size =
     zstd_error ''zstd compression bound calculation'' (compress_bound z raw_size)"

definition codec_compress :: "zstd \<Rightarrow> int \<Rightarrow> bytes \<Rightarrow> exn + bytes" where
  "codec_compress z level raw =
     bindE (compression_bound z (length raw)) (\<lambda>bound.
       zstd_error ''zstd compression'' (zstd_compress z level bound raw))"

definition codec_decompress :: "zstd \<Rightarrow> bytes \<Rightarrow> nat \<Rightarrow> nat \<Rightarrow> exn + bytes" where
  "codec_decompress z compressed expected_raw_size maximum_raw_size =
     (if expected_raw_size > maximum_raw_size
      then throw_lv E_compression_error ''expected raw size exceeds repository chunk-size limit''
      else
        bindE (compression_bound z maximum_raw_size) (\<lambda>maximum_compressed_size.
        if length compressed > maximum_compressed_size
        then throw_lv E_compression_error ''compressed input exceeds configured safety limit''
        else
          bindE (zstd_error ''zstd frame validation'' (frame_compressed_size z compressed)) (\<lambda>frame_size.
          if frame_size \<noteq> length compressed
          then throw_lv E_compression_error ''compressed input must contain exactly one zstd frame''
          else
            bindE (zstd_error ''zstd decompression'' (zstd_decompress z expected_raw_size compressed))
              (\<lambda>raw. if length raw \<noteq> expected_raw_size
                     then throw_lv E_compression_error
                       ''decompressed size does not match expected raw size''
                     else Inr raw))))"

text \<open>
  The documented behaviour of zstd the codec relies on: a successful compression fits the buffer it
  was given, is one frame, and decompresses to its input in any buffer large enough; the bound does
  not decrease with the size; a compression into a buffer of the bound's size succeeds.
\<close>

definition zstd_laws :: "zstd \<Rightarrow> bool" where
  "zstd_laws z \<longleftrightarrow>
     (\<forall>level cap raw c. zstd_compress z level cap raw = Inr c \<longrightarrow>
        length c \<le> cap \<and> c \<noteq> [] \<and> frame_compressed_size z c = Inr (length c) \<and>
        (\<forall>cap' \<ge> length raw. zstd_decompress z cap' c = Inr raw)) \<and>
     (\<forall>m n b. m \<le> n \<longrightarrow> compress_bound z n = Inr b \<longrightarrow> (\<exists>a \<le> b. compress_bound z m = Inr a)) \<and>
     (\<forall>level raw b. compress_bound z (length raw) = Inr b \<longrightarrow> (\<exists>c. zstd_compress z level b raw = Inr c))"

lemma zstd_error_Inr_iff: "zstd_error op r = Inr a \<longleftrightarrow> r = Inr a"
  by (simp add: zstd_error_def split: sum.splits)

lemma codec_compress_Inr:
  "codec_compress z level raw = Inr c \<longleftrightarrow>
     (\<exists>b. compress_bound z (length raw) = Inr b \<and> zstd_compress z level b raw = Inr c)"
  by (auto simp: codec_compress_def compression_bound_def bindE_Inr_iff zstd_error_Inr_iff)

lemma codec_round_trip_lemma:
  assumes "zstd_laws z" and "codec_compress z level raw = Inr c" and "length raw \<le> maximum"
    and "compress_bound z maximum = Inr b"
  shows "codec_decompress z c (length raw) maximum = Inr raw"
proof -
  obtain a where a: "compress_bound z (length raw) = Inr a" "zstd_compress z level a raw = Inr c"
    using assms(2) by (auto simp: codec_compress_Inr)
  have "a \<le> b"
    using assms(1,3,4) a(1) unfolding zstd_laws_def by (metis Inr_inject)
  moreover have "length c \<le> a" "frame_compressed_size z c = Inr (length c)"
    "zstd_decompress z (length raw) c = Inr raw"
    using assms(1) a(2) unfolding zstd_laws_def by blast+
  ultimately show ?thesis
    using assms(3,4) by (simp add: codec_decompress_def compression_bound_def zstd_error_def)
qed

text \<open>A decompression that returns has the length that was asked for, within the limit.\<close>

lemma codec_decompress_length:
  "codec_decompress z c n m = Inr raw \<Longrightarrow> length raw = n \<and> n \<le> m"
  by (auto simp: codec_decompress_def bindE_Inr_iff split: if_splits)

end
