(* ===== verification/Vault_FS.thy ===== *)
theory Vault_FS
  imports LV_Types
begin

text \<open>
  The file system below the repository root as the object store uses it, with the durability
  distinctions that matter for crashes: whether the contents of a file have reached the disk
  (\<^verbatim>\<open>fsync\<close> of the file) and whether a name has (\<^verbatim>\<open>fsync\<close> of its directory). Paths
  are relative to the repository root. The operations are those of
  \<^verbatim>\<open>src/core/filesystem/platform/posix_repository_support.cpp\<close> and
  \<^verbatim>\<open>posix_file_metadata.cpp\<close>. Which system call fails, and what other processes add in the
  meantime, are arbitrary parameters of the state.
\<close>

section \<open>State\<close>

text \<open>Besides regular files and directories a path may name a symbolic link or something else (a
  socket, a device). Permission bits and modification times (seconds and nanoseconds) are kept for
  the restored tree.\<close>

datatype other_node = Link string | Special

datatype write_outcome = Wrote nat | Interrupted | Write_error string

record fs =
  files :: "string \<rightharpoonup> bytes"
  dirs :: "string \<Rightarrow> bool"
  others :: "string \<rightharpoonup> other_node"
  modes :: "string \<Rightarrow> u32"
  mtimes :: "string \<Rightarrow> int \<times> int"
  durable_data :: "string \<Rightarrow> bool"
  durable_name :: "string \<Rightarrow> bool"
  fs_faults :: "nat \<Rightarrow> string option"
  fs_appears :: "nat \<Rightarrow> (string \<times> bytes) option"
  fs_writes :: "write_outcome list"
  fs_tick :: nat

definition path_taken :: "fs \<Rightarrow> string \<Rightarrow> bool" where
  "path_taken f p \<longleftrightarrow> files f p \<noteq> None \<or> dirs f p \<or> others f p \<noteq> None"

definition parent_dir :: "string \<Rightarrow> string" where
  "parent_dir p = rev (tl (dropWhile (\<lambda>c. c \<noteq> CHR ''/'') (rev p)))"

lemma parent_dir_join: "CHR ''/'' \<notin> set n \<Longrightarrow> parent_dir (d @ CHR ''/'' # n) = d"
proof -
  assume "CHR ''/'' \<notin> set n"
  then have "dropWhile (\<lambda>c. c \<noteq> CHR ''/'') (rev n @ CHR ''/'' # rev d) = CHR ''/'' # rev d"
    by (subst dropWhile_append3) (auto simp: dropWhile_append)
  then show ?thesis by (simp add: parent_dir_def)
qed

section \<open>System calls\<close>

text \<open>Before a call another writer may have published a file under a free name; like the code below,
  it publishes only into a directory whose own name it has flushed.\<close>

definition interfere :: "fs \<Rightarrow> fs" where
  "interfere f =
     (let g = f\<lparr>fs_tick := Suc (fs_tick f)\<rparr> in
      case fs_appears f (fs_tick f) of
        Some (p, content) \<Rightarrow>
          if path_taken f p \<or> \<not> durable_name f (parent_dir p) then g
          else g\<lparr>files := (files f)(p \<mapsto> content)\<rparr>
      | None \<Rightarrow> g)"

definition syscall :: "ErrorCode \<Rightarrow> string \<Rightarrow> (fs \<Rightarrow> exn + ('a \<times> fs)) \<Rightarrow> (fs, 'a) proc" where
  "syscall code text op f =
     (let g = interfere f in
      case fs_faults f (fs_tick f) of
        Some m \<Rightarrow> (throw_lv code (text @ m), g)
      | None \<Rightarrow> (case op g of Inl e \<Rightarrow> (Inl e, g) | Inr (a, h) \<Rightarrow> (Inr a, h)))"

definition ensure_directory :: "string \<Rightarrow> (fs, unit) proc" where
  "ensure_directory path =
     syscall E_filesystem_error ''failed to create object directory: '' (\<lambda>f.
       if dirs f path then Inr ((), f)
       else if path_taken f path
       then throw_lv E_filesystem_error ''object directory is not a directory''
       else Inr ((), f\<lparr>dirs := (dirs f)(path := True)\<rparr>))"

definition regular_file_size :: "string \<Rightarrow> (fs, ByteCount option) proc" where
  "regular_file_size path =
     syscall E_filesystem_error ''failed to inspect stored object: '' (\<lambda>f.
       if \<not> path_taken f path then Inr (None, f)
       else case files f path of
              None \<Rightarrow> throw_lv E_object_corrupt ''stored object path is not a regular file''
            | Some content \<Rightarrow>
                if length content > unat u64_max
                then throw_lv E_object_corrupt ''stored object size is outside the supported range''
                else Inr (Some (word_of_nat (length content)), f))"

text \<open>The read loop of \<^verbatim>\<open>read_exact\<close>, in blocks of 64 KiB.\<close>

function read_blocks :: "bytes \<Rightarrow> nat \<Rightarrow> nat \<Rightarrow> bytes \<Rightarrow> exn + bytes" where
  "read_blocks content wanted offset buf =
     (if offset < wanted then
        let count = min 65536 (wanted - offset);
            got = take count (drop offset content)
        in if length got \<noteq> count then throw_lv E_object_corrupt ''stored object is truncated''
           else read_blocks content wanted (offset + count) (buf @ got)
      else Inr buf)"
  by pat_completeness auto
termination
  by (relation "measure (\<lambda>(_, wanted, offset, _). wanted - offset)") (auto simp: min_def)

declare read_blocks.simps [simp del]

definition read_exact :: "string \<Rightarrow> nat \<Rightarrow> (fs, bytes) proc" where
  "read_exact path wanted =
     syscall E_object_missing ''stored object cannot be opened'' (\<lambda>f.
       case files f path of
         None \<Rightarrow> throw_lv E_object_missing ''stored object cannot be opened''
       | Some content \<Rightarrow> bindE (read_blocks content wanted 0 []) (\<lambda>bs. Inr (bs, f)))"

lemma read_blocks_eq:
  "buf = take offset content \<Longrightarrow> offset \<le> wanted \<Longrightarrow> offset \<le> length content \<Longrightarrow>
   read_blocks content wanted offset buf =
     (if wanted \<le> length content then Inr (take wanted content)
      else throw_lv E_object_corrupt ''stored object is truncated'')"
proof (induction content wanted offset buf rule: read_blocks.induct)
  case (1 content wanted offset buf)
  let ?count = "min 65536 (wanted - offset)"
  show ?case
  proof (cases "offset < wanted")
    case True
    then show ?thesis
      using 1 by (subst read_blocks.simps) (auto simp: Let_def take_add min_def)
  next
    case False
    then show ?thesis using 1 by (subst read_blocks.simps) auto
  qed
qed

lemma read_blocks_start:
  "read_blocks content wanted 0 [] =
     (if wanted \<le> length content then Inr (take wanted content)
      else throw_lv E_object_corrupt ''stored object is truncated'')"
  by (rule read_blocks_eq) simp_all

section \<open>Durability barriers\<close>

text \<open>\<^verbatim>\<open>fsync\<close> of the directory that contains \<open>path\<close>: every name in it is on the disk.\<close>

definition flush_containing_directory :: "string \<Rightarrow> (fs, unit) proc" where
  "flush_containing_directory path =
     syscall E_filesystem_error ''failed to flush repository directory: '' (\<lambda>f.
       Inr ((), f\<lparr>durable_name := (\<lambda>p. durable_name f p \<or>
                    (parent_dir p = parent_dir path \<and> path_taken f p))\<rparr>))"

definition sync_existing_regular_file :: "string \<Rightarrow> (fs, unit) proc" where
  "sync_existing_regular_file path =
     syscall E_filesystem_error ''failed to flush existing object: '' (\<lambda>f.
       case files f path of
         None \<Rightarrow> throw_lv E_filesystem_error ''failed to open existing object for flushing''
       | Some _ \<Rightarrow> Inr ((), f\<lparr>durable_data := (durable_data f)(path := True)\<rparr>))"

section \<open>Temporary files\<close>

text \<open>\<^verbatim>\<open>TemporaryOutputFile\<close>: the name is chosen by random bytes with \<^verbatim>\<open>O_EXCL\<close>; a
  name that is taken is tried again, at most a hundred times. \<open>candidates\<close> is the sequence of names.\<close>

fun create_temporary :: "string list \<Rightarrow> nat \<Rightarrow> (fs, string) proc" where
  "create_temporary candidates 0 =
     raise_lv E_filesystem_error ''failed to choose a unique restore temporary file''"
| "create_temporary [] (Suc attempts) =
     raise_lv E_filesystem_error ''failed to choose a unique restore temporary file''"
| "create_temporary (candidate # candidates) (Suc attempts) =
     bindp (syscall E_filesystem_error ''failed to create restore temporary file: '' (\<lambda>f.
              if path_taken f candidate then Inr (False, f)
              else Inr (True, f\<lparr>files := (files f)(candidate \<mapsto> [])\<rparr>)))
       (\<lambda>created. if created then ret candidate else create_temporary candidates attempts)"

text \<open>The write loop: at most 64 KiB per call, short writes continue, \<^verbatim>\<open>EINTR\<close> repeats, an
  error or an empty write raises. \<open>fs_writes\<close> scripts the outcome of the calls; once it is used up,
  calls take all they are offered.\<close>

definition write_call :: "string \<Rightarrow> bytes \<Rightarrow> (fs, bytes) proc" where
  "write_call path rest f =
     (let offered = take 65536 rest;
          outcome = (case fs_writes f of [] \<Rightarrow> Wrote (length offered) | w # _ \<Rightarrow> w);
          g = f\<lparr>fs_writes := tl (fs_writes f)\<rparr>
      in case outcome of
           Interrupted \<Rightarrow> (Inr rest, g)
         | Write_error m \<Rightarrow>
             (throw_lv E_filesystem_error (''failed to write restore temporary file: '' @ m), g)
         | Wrote k \<Rightarrow>
             if k = 0
             then (throw_lv E_filesystem_error
                     ''failed to write restore temporary file: no bytes written'', g)
             else
               let n = min k (length offered) in
               (Inr (drop n rest),
                g\<lparr>files := (files g)(path := map_option (\<lambda>c. c @ take n rest) (files g path)),
                  durable_data := (durable_data g)(path := False)\<rparr>))"

lemma write_call_decreases:
  assumes "write_call path rest f = (Inr rest', g)" and "rest \<noteq> []"
  shows "length (fs_writes g) < length (fs_writes f) \<or>
    length (fs_writes g) = length (fs_writes f) \<and> length rest' < length rest"
  using assms by (auto simp: write_call_def Let_def split: list.splits write_outcome.splits if_splits)

function write_loop :: "string \<Rightarrow> bytes \<Rightarrow> (fs, unit) proc" where
  "write_loop path rest f =
     (if rest = [] then (Inr (), f)
      else case write_call path rest f of
             (Inl e, g) \<Rightarrow> (Inl e, g)
           | (Inr rest', g) \<Rightarrow> write_loop path rest' g)"
  by pat_completeness auto
termination
  by (relation "measures [\<lambda>(_, rest, f). length (fs_writes f), \<lambda>(_, rest, f). length rest]")
    (use write_call_decreases in \<open>auto dest!: sym [of "(_, _)"]\<close>)

declare write_loop.simps [simp del]

definition temporary_sync :: "string \<Rightarrow> (fs, unit) proc" where
  "temporary_sync path =
     syscall E_filesystem_error ''failed to sync restored temporary file: '' (\<lambda>f.
       Inr ((), f\<lparr>durable_data := (durable_data f)(path := (files f path \<noteq> None))\<rparr>))"

datatype RestorePublishResult = published | destination_exists

text \<open>\<^verbatim>\<open>publish_restored_path\<close>: a rename, refused with \<open>destination_exists\<close> when the name is
  taken and it may not be replaced; a directory is never replaced by something else. The contents keep
  their durability, the name is new.\<close>

definition rename_path :: "string \<Rightarrow> string \<Rightarrow> fs \<Rightarrow> fs" where
  "rename_path temporary final f = (if temporary = final then f else f\<lparr>
     files := (files f)(final := files f temporary, temporary := None),
     others := (others f)(final := others f temporary, temporary := None),
     modes := (modes f)(final := modes f temporary),
     mtimes := (mtimes f)(final := mtimes f temporary),
     durable_data := (durable_data f)(final := durable_data f temporary, temporary := False),
     durable_name := (durable_name f)(final := False, temporary := False)\<rparr>)"

definition publish :: "string \<Rightarrow> string \<Rightarrow> bool \<Rightarrow> (fs, RestorePublishResult) proc" where
  "publish temporary final replace_existing =
     syscall E_filesystem_error ''failed to publish restored path: '' (\<lambda>f.
       if \<not> replace_existing \<and> path_taken f final then Inr (destination_exists, f)
       else if dirs f final
       then throw_lv E_filesystem_error ''failed to publish restored path: Is a directory''
       else if files f temporary = None \<and> others f temporary = None
       then throw_lv E_filesystem_error ''failed to publish restored path: No such file or directory''
       else Inr (published, rename_path temporary final f))"

text \<open>The destructor removes the temporary name if it is still there.\<close>

definition drop_temporary :: "string \<Rightarrow> fs \<Rightarrow> fs" where
  "drop_temporary path f =
     f\<lparr>files := (files f)(path := None), others := (others f)(path := None),
       durable_data := (durable_data f)(path := False),
       durable_name := (durable_name f)(path := False)\<rparr>"

section \<open>What every operation preserves\<close>

text \<open>Only names that exist are durable, and a file lies only in a directory whose name is durable,
  unless it is a temporary file.\<close>

definition temporary_path :: "string \<Rightarrow> bool" where
  "temporary_path p \<longleftrightarrow> take 10 p = ''temporary/''"

definition fs_ok :: "fs \<Rightarrow> bool" where
  "fs_ok f \<longleftrightarrow>
     (\<forall>p. durable_name f p \<longrightarrow> path_taken f p) \<and>
     (\<forall>p. durable_data f p \<longrightarrow> files f p \<noteq> None) \<and>
     (\<forall>p. files f p \<noteq> None \<longrightarrow> \<not> temporary_path p \<longrightarrow> durable_name f (parent_dir p)) \<and>
     (\<forall>p. files f p \<noteq> None \<longrightarrow> \<not> dirs f p \<and> others f p = None)"

text \<open>Outside the temporary tree nothing is lost: contents stay, durability stays.\<close>

definition fs_extends :: "fs \<Rightarrow> fs \<Rightarrow> bool" where
  "fs_extends f f' \<longleftrightarrow> (\<forall>p. \<not> temporary_path p \<longrightarrow>
     (\<forall>c. files f p = Some c \<longrightarrow> files f' p = Some c) \<and>
     (durable_data f p \<longrightarrow> durable_data f' p) \<and>
     (durable_name f p \<longrightarrow> durable_name f' p))"

definition evolving :: "(fs, 'a) proc \<Rightarrow> bool" where
  "evolving m \<longleftrightarrow> (\<forall>f. fs_ok f \<longrightarrow> fs_ok (snd (m f)) \<and> fs_extends f (snd (m f)))"

lemma fs_extends_refl [simp]: "fs_extends f f"
  by (simp add: fs_extends_def)

lemma fs_extends_trans: "fs_extends f g \<Longrightarrow> fs_extends g h \<Longrightarrow> fs_extends f h"
  by (simp add: fs_extends_def)

lemma evolvingD: "evolving m \<Longrightarrow> fs_ok f \<Longrightarrow> m f = (r, f') \<Longrightarrow> fs_ok f' \<and> fs_extends f f'"
  by (metis evolving_def snd_conv)

lemma evolving_bindp: "evolving m \<Longrightarrow> (\<And>a. evolving (k a)) \<Longrightarrow> evolving (bindp m k)"
  unfolding evolving_def bindp_def
  by (auto split: prod.split sum.split) (metis fs_extends_trans snd_conv)+

lemma evolving_raise_lv: "evolving (raise_lv c m)"
  by (simp add: evolving_def raise_lv_def raise_def)

lemma evolving_ret: "evolving (ret a)"
  by (simp add: evolving_def ret_def)

lemma interfere_evolves: "fs_ok f \<Longrightarrow> fs_ok (interfere f) \<and> fs_extends f (interfere f)"
  unfolding interfere_def Let_def
  by (auto simp: fs_ok_def fs_extends_def path_taken_def split: option.split)

lemma evolving_syscall:
  assumes "\<And>g a h. fs_ok g \<Longrightarrow> op g = Inr (a, h) \<Longrightarrow> fs_ok h \<and> fs_extends g h"
  shows "evolving (syscall code text op)"
  unfolding evolving_def syscall_def Let_def
  using interfere_evolves assms fs_extends_trans by (auto split: option.split sum.split) blast+

lemma regular_file_size_evolving: "evolving (regular_file_size p)"
  unfolding regular_file_size_def
  by (rule evolving_syscall) (auto split: if_splits option.splits)

lemma read_exact_evolving: "evolving (read_exact p n)"
  unfolding read_exact_def
  by (rule evolving_syscall) (auto simp: bindE_Inr_iff split: option.splits)

lemma ensure_directory_evolving: "evolving (ensure_directory p)"
  unfolding ensure_directory_def
  by (rule evolving_syscall)
    (auto simp: fs_ok_def fs_extends_def path_taken_def split: if_splits)

lemma flush_containing_directory_evolving: "evolving (flush_containing_directory p)"
  unfolding flush_containing_directory_def
  by (rule evolving_syscall) (auto simp: fs_ok_def fs_extends_def path_taken_def)

lemma sync_existing_regular_file_evolving: "evolving (sync_existing_regular_file p)"
  unfolding sync_existing_regular_file_def
  by (rule evolving_syscall)
    (auto simp: fs_ok_def fs_extends_def path_taken_def split: option.splits if_splits)

lemma create_temporary_evolving:
  "list_all temporary_path candidates \<Longrightarrow> evolving (create_temporary candidates n)"
proof (induction candidates n rule: create_temporary.induct)
  case (3 candidate candidates attempts)
  have "evolving (syscall E_filesystem_error ''failed to create restore temporary file: '' (\<lambda>f.
      if path_taken f candidate then Inr (False, f)
      else Inr (True, f\<lparr>files := (files f)(candidate \<mapsto> [])\<rparr>)))"
    by (rule evolving_syscall) (use 3(2) in \<open>auto simp: fs_ok_def fs_extends_def path_taken_def split: if_splits\<close>)
  then show ?case
    using 3 by (auto intro!: evolving_bindp evolving_ret)
qed (simp_all add: evolving_raise_lv)

text \<open>Changes to one temporary file concern nothing else.\<close>

lemma parent_dir_prefix: "\<exists>n. p = parent_dir p @ n"
proof -
  have "rev p = takeWhile (\<lambda>c. c \<noteq> CHR ''/'') (rev p) @ dropWhile (\<lambda>c. c \<noteq> CHR ''/'') (rev p)"
    by simp
  then have "\<exists>x. rev p = x @ tl (dropWhile (\<lambda>c. c \<noteq> CHR ''/'') (rev p))"
    by (metis append.assoc append_Nil list.collapse list.sel(2) append_Cons)
  then show ?thesis
    unfolding parent_dir_def by (metis rev_append rev_rev_ident)
qed

lemma temporary_parent:
  assumes "temporary_path (parent_dir p)"
  shows "temporary_path p"
proof -
  have "length (take 10 (parent_dir p)) = 10"
    using assms by (simp add: temporary_path_def)
  then have long: "10 \<le> length (parent_dir p)" by simp
  obtain n where "p = parent_dir p @ n" using parent_dir_prefix by blast
  then have "take 10 p = take 10 (parent_dir p @ n)" by simp
  then show ?thesis
    using assms long by (simp add: temporary_path_def)
qed

definition same_but :: "string \<Rightarrow> fs \<Rightarrow> fs \<Rightarrow> bool" where
  "same_but p f f' \<longleftrightarrow> dirs f' = dirs f \<and>
     (\<forall>q. q \<noteq> p \<longrightarrow> files f' q = files f q \<and> others f' q = others f q \<and>
        durable_data f' q = durable_data f q \<and> durable_name f' q = durable_name f q)"

lemma same_but_evolves:
  assumes "same_but p f f'" and "temporary_path p" and "fs_ok f"
    and "durable_data f' p \<Longrightarrow> files f' p \<noteq> None" and "durable_name f' p \<Longrightarrow> path_taken f' p"
    and "files f' p \<noteq> None \<Longrightarrow> files f p \<noteq> None" and "others f' p \<noteq> None \<Longrightarrow> others f p \<noteq> None"
  shows "fs_ok f' \<and> fs_extends f f'"
proof -
  have "durable_name f' (parent_dir q)" if "files f' q \<noteq> None" "\<not> temporary_path q" for q
  proof -
    have "q \<noteq> p" "parent_dir q \<noteq> p"
      using that(2) assms(2) temporary_parent by blast+
    then show ?thesis
      using that assms(1,3) unfolding same_but_def fs_ok_def by metis
  qed
  moreover have "durable_name f' q \<longrightarrow> path_taken f' q" for q
    using assms(1,3,5) unfolding same_but_def fs_ok_def path_taken_def by metis
  moreover have "durable_data f' q \<longrightarrow> files f' q \<noteq> None" for q
    using assms(1,3,4) unfolding same_but_def fs_ok_def by metis
  moreover have "files f' q \<noteq> None \<longrightarrow> \<not> dirs f' q \<and> others f' q = None" for q
    using assms(1,3,6,7) unfolding same_but_def fs_ok_def by metis
  moreover have "fs_extends f f'"
    using assms(1,2) unfolding same_but_def fs_extends_def by metis
  ultimately show ?thesis
    unfolding fs_ok_def by blast
qed

text \<open>The effect of writing to a temporary file.\<close>

definition writes_to :: "string \<Rightarrow> fs \<Rightarrow> fs \<Rightarrow> bool" where
  "writes_to p f g \<longleftrightarrow> same_but p f g \<and> others g p = others f p \<and> (files g p = None \<longleftrightarrow> files f p = None) \<and>
     (durable_data g p \<longrightarrow> durable_data f p) \<and> durable_name g p = durable_name f p"

lemma writes_to_trans: "writes_to p f g \<Longrightarrow> writes_to p g h \<Longrightarrow> writes_to p f h"
  by (simp add: writes_to_def same_but_def)

lemma write_call_writes_to: "write_call p rest f = (r, g) \<Longrightarrow> writes_to p f g"
  by (auto simp: write_call_def Let_def writes_to_def same_but_def
      split: list.splits write_outcome.splits if_splits)

lemma write_call_content:
  assumes "write_call p rest f = (Inr rest', g)"
  shows "\<exists>n. rest' = drop n rest \<and> files g p = map_option (\<lambda>c. c @ take n rest) (files f p)"
proof -
  consider "rest' = rest" "files g = files f"
    | n where "rest' = drop n rest" "files g p = map_option (\<lambda>c. c @ take n rest) (files f p)"
    using assms by (auto simp: write_call_def Let_def split: list.splits write_outcome.splits if_splits)
  then show ?thesis
  proof cases
    case 1
    then show ?thesis by (intro exI [of _ 0]) (simp add: option.map_ident)
  qed blast
qed

lemma write_loop_cases:
  assumes "write_loop p rest f = (r, g)"
  obtains "rest = []" "r = Inr ()" "g = f"
  | e where "write_call p rest f = (Inl e, g)" "r = Inl e"
  | rest' f1 where "rest \<noteq> []" "write_call p rest f = (Inr rest', f1)" "write_loop p rest' f1 = (r, g)"
  using assms by (subst (asm) write_loop.simps) (auto split: if_splits prod.splits sum.splits)

lemma write_loop_writes_to: "write_loop p bs f = (r, g) \<Longrightarrow> writes_to p f g"
proof (induction p bs f rule: write_loop.induct)
  case (1 path rest f)
  from 1(2) show ?case
  proof (cases rule: write_loop_cases)
    case 1
    then show ?thesis by (simp add: writes_to_def same_but_def)
  next
    case (2 e)
    then show ?thesis using write_call_writes_to by blast
  next
    case (3 rest' f1)
    then show ?thesis
      using 1(1) [OF 3(1) 3(2) [symmetric] refl 3(3)] write_call_writes_to [OF 3(2)] writes_to_trans
      by blast
  qed
qed

lemma write_loop_content:
  "write_loop p bs f = (Inr u, g) \<Longrightarrow> files g p = map_option (\<lambda>c. c @ bs) (files f p)"
proof (induction p bs f rule: write_loop.induct)
  case (1 path rest f)
  from 1(2) show ?case
  proof (cases rule: write_loop_cases)
    case 1
    then show ?thesis by (simp add: option.map_ident)
  next
    case (3 rest' f1)
    obtain n where "rest' = drop n rest" "files f1 path = map_option (\<lambda>c. c @ take n rest) (files f path)"
      using write_call_content [OF 3(2)] by blast
    then show ?thesis
      using 1(1) [OF 3(1) 3(2) [symmetric] refl 3(3)] by (simp add: option.map_comp comp_def)
  qed simp
qed

lemma writes_to_evolves:
  "writes_to p f g \<Longrightarrow> temporary_path p \<Longrightarrow> fs_ok f \<Longrightarrow> fs_ok g \<and> fs_extends f g"
  by (rule same_but_evolves [of p]) (auto simp: writes_to_def fs_ok_def path_taken_def same_but_def)

lemma write_loop_evolving: "temporary_path p \<Longrightarrow> evolving (write_loop p bs)"
  unfolding evolving_def by (metis write_loop_writes_to writes_to_evolves surjective_pairing)

lemma temporary_sync_evolving: "temporary_path p \<Longrightarrow> evolving (temporary_sync p)"
  unfolding temporary_sync_def
  by (rule evolving_syscall, rule same_but_evolves [of p])
    (auto simp: same_but_def fs_ok_def path_taken_def split: if_splits)

lemma drop_temporary_evolves:
  "temporary_path p \<Longrightarrow> fs_ok f \<Longrightarrow> fs_ok (drop_temporary p f) \<and> fs_extends f (drop_temporary p f)"
  by (rule same_but_evolves [of p]) (auto simp: same_but_def drop_temporary_def)

lemma publish_new_evolves:
  assumes "fs_ok g" and "temporary_path t" and "\<not> temporary_path p" and "\<not> path_taken g p"
    and "durable_name g (parent_dir p)" and "files g t \<noteq> None"
    and h0: "h = rename_path t p g"
  shows "fs_ok h \<and> fs_extends g h"
proof -
  have tp: "t \<noteq> p" using assms(2,3) by blast
  note h = h0 [unfolded rename_path_def if_not_P [OF tp]]
  have free: "files g p = None" "\<not> dirs g p" "others g p = None" "\<not> durable_name g p"
    using assms(1,4) by (auto simp: path_taken_def fs_ok_def)
  have parent: "durable_name h (parent_dir q)" if q: "files h q \<noteq> None" "\<not> temporary_path q" for q
  proof -
    have "durable_name g (parent_dir q)"
      using q assms(1,5) by (auto simp: h fs_ok_def split: if_splits)
    moreover from this have "parent_dir q \<noteq> p" using free(4) by auto
    moreover have "parent_dir q \<noteq> t" using q(2) assms(2) temporary_parent by blast
    ultimately show ?thesis by (simp add: h)
  qed
  have "durable_name h q \<longrightarrow> path_taken h q" for q
    using assms(1) by (simp add: h fs_ok_def path_taken_def)
  moreover have "durable_data h q \<longrightarrow> files h q \<noteq> None" for q
    using assms(1,6) tp by (simp add: h fs_ok_def)
  moreover have "files h q \<noteq> None \<longrightarrow> \<not> dirs h q \<and> others h q = None" for q
    using assms(1,6) free by (simp add: h fs_ok_def)
  ultimately have "fs_ok h"
    using parent unfolding fs_ok_def by blast
  moreover have "fs_extends g h"
    using assms(1,2) free by (auto simp: h fs_extends_def fs_ok_def)
  ultimately show ?thesis by blast
qed

lemma syscall_cases:
  assumes "syscall code text op f = (r, f')"
  obtains m where "r = throw_lv code (text @ m)" "f' = interfere f"
  | e where "r = Inl e" "f' = interfere f" "op (interfere f) = Inl e"
  | a where "r = Inr a" "op (interfere f) = Inr (a, f')"
  using assms by (auto simp: syscall_def Let_def split: option.splits sum.splits)

lemma publish_evolves:
  assumes "publish t p False f = (r, f')" and "fs_ok f" and "temporary_path t" and "\<not> temporary_path p"
    and "durable_name f (parent_dir p)" and "files f t \<noteq> None" and "\<not> temporary_path (parent_dir p)"
  shows "fs_ok f' \<and> fs_extends f f' \<and>
    (r = Inr published \<longrightarrow> files f' p = files f t \<and> durable_data f' p = durable_data f t)"
proof -
  let ?g = "interfere f"
  have g: "fs_ok ?g" "fs_extends f ?g" "files ?g t = files f t" "durable_data ?g t = durable_data f t"
    using interfere_evolves [OF assms(2)] assms(6)
    by (auto simp: interfere_def Let_def path_taken_def split: option.split)
  from assms(1) show ?thesis
    unfolding publish_def
  proof (cases rule: syscall_cases)
    case (3 a)
    show ?thesis
    proof (cases "path_taken ?g p")
      case True
      then show ?thesis using 3 g by auto
    next
      case False
      then have f': "a = published" "f' = rename_path t p ?g"
        using 3 by (auto simp: path_taken_def split: if_splits)
      have "durable_name ?g (parent_dir p)"
        using g(2) assms(5,7) by (auto simp: fs_extends_def)
      then have "fs_ok f' \<and> fs_extends ?g f'"
        using publish_new_evolves [OF g(1) assms(3,4) False _ _ f'(2)] g(3) assms(6) by simp
      moreover have "t \<noteq> p" using assms(3,4) by blast
      ultimately show ?thesis
        using g fs_extends_trans f'(2) by (auto simp: rename_path_def)
    qed
  qed (use g in auto)
qed

end
