(* ===== verification/Object_Store.thy ===== *)
theory Object_Store
  imports Codec Vault_FS Publication "HOL-Library.AList"
begin

text \<open>
  The content-addressed object store of \<^verbatim>\<open>src/core/storage/object_store.cpp\<close>: where an object
  lives, how it is found, verified, written durably and registered. The state is the file system,
  the metadata connection and the store's cache of known objects; the members that never change are
  a configuration record.
\<close>

section \<open>State\<close>

record StoredObject =
  so_hash_hex :: string
  so_relative_path :: string
  so_raw_size :: ByteCount
  so_stored_size :: ByteCount
  so_newly_stored :: bool

record os_config =
  oc_blake3 :: blake3
  oc_zstd :: zstd
  oc_level :: int
  oc_maximum_chunk_size :: size_t
  oc_metadata :: bool
  oc_temporary_names :: "string list"
  oc_now :: int

record ostore =
  os_fs :: fs
  os_conn :: conn
  os_known :: "(string \<times> StoredObject) list"

definition os_disk :: "(fs, 'a) proc \<Rightarrow> (ostore, 'a) proc" where
  "os_disk m s = (case m (os_fs s) of (r, f) \<Rightarrow> (r, s\<lparr>os_fs := f\<rparr>))"

definition os_meta :: "(conn, 'a) proc \<Rightarrow> (ostore, 'a) proc" where
  "os_meta m s = (case m (os_conn s) of (r, c) \<Rightarrow> (r, s\<lparr>os_conn := c\<rparr>))"

abbreviation compressed_size_allowance :: ByteCount where
  "compressed_size_allowance \<equiv> 65536"

abbreviation permanent_maximum_chunk_size :: ByteCount where
  "permanent_maximum_chunk_size \<equiv> 4194304"

abbreviation maximum_known_objects :: nat where
  "maximum_known_objects \<equiv> 64"

section \<open>Identifiers and paths\<close>

definition require_valid_hash :: "string \<Rightarrow> ErrorCode \<Rightarrow> exn + unit" where
  "require_valid_hash hash_hex code =
     (if is_lowercase_blake3_hex hash_hex then Inr ()
      else throw_lv code ''object identifier is not lowercase BLAKE3 hexadecimal'')"

definition shard_dir :: "string \<Rightarrow> string" where
  "shard_dir hash_hex = ''objects/'' @ take 2 hash_hex"

definition derived_path :: "string \<Rightarrow> string" where
  "derived_path hash_hex = shard_dir hash_hex @ ''/'' @ hash_hex @ ''.zst''"

definition object_relative_path :: "string \<Rightarrow> exn + string" where
  "object_relative_path hash_hex =
     bindE (require_valid_hash hash_hex E_invalid_argument) (\<lambda>_. Inr (derived_path hash_hex))"

definition checked_maximum_chunk_size :: "ByteCount \<Rightarrow> exn + size_t" where
  "checked_maximum_chunk_size n =
     (if n = 0 \<or> n > permanent_maximum_chunk_size
      then throw_lv E_invalid_argument ''repository chunk-size limit must be between 1 byte and 4 MiB''
      else Inr n)"

section \<open>Reading\<close>

definition stored_size_ok :: "os_config \<Rightarrow> ByteCount \<Rightarrow> bool" where
  "stored_size_ok cfg n \<longleftrightarrow> n \<noteq> 0 \<and> n \<le> oc_maximum_chunk_size cfg + compressed_size_allowance"

definition decompress_object :: "os_config \<Rightarrow> bytes \<Rightarrow> nat \<Rightarrow> exn + bytes" where
  "decompress_object cfg compressed raw_size =
     (case codec_decompress (oc_zstd cfg) compressed raw_size (unat (oc_maximum_chunk_size cfg)) of
        Inr raw \<Rightarrow> Inr raw
      | Inl (Lv e) \<Rightarrow>
          if error_code e \<noteq> E_compression_error then Inl (Lv e)
          else throw_lv E_object_corrupt (''stored object failed zstd verification: '' @ what e)
      | Inl e \<Rightarrow> Inl e)"

definition read_verified ::
  "os_config \<Rightarrow> string \<Rightarrow> string \<Rightarrow> ByteCount \<Rightarrow> ByteCount \<Rightarrow> (ostore, bytes) proc" where
  "read_verified cfg hash_hex relative_path expected_raw_size expected_stored_size =
     seqp (liftp (require_valid_hash hash_hex E_object_corrupt))
     (let derived = derived_path hash_hex in
      seqp (guardp (relative_path = derived) E_object_corrupt
              ''stored object path does not match its BLAKE3 identifier'')
      (seqp (guardp (expected_raw_size \<noteq> 0 \<and> expected_raw_size \<le> oc_maximum_chunk_size cfg)
               E_object_corrupt ''stored object raw size exceeds the repository chunk-size limit'')
      (seqp (guardp (stored_size_ok cfg expected_stored_size) E_object_corrupt
               ''stored object compressed size exceeds the safety limit'')
      (bindp (os_disk (regular_file_size derived)) (\<lambda>actual_size.
       case actual_size of
         None \<Rightarrow> raise_lv E_object_missing ''stored object is missing''
       | Some actual \<Rightarrow>
           seqp (guardp (actual = expected_stored_size) E_object_corrupt
                   ''stored object size does not match metadata'')
           (bindp (os_disk (read_exact derived (unat expected_stored_size))) (\<lambda>compressed.
            bindp (liftp (decompress_object cfg compressed (unat expected_raw_size))) (\<lambda>raw.
            seqp (guardp (hash_raw (oc_blake3 cfg) raw = hash_hex) E_object_corrupt
                    ''stored object failed BLAKE3 verification'')
              (ret raw)))))))))"

section \<open>Finding\<close>

definition require_reusable ::
  "os_config \<Rightarrow> StoredObject \<Rightarrow> string \<Rightarrow> string \<Rightarrow> ByteCount \<Rightarrow> (ostore, StoredObject) proc" where
  "require_reusable cfg known expected_hash expected_relative_path expected_raw_size =
     seqp (guardp (so_hash_hex known = expected_hash \<and> so_relative_path known = expected_relative_path)
             E_object_corrupt ''stored object metadata does not match its BLAKE3 identifier'')
     (seqp (guardp (so_raw_size known = expected_raw_size) E_object_corrupt
              ''existing chunk metadata has a conflicting raw size'')
     (seqp (guardp (stored_size_ok cfg (so_stored_size known)) E_object_corrupt
              ''stored object compressed size exceeds the safety limit'')
     (bindp (os_disk (regular_file_size expected_relative_path)) (\<lambda>actual_size.
      case actual_size of
        None \<Rightarrow> raise_lv E_object_missing ''stored object is missing''
      | Some actual \<Rightarrow>
          seqp (guardp (actual = so_stored_size known) E_object_corrupt
                  ''stored object size does not match metadata'')
            (ret (known\<lparr>so_newly_stored := False\<rparr>))))))"

definition remember :: "StoredObject \<Rightarrow> (ostore, unit) proc" where
  "remember object =
     modifyp (\<lambda>s. s\<lparr>os_known :=
       (let known = (if length (os_known s) \<ge> maximum_known_objects \<and>
                        map_of (os_known s) (so_hash_hex object) = None
                     then [] else os_known s)
        in AList.update (so_hash_hex object) object known)\<rparr>)"

definition find_existing ::
  "os_config \<Rightarrow> string \<Rightarrow> string \<Rightarrow> ByteCount \<Rightarrow> (ostore, StoredObject option) proc" where
  "find_existing cfg hash_hex relative_path raw_size =
     bindp (gets (\<lambda>s. map_of (os_known s) hash_hex)) (\<lambda>cached.
     case cached of
       Some known \<Rightarrow>
         bindp (require_reusable cfg known hash_hex relative_path raw_size) (\<lambda>reused. ret (Some reused))
     | None \<Rightarrow>
         if oc_metadata cfg then
           bindp (os_meta (find_chunk hash_hex)) (\<lambda>row.
           case row of
             None \<Rightarrow> ret None
           | Some metadata \<Rightarrow>
               bindp (require_reusable cfg
                        \<lparr>so_hash_hex = sc_hash_hex metadata, so_relative_path = sc_object_path metadata,
                         so_raw_size = sc_raw_size metadata, so_stored_size = sc_stored_size metadata,
                         so_newly_stored = False\<rparr> hash_hex relative_path raw_size) (\<lambda>reused.
               seqp (remember reused) (ret (Some reused))))
         else ret None)"

definition find_existing_file ::
  "os_config \<Rightarrow> string \<Rightarrow> string \<Rightarrow> ByteCount \<Rightarrow> (ostore, StoredObject option) proc" where
  "find_existing_file cfg hash_hex relative_path raw_size =
     bindp (gets (\<lambda>s. map_of (os_known s) hash_hex)) (\<lambda>cached.
     case cached of
       Some known \<Rightarrow>
         bindp (require_reusable cfg known hash_hex relative_path raw_size) (\<lambda>reused. ret (Some reused))
     | None \<Rightarrow>
         bindp (os_disk (regular_file_size relative_path)) (\<lambda>orphan_size.
         case orphan_size of
           None \<Rightarrow> ret None
         | Some n \<Rightarrow>
             seqp (read_verified cfg hash_hex relative_path raw_size n)
             (seqp (os_disk (sync_existing_regular_file relative_path))
             (seqp (os_disk (flush_containing_directory relative_path))
             (let adopted = \<lparr>so_hash_hex = hash_hex, so_relative_path = relative_path,
                    so_raw_size = raw_size, so_stored_size = n, so_newly_stored = False\<rparr> in
              seqp (if oc_metadata cfg then ret () else remember adopted)
                (ret (Some adopted)))))))"

section \<open>Storing\<close>

definition ensure_metadata :: "os_config \<Rightarrow> StoredObject \<Rightarrow> (ostore, unit) proc" where
  "ensure_metadata cfg object =
     seqp (guardp (oc_metadata cfg) E_invalid_argument ''registering an object requires writable metadata'')
     (seqp (liftp (require_valid_hash (so_hash_hex object) E_object_corrupt))
     (bindp (require_reusable cfg object (so_hash_hex object) (derived_path (so_hash_hex object))
               (so_raw_size object)) (\<lambda>verified.
      seqp (os_meta (ensure_chunk \<lparr>sc_hash_hex = so_hash_hex verified, sc_raw_size = so_raw_size verified,
              sc_stored_size = so_stored_size verified, sc_object_path = so_relative_path verified,
              sc_created_at_ns = oc_now cfg\<rparr>))
        (remember verified))))"

text \<open>The temporary file is removed on every exit from its scope.\<close>

definition with_temporary :: "os_config \<Rightarrow> string \<Rightarrow> (string \<Rightarrow> (ostore, 'a) proc) \<Rightarrow> (ostore, 'a) proc" where
  "with_temporary cfg dir body =
     bindp (os_disk (create_temporary (map (\<lambda>n. dir @ ''/'' @ n) (oc_temporary_names cfg)) 100))
       (\<lambda>temporary s. case body temporary s of
          (r, s') \<Rightarrow> (r, s'\<lparr>os_fs := drop_temporary temporary (os_fs s')\<rparr>))"

text \<open>The end of the temporary file's scope: publication under the final name and the flush of its
  directory, or adoption of the object another writer published first.\<close>

definition publish_object ::
  "os_config \<Rightarrow> string \<Rightarrow> string \<Rightarrow> ByteCount \<Rightarrow> bytes \<Rightarrow> string \<Rightarrow> (ostore, StoredObject) proc" where
  "publish_object cfg hash_hex relative_path raw_size compressed temporary =
     bindp (os_disk (publish temporary relative_path False)) (\<lambda>publication.
       if publication = destination_exists then
         bindp (find_existing_file cfg hash_hex relative_path raw_size) (\<lambda>existing.
         case existing of
           None \<Rightarrow> raise_lv E_filesystem_error ''duplicate object disappeared during publication''
         | Some object \<Rightarrow> ret object)
       else
         seqp (os_meta (hit after_object_rename))
         (seqp (os_disk (flush_containing_directory relative_path))
         (let stored = \<lparr>so_hash_hex = hash_hex, so_relative_path = relative_path,
                so_raw_size = raw_size, so_stored_size = word_of_nat (length compressed),
                so_newly_stored = True\<rparr> in
          seqp (if oc_metadata cfg then ret () else remember (stored\<lparr>so_newly_stored := False\<rparr>))
            (ret stored))))"

definition write_object ::
  "os_config \<Rightarrow> string \<Rightarrow> string \<Rightarrow> ByteCount \<Rightarrow> bytes \<Rightarrow> (ostore, StoredObject) proc" where
  "write_object cfg hash_hex relative_path raw_size compressed =
     seqp (os_disk (ensure_directory (parent_dir relative_path)))
     (seqp (os_disk (flush_containing_directory (parent_dir relative_path)))
     (seqp (os_disk (ensure_directory ''temporary/objects''))
     (with_temporary cfg ''temporary/objects'' (\<lambda>temporary.
      seqp (os_disk (write_loop temporary compressed))
      (seqp (os_meta (hit after_temp_object_write))
      (seqp (os_disk (temporary_sync temporary))
      (seqp (os_meta (hit after_object_fsync))
        (publish_object cfg hash_hex relative_path raw_size compressed temporary))))))))"

definition store :: "os_config \<Rightarrow> bytes \<Rightarrow> bool \<Rightarrow> (ostore, StoredObject) proc" where
  "store cfg raw_bytes stop_requested =
     seqp (guardp (raw_bytes \<noteq> []) E_invalid_argument ''empty files must not create stored objects'')
     (seqp (guardp (length raw_bytes \<le> unat (oc_maximum_chunk_size cfg)) E_invalid_argument
              ''raw chunk exceeds the repository chunk-size limit'')
     (let raw_size = word_of_nat (length raw_bytes);
          hash_hex = hash_raw (oc_blake3 cfg) raw_bytes;
          relative_path = derived_path hash_hex in
      bindp (find_existing cfg hash_hex relative_path raw_size) (\<lambda>existing.
      case existing of
        Some object \<Rightarrow> ret object
      | None \<Rightarrow>
          seqp (guardp (\<not> stop_requested) E_cancelled ''object storage cancelled'')
          (bindp (liftp (codec_compress (oc_zstd cfg) (oc_level cfg) raw_bytes)) (\<lambda>compressed.
           seqp (guardp (stored_size_ok cfg (word_of_nat (length compressed))) E_compression_error
                   ''compressed object exceeds the configured safety limit'')
           (bindp (bindp (find_existing_file cfg hash_hex relative_path raw_size) (\<lambda>rechecked.
                   case rechecked of
                     Some object \<Rightarrow> ret object
                   | None \<Rightarrow> write_object cfg hash_hex relative_path raw_size compressed))
              (\<lambda>stored. seqp (if oc_metadata cfg then ensure_metadata cfg stored else ret ())
                          (ret stored))))))))"

section \<open>Paths\<close>

lemma hex_no_slash: "is_lowercase_blake3_hex h \<Longrightarrow> CHR ''/'' \<notin> set h"
  by (auto simp: is_lowercase_blake3_hex_def list_all_iff is_hex_char_def)

lemma derived_path_parent: "is_lowercase_blake3_hex h \<Longrightarrow> parent_dir (derived_path h) = shard_dir h"
  unfolding derived_path_def using hex_no_slash [of h] parent_dir_join [of "h @ ''.zst''" "shard_dir h"]
  by simp

lemma object_paths_not_temporary [simp]:
  "\<not> temporary_path (derived_path h)" "\<not> temporary_path (shard_dir h)"
  by (simp_all add: temporary_path_def derived_path_def shard_dir_def)

lemma derived_path_inj:
  assumes "is_lowercase_blake3_hex h" and "is_lowercase_blake3_hex h'" and "derived_path h = derived_path h'"
  shows "h = h'"
proof -
  have "length h = 64" "length h' = 64"
    using assms(1,2) by (simp_all add: is_lowercase_blake3_hex_def)
  then show ?thesis
    using assms(3) by (simp add: derived_path_def shard_dir_def)
qed

section \<open>Good objects\<close>

text \<open>
  What a registered object promises: its file exists under the derived path with the recorded size,
  its contents decompress to bytes with the recorded hash and length, and the contents, the name
  and the name of its directory are durable.
\<close>

definition content_ok :: "os_config \<Rightarrow> string \<Rightarrow> nat \<Rightarrow> bytes \<Rightarrow> bool" where
  "content_ok cfg h n c \<longleftrightarrow>
     (\<exists>raw. codec_decompress (oc_zstd cfg) c n (unat (oc_maximum_chunk_size cfg)) = Inr raw \<and>
            hash_raw (oc_blake3 cfg) raw = h)"

definition good_object :: "os_config \<Rightarrow> fs \<Rightarrow> StoredObject \<Rightarrow> bool" where
  "good_object cfg f obj \<longleftrightarrow>
     (let h = so_hash_hex obj; p = derived_path h in
      is_lowercase_blake3_hex h \<and> so_relative_path obj = p \<and> so_raw_size obj \<noteq> 0 \<and>
      stored_size_ok cfg (so_stored_size obj) \<and>
      (\<exists>c. files f p = Some c \<and> length c = unat (so_stored_size obj) \<and>
           content_ok cfg h (unat (so_raw_size obj)) c) \<and>
      durable_data f p \<and> durable_name f p \<and> durable_name f (shard_dir h))"

lemma good_object_extends: "good_object cfg f obj \<Longrightarrow> fs_extends f f' \<Longrightarrow> good_object cfg f' obj"
  unfolding good_object_def Let_def fs_extends_def using object_paths_not_temporary by metis

lemma good_object_newly [simp]: "good_object cfg f (obj\<lparr>so_newly_stored := b\<rparr>) = good_object cfg f obj"
  by (simp add: good_object_def)

definition row_object :: "chunk_row \<Rightarrow> StoredObject" where
  "row_object c = \<lparr>so_hash_hex = ck_hash c, so_relative_path = ck_object_path c,
     so_raw_size = word_of_int (ck_raw_size c), so_stored_size = word_of_int (ck_compressed_size c),
     so_newly_stored = False\<rparr>"

definition rows_good :: "os_config \<Rightarrow> fs \<Rightarrow> tables \<Rightarrow> bool" where
  "rows_good cfg f t \<longleftrightarrow> schema_ok t \<and> (\<forall>c \<in> set (chunks t). good_object cfg f (row_object c))"

definition known_good :: "os_config \<Rightarrow> ostore \<Rightarrow> bool" where
  "known_good cfg s \<longleftrightarrow> (\<forall>(h, k) \<in> set (os_known s). so_hash_hex k = h \<and> good_object cfg (os_fs s) k)"

definition store_inv :: "os_config \<Rightarrow> ostore \<Rightarrow> bool" where
  "store_inv cfg s \<longleftrightarrow> fs_ok (os_fs s) \<and> known_good cfg s \<and>
     on_db (rows_good cfg (os_fs s)) (os_conn s)"

text \<open>What holds after any step from \<open>s\<close>: the invariant, and nothing on disk lost.\<close>

definition reaches :: "os_config \<Rightarrow> ostore \<Rightarrow> ostore \<Rightarrow> bool" where
  "reaches cfg s s' \<longleftrightarrow> store_inv cfg s' \<and> fs_extends (os_fs s) (os_fs s')"

lemma reaches_refl: "store_inv cfg s \<Longrightarrow> reaches cfg s s"
  by (simp add: reaches_def)

lemma reaches_trans: "reaches cfg s s' \<Longrightarrow> reaches cfg s' s'' \<Longrightarrow> reaches cfg s s''"
  using fs_extends_trans by (auto simp: reaches_def)

lemma rows_good_extends: "rows_good cfg f t \<Longrightarrow> fs_extends f f' \<Longrightarrow> rows_good cfg f' t"
  using good_object_extends by (auto simp: rows_good_def)

lemma reaches_disk:
  assumes "store_inv cfg s" and "fs_ok f \<and> fs_extends (os_fs s) f"
  shows "reaches cfg s (s\<lparr>os_fs := f\<rparr>)"
  using assms good_object_extends rows_good_extends
  by (auto simp: reaches_def store_inv_def known_good_def on_db_def)

subsection \<open>Weakest preconditions on the store\<close>

text \<open>\<open>triple\<close>: from a good store the operation reaches a good store on every exit, and what it
  returns satisfies \<open>Q\<close>.\<close>

definition triple :: "os_config \<Rightarrow> (ostore, 'a) proc \<Rightarrow> ('a \<Rightarrow> ostore \<Rightarrow> bool) \<Rightarrow> ostore \<Rightarrow> bool" where
  "triple cfg m Q s \<longleftrightarrow> (store_inv cfg s \<longrightarrow>
     wp m (\<lambda>a s'. reaches cfg s s' \<and> Q a s') (\<lambda>_ s'. reaches cfg s s') s)"

lemma triple_bindp:
  assumes "triple cfg m Q s" and "\<And>a s'. reaches cfg s s' \<Longrightarrow> Q a s' \<Longrightarrow> triple cfg (k a) R s'"
  shows "triple cfg (bindp m k) R s"
  unfolding triple_def wp_bindp
proof
  assume inv: "store_inv cfg s"
  show "wp m (\<lambda>a. wp (k a) (\<lambda>a s'. reaches cfg s s' \<and> R a s') (\<lambda>_ s'. reaches cfg s s'))
      (\<lambda>_ s'. reaches cfg s s') s"
  proof (rule wp_mono [OF assms(1) [unfolded triple_def, rule_format, OF inv]])
    fix a s' assume "reaches cfg s s' \<and> Q a s'"
    then have step: "reaches cfg s s'" "triple cfg (k a) R s'" "store_inv cfg s'"
      using assms(2) by (auto simp: reaches_def)
    show "wp (k a) (\<lambda>a s'. reaches cfg s s' \<and> R a s') (\<lambda>_ s'. reaches cfg s s') s'"
      by (rule wp_mono [OF step(2) [unfolded triple_def, rule_format, OF step(3)]])
        (use reaches_trans [OF step(1)] in auto)
  qed
qed

lemma triple_seqp:
  "triple cfg m (\<lambda>_. Q) s \<Longrightarrow> (\<And>s'. reaches cfg s s' \<Longrightarrow> Q s' \<Longrightarrow> triple cfg n R s') \<Longrightarrow>
   triple cfg (seqp m n) R s"
  unfolding seqp_def by (rule triple_bindp)

lemma triple_ret: "(store_inv cfg s \<Longrightarrow> Q a s) \<Longrightarrow> triple cfg (ret a) Q s"
  by (simp add: triple_def wp_ret reaches_refl)

lemma triple_raise_lv: "triple cfg (raise_lv c m) Q s"
  by (simp add: triple_def wp_raise_lv reaches_refl)

lemma triple_liftp: "(\<And>a. r = Inr a \<Longrightarrow> Q a s) \<Longrightarrow> triple cfg (liftp r) Q s"
  by (auto simp: triple_def wp_liftp reaches_refl split: sum.split)

lemma triple_guardp: "(b \<Longrightarrow> Q () s) \<Longrightarrow> triple cfg (guardp b c m) Q s"
  by (simp add: triple_def wp_guardp reaches_refl)

lemma triple_gets: "Q (f s) s \<Longrightarrow> triple cfg (gets f) Q s"
  by (simp add: triple_def wp_gets reaches_refl)

lemma triple_weaken: "triple cfg m Q s \<Longrightarrow> (\<And>a s'. Q a s' \<Longrightarrow> R a s') \<Longrightarrow> triple cfg m R s"
  unfolding triple_def by (auto elim: wp_mono)

lemma triple_disk:
  assumes "evolving m" and "\<And>a f. m (os_fs s) = (Inr a, f) \<Longrightarrow> Q a (s\<lparr>os_fs := f\<rparr>)"
  shows "triple cfg (os_disk m) Q s"
proof -
  obtain r f where run: "m (os_fs s) = (r, f)" by fastforce
  show ?thesis
    unfolding triple_def wp_def os_disk_def run
    using reaches_disk [of cfg s f] evolvingD [OF assms(1) _ run] assms(2) run
    by (cases r) (auto simp: store_inv_def)
qed

lemma triple_meta:
  assumes "keeps (on_db (rows_good cfg (os_fs s))) m"
    and "\<And>a c. store_inv cfg s \<Longrightarrow> m (os_conn s) = (Inr a, c) \<Longrightarrow> Q a (s\<lparr>os_conn := c\<rparr>)"
  shows "triple cfg (os_meta m) Q s"
proof -
  obtain r c where run: "m (os_conn s) = (r, c)" by fastforce
  have "store_inv cfg s \<Longrightarrow> reaches cfg s (s\<lparr>os_conn := c\<rparr>)"
    using keepsD [of _ m "os_conn s" r c, OF assms(1) _ run] by (auto simp: reaches_def store_inv_def known_good_def)
  then show ?thesis
    unfolding triple_def wp_def os_meta_def run using assms(2) run by (cases r) auto
qed

text \<open>The same rules with the rest of the procedure, for chaining from left to right.\<close>

lemma triple_seq_guardp: "(b \<Longrightarrow> triple cfg n R s) \<Longrightarrow> triple cfg (seqp (guardp b c m) n) R s"
  by (simp add: guardp_def triple_raise_lv)

lemma triple_seq_liftp: "(\<And>a. r = Inr a \<Longrightarrow> triple cfg n R s) \<Longrightarrow> triple cfg (seqp (liftp r) n) R s"
  unfolding seqp_def bindp_def liftp_def triple_def wp_def
  by (cases r) (auto simp: reaches_refl)

lemma triple_bind_liftp: "(\<And>a. r = Inr a \<Longrightarrow> triple cfg (k a) R s) \<Longrightarrow> triple cfg (bindp (liftp r) k) R s"
  unfolding bindp_def liftp_def triple_def wp_def
  by (cases r) (auto simp: reaches_refl)

lemma triple_bind_gets: "triple cfg (k (f s)) R s \<Longrightarrow> triple cfg (bindp (gets f) k) R s"
  by (simp add: triple_def bindp_def gets_def wp_def)

lemma triple_bind_disk:
  assumes "evolving m"
    and "\<And>a f. m (os_fs s) = (Inr a, f) \<Longrightarrow> reaches cfg s (s\<lparr>os_fs := f\<rparr>) \<Longrightarrow> triple cfg (k a) R (s\<lparr>os_fs := f\<rparr>)"
  shows "triple cfg (bindp (os_disk m) k) R s"
  by (rule triple_bindp [OF triple_disk [OF assms(1), where
        Q = "\<lambda>a s'. \<exists>f. m (os_fs s) = (Inr a, f) \<and> s' = s\<lparr>os_fs := f\<rparr>"]])
    (use assms(2) in auto)

lemma triple_seq_disk:
  assumes "evolving m"
    and "\<And>a f. m (os_fs s) = (Inr a, f) \<Longrightarrow> reaches cfg s (s\<lparr>os_fs := f\<rparr>) \<Longrightarrow> triple cfg n R (s\<lparr>os_fs := f\<rparr>)"
  shows "triple cfg (seqp (os_disk m) n) R s"
  unfolding seqp_def using assms by (rule triple_bind_disk)

lemma triple_bind_meta:
  assumes "keeps (on_db (rows_good cfg (os_fs s))) m"
    and "\<And>a c. store_inv cfg s \<Longrightarrow> m (os_conn s) = (Inr a, c) \<Longrightarrow> reaches cfg s (s\<lparr>os_conn := c\<rparr>) \<Longrightarrow>
      triple cfg (k a) R (s\<lparr>os_conn := c\<rparr>)"
  shows "triple cfg (bindp (os_meta m) k) R s"
  by (rule triple_bindp [OF triple_meta [OF assms(1), where
        Q = "\<lambda>a s'. store_inv cfg s \<and> (\<exists>c. m (os_conn s) = (Inr a, c) \<and> s' = s\<lparr>os_conn := c\<rparr>)"]])
    (use assms(2) in auto)

lemma triple_seq_meta:
  assumes "keeps (on_db (rows_good cfg (os_fs s))) m"
    and "\<And>a c. store_inv cfg s \<Longrightarrow> m (os_conn s) = (Inr a, c) \<Longrightarrow> reaches cfg s (s\<lparr>os_conn := c\<rparr>) \<Longrightarrow>
      triple cfg n R (s\<lparr>os_conn := c\<rparr>)"
  shows "triple cfg (seqp (os_meta m) n) R s"
  unfolding seqp_def using assms by (rule triple_bind_meta)

lemma triple_case_option:
  "(r = None \<Longrightarrow> triple cfg a R s) \<Longrightarrow> (\<And>x. r = Some x \<Longrightarrow> triple cfg (b x) R s) \<Longrightarrow>
   triple cfg (case r of None \<Rightarrow> a | Some x \<Rightarrow> b x) R s"
  by (cases r) auto

lemma triple_if:
  "(b \<Longrightarrow> triple cfg m R s) \<Longrightarrow> (\<not> b \<Longrightarrow> triple cfg n R s) \<Longrightarrow> triple cfg (if b then m else n) R s"
  by simp

lemma triple_assume: "(store_inv cfg s \<Longrightarrow> triple cfg m Q s) \<Longrightarrow> triple cfg m Q s"
  by (simp add: triple_def)

lemmas triple_chain = triple_bind_meta triple_seq_meta triple_case_option triple_if triple_raise_lv
  triple_seq_guardp triple_seq_liftp triple_bind_liftp triple_bind_gets
  triple_bind_disk triple_seq_disk triple_ret

section \<open>The operations keep the store good\<close>

lemma regular_file_size_Inr:
  assumes "regular_file_size p f = (Inr (Some n), f')"
  shows "\<exists>c. files f' p = Some c \<and> length c = unat n"
  using assms unfolding regular_file_size_def
  by (cases rule: syscall_cases)
    (auto simp: u64_unat_of_nat split: if_splits option.splits)

lemma read_exact_Inr:
  assumes "read_exact p n f = (Inr bs, f')"
  shows "\<exists>c. files f' p = Some c \<and> n \<le> length c \<and> bs = take n c"
  using assms unfolding read_exact_def
  by (cases rule: syscall_cases)
    (auto simp: bindE_Inr_iff read_blocks_start split: if_splits option.splits)

lemma decompress_object_Inr:
  "decompress_object cfg c n = Inr raw \<Longrightarrow>
   codec_decompress (oc_zstd cfg) c n (unat (oc_maximum_chunk_size cfg)) = Inr raw"
  by (auto simp: decompress_object_def split: sum.splits exn.splits if_splits)

text \<open>What a verified read has seen.\<close>

definition verified :: "os_config \<Rightarrow> string \<Rightarrow> ByteCount \<Rightarrow> ByteCount \<Rightarrow> bytes \<Rightarrow> ostore \<Rightarrow> bool" where
  "verified cfg h n m raw s \<longleftrightarrow> is_lowercase_blake3_hex h \<and> n \<noteq> 0 \<and> stored_size_ok cfg m \<and>
     (\<exists>c. files (os_fs s) (derived_path h) = Some c \<and> length c = unat m \<and>
        codec_decompress (oc_zstd cfg) c (unat n) (unat (oc_maximum_chunk_size cfg)) = Inr raw \<and>
        hash_raw (oc_blake3 cfg) raw = h)"

lemma read_verified_triple:
  "triple cfg (read_verified cfg h p n m) (\<lambda>raw s'. p = derived_path h \<and> verified cfg h n m raw s') s"
  unfolding read_verified_def Let_def
proof (intro triple_chain regular_file_size_evolving read_exact_evolving)
  fix u actual k f compressed f' raw
  assume h: "require_valid_hash h E_object_corrupt = Inr u"
    and g: "p = derived_path h" "n \<noteq> 0 \<and> n \<le> oc_maximum_chunk_size cfg" "stored_size_ok cfg m"
    and sz: "regular_file_size (derived_path h) (os_fs s) = (Inr actual, f)" "actual = Some k" "k = m"
    and rd: "read_exact (derived_path h) (unat m) (os_fs (s\<lparr>os_fs := f\<rparr>)) = (Inr compressed, f')"
    and r': "reaches cfg (s\<lparr>os_fs := f\<rparr>) (s\<lparr>os_fs := f\<rparr>\<lparr>os_fs := f'\<rparr>)"
    and d: "decompress_object cfg compressed (unat n) = Inr raw"
    and hash: "hash_raw (oc_blake3 cfg) raw = h"
  obtain c where c: "files f (derived_path h) = Some c" "length c = unat k"
    using regular_file_size_Inr sz by blast
  obtain c' where c': "files f' (derived_path h) = Some c'" "compressed = take (unat m) c'"
    using read_exact_Inr [OF rd] by blast
  moreover have "c' = c"
    using r' c(1) c'(1) by (auto simp: reaches_def fs_extends_def)
  ultimately show "p = derived_path h \<and> verified cfg h n m raw (s\<lparr>os_fs := f\<rparr>\<lparr>os_fs := f'\<rparr>)"
    using c sz(3) g h decompress_object_Inr [OF d] hash
    by (auto simp: verified_def require_valid_hash_def split: if_splits)
qed

text \<open>Reusing a known object: it is the one asked for, and its file still has the recorded size.\<close>

lemma require_reusable_triple:
  "triple cfg (require_reusable cfg known h p n)
     (\<lambda>obj s'. obj = known\<lparr>so_newly_stored := False\<rparr> \<and> so_hash_hex known = h \<and> so_relative_path known = p \<and>
        so_raw_size known = n) s"
  unfolding require_reusable_def
  by (intro triple_chain regular_file_size_evolving) simp_all

lemma set_alist_update: "set (AList.update k v al) \<subseteq> insert (k, v) (set al)"
  by (induction al) auto

lemma remember_triple:
  assumes "good_object cfg (os_fs s) obj"
  shows "triple cfg (remember obj) (\<lambda>_ _. True) s"
  using assms set_alist_update
  by (auto simp: triple_def remember_def wp_modifyp reaches_def store_inv_def known_good_def Let_def
      dest!: subsetD [OF set_alist_update] split: if_splits)

text \<open>A result of a search: absent, or good and with the requested identity.\<close>

definition found :: "os_config \<Rightarrow> string \<Rightarrow> ByteCount \<Rightarrow> StoredObject option \<Rightarrow> ostore \<Rightarrow> bool" where
  "found cfg h n r s \<longleftrightarrow> (\<forall>obj. r = Some obj \<longrightarrow>
     good_object cfg (os_fs s) obj \<and> so_hash_hex obj = h \<and> so_raw_size obj = n \<and> \<not> so_newly_stored obj)"

lemma reuse_good_triple:
  assumes "good_object cfg (os_fs s) known"
  shows "triple cfg (require_reusable cfg known h p n)
    (\<lambda>obj s'. good_object cfg (os_fs s') obj \<and> so_hash_hex obj = h \<and> so_raw_size obj = n \<and> \<not> so_newly_stored obj) s"
proof -
  have "triple cfg (bindp (require_reusable cfg known h p n) ret)
    (\<lambda>obj s'. good_object cfg (os_fs s') obj \<and> so_hash_hex obj = h \<and> so_raw_size obj = n \<and> \<not> so_newly_stored obj) s"
    by (rule triple_bindp [OF require_reusable_triple], rule triple_ret)
      (use assms good_object_extends in \<open>auto simp: reaches_def\<close>)
  moreover have "bindp m ret = m" for m :: "(ostore, StoredObject) proc"
    by (auto simp: bindp_def ret_def fun_eq_iff split: prod.split sum.split)
  ultimately show ?thesis by simp
qed

lemma known_lookup: "store_inv cfg s \<Longrightarrow> map_of (os_known s) h = Some k \<Longrightarrow> good_object cfg (os_fs s) k"
  by (auto simp: store_inv_def known_good_def dest!: map_of_SomeD)

lemma find_chunk_row:
  assumes "find_chunk h c = (Inr (Some info), c')" and "schema_ok (db c)"
  shows "\<exists>r \<in> set (chunks (db c)). row_object r = \<lparr>so_hash_hex = sc_hash_hex info,
     so_relative_path = sc_object_path info, so_raw_size = sc_raw_size info,
     so_stored_size = sc_stored_size info, so_newly_stored = False\<rparr>"
proof -
  have "read_chunk_row h (rows_with ck_hash h (chunks (db c))) = Inr (Some info)"
    using assms(1) by (auto simp: find_chunk_def bind_texts_def bind_text_def query_def sql_def proc_defs
        split: if_splits option.splits)
  then obtain r where "rows_with ck_hash h (chunks (db c)) = [r]"
      "info = \<lparr>sc_hash_hex = h, sc_raw_size = word_of_int (ck_raw_size r),
         sc_stored_size = word_of_int (ck_compressed_size r), sc_object_path = ck_object_path r,
         sc_created_at_ns = ck_created_at_ns r\<rparr>"
    by (auto simp: read_chunk_row_def split: list.splits if_splits)
  moreover from this(1) have "r \<in> set (rows_with ck_hash h (chunks (db c)))" by simp
  then have "r \<in> set (chunks (db c))" "ck_hash r = h"
    unfolding rows_with_def by auto
  ultimately show ?thesis
    by (auto simp: row_object_def)
qed

lemma find_existing_triple: "triple cfg (find_existing cfg h p n) (found cfg h n) s"
  unfolding find_existing_def
proof (rule triple_assume, intro triple_chain reads_keep)
  fix known
  assume "store_inv cfg s" "map_of (os_known s) h = Some known"
  then show "triple cfg (bindp (require_reusable cfg known h p n) (\<lambda>reused. ret (Some reused))) (found cfg h n) s"
    by (intro triple_bindp [OF reuse_good_triple [OF known_lookup]] triple_ret) (auto simp: found_def)
next
  fix row c info
  assume inv: "store_inv cfg s" and find: "find_chunk h (os_conn s) = (Inr row, c)" "row = Some info"
  let ?known = "\<lparr>so_hash_hex = sc_hash_hex info, so_relative_path = sc_object_path info,
    so_raw_size = sc_raw_size info, so_stored_size = sc_stored_size info, so_newly_stored = False\<rparr>"
  have "good_object cfg (os_fs s) ?known"
    using find_chunk_row find inv by (fastforce simp: store_inv_def on_db_def rows_good_def)
  then show "triple cfg (bindp (require_reusable cfg ?known h p n) (\<lambda>reused.
      seqp (remember reused) (ret (Some reused)))) (found cfg h n) (s\<lparr>os_conn := c\<rparr>)"
    by (intro triple_bindp [OF reuse_good_triple] triple_seqp [OF remember_triple] triple_ret)
      (auto simp: found_def reaches_def intro: good_object_extends)
qed (simp_all add: found_def)

lemma sync_existing_Inr:
  assumes "sync_existing_regular_file p f = (Inr u, f')"
  shows "durable_data f' p"
  using assms unfolding sync_existing_regular_file_def
  by (cases rule: syscall_cases) (auto split: option.splits)

lemma interfere_files: "files f p = Some c \<Longrightarrow> files (interfere f) p = Some c"
  by (auto simp: interfere_def Let_def path_taken_def split: option.split)

lemma interfere_dirs [simp]: "dirs (interfere f) = dirs f"
  by (auto simp: interfere_def Let_def split: option.split)

lemma flush_Inr:
  assumes "flush_containing_directory p f = (Inr u, f')"
    and "parent_dir q = parent_dir p" and "files f q \<noteq> None \<or> dirs f q"
  shows "durable_name f' q"
  using assms(1) unfolding flush_containing_directory_def
  by (cases rule: syscall_cases) (use assms(2,3) interfere_files in \<open>auto simp: path_taken_def\<close>)

text \<open>A verified file whose contents and name have been flushed is a good object.\<close>

lemma verified_good:
  assumes "verified cfg h n m raw s" and "fs_ok f" and "fs_extends (os_fs s) f"
    and "durable_data f (derived_path h)" and "durable_name f (derived_path h)"
  shows "good_object cfg f \<lparr>so_hash_hex = h, so_relative_path = derived_path h, so_raw_size = n,
    so_stored_size = m, so_newly_stored = b\<rparr>"
proof -
  obtain c where c: "files f (derived_path h) = Some c" "length c = unat m"
    "codec_decompress (oc_zstd cfg) c (unat n) (unat (oc_maximum_chunk_size cfg)) = Inr raw"
    "hash_raw (oc_blake3 cfg) raw = h" "is_lowercase_blake3_hex h" "stored_size_ok cfg m" "n \<noteq> 0"
    using assms(1,3) unfolding verified_def fs_extends_def using object_paths_not_temporary(1) by metis
  moreover have "durable_name f (shard_dir h)"
    using assms(2) c(1) derived_path_parent [OF c(5)] unfolding fs_ok_def
    by (metis object_paths_not_temporary(1) option.distinct(1))
  ultimately show ?thesis
    using assms(4,5) by (auto simp: good_object_def content_ok_def)
qed

lemma find_existing_file_triple: "triple cfg (find_existing_file cfg h p n) (found cfg h n) s"
  unfolding find_existing_file_def Let_def
proof (rule triple_assume, intro triple_chain regular_file_size_evolving)
  fix known
  assume "store_inv cfg s" "map_of (os_known s) h = Some known"
  then show "triple cfg (bindp (require_reusable cfg known h p n) (\<lambda>reused. ret (Some reused))) (found cfg h n) s"
    by (intro triple_bindp [OF reuse_good_triple [OF known_lookup]] triple_ret) (auto simp: found_def)
next
  fix found_size f m
  let ?adopted = "\<lparr>so_hash_hex = h, so_relative_path = p, so_raw_size = n, so_stored_size = m,
    so_newly_stored = False\<rparr>"
  show "triple cfg (seqp (read_verified cfg h p n m)
      (seqp (os_disk (sync_existing_regular_file p)) (seqp (os_disk (flush_containing_directory p))
        (seqp (if oc_metadata cfg then ret () else remember ?adopted) (ret (Some ?adopted))))))
     (found cfg h n) (s\<lparr>os_fs := f\<rparr>)"
    unfolding seqp_def [of "read_verified cfg h p n m"]
  proof (rule triple_bindp [OF read_verified_triple],
      intro triple_seq_disk sync_existing_regular_file_evolving flush_containing_directory_evolving)
    fix raw s1 u f1 u' f2
    assume ver: "p = derived_path h \<and> verified cfg h n m raw s1"
      and sync: "sync_existing_regular_file p (os_fs s1) = (Inr u, f1)"
      and r1: "reaches cfg s1 (s1\<lparr>os_fs := f1\<rparr>)"
      and flush: "flush_containing_directory p (os_fs (s1\<lparr>os_fs := f1\<rparr>)) = (Inr u', f2)"
      and r2: "reaches cfg (s1\<lparr>os_fs := f1\<rparr>) (s1\<lparr>os_fs := f1\<rparr>\<lparr>os_fs := f2\<rparr>)"
    have ext: "fs_extends (os_fs s1) f1" "fs_extends f1 f2" "fs_ok f2"
      using r1 r2 by (auto simp: reaches_def store_inv_def)
    have "files f1 p \<noteq> None"
      using ver ext(1) by (auto simp: verified_def fs_extends_def)
    then have "durable_name f2 p"
      using flush_Inr [OF flush, of p] by simp
    moreover have "durable_data f2 p"
      using sync_existing_Inr [OF sync] ext(2) ver by (auto simp: fs_extends_def)
    ultimately have good: "good_object cfg f2 ?adopted"
      using verified_good [of cfg h n m raw s1 f2] ver ext fs_extends_trans by auto
    then show "triple cfg (seqp (if oc_metadata cfg then ret () else remember ?adopted) (ret (Some ?adopted)))
        (found cfg h n) (s1\<lparr>os_fs := f1\<rparr>\<lparr>os_fs := f2\<rparr>)"
      by (intro triple_seqp [where Q = "\<lambda>_. True"] triple_if triple_ret)
        (auto simp: found_def reaches_def intro!: remember_triple intro: good_object_extends)
  qed
qed (simp_all add: found_def)

lemma keeps_bind_liftp: "(\<And>a. r = Inr a \<Longrightarrow> keeps I (k a)) \<Longrightarrow> keeps I (bindp (liftp r) k)"
  by (cases r) (auto simp: keeps_def bindp_def liftp_def)

text \<open>Only good objects are registered.\<close>

lemma ensure_chunk_rows_good:
  assumes "good_object cfg f \<lparr>so_hash_hex = sc_hash_hex ch, so_relative_path = sc_object_path ch,
      so_raw_size = sc_raw_size ch, so_stored_size = sc_stored_size ch, so_newly_stored = False\<rparr>"
  shows "keeps (on_db (rows_good cfg f)) (ensure_chunk ch)"
  unfolding ensure_chunk_def
proof (intro keeps_seqp keeps_bind_liftp keeps_bind_texts keeps_sql keeps_bindp keeps_query keeps_liftp)
  fix n m t u t'
  assume sizes: "checked_int64 (sc_raw_size ch) ''chunk raw size'' = Inr n"
      "checked_int64 (sc_stored_size ch) ''chunk stored size'' = Inr m"
    and t: "rows_good cfg f t"
      "t_insert_chunk (sc_hash_hex ch) n m (sc_object_path ch) (sc_created_at_ns ch) t = Inr (u, t')"
  have "n = uint (sc_raw_size ch)" "m = uint (sc_stored_size ch)"
    using sizes by (auto dest: checked_int64_range)
  then have "chunks t' = chunks t \<or> (\<exists>c. chunks t' = chunks t @ [c] \<and> row_object c =
      \<lparr>so_hash_hex = sc_hash_hex ch, so_relative_path = sc_object_path ch,
       so_raw_size = sc_raw_size ch, so_stored_size = sc_stored_size ch, so_newly_stored = False\<rparr>)"
    using t(2) by (auto simp: t_insert_chunk_def constraint_failed_def row_object_def split: if_splits)
  moreover have "schema_ok t'"
    using t t_insert_chunk_ok by (auto simp: rows_good_def)
  ultimately show "rows_good cfg f t'"
    using t(1) assms by (auto simp: rows_good_def)
qed

lemma ensure_metadata_triple:
  assumes "good_object cfg (os_fs s) obj"
  shows "triple cfg (ensure_metadata cfg obj) (\<lambda>_ _. True) s"
  unfolding ensure_metadata_def
proof (intro triple_seq_guardp triple_seq_liftp triple_bindp [OF require_reusable_triple])
  fix v s1
  assume r: "reaches cfg s s1"
    and v: "v = obj\<lparr>so_newly_stored := False\<rparr> \<and> so_hash_hex obj = so_hash_hex obj \<and>
      so_relative_path obj = derived_path (so_hash_hex obj) \<and> so_raw_size obj = so_raw_size obj"
  have good: "good_object cfg (os_fs s1) v"
    using v r assms good_object_extends by (auto simp: reaches_def)
  let ?ch = "\<lparr>sc_hash_hex = so_hash_hex v, sc_raw_size = so_raw_size v,
      sc_stored_size = so_stored_size v, sc_object_path = so_relative_path v, sc_created_at_ns = oc_now cfg\<rparr>"
  have "good_object cfg (os_fs s1) \<lparr>so_hash_hex = so_hash_hex v, so_relative_path = so_relative_path v,
      so_raw_size = so_raw_size v, so_stored_size = so_stored_size v, so_newly_stored = False\<rparr>"
    using good by (simp add: good_object_def)
  then show "triple cfg (seqp (os_meta (ensure_chunk ?ch)) (remember v)) (\<lambda>_ _. True) s1"
    by (intro triple_seq_meta ensure_chunk_rows_good remember_triple) (simp_all add: good)
qed

subsection \<open>Writing a new object\<close>

lemma triple_bind_disk_at:
  assumes "\<And>r f. store_inv cfg s \<Longrightarrow> m (os_fs s) = (r, f) \<Longrightarrow> fs_ok f \<and> fs_extends (os_fs s) f"
    and "\<And>a f. m (os_fs s) = (Inr a, f) \<Longrightarrow> reaches cfg s (s\<lparr>os_fs := f\<rparr>) \<Longrightarrow> triple cfg (k a) R (s\<lparr>os_fs := f\<rparr>)"
  shows "triple cfg (bindp (os_disk m) k) R s"
proof -
  obtain r f where run: "m (os_fs s) = (r, f)" by fastforce
  have "triple cfg (os_disk m) (\<lambda>a s'. \<exists>f. m (os_fs s) = (Inr a, f) \<and> s' = s\<lparr>os_fs := f\<rparr>) s"
    unfolding triple_def wp_def os_disk_def run
    using reaches_disk [of cfg s f] assms(1) [OF _ run] by (cases r) auto
  then show ?thesis
    by (rule triple_bindp) (use assms(2) in auto)
qed

lemma create_temporary_Inr:
  assumes "create_temporary candidates n f = (Inr t, f')"
  shows "t \<in> set candidates \<and> files f' t = Some []"
  using assms
proof (induction candidates n arbitrary: f rule: create_temporary.induct)
  case (3 candidate candidates attempts)
  then show ?case
    using 3(1) [of False "interfere f"]
    by (auto simp: bindp_def syscall_def Let_def ret_def split: option.splits sum.splits if_splits)
qed (simp_all add: raise_lv_def raise_def)

lemma with_temporary_triple:
  assumes "list_all temporary_path (map (\<lambda>n. dir @ ''/'' @ n) (oc_temporary_names cfg))"
    and "\<And>t s'. reaches cfg s s' \<Longrightarrow> temporary_path t \<Longrightarrow> files (os_fs s') t = Some [] \<Longrightarrow>
      triple cfg (body t) Q s'"
    and "\<And>t a s'. temporary_path t \<Longrightarrow> fs_ok (os_fs s') \<Longrightarrow> Q a s' \<Longrightarrow>
      Q a (s'\<lparr>os_fs := drop_temporary t (os_fs s')\<rparr>)"
  shows "triple cfg (with_temporary cfg dir body) Q s"
  unfolding with_temporary_def
proof (rule triple_bind_disk [OF create_temporary_evolving [OF assms(1)]])
  fix t f
  assume run: "create_temporary (map (\<lambda>n. dir @ ''/'' @ n) (oc_temporary_names cfg)) 100 (os_fs s) = (Inr t, f)"
    and r: "reaches cfg s (s\<lparr>os_fs := f\<rparr>)"
  have t: "temporary_path t" "files f t = Some []"
    using create_temporary_Inr [OF run] assms(1) by (auto simp: list_all_iff)
  let ?s = "s\<lparr>os_fs := f\<rparr>"
  obtain res s' where body: "body t ?s = (res, s')" by fastforce
  have inv: "store_inv cfg ?s" using r by (simp add: reaches_def)
  have "triple cfg (body t) Q ?s"
    using assms(2) [OF r t(1)] t(2) by simp
  then have s': "reaches cfg ?s s'" "\<And>a. res = Inr a \<Longrightarrow> Q a s'"
    using inv body by (cases res; simp add: triple_def wp_def)+
  then have ok: "fs_ok (os_fs s')" "store_inv cfg s'" by (auto simp: reaches_def store_inv_def)
  then have "reaches cfg s' (s'\<lparr>os_fs := drop_temporary t (os_fs s')\<rparr>)"
    using reaches_disk drop_temporary_evolves [OF t(1)] by blast
  then have "reaches cfg ?s (s'\<lparr>os_fs := drop_temporary t (os_fs s')\<rparr>)"
    using s'(1) reaches_trans by blast
  then show "triple cfg (\<lambda>s. case body t s of (r, s') \<Rightarrow> (r, s'\<lparr>os_fs := drop_temporary t (os_fs s')\<rparr>)) Q ?s"
    using body s'(2) assms(3) [OF t(1) ok(1)] by (cases res) (auto simp: triple_def wp_def)
qed

lemma ensure_directory_Inr: "ensure_directory p f = (Inr u, f') \<Longrightarrow> dirs f' p"
  unfolding ensure_directory_def by (erule syscall_cases) (auto split: if_splits)

lemma shard_parent: "is_lowercase_blake3_hex h \<Longrightarrow> parent_dir (shard_dir h) = ''objects''"
  using parent_dir_join [of "take 2 h" "''objects''"] hex_no_slash [of h]
  by (auto simp: shard_dir_def dest: in_set_takeD)

lemma temporary_sync_Inr:
  assumes "temporary_sync p f = (Inr u, f')" and "files f p = Some c"
  shows "files f' p = Some c \<and> durable_data f' p"
  using assms(1) unfolding temporary_sync_def
  by (cases rule: syscall_cases) (use interfere_files [OF assms(2)] in auto)

lemma hit_keeps_fs: "triple cfg (os_meta (hit p)) (\<lambda>_ s'. os_fs s' = os_fs s) s"
  by (rule triple_meta [OF keeps_hit]) simp

lemma drop_temporary_good:
  "temporary_path t \<Longrightarrow> fs_ok f \<Longrightarrow> good_object cfg f obj \<Longrightarrow> good_object cfg (drop_temporary t f) obj"
  using drop_temporary_evolves good_object_extends by blast

text \<open>The result of storing: a good object with the identity of the bytes.\<close>

definition stored_as :: "os_config \<Rightarrow> string \<Rightarrow> ByteCount \<Rightarrow> StoredObject \<Rightarrow> ostore \<Rightarrow> bool" where
  "stored_as cfg h n obj s \<longleftrightarrow> good_object cfg (os_fs s) obj \<and> so_hash_hex obj = h \<and> so_raw_size obj = n"

text \<open>If the object is reported as new, its file holds exactly the contents that were written.\<close>

definition stored_with :: "os_config \<Rightarrow> string \<Rightarrow> ByteCount \<Rightarrow> bytes \<Rightarrow> StoredObject \<Rightarrow> ostore \<Rightarrow> bool" where
  "stored_with cfg h n c obj s \<longleftrightarrow> stored_as cfg h n obj s \<and>
     (so_newly_stored obj \<longrightarrow> files (os_fs s) (derived_path h) = Some c)"

lemma stored_with_extends: "stored_with cfg h n c obj s \<Longrightarrow> fs_extends (os_fs s) (os_fs s') \<Longrightarrow> stored_with cfg h n c obj s'"
  by (auto simp: stored_with_def stored_as_def fs_extends_def intro: good_object_extends)

text \<open>Contents that are on disk under the final name become a good object with the directory flush.\<close>

definition sound_content :: "os_config \<Rightarrow> string \<Rightarrow> ByteCount \<Rightarrow> bytes \<Rightarrow> bool" where
  "sound_content cfg h n c \<longleftrightarrow> is_lowercase_blake3_hex h \<and> n \<noteq> 0 \<and> length c < 2 ^ 64 \<and>
     stored_size_ok cfg (word_of_nat (length c)) \<and> content_ok cfg h (unat n) c"

lemma flushed_good:
  assumes "sound_content cfg h n c" and "files f (derived_path h) = Some c"
    and "durable_data f (derived_path h)" and "durable_name f (shard_dir h)"
    and "flush_containing_directory (derived_path h) f = (Inr u, f')" and "fs_extends f f'"
  shows "good_object cfg f' \<lparr>so_hash_hex = h, so_relative_path = derived_path h, so_raw_size = n,
    so_stored_size = word_of_nat (length c), so_newly_stored = b\<rparr>"
proof -
  have "durable_name f' (derived_path h)"
    using flush_Inr [OF assms(5) refl] assms(2) by simp
  moreover have "files f' (derived_path h) = Some c" "durable_data f' (derived_path h)"
    "durable_name f' (shard_dir h)"
    using assms(2-4,6) by (auto simp: fs_extends_def)
  ultimately show ?thesis
    using assms(1) by (auto simp: good_object_def sound_content_def u64_unat_of_nat)
qed

lemma publish_object_triple:
  assumes "temporary_path t" and "files (os_fs s) t = Some c" and "durable_data (os_fs s) t"
    and "durable_name (os_fs s) (shard_dir h)" and sound: "sound_content cfg h n c"
  shows "triple cfg (publish_object cfg h (derived_path h) n c t) (stored_with cfg h n c) s"
  unfolding publish_object_def Let_def
proof (rule triple_assume, rule triple_bind_disk_at, goal_cases)
  case (1 r f)
  have "parent_dir (derived_path h) = shard_dir h"
    using sound by (simp add: sound_content_def derived_path_parent)
  then show ?case
    using publish_evolves [OF 1(3) _ assms(1)] 1(1) assms(2,4) by (simp add: store_inv_def)
next
  case (2 a f)
  have "parent_dir (derived_path h) = shard_dir h"
    using sound by (simp add: sound_content_def derived_path_parent)
  then have pub: "a = published \<Longrightarrow> files f (derived_path h) = Some c \<and> durable_data f (derived_path h)"
    using publish_evolves [OF 2(2) _ assms(1)] 2(1) assms(2-4) by (simp add: store_inv_def)
  have shard: "durable_name f (shard_dir h)"
    using 2(3) assms(4) by (auto simp: reaches_def fs_extends_def)
  show ?case
  proof (intro triple_if triple_bindp [OF find_existing_file_triple] triple_case_option triple_raise_lv
      triple_ret triple_seqp [OF hit_keeps_fs] triple_seq_disk flush_containing_directory_evolving, goal_cases)
    case (1 r s' x)
    then show ?case by (simp add: found_def stored_with_def stored_as_def)
  next
    case (2 s1 u f1)
    have a: "a = published" using 2(1) by (cases a) auto
    then have kept: "files f1 (derived_path h) = Some c"
      using pub 2 by (simp add: reaches_def fs_extends_def)
    from a have "good_object cfg f1 \<lparr>so_hash_hex = h, so_relative_path = derived_path h, so_raw_size = n,
      so_stored_size = word_of_nat (length c), so_newly_stored = b\<rparr>" for b
      using flushed_good [OF sound _ _ shard, of u f1] pub 2 by (simp add: reaches_def)
    note good = this
    have later: "stored_with cfg h n c \<lparr>so_hash_hex = h, so_relative_path = derived_path h, so_raw_size = n,
        so_stored_size = word_of_nat (length c), so_newly_stored = b\<rparr> s'" if "fs_extends f1 (os_fs s')" for b s'
      by (rule stored_with_extends [of _ _ _ _ _ "s1\<lparr>os_fs := f1\<rparr>"])
        (use kept good that in \<open>simp_all add: stored_with_def stored_as_def\<close>)
    show ?case
      by (intro triple_seqp [where Q = "\<lambda>_. True"] triple_if triple_ret)
        (auto simp: reaches_def intro!: remember_triple good later)
  qed
qed

lemma write_object_triple:
  assumes sound: "sound_content cfg h n c"
    and names: "list_all temporary_path (map (\<lambda>m. ''temporary/objects'' @ ''/'' @ m) (oc_temporary_names cfg))"
  shows "triple cfg (write_object cfg h (derived_path h) n c) (stored_with cfg h n c) s"
proof -
  have h: "is_lowercase_blake3_hex h" using sound by (simp add: sound_content_def)
  show ?thesis
    unfolding write_object_def derived_path_parent [OF h]
  proof (rule triple_seq_disk [OF ensure_directory_evolving],
      rule triple_seq_disk [OF flush_containing_directory_evolving],
      rule triple_seq_disk [OF ensure_directory_evolving], rule with_temporary_triple [OF names], goal_cases)
    case (1 u f1 u' f2 u'' f3 t s4)
    have "dirs f1 (shard_dir h)" using 1(1) ensure_directory_Inr by blast
    then have "durable_name f2 (shard_dir h)" using flush_Inr [OF 1(3) refl] by simp
    then have shard: "durable_name (os_fs s4) (shard_dir h)"
      using 1(6,7) by (auto simp: reaches_def fs_extends_def)
    show ?case
    proof (intro triple_seq_disk triple_seqp [OF hit_keeps_fs] write_loop_evolving [OF 1(8)]
        temporary_sync_evolving [OF 1(8)], goal_cases)
      case (1 u f5 s6 v f7 s8)
      have "files f5 t = Some c"
        using write_loop_content [OF 1(1)] \<open>files (os_fs s4) t = Some []\<close> by simp
      then have "files f7 t = Some c \<and> durable_data f7 t"
        using temporary_sync_Inr 1(4,5) by auto
      moreover have "durable_name f7 (shard_dir h)"
        using shard 1 by (auto simp: reaches_def fs_extends_def)
      ultimately show ?case
        using 1(7,8) \<open>temporary_path t\<close> sound by (intro publish_object_triple) auto
    qed
  next
    case (2 u f1 u' f2 u'' f3 t a s')
    then show ?case
      using drop_temporary_evolves by (auto intro: stored_with_extends)
  qed
qed

section \<open>Storing and reading back\<close>

text \<open>The configurations the constructor accepts, with a zstd whose bound for a full chunk is a
  \<^verbatim>\<open>size_t\<close>.\<close>

definition config_ok :: "os_config \<Rightarrow> bool" where
  "config_ok cfg \<longleftrightarrow> checked_maximum_chunk_size (oc_maximum_chunk_size cfg) = Inr (oc_maximum_chunk_size cfg) \<and>
     digest_law (oc_blake3 cfg) \<and> zstd_laws (oc_zstd cfg) \<and>
     (\<exists>b < 2 ^ 64. compress_bound (oc_zstd cfg) (unat (oc_maximum_chunk_size cfg)) = Inr b)"

lemma temporary_names: "list_all temporary_path (map (\<lambda>m. ''temporary/objects'' @ ''/'' @ m) ns)"
  by (simp add: list_all_iff temporary_path_def)

lemma compressed_sound:
  assumes "config_ok cfg" and "raw \<noteq> []" and "length raw \<le> unat (oc_maximum_chunk_size cfg)"
    and "codec_compress (oc_zstd cfg) (oc_level cfg) raw = Inr c"
    and "stored_size_ok cfg (word_of_nat (length c))"
  shows "sound_content cfg (hash_raw (oc_blake3 cfg) raw) (word_of_nat (length raw)) c"
proof -
  let ?max = "unat (oc_maximum_chunk_size cfg)"
  obtain b where b: "b < 2 ^ 64" "compress_bound (oc_zstd cfg) ?max = Inr b"
    using assms(1) by (auto simp: config_ok_def)
  have laws: "zstd_laws (oc_zstd cfg)" "digest_law (oc_blake3 cfg)"
    using assms(1) by (auto simp: config_ok_def)
  have "codec_decompress (oc_zstd cfg) c (length raw) ?max = Inr raw"
    by (rule codec_round_trip_lemma [OF laws(1) assms(4,3) b(2)])
  moreover obtain a where a: "compress_bound (oc_zstd cfg) (length raw) = Inr a"
      "zstd_compress (oc_zstd cfg) (oc_level cfg) a raw = Inr c"
    using assms(4) by (auto simp: codec_compress_Inr)
  have "length c \<le> a" "a \<le> b"
    using laws(1) a b(2) assms(3) unfolding zstd_laws_def by (blast, metis Inr_inject)
  moreover have size: "unat (word_of_nat (length raw) :: ByteCount) = length raw"
    using assms(3) u64_unat_less [of "oc_maximum_chunk_size cfg"] by (intro u64_unat_of_nat) simp
  moreover have "(word_of_nat (length raw) :: ByteCount) \<noteq> 0"
    using assms(2) size by (metis length_0_conv unat_0)
  ultimately show ?thesis
    using assms(5) b(1) hash_raw_valid [OF laws(2)] by (auto simp: sound_content_def content_ok_def)
qed

text \<open>What \<^verbatim>\<open>store\<close> has written if it reports a new object: the compressed bytes.\<close>

definition stored_bytes :: "os_config \<Rightarrow> bytes \<Rightarrow> StoredObject \<Rightarrow> ostore \<Rightarrow> bool" where
  "stored_bytes cfg raw obj s \<longleftrightarrow> stored_as cfg (hash_raw (oc_blake3 cfg) raw) (word_of_nat (length raw)) obj s \<and>
     (so_newly_stored obj \<longrightarrow> (\<exists>c. codec_compress (oc_zstd cfg) (oc_level cfg) raw = Inr c \<and>
        files (os_fs s) (so_relative_path obj) = Some c))"

lemma stored_bytes_extends: "stored_bytes cfg raw obj s \<Longrightarrow> fs_extends (os_fs s) (os_fs s') \<Longrightarrow> stored_bytes cfg raw obj s'"
  unfolding stored_bytes_def stored_as_def good_object_def Let_def fs_extends_def
  using object_paths_not_temporary by metis

lemma store_bytes_triple:
  assumes "config_ok cfg"
  shows "triple cfg (store cfg raw stop) (stored_bytes cfg raw) s"
proof -
  let ?h = "hash_raw (oc_blake3 cfg) raw" and ?n = "word_of_nat (length raw) :: ByteCount"
  have finish: "triple cfg (seqp (if oc_metadata cfg then ensure_metadata cfg obj else ret ()) (ret obj))
      (stored_bytes cfg raw) s'" if "stored_bytes cfg raw obj s'" for obj s'
    using that by (intro triple_seqp [where Q = "\<lambda>_. True"] triple_if triple_ret)
      (auto simp: reaches_def stored_bytes_def [of _ _ _ s'] stored_as_def [of _ _ _ _ s']
        intro!: ensure_metadata_triple intro: stored_bytes_extends [OF that])
  show ?thesis
    unfolding store_def Let_def
  proof (intro triple_seq_guardp triple_bindp [OF find_existing_triple] triple_case_option triple_ret
      triple_bind_liftp, goal_cases)
    case (1 r s1 c)
    have sound: "sound_content cfg ?h ?n c"
      using compressed_sound [OF assms] 1 by blast
    have "triple cfg (bindp (find_existing_file cfg ?h (derived_path ?h) ?n) (\<lambda>rechecked.
        case rechecked of Some object \<Rightarrow> ret object
        | None \<Rightarrow> write_object cfg ?h (derived_path ?h) ?n c)) (stored_with cfg ?h ?n c) s1"
      by (intro triple_bindp [OF find_existing_file_triple] triple_case_option triple_ret
          write_object_triple sound temporary_names) (simp add: found_def stored_with_def stored_as_def)
    then have "triple cfg (bindp (find_existing_file cfg ?h (derived_path ?h) ?n) (\<lambda>rechecked.
        case rechecked of Some object \<Rightarrow> ret object
        | None \<Rightarrow> write_object cfg ?h (derived_path ?h) ?n c)) (stored_bytes cfg raw) s1"
      by (rule triple_weaken)
        (use 1 in \<open>auto simp: stored_with_def stored_bytes_def stored_as_def good_object_def Let_def\<close>)
    then show ?case
      by (rule triple_bindp) (rule finish)
  next
    case (2 r s1 obj)
    then show ?case by (simp add: found_def stored_bytes_def stored_as_def)
  qed
qed

lemma store_triple:
  "config_ok cfg \<Longrightarrow> triple cfg (store cfg raw stop)
    (stored_as cfg (hash_raw (oc_blake3 cfg) raw) (word_of_nat (length raw))) s"
  by (rule triple_weaken [OF store_bytes_triple]) (simp_all add: stored_bytes_def)

text \<open>
  [C3] Registered objects are durable and intact: on every exit of \<^verbatim>\<open>store\<close>, whichever system
  call, statement or injected failure interrupts it and whatever other writers publish meanwhile,
  every chunk row, in the working and in the committed tables, names an object file that has the
  recorded size, verifies against its hash, and is durable together with its name and its directory;
  no file outside the temporary tree was lost or changed; and a returned object is such an object for
  the bytes that were stored.
\<close>

theorem store_registers_durable_objects:
  assumes "config_ok cfg" and "store_inv cfg s" and "store cfg raw stop s = (r, s')"
  shows "store_inv cfg s' \<and> fs_extends (os_fs s) (os_fs s') \<and>
    (case r of Inl _ \<Rightarrow> True
     | Inr obj \<Rightarrow> good_object cfg (os_fs s') obj \<and> so_hash_hex obj = hash_raw (oc_blake3 cfg) raw \<and>
         so_raw_size obj = word_of_nat (length raw))"
  using store_triple [OF assms(1), of raw stop s] assms(2,3)
  by (auto simp: triple_def wp_def reaches_def stored_as_def split: sum.splits)

text \<open>Reading from a file system on which nothing fails.\<close>

definition fs_quiet :: "fs \<Rightarrow> bool" where
  "fs_quiet f \<longleftrightarrow> (\<forall>n. fs_faults f n = None) \<and> (\<forall>n. fs_appears f n = None)"

lemma syscall_quiet:
  "fs_quiet f \<Longrightarrow> syscall code text op f = (case op (f\<lparr>fs_tick := Suc (fs_tick f)\<rparr>) of
     Inl e \<Rightarrow> (Inl e, f\<lparr>fs_tick := Suc (fs_tick f)\<rparr>) | Inr (a, h) \<Rightarrow> (Inr a, h))"
  by (simp add: syscall_def interfere_def fs_quiet_def Let_def)

lemma fs_quiet_tick [simp]: "fs_quiet (f\<lparr>fs_tick := n\<rparr>) = fs_quiet f"
  by (simp add: fs_quiet_def)

lemma read_verified_file:
  assumes "good_object cfg (os_fs s) obj" and "fs_quiet (os_fs s)"
    and "files (os_fs s) (so_relative_path obj) = Some c"
    and "codec_decompress (oc_zstd cfg) c (unat (so_raw_size obj)) (unat (oc_maximum_chunk_size cfg)) = Inr raw"
    and "hash_raw (oc_blake3 cfg) raw = so_hash_hex obj"
  shows "fst (read_verified cfg (so_hash_hex obj) (so_relative_path obj) (so_raw_size obj)
      (so_stored_size obj) s) = Inr raw"
proof -
  let ?h = "so_hash_hex obj" and ?max = "oc_maximum_chunk_size cfg"
  have g: "is_lowercase_blake3_hex ?h" "so_relative_path obj = derived_path ?h" "so_raw_size obj \<noteq> 0"
      "stored_size_ok cfg (so_stored_size obj)" "length c = unat (so_stored_size obj)"
    using assms(1,3) by (auto simp: good_object_def Let_def)
  have len: "length raw = unat (so_raw_size obj)" "so_raw_size obj \<le> ?max"
    using codec_decompress_length [OF assms(4)] by (auto simp: word_le_nat_alt)
  have "\<not> unat u64_max < length c"
    using g(5) u64_unat_less [of "so_stored_size obj"] by simp
  then show ?thesis
    using g len assms(2-5)
    by (simp add: read_verified_def require_valid_hash_def Let_def proc_defs os_disk_def regular_file_size_def
        read_exact_def syscall_quiet path_taken_def read_blocks_start decompress_object_def)
qed

lemma read_verified_good:
  assumes "good_object cfg (os_fs s) obj" and "fs_quiet (os_fs s)"
  shows "\<exists>raw. fst (read_verified cfg (so_hash_hex obj) (so_relative_path obj) (so_raw_size obj)
      (so_stored_size obj) s) = Inr raw \<and> hash_raw (oc_blake3 cfg) raw = so_hash_hex obj \<and>
    length raw = unat (so_raw_size obj)"
proof -
  obtain c raw where "files (os_fs s) (so_relative_path obj) = Some c"
      "codec_decompress (oc_zstd cfg) c (unat (so_raw_size obj)) (unat (oc_maximum_chunk_size cfg)) = Inr raw"
      "hash_raw (oc_blake3 cfg) raw = so_hash_hex obj"
    using assms(1) by (auto simp: good_object_def content_ok_def Let_def)
  then show ?thesis using read_verified_file [OF assms] codec_decompress_length by blast
qed

text \<open>
  [C14] Storing and reading back, in every later state whose file system has lost nothing and on which no call
  fails. If \<^verbatim>\<open>store\<close> reported a new object, \<^verbatim>\<open>read_verified\<close> returns exactly the bytes that were stored,
  whatever other writers did meanwhile and whatever BLAKE3 does. If it reported an object that was there
  before, \<^verbatim>\<open>read_verified\<close> still succeeds, and what it returns has the length and the BLAKE3 identifier of the
  bytes, so it can differ from them only by a collision of BLAKE3.
\<close>

theorem store_read_round_trip:
  assumes "config_ok cfg" and "store_inv cfg s" and "store cfg raw stop s = (Inr obj, s1)"
    and "fs_extends (os_fs s1) (os_fs s2)" and "fs_quiet (os_fs s2)"
  shows "\<exists>raw'. fst (read_verified cfg (so_hash_hex obj) (so_relative_path obj) (so_raw_size obj)
      (so_stored_size obj) s2) = Inr raw' \<and> (so_newly_stored obj \<longrightarrow> raw' = raw) \<and>
    length raw' = length raw \<and> hash_raw (oc_blake3 cfg) raw' = hash_raw (oc_blake3 cfg) raw"
proof -
  have bytes: "stored_bytes cfg raw obj s1"
    using store_bytes_triple [OF assms(1), of raw stop s] assms(2,3) by (auto simp: triple_def wp_def)
  then have stored: "stored_as cfg (hash_raw (oc_blake3 cfg) raw) (word_of_nat (length raw)) obj s2"
    using stored_bytes_extends [OF bytes assms(4)] by (simp add: stored_bytes_def)
  have short: "length raw \<le> unat (oc_maximum_chunk_size cfg)"
    using assms(3) by (auto simp: store_def seqp_def bindp_def guardp_def ret_def raise_lv_def raise_def
        split: if_splits)
  then have size: "unat (so_raw_size obj) = length raw"
    using stored u64_unat_less [of "oc_maximum_chunk_size cfg"]
    by (auto simp: stored_as_def intro!: u64_unat_of_nat)
  show ?thesis
  proof (cases "so_newly_stored obj")
    case True
    then obtain c where c: "codec_compress (oc_zstd cfg) (oc_level cfg) raw = Inr c"
        "files (os_fs s2) (so_relative_path obj) = Some c"
      using stored_bytes_extends [OF bytes assms(4)] by (auto simp: stored_bytes_def)
    obtain b where "compress_bound (oc_zstd cfg) (unat (oc_maximum_chunk_size cfg)) = Inr b" "zstd_laws (oc_zstd cfg)"
      using assms(1) by (auto simp: config_ok_def)
    then have "codec_decompress (oc_zstd cfg) c (length raw) (unat (oc_maximum_chunk_size cfg)) = Inr raw"
      using codec_round_trip_lemma c(1) short by blast
    then show ?thesis
      using read_verified_file [OF _ assms(5) c(2), of cfg raw] stored size by (auto simp: stored_as_def)
  next
    case False
    then show ?thesis
      using read_verified_good [OF _ assms(5), of cfg obj] stored size by (auto simp: stored_as_def)
  qed
qed

text \<open>
  [C21] A verified read never returns damaged data: in any state of disk and store, whatever bytes the
  object file holds, \<^verbatim>\<open>read_verified\<close> returns only bytes whose BLAKE3 identifier is the one
  asked for and whose length is the expected one, read from the path derived from the identifier.
\<close>

theorem read_verified_returns_verified:
  assumes "read_verified cfg h p n m s = (Inr raw, s')"
  shows "hash_raw (oc_blake3 cfg) raw = h \<and> length raw = unat n \<and> p = derived_path h \<and>
    is_lowercase_blake3_hex h"
  using assms codec_decompress_length
  by (auto simp: read_verified_def require_valid_hash_def Let_def seqp_def bindp_def liftp_def guardp_def
      ret_def raise_lv_def raise_def split: if_splits prod.splits sum.splits option.splits
      dest!: decompress_object_Inr)

lemma length_alist_update:
  "length (AList.update k v al) = (if map_of al k = None then Suc (length al) else length al)"
  by (induction al) auto

definition cache_small :: "ostore \<Rightarrow> bool" where
  "cache_small s \<longleftrightarrow> length (os_known s) \<le> maximum_known_objects"

lemma cache_small_lift [keeps_intros]:
  "keeps cache_small (os_disk m)" "keeps cache_small (os_meta n)" "keeps cache_small (remember obj)"
  by (auto simp: keeps_def cache_small_def os_disk_def os_meta_def remember_def modifyp_def Let_def
      length_alist_update split: prod.split)

lemma keeps_case_option [keeps_intros]:
  "keeps I a \<Longrightarrow> (\<And>x. keeps I (b x)) \<Longrightarrow> keeps I (case r of None \<Rightarrow> a | Some x \<Rightarrow> b x)"
  by (cases r) auto

lemma with_temporary_cache [keeps_intros]:
  "(\<And>t. keeps cache_small (body t)) \<Longrightarrow> keeps cache_small (with_temporary cfg dir body)"
  unfolding with_temporary_def
  by (intro keeps_intros) (auto simp: keeps_def cache_small_def split: prod.split, metis snd_conv)

lemma search_cache [keeps_intros]:
  "keeps cache_small (require_reusable cfg known h p n)" "keeps cache_small (read_verified cfg h p n m)"
  unfolding require_reusable_def read_verified_def Let_def by (intro keeps_intros)+

lemma find_cache [keeps_intros]:
  "keeps cache_small (find_existing cfg h p n)" "keeps cache_small (find_existing_file cfg h p n)"
  unfolding find_existing_def find_existing_file_def Let_def by (intro keeps_intros)+

text \<open>
  [C26] The cache of known objects stays small: from at most 64 entries, \<^verbatim>\<open>store\<close> leaves at most
  64, on every exit.
\<close>

theorem store_cache_bounded:
  assumes "length (os_known s) \<le> 64" and "store cfg raw stop s = (r, s')"
  shows "length (os_known s') \<le> 64"
proof -
  have "keeps cache_small (store cfg raw stop)"
    unfolding store_def write_object_def publish_object_def ensure_metadata_def Let_def
    by (intro keeps_intros)
  then show ?thesis
    using keepsD [of cache_small "store cfg raw stop" s r s'] assms by (simp add: cache_small_def)
qed

section \<open>Storing succeeds\<close>

lemma fs_quiet_updates [simp]:
  "fs_quiet (f\<lparr>files := x1\<rparr>) = fs_quiet f" "fs_quiet (f\<lparr>dirs := x2\<rparr>) = fs_quiet f"
  "fs_quiet (f\<lparr>durable_data := x3\<rparr>) = fs_quiet f" "fs_quiet (f\<lparr>durable_name := x4\<rparr>) = fs_quiet f"
  "fs_quiet (f\<lparr>fs_writes := x5\<rparr>) = fs_quiet f" "fs_quiet (f\<lparr>others := x6\<rparr>) = fs_quiet f"
  by (simp_all add: fs_quiet_def)

lemma write_loop_quiet:
  assumes "fs_writes f = []"
  shows "\<exists>g. write_loop p bs f = (Inr (), g) \<and> writes_to p f g \<and> fs_writes g = [] \<and>
    (fs_quiet f \<longrightarrow> fs_quiet g)"
  using assms
proof (induction p bs f rule: write_loop.induct)
  case (1 path rest f)
  show ?case
  proof (cases "rest = []")
    case True
    then show ?thesis using 1(2) by (subst write_loop.simps) (simp add: writes_to_def same_but_def)
  next
    case False
    obtain rest' f1 where call: "write_call path rest f = (Inr rest', f1)"
        and f1: "fs_writes f1 = []" "fs_quiet f \<longrightarrow> fs_quiet f1"
      using False 1(2) by (simp add: write_call_def Let_def)
    obtain g where g: "write_loop path rest' f1 = (Inr (), g)" "writes_to path f1 g" "fs_writes g = []"
        "fs_quiet f1 \<longrightarrow> fs_quiet g"
      using 1(1) [OF False call [symmetric] refl f1(1)] by blast
    have "write_loop path rest f = (Inr (), g)"
      using False call g(1) by (subst write_loop.simps) simp
    moreover have "writes_to path f g"
      by (rule writes_to_trans [OF write_call_writes_to [OF call] g(2)])
    ultimately show ?thesis using g(3,4) f1(2) by blast
  qed
qed

definition ready :: "fs \<Rightarrow> bool" where
  "ready f \<longleftrightarrow> fs_quiet f \<and> fs_writes f = []"

lemma ensure_directory_ready:
  "ready f \<Longrightarrow> dirs f d \<or> \<not> path_taken f d \<Longrightarrow>
   \<exists>g. ensure_directory d f = (Inr (), g) \<and> ready g \<and> files g = files f \<and> others g = others f \<and>
     (\<forall>q. dirs g q = (dirs f q \<or> q = d))"
  by (auto simp: ensure_directory_def ready_def syscall_quiet path_taken_def)

lemma flush_ready:
  "ready f \<Longrightarrow> \<exists>g. flush_containing_directory p f = (Inr (), g) \<and> ready g \<and> files g = files f \<and>
     others g = others f \<and> dirs g = dirs f"
  by (simp add: flush_containing_directory_def ready_def syscall_quiet)

lemma temporary_sync_ready:
  "ready f \<Longrightarrow> \<exists>g. temporary_sync p f = (Inr (), g) \<and> ready g \<and> files g = files f \<and>
     others g = others f \<and> dirs g = dirs f"
  by (simp add: temporary_sync_def ready_def syscall_quiet)

lemma create_temporary_ready:
  "ready f \<Longrightarrow> \<not> path_taken f t \<Longrightarrow>
   \<exists>g. create_temporary (t # ts) 100 f = (Inr t, g) \<and> ready g \<and> files g = (files f)(t \<mapsto> []) \<and>
     others g = others f \<and> dirs g = dirs f"
  by (simp add: numeral_eq_Suc bindp_def ret_def ready_def syscall_quiet path_taken_def)

lemma publish_ready:
  "ready f \<Longrightarrow> \<not> path_taken f p \<Longrightarrow> files f t \<noteq> None \<Longrightarrow>
   \<exists>g. publish t p False f = (Inr published, g) \<and> ready g"
  by (auto simp: publish_def ready_def syscall_quiet path_taken_def rename_path_def fs_quiet_def)

lemma write_loop_ready:
  "ready f \<Longrightarrow> \<exists>g. write_loop p bs f = (Inr (), g) \<and> ready g \<and> dirs g = dirs f \<and> (files g p = None \<longleftrightarrow> files f p = None) \<and>
     (\<forall>q. q \<noteq> p \<longrightarrow> files g q = files f q \<and> others g q = others f q)"
  using write_loop_quiet [of f p bs] by (auto simp: ready_def writes_to_def same_but_def)

text \<open>The part of \<^verbatim>\<open>store\<close> between the duplicate checks and the registration, on a file system
  that does what it is asked to.\<close>

lemma write_object_ready:
  assumes "ready (os_fs s)" and "healthy (os_conn s)" and h: "is_lowercase_blake3_hex h"
    and free: "\<not> path_taken (os_fs s) (derived_path h)"
    and "dirs (os_fs s) (shard_dir h) \<or> \<not> path_taken (os_fs s) (shard_dir h)"
    and "dirs (os_fs s) ''temporary/objects'' \<or> \<not> path_taken (os_fs s) ''temporary/objects''"
    and names: "oc_temporary_names cfg = t # ts" "t \<noteq> []" "\<not> path_taken (os_fs s) (''temporary/objects/'' @ t)"
  shows "\<exists>obj s'. write_object cfg h (derived_path h) n c s = (Inr obj, s') \<and> healthy (os_conn s') \<and>
    db (os_conn s') = db (os_conn s) \<and> ready (os_fs s') \<and> so_stored_size obj = word_of_nat (length c) \<and>
    so_newly_stored obj"
proof -
  let ?p = "derived_path h" and ?t = "''temporary/objects/'' @ t"
  have ne: "?p \<noteq> ?t" "shard_dir h \<noteq> ?p" "shard_dir h \<noteq> ?t" "''temporary/objects'' \<noteq> shard_dir h"
    "''temporary/objects'' \<noteq> ?p" "''temporary/objects'' \<noteq> ?t"
    using names(2) by (simp_all add: derived_path_def shard_dir_def)
  obtain f1 where f1: "ensure_directory (shard_dir h) (os_fs s) = (Inr (), f1)" "ready f1"
      "files f1 = files (os_fs s)" "others f1 = others (os_fs s)" "\<forall>q. dirs f1 q = (dirs (os_fs s) q \<or> q = shard_dir h)"
    using ensure_directory_ready [OF assms(1,5)] by blast
  obtain f2 where f2: "flush_containing_directory (shard_dir h) f1 = (Inr (), f2)" "ready f2"
      "files f2 = files f1" "others f2 = others f1" "dirs f2 = dirs f1"
    using flush_ready [OF f1(2)] by blast
  have "dirs f2 ''temporary/objects'' \<or> \<not> path_taken f2 ''temporary/objects''"
    using assms(6) f1 f2 ne by (auto simp: path_taken_def)
  then obtain f3 where f3: "ensure_directory ''temporary/objects'' f2 = (Inr (), f3)" "ready f3"
      "files f3 = files f2" "others f3 = others f2" "\<forall>q. dirs f3 q = (dirs f2 q \<or> q = ''temporary/objects'')"
    using ensure_directory_ready [OF f2(2)] by blast
  have "\<not> path_taken f3 ?t"
    using names(3) f1 f2 f3 ne by (auto simp: path_taken_def)
  then obtain f4 where f4: "create_temporary (?t # map (\<lambda>m. ''temporary/objects/'' @ m) ts) 100 f3 = (Inr ?t, f4)"
      "ready f4" "files f4 = (files f3)(?t \<mapsto> [])" "others f4 = others f3" "dirs f4 = dirs f3"
    using create_temporary_ready [OF f3(2)] by blast
  obtain f5 where f5: "write_loop ?t c f4 = (Inr (), f5)" "ready f5" "dirs f5 = dirs f4"
      "files f5 ?t \<noteq> None" "\<forall>q. q \<noteq> ?t \<longrightarrow> files f5 q = files f4 q \<and> others f5 q = others f4 q"
    using write_loop_ready [OF f4(2), of ?t c] f4(3) by auto
  obtain f6 where f6: "temporary_sync ?t f5 = (Inr (), f6)" "ready f6" "files f6 = files f5" "others f6 = others f5"
      "dirs f6 = dirs f5"
    using temporary_sync_ready [OF f5(2)] by blast
  have "\<not> path_taken f6 ?p"
    using free f1 f2 f3 f4 f5 f6 ne by (auto simp: path_taken_def)
  then obtain f7 where f7: "publish ?t ?p False f6 = (Inr published, f7)" "ready f7"
    using publish_ready [OF f6(2)] f5(4) f6(3) by metis
  obtain f8 where f8: "flush_containing_directory ?p f7 = (Inr (), f8)" "ready f8"
    using flush_ready [OF f7(2)] by blast
  have "ready (drop_temporary ?t f8)"
    using f8(2) by (simp add: ready_def drop_temporary_def)
  then show ?thesis
    using f1(1) f2(1) f3(1) f4(1) f5(1) f6(1) f7(1) f8(1) names(1) assms(2)
    by (simp add: write_object_def derived_path_parent [OF h] with_temporary_def publish_object_def Let_def
        proc_defs os_disk_def os_meta_def hit_healthy remember_def)
qed

lemma require_reusable_good:
  assumes "good_object cfg (os_fs s) obj" and "ready (os_fs s)"
  shows "require_reusable cfg obj (so_hash_hex obj) (derived_path (so_hash_hex obj)) (so_raw_size obj) s =
    (Inr (obj\<lparr>so_newly_stored := False\<rparr>), s\<lparr>os_fs := (os_fs s)\<lparr>fs_tick := Suc (fs_tick (os_fs s))\<rparr>\<rparr>)"
proof -
  obtain c where c: "files (os_fs s) (derived_path (so_hash_hex obj)) = Some c"
      "length c = unat (so_stored_size obj)"
    using assms(1) by (auto simp: good_object_def Let_def)
  have "\<not> unat u64_max < length c"
    using c(2) u64_unat_less [of "so_stored_size obj"] by simp
  then show ?thesis
    using assms c by (simp add: require_reusable_def proc_defs os_disk_def regular_file_size_def syscall_quiet
        ready_def path_taken_def good_object_def Let_def)
qed

lemma ensure_chunk_fresh:
  assumes "healthy c" and "length (sc_hash_hex k) \<le> 2147483647" and "length (sc_object_path k) \<le> 2147483647"
    and "sc_raw_size k \<noteq> 0" and "sc_stored_size k \<noteq> 0"
    and "uint (sc_raw_size k) \<le> int64_max" and "uint (sc_stored_size k) \<le> int64_max"
    and "\<forall>r \<in> set (chunks (db c)). ck_hash r \<noteq> sc_hash_hex k \<and> ck_object_path r \<noteq> sc_object_path k"
  shows "\<exists>c'. ensure_chunk k c = (Inr (), c')"
proof -
  have "0 < uint (sc_raw_size k)" "0 < uint (sc_stored_size k)"
    using assms(4,5) uint_u64_bounds by (metis less_le uint_0_iff)+
  moreover have "\<not> list_ex (\<lambda>r. ck_hash r = sc_hash_hex k \<or> ck_object_path r = sc_object_path k) (chunks (db c))"
    using assms(8) by (auto simp: list_ex_iff)
  moreover have "filter (\<lambda>r. ck_hash r = sc_hash_hex k) (chunks (db c)) = []"
    using assms(8) by (auto simp: filter_empty_conv)
  ultimately show ?thesis
    using assms by (simp add: ensure_chunk_def proc_defs bind_texts_def bind_text_def checked_int64_def
        sql_healthy query_def t_insert_chunk_def rows_with_def verify_chunk_row_def checked_byte_count_def
        healthy_def)
qed

lemma ensure_metadata_ready:
  assumes "good_object cfg (os_fs s) obj" and "ready (os_fs s)" and "healthy (os_conn s)"
    and "oc_metadata cfg" and "config_ok cfg"
    and "\<forall>r \<in> set (chunks (db (os_conn s))). ck_hash r \<noteq> so_hash_hex obj \<and>
      ck_object_path r \<noteq> derived_path (so_hash_hex obj)"
  shows "\<exists>s'. ensure_metadata cfg obj s = (Inr (), s')"
proof -
  let ?h = "so_hash_hex obj"
  have good: "is_lowercase_blake3_hex ?h" "so_relative_path obj = derived_path ?h" "so_raw_size obj \<noteq> 0"
      "stored_size_ok cfg (so_stored_size obj)"
    using assms(1) by (auto simp: good_object_def Let_def)
  have len: "length ?h = 64" using good(1) by (simp add: is_lowercase_blake3_hex_def)
  have max: "unat (oc_maximum_chunk_size cfg) \<le> 4194304"
    using assms(5) by (auto simp: config_ok_def checked_maximum_chunk_size_def not_less word_le_nat_alt
        split: if_splits)
  have "unat (so_raw_size obj) \<le> 4194304"
    using assms(1) codec_decompress_length max by (fastforce simp: good_object_def content_ok_def Let_def)
  moreover have "unat (so_stored_size obj) \<le> 4194304 + 65536"
  proof -
    have "unat (oc_maximum_chunk_size cfg + compressed_size_allowance) \<le> 4194304 + 65536"
      using max by (simp add: unat_word_ariths)
    then show ?thesis using good(4) by (auto simp: stored_size_ok_def word_le_nat_alt)
  qed
  ultimately have sizes: "uint (so_raw_size obj) \<le> int64_max" "uint (so_stored_size obj) \<le> int64_max"
    using uint_nat [of "so_raw_size obj"] uint_nat [of "so_stored_size obj"] by linarith+
  define k where "k = \<lparr>sc_hash_hex = ?h, sc_raw_size = so_raw_size obj, sc_stored_size = so_stored_size obj,
    sc_object_path = derived_path ?h, sc_created_at_ns = oc_now cfg\<rparr>"
  have "\<exists>c'. ensure_chunk k (os_conn s) = (Inr (), c')"
    by (rule ensure_chunk_fresh [OF assms(3)])
      (use good len sizes assms(6) in \<open>simp_all add: k_def derived_path_def shard_dir_def stored_size_ok_def\<close>)
  then obtain c' where "ensure_chunk k (os_conn s) = (Inr (), c')" ..
  then show ?thesis
    using require_reusable_good [OF assms(1,2)] good(1,2) assms(4)
    by (simp add: ensure_metadata_def require_valid_hash_def proc_defs os_meta_def remember_def k_def)
qed

text \<open>A chunk that the store has not seen and whose names on disk are free.\<close>

definition fresh_chunk :: "os_config \<Rightarrow> string \<Rightarrow> ostore \<Rightarrow> bool" where
  "fresh_chunk cfg h s \<longleftrightarrow>
     map_of (os_known s) h = None \<and> \<not> path_taken (os_fs s) (derived_path h) \<and>
     list_all (\<lambda>r. ck_hash r \<noteq> h \<and> ck_object_path r \<noteq> derived_path h) (chunks (db (os_conn s))) \<and>
     list_all (\<lambda>d. dirs (os_fs s) d \<or> \<not> path_taken (os_fs s) d) [shard_dir h, ''temporary/objects''] \<and>
     (case oc_temporary_names cfg of [] \<Rightarrow> False
      | t # _ \<Rightarrow> t \<noteq> [] \<and> \<not> path_taken (os_fs s) (''temporary/objects/'' @ t))"

lemma find_existing_fresh:
  assumes "fresh_chunk cfg h s" and "healthy (os_conn s)" and "is_lowercase_blake3_hex h" and "oc_metadata cfg"
  shows "find_existing cfg h p n s = (Inr None, s\<lparr>os_conn := next_tick (os_conn s)\<rparr>)"
proof -
  have "rows_with ck_hash h (chunks (db (os_conn s))) = []"
    using assms(1) by (auto simp: fresh_chunk_def rows_with_def filter_empty_conv list_all_iff)
  moreover have "length h = 64" using assms(3) by (simp add: is_lowercase_blake3_hex_def)
  ultimately show ?thesis
    using assms by (simp add: find_existing_def find_chunk_def fresh_chunk_def proc_defs os_meta_def bind_texts_def
        bind_text_def query_def sql_healthy read_chunk_row_def next_tick_def)
qed

lemma find_existing_file_fresh:
  assumes "fresh_chunk cfg h s" and "ready (os_fs s)"
  shows "find_existing_file cfg h (derived_path h) n s =
    (Inr None, s\<lparr>os_fs := (os_fs s)\<lparr>fs_tick := Suc (fs_tick (os_fs s))\<rparr>\<rparr>)"
  using assms by (simp add: find_existing_file_def fresh_chunk_def ready_def proc_defs os_disk_def
      regular_file_size_def syscall_quiet path_taken_def)

lemma fresh_chunk_ticks [simp]:
  "fresh_chunk cfg h (s\<lparr>os_conn := next_tick (os_conn s)\<rparr>) = fresh_chunk cfg h s"
  "fresh_chunk cfg h (s\<lparr>os_fs := (os_fs s)\<lparr>fs_tick := n\<rparr>\<rparr>) = fresh_chunk cfg h s"
  by (simp_all add: fresh_chunk_def path_taken_def split: list.split)

lemma ready_tick [simp]: "ready (f\<lparr>fs_tick := n\<rparr>) = ready f"
  by (simp add: ready_def)

text \<open>From the duplicate check to the registration.\<close>

lemma write_fresh:
  assumes "config_ok cfg" and "store_inv cfg s" and "ready (os_fs s)" and "healthy (os_conn s)"
    and "oc_metadata cfg" and "fresh_chunk cfg h s" and "sound_content cfg h n c"
  shows "\<exists>obj s1 s2. write_object cfg h (derived_path h) n c s = (Inr obj, s1) \<and>
    ensure_metadata cfg obj s1 = (Inr (), s2) \<and> so_newly_stored obj"
proof -
  obtain t ts where names: "oc_temporary_names cfg = t # ts" "t \<noteq> []"
      "\<not> path_taken (os_fs s) (''temporary/objects/'' @ t)"
    using assms(6) by (auto simp: fresh_chunk_def split: list.splits)
  have h: "is_lowercase_blake3_hex h" using assms(7) by (simp add: sound_content_def)
  obtain obj s1 where w: "write_object cfg h (derived_path h) n c s = (Inr obj, s1)"
      "healthy (os_conn s1)" "db (os_conn s1) = db (os_conn s)" "ready (os_fs s1)"
      "so_newly_stored obj"
    using write_object_ready [OF assms(3,4) h _ _ _ names, of n c] assms(6) by (auto simp: fresh_chunk_def)
  have "good_object cfg (os_fs s1) obj \<and> so_hash_hex obj = h"
    using write_object_triple [OF assms(7) temporary_names, of s] assms(2) w(1)
    by (simp add: triple_def wp_def stored_with_def stored_as_def)
  then have "\<exists>s2. ensure_metadata cfg obj s1 = (Inr (), s2)"
    using w(2-4) assms(1,5,6) by (intro ensure_metadata_ready) (auto simp: fresh_chunk_def list_all_iff)
  then show ?thesis using w(1,5) by blast
qed

lemma store_fresh:
  assumes "config_ok cfg" and "store_inv cfg s" and "ready (os_fs s)" and "healthy (os_conn s)"
    and "oc_metadata cfg" and "fresh_chunk cfg (hash_raw (oc_blake3 cfg) raw) s"
    and "raw \<noteq> []" and "length raw \<le> unat (oc_maximum_chunk_size cfg)"
    and "codec_compress (oc_zstd cfg) (oc_level cfg) raw = Inr c"
    and "stored_size_ok cfg (word_of_nat (length c))"
  shows "\<exists>obj s'. store cfg raw False s = (Inr obj, s') \<and> so_newly_stored obj"
proof -
  let ?h = "hash_raw (oc_blake3 cfg) raw" and ?n = "word_of_nat (length raw) :: ByteCount"
  define s1 where "s1 = s\<lparr>os_conn := next_tick (os_conn s)\<rparr>"
  define s2 where "s2 = s1\<lparr>os_fs := (os_fs s1)\<lparr>fs_tick := Suc (fs_tick (os_fs s1))\<rparr>\<rparr>"
  have sound: "sound_content cfg ?h ?n c"
    by (rule compressed_sound [OF assms(1,7-10)])
  then have h: "is_lowercase_blake3_hex ?h" by (simp add: sound_content_def)
  have f1: "find_existing cfg ?h (derived_path ?h) ?n s = (Inr None, s1)"
    unfolding s1_def by (rule find_existing_fresh [OF assms(6,4) h assms(5)])
  have f2: "find_existing_file cfg ?h (derived_path ?h) ?n s1 = (Inr None, s2)"
    unfolding s2_def by (rule find_existing_file_fresh) (use assms(3,6) in \<open>simp_all add: s1_def\<close>)
  have fresh: "fresh_chunk cfg ?h s2"
    unfolding s2_def fresh_chunk_ticks(2) s1_def fresh_chunk_ticks(1) by (rule assms(6))
  have "store_inv cfg s2"
    using find_existing_triple [of cfg ?h "derived_path ?h" ?n s] find_existing_file_triple [of cfg ?h "derived_path ?h" ?n s1]
      f1 f2 assms(2) by (simp add: triple_def wp_def reaches_def)
  then obtain obj s3 s4 where "write_object cfg ?h (derived_path ?h) ?n c s2 = (Inr obj, s3)"
      "ensure_metadata cfg obj s3 = (Inr (), s4)" "so_newly_stored obj"
    using write_fresh [OF assms(1) _ _ _ assms(5) fresh sound] assms(3,4) by (auto simp: s2_def s1_def)
  then show ?thesis
    using f1 f2 assms(5,7-10) by (simp add: store_def Let_def proc_defs)
qed


section \<open>A concrete store\<close>

text \<open>A codec that stores the bytes behind a marker, and a digest that pads short inputs: enough to
  show that the assumptions on the libraries can hold.\<close>

definition demo_zstd :: zstd where
  "demo_zstd = \<lparr>compress_bound = (\<lambda>n. Inr (n + 1)),
     zstd_compress = (\<lambda>level cap raw. if length raw + 1 \<le> cap then Inr (0 # raw) else Inl ''dstSize_tooSmall''),
     frame_compressed_size = (\<lambda>c. if c = [] then Inl ''srcSize_wrong'' else Inr (length c)),
     zstd_decompress = (\<lambda>cap c. case c of [] \<Rightarrow> Inl ''srcSize_wrong''
        | m # raw \<Rightarrow> if m = 0 \<and> length raw \<le> cap then Inr raw else Inl ''corruption_detected'')\<rparr>"

definition demo_blake3 :: blake3 where
  "demo_blake3 bs = take 32 (bs @ replicate 32 0)"

definition demo_config :: os_config where
  "demo_config = \<lparr>oc_blake3 = demo_blake3, oc_zstd = demo_zstd, oc_level = 3,
     oc_maximum_chunk_size = 4194304, oc_metadata = True, oc_temporary_names = [''t1'', ''t2''],
     oc_now = 11\<rparr>"

definition demo_fs :: fs where
  "demo_fs = \<lparr>files = Map.empty, dirs = (\<lambda>p. p \<in> {[], ''objects'', ''temporary''}), others = Map.empty, modes = (\<lambda>_. 0),
     mtimes = (\<lambda>_. (0, 0)),
     durable_data = (\<lambda>_. False), durable_name = (\<lambda>p. p \<in> {[], ''objects'', ''temporary''}),
     fs_faults = (\<lambda>_. None), fs_appears = (\<lambda>_. None), fs_writes = [], fs_tick = 0\<rparr>"

definition demo_store :: ostore where
  "demo_store = \<lparr>os_fs = demo_fs, os_conn = quiet empty_tables, os_known = []\<rparr>"

lemma demo_config_ok: "config_ok demo_config"
  by (auto simp: config_ok_def demo_config_def checked_maximum_chunk_size_def digest_law_def demo_blake3_def
      zstd_laws_def demo_zstd_def)

lemma demo_store_inv: "store_inv demo_config demo_store"
  by (simp add: store_inv_def known_good_def on_db_def rows_good_def demo_store_def empty_tables_ok
      fs_ok_def demo_fs_def path_taken_def) (simp add: empty_tables_def)

definition demo_result :: "(exn + StoredObject) \<times> ostore" where
  "demo_result = store demo_config [1, 2, 3] False demo_store"

definition demo_object :: StoredObject where
  "demo_object = projr (fst demo_result)"

lemma demo_fresh: "fresh_chunk demo_config h demo_store"
  by (simp add: fresh_chunk_def demo_store_def demo_fs_def demo_config_def path_taken_def derived_path_def
      shard_dir_def quiet_def empty_tables_def)

lemma demo_ready: "ready (os_fs demo_store)" "healthy (os_conn demo_store)" "oc_metadata demo_config"
  by (simp_all add: ready_def fs_quiet_def demo_store_def demo_fs_def healthy_def quiet_def demo_config_def)

lemma demo_compress: "codec_compress (oc_zstd demo_config) (oc_level demo_config) [1, 2, 3] = Inr [0, 1, 2, 3]"
  "stored_size_ok demo_config (word_of_nat (length [0, 1, 2, 3 :: u8]))"
  by (simp_all add: codec_compress_def compression_bound_def zstd_error_def demo_config_def demo_zstd_def
      stored_size_ok_def)

lemma demo_raw: "[1, 2, 3 :: u8] \<noteq> []" "length [1, 2, 3 :: u8] \<le> unat (oc_maximum_chunk_size demo_config)"
  by (simp_all add: demo_config_def)

lemmas demo_assms = demo_config_ok demo_store_inv demo_ready demo_fresh demo_raw demo_compress

lemma demo_result_Inr: "fst demo_result = Inr demo_object" "so_newly_stored demo_object"
  using store_fresh [OF demo_assms] by (auto simp: demo_result_def demo_object_def)

lemma demo_object_hash: "so_hash_hex demo_object = hash_raw demo_blake3 [1, 2, 3] \<and> so_raw_size demo_object = 3"
  using store_triple [OF demo_config_ok, of "[1, 2, 3]" False demo_store] demo_store_inv demo_result_Inr
  by (auto simp: triple_def wp_def stored_as_def demo_result_def demo_config_def split: prod.splits)


lemma demo_object_good: "good_object demo_config (os_fs (snd demo_result)) demo_object"
  using store_triple [OF demo_config_ok, of "[1, 2, 3]" False demo_store] demo_store_inv demo_result_Inr
  by (auto simp: triple_def wp_def stored_as_def demo_result_def split: prod.splits)

theorem store_registers_durable_objects_witness:
  "good_object demo_config (os_fs (snd demo_result)) demo_object"
  using store_registers_durable_objects [OF demo_config_ok demo_store_inv, of "[1, 2, 3]" False
      "fst demo_result" "snd demo_result"] demo_result_Inr
  by (simp add: demo_result_def)

definition later_store :: ostore where
  "later_store = (snd demo_result)\<lparr>os_fs := (os_fs (snd demo_result))
     \<lparr>fs_faults := (\<lambda>_. None), fs_appears := (\<lambda>_. None)\<rparr>\<rparr>"

theorem store_read_round_trip_witness:
  "so_newly_stored demo_object \<and>
   fst (read_verified demo_config (so_hash_hex demo_object) (so_relative_path demo_object)
     (so_raw_size demo_object) (so_stored_size demo_object) later_store) = Inr [1, 2, 3]"
proof -
  have run: "store demo_config [1, 2, 3] False demo_store = (Inr demo_object, snd demo_result)"
    using demo_result_Inr(1) by (simp add: demo_result_def prod_eq_iff)
  note demo_result_Inr(2)
  moreover have "fs_extends (os_fs (snd demo_result)) (os_fs later_store)" "fs_quiet (os_fs later_store)"
    by (simp_all add: later_store_def fs_extends_def fs_quiet_def)
  ultimately show ?thesis
    using store_read_round_trip [OF demo_config_ok demo_store_inv run, of later_store] by auto
qed

theorem read_verified_returns_verified_witness:
  "\<exists>raw s'. read_verified demo_config (so_hash_hex demo_object) (so_relative_path demo_object)
       (so_raw_size demo_object) (so_stored_size demo_object) later_store = (Inr raw, s') \<and>
     hash_raw demo_blake3 raw = so_hash_hex demo_object \<and> length raw = 3"
proof -
  have "good_object demo_config (os_fs later_store) demo_object"
    by (rule good_object_extends [OF demo_object_good]) (simp add: later_store_def fs_extends_def)
  moreover have "fs_quiet (os_fs later_store)"
    by (simp add: later_store_def fs_quiet_def)
  ultimately obtain raw s' where "read_verified demo_config (so_hash_hex demo_object) (so_relative_path demo_object)
       (so_raw_size demo_object) (so_stored_size demo_object) later_store = (Inr raw, s')"
    using read_verified_good by (metis prod.collapse)
  then show ?thesis
    using read_verified_returns_verified [of demo_config "so_hash_hex demo_object"] demo_object_hash
    by (fastforce simp: demo_config_def)
qed

theorem store_cache_bounded_witness: "length (os_known (snd demo_result)) \<le> 64"
  using store_cache_bounded [of demo_store demo_config "[1, 2, 3]" False "fst demo_result" "snd demo_result"]
  by (simp add: demo_result_def demo_store_def)

end
