(* ===== verification/Paths.thy ===== *)
theory Paths
  imports LV_Prelude "HOL-Library.Sublist"
begin

text \<open>
  The part of \<^verbatim>\<open>std::filesystem::path\<close> that LocalVault computes with, on POSIX: a path is a
  byte string; iteration yields its components (the root directory first, an empty last component for
  a trailing slash), comparison is by components, and \<^verbatim>\<open>lexically_normal\<close> removes dots and
  resolves dot-dots.
\<close>

section \<open>Components\<close>

fun split_slash :: "string \<Rightarrow> string list" where
  "split_slash [] = [[]]"
| "split_slash (c # cs) =
     (if c = CHR ''/'' then [] # split_slash cs
      else case split_slash cs of [] \<Rightarrow> [[c]] | w # ws \<Rightarrow> (c # w) # ws)"

definition is_absolute :: "string \<Rightarrow> bool" where
  "is_absolute p \<longleftrightarrow> take 1 p = ''/''"

definition relative_part :: "string \<Rightarrow> string" where
  "relative_part p = dropWhile (\<lambda>c. c = CHR ''/'') p"

definition relative_components :: "string \<Rightarrow> string list" where
  "relative_components p =
     (let ws = split_slash (relative_part p) in
      if relative_part p = [] then [] else filter (\<lambda>w. w \<noteq> []) (butlast ws) @ [last ws])"

definition components :: "string \<Rightarrow> string list" where
  "components p = (if is_absolute p then [''/''] else []) @ relative_components p"

text \<open>\<^verbatim>\<open>operator==\<close>\<close>

definition path_eq :: "string \<Rightarrow> string \<Rightarrow> bool" where
  "path_eq p q \<longleftrightarrow> components p = components q"

text \<open>\<^verbatim>\<open>root_path\<close>, \<^verbatim>\<open>parent_path\<close>, \<^verbatim>\<open>filename\<close> and \<^verbatim>\<open>operator/\<close>\<close>

definition root_path :: "string \<Rightarrow> string" where
  "root_path p = (if is_absolute p then ''/'' else [])"

definition parent_path :: "string \<Rightarrow> string" where
  "parent_path p =
     (let r = dropWhile (\<lambda>c. c = CHR ''/'') (dropWhile (\<lambda>c. c \<noteq> CHR ''/'') (rev p)) in
      if r = [] \<and> is_absolute p then ''/'' else rev r)"

definition path_join :: "string \<Rightarrow> string \<Rightarrow> string" where
  "path_join p q =
     (if is_absolute q \<or> p = [] then q
      else if last p = CHR ''/'' then p @ q
      else p @ ''/'' @ q)"

section \<open>Lexical normal form\<close>

text \<open>One component after another, onto a stack; the flag says whether the text so far ends with a
  separator.\<close>

fun normal_step :: "bool \<Rightarrow> string list \<times> bool \<Rightarrow> string \<Rightarrow> string list \<times> bool" where
  "normal_step rooted (stack, trailing) w =
     (if w = [] \<or> w = ''.'' then (stack, stack \<noteq> [])
      else if w = ''..'' then
        (case stack of
           upper # lower \<Rightarrow>
             if upper \<noteq> ''..'' then (lower, lower \<noteq> []) else (w # stack, False)
         | [] \<Rightarrow> if rooted then ([], False) else ([w], False))
      else (w # stack, False))"

fun join_slash :: "string list \<Rightarrow> string" where
  "join_slash [] = []"
| "join_slash [w] = w"
| "join_slash (w # ws) = w @ ''/'' @ join_slash ws"

definition lexically_normal :: "string \<Rightarrow> string" where
  "lexically_normal p =
     (if p = [] then []
      else
        let rooted = is_absolute p;
            (stack, trailing) = foldl (normal_step rooted) ([], False) (relative_components p);
            slash = (trailing \<and> stack \<noteq> [] \<and> hd stack \<noteq> ''..'');
            text = join_slash (rev stack) @ (if slash then ''/'' else [])
        in if rooted then CHR ''/'' # text else if text = [] then ''.'' else text)"

section \<open>Splitting and joining\<close>

lemma split_slash_not_Nil [simp]: "split_slash p \<noteq> []"
  by (cases p) (auto split: list.split)

lemma split_slash_no_slash: "w \<in> set (split_slash p) \<Longrightarrow> CHR ''/'' \<notin> set w"
  by (induction p arbitrary: w) (auto split: if_splits list.splits)

lemma split_slash_word: "CHR ''/'' \<notin> set w \<Longrightarrow> split_slash w = [w]"
  by (induction w) (auto split: list.split)

lemma split_slash_append:
  "CHR ''/'' \<notin> set w \<Longrightarrow> split_slash (w @ CHR ''/'' # q) = w # split_slash q"
  by (induction w) auto

lemma split_join:
  "ws \<noteq> [] \<Longrightarrow> \<forall>w \<in> set ws. CHR ''/'' \<notin> set w \<Longrightarrow> split_slash (join_slash ws) = ws"
  by (induction ws rule: join_slash.induct) (auto simp: split_slash_word split_slash_append)

lemma components_no_slash:
  "w \<in> set (relative_components p) \<Longrightarrow> CHR ''/'' \<notin> set w"
  using split_slash_no_slash [of w "relative_part p"] last_in_set [OF split_slash_not_Nil, of "relative_part p"]
  by (auto simp: relative_components_def Let_def split: if_splits dest: in_set_butlastD)

section \<open>Proper paths\<close>

text \<open>Names that are neither empty nor dot nor dot-dot; a relative path made of such names denotes a
  place strictly below where it is appended.\<close>

definition proper_name :: "string \<Rightarrow> bool" where
  "proper_name w \<longleftrightarrow> w \<noteq> [] \<and> w \<noteq> ''.'' \<and> w \<noteq> ''..'' \<and> CHR ''/'' \<notin> set w"

definition proper_components :: "string list \<Rightarrow> bool" where
  "proper_components ws \<longleftrightarrow> ws \<noteq> [] \<and> list_all proper_name ws"

lemma relative_part_id: "\<not> is_absolute p \<Longrightarrow> relative_part p = p"
  by (cases p) (auto simp: relative_part_def is_absolute_def)

lemma join_slash_Nil_iff: "join_slash ws = [] \<longleftrightarrow> ws = [] \<or> ws = [[]]"
  by (cases ws rule: join_slash.cases) auto

lemma join_slash_hd: "ws \<noteq> [] \<Longrightarrow> hd ws \<noteq> [] \<Longrightarrow> take 1 (join_slash ws) = take 1 (hd ws)"
  by (cases ws rule: join_slash.cases; cases "hd ws") auto

lemma proper_join:
  assumes "proper_components ws"
  shows "\<not> is_absolute (join_slash ws)" and "join_slash ws \<noteq> []" and "components (join_slash ws) = ws"
proof -
  have ws: "ws \<noteq> []" "\<forall>w \<in> set ws. w \<noteq> [] \<and> CHR ''/'' \<notin> set w"
    using assms by (auto simp: proper_components_def proper_name_def list_all_iff)
  then have hd: "hd ws \<noteq> []" "CHR ''/'' \<notin> set (hd ws)" using hd_in_set by blast+
  then show abs: "\<not> is_absolute (join_slash ws)"
    using join_slash_hd [OF ws(1)] by (cases "hd ws") (auto simp: is_absolute_def)
  show ne: "join_slash ws \<noteq> []"
    using ws by (auto simp: join_slash_Nil_iff)
  have "filter (\<lambda>w. w \<noteq> []) (butlast ws) = butlast ws"
    using ws(2) by (auto simp: filter_id_conv dest: in_set_butlastD)
  then show "components (join_slash ws) = ws"
    using abs ne ws by (simp add: components_def relative_components_def relative_part_id split_join)
qed

lemma normal_step_proper:
  "list_all proper_name ws \<Longrightarrow> foldl (normal_step rooted) (stack, t) ws = (rev ws @ stack, if ws = [] then t else False)"
  by (induction ws arbitrary: stack t) (auto simp: proper_name_def)

lemma lexically_normal_proper:
  assumes "\<not> is_absolute p" and "proper_components (components p)"
  shows "lexically_normal p = join_slash (components p)"
proof -
  have "relative_components p = components p" "p \<noteq> []"
    using assms by (auto simp: components_def proper_components_def relative_components_def relative_part_def)
  then show ?thesis
    using assms normal_step_proper [of "components p" False "[]" False] join_slash_Nil_iff [of "components p"]
    by (auto simp: lexically_normal_def proper_components_def proper_name_def)
qed

text \<open>A proper relative path is in lexical normal form, up to repeated separators.\<close>

lemma proper_is_normal:
  assumes "\<not> is_absolute p" and "proper_components (components p)"
  shows "path_eq (lexically_normal p) p"
  using lexically_normal_proper [OF assms] proper_join(3) [OF assms(2)] by (simp add: path_eq_def)

section \<open>Parents and prefixes\<close>

lemma split_slash_snoc:
  "CHR ''/'' \<notin> set w \<Longrightarrow> split_slash (q @ CHR ''/'' # w) = split_slash q @ [w]"
  by (induction q) (auto simp: split_slash_word split: list.split)

lemma split_slash_slashes:
  "CHR ''/'' \<notin> set w \<Longrightarrow>
   split_slash (q @ CHR ''/'' # replicate n (CHR ''/'') @ w) = split_slash q @ replicate n [] @ [w]"
proof (induction n arbitrary: q)
  case (Suc n)
  have "split_slash (q @ CHR ''/'' # replicate (Suc n) (CHR ''/'') @ w) =
      split_slash ((q @ ''/'') @ CHR ''/'' # replicate n (CHR ''/'') @ w)" by simp
  also have "\<dots> = split_slash (q @ ''/'') @ replicate n [] @ [w]" using Suc by blast
  also have "split_slash (q @ ''/'') = split_slash q @ [[]]" using split_slash_snoc [of "[]" q] by simp
  finally show ?case by simp
qed (simp add: split_slash_snoc)

lemma split_slash_last: "q \<noteq> [] \<Longrightarrow> last q \<noteq> CHR ''/'' \<Longrightarrow> last (split_slash q) \<noteq> []"
  by (induction q) (auto split: list.split if_splits)

lemma takeWhile_replicate: "takeWhile (\<lambda>c. c = x) p = replicate (length (takeWhile (\<lambda>c. c = x) p)) x"
  by (induction p) auto

lemma filter_split_slash:
  assumes "q \<noteq> []" and "last q \<noteq> CHR ''/''"
  shows "filter (\<lambda>w. w \<noteq> []) (split_slash q) =
    filter (\<lambda>w. w \<noteq> []) (butlast (split_slash q)) @ [last (split_slash q)]"
  using split_slash_last [OF assms]
  by (subst append_butlast_last_id [symmetric]) (auto simp del: append_butlast_last_id)

text \<open>The last component and what comes before it.\<close>

lemma path_cases:
  assumes "\<not> is_absolute p"
  obtains "CHR ''/'' \<notin> set p" "parent_path p = []"
  | q n w where "p = q @ CHR ''/'' # replicate n (CHR ''/'') @ w" "CHR ''/'' \<notin> set w" "q \<noteq> []"
      "last q \<noteq> CHR ''/''" "parent_path p = q"
proof (cases "CHR ''/'' \<in> set p")
  case False
  then have "dropWhile (\<lambda>c. c \<noteq> CHR ''/'') (rev p) = []" by (auto simp: dropWhile_eq_Nil_conv)
  then have "parent_path p = []" using assms by (simp add: parent_path_def del: dropWhile_eq_Nil_conv)
  then show ?thesis using that(1) False by blast
next
  case True
  let ?slash = "\<lambda>c. c = CHR ''/''"
  define r where "r = dropWhile (\<lambda>c. \<not> ?slash c) (rev p)"
  define u where "u = dropWhile ?slash r"
  have r: "r \<noteq> []" using True by (auto simp: r_def dropWhile_eq_Nil_conv)
  then have "?slash (hd r)" using hd_dropWhile [of "\<lambda>c. \<not> ?slash c" "rev p"] by (simp add: r_def)
  then have n: "takeWhile ?slash r = ''/'' @ replicate (length (takeWhile ?slash r) - 1) (CHR ''/'')"
    using r takeWhile_replicate [of "CHR ''/''" r] by (cases r) auto
  have "rev p = takeWhile (\<lambda>c. \<not> ?slash c) (rev p) @ takeWhile ?slash r @ u"
    by (simp add: r_def u_def)
  then have "rev p = takeWhile (\<lambda>c. \<not> ?slash c) (rev p) @ ''/'' @
      replicate (length (takeWhile ?slash r) - 1) (CHR ''/'') @ u"
    using n by (metis append.assoc)
  then have "p = rev (takeWhile (\<lambda>c. \<not> ?slash c) (rev p) @ ''/'' @
      replicate (length (takeWhile ?slash r) - 1) (CHR ''/'') @ u)"
    by (metis rev_rev_ident)
  then have p: "p = rev u @ CHR ''/'' # replicate (length (takeWhile ?slash r) - 1) (CHR ''/'') @
      rev (takeWhile (\<lambda>c. \<not> ?slash c) (rev p))"
    by (simp add: replicate_app_Cons_same)
  have "u \<noteq> []"
  proof
    assume "u = []"
    then have "take 1 p = ''/''" by (subst p) simp
    then show False using assms by (simp add: is_absolute_def)
  qed
  then have u: "rev u \<noteq> []" "last (rev u) = hd u" by (simp_all add: last_rev)
  have hd: "\<not> ?slash (hd u)" using \<open>u \<noteq> []\<close> hd_dropWhile [of ?slash r] by (simp add: u_def)
  have "parent_path p = (if u = [] \<and> is_absolute p then ''/'' else rev u)"
    unfolding parent_path_def Let_def u_def r_def by (rule refl)
  then have parent: "parent_path p = rev u"
    using assms by simp
  have word: "CHR ''/'' \<notin> set (rev (takeWhile (\<lambda>c. \<not> ?slash c) (rev p)))"
    using set_takeWhileD [of "CHR ''/''" "\<lambda>c. \<not> ?slash c" "rev p"] by auto
  show ?thesis
    by (rule that(2) [OF p word u(1) _ parent]) (unfold u(2), rule hd)
qed

lemma components_parent:
  assumes "\<not> is_absolute p"
  shows "components (parent_path p) = butlast (components p)"
  using assms
proof (cases rule: path_cases)
  case 1
  then show ?thesis
    using assms by (simp add: components_def relative_components_def relative_part_id split_slash_word)
      (simp add: is_absolute_def relative_part_def Let_def)
next
  case (2 q n w)
  have abs: "\<not> is_absolute q" using assms 2 by (cases q) (auto simp: is_absolute_def)
  note filter_split_slash [OF 2(3,4)]
  moreover have "split_slash p = split_slash q @ replicate n [] @ [w]"
    unfolding 2(1) by (rule split_slash_slashes [OF 2(2)])
  ultimately show ?thesis
    using assms abs 2 by (simp add: components_def relative_components_def relative_part_id butlast_append Let_def)
qed

lemma components_Nil [simp]: "components [] = []"
  by (simp add: components_def relative_components_def relative_part_def is_absolute_def)

lemma split_slash_join: "split_slash (q @ CHR ''/'' # p) = split_slash q @ split_slash p"
  by (induction q) (auto split: list.split)

text \<open>Appending a relative path appends its components.\<close>

lemma components_join:
  assumes "is_absolute root" and "last root \<noteq> CHR ''/''" and "\<not> is_absolute p" and "p \<noteq> []"
  shows "components (path_join root p) = components root @ components p"
proof -
  let ?slash = "\<lambda>c. c = CHR ''/''"
  have ne: "root \<noteq> []" using assms(1) by (cases root) (simp_all add: is_absolute_def)
  then have root: "root \<noteq> []" "\<exists>c \<in> set root. \<not> ?slash c"
    using assms(2) last_in_set by blast+
  then have q1: "relative_part root \<noteq> []"
    unfolding relative_part_def dropWhile_eq_Nil_conv by blast
  have "root = takeWhile ?slash root @ relative_part root"
    by (simp add: relative_part_def)
  then have "last (relative_part root) = last root"
    using q1 by (metis last_appendR)
  then have q: "relative_part root \<noteq> []" "last (relative_part root) \<noteq> CHR ''/''"
    using q1 assms(2) by simp_all
  have "relative_part (root @ CHR ''/'' # p) = relative_part root @ CHR ''/'' # p"
    unfolding relative_part_def
    by (rule dropWhile_append1 [of "last root" root ?slash]) (rule last_in_set [OF ne], rule assms(2))
  moreover have "is_absolute (root @ CHR ''/'' # p)"
    using assms(1) by (cases root) (auto simp: is_absolute_def)
  ultimately show ?thesis
    using assms root(1) q filter_split_slash [OF q]
    by (simp add: path_join_def components_def relative_components_def Let_def split_slash_join butlast_append
        relative_part_id [OF assms(3)])
qed

lemma parent_relative: "\<not> is_absolute p \<Longrightarrow> \<not> is_absolute (parent_path p)"
  by (cases rule: path_cases [of p]) (auto simp: is_absolute_def)

section \<open>A single leading separator\<close>

abbreviation plain_word :: "string \<Rightarrow> bool" where
  "plain_word w \<equiv> w \<noteq> [] \<and> CHR ''/'' \<notin> set w"

lemma normal_step_plain:
  "list_all plain_word stack \<Longrightarrow> CHR ''/'' \<notin> set w \<Longrightarrow> list_all plain_word (fst (normal_step rooted (stack, trailing) w))"
  by (auto split: list.split)

lemma normal_fold_plain:
  "list_all plain_word (fst acc) \<Longrightarrow> \<forall>w \<in> set ws. CHR ''/'' \<notin> set w \<Longrightarrow>
   list_all plain_word (fst (foldl (normal_step rooted) acc ws))"
proof (induction ws arbitrary: acc)
  case (Cons w ws)
  then have "list_all plain_word (fst (normal_step rooted acc w))"
    using normal_step_plain [of "fst acc" w rooted "snd acc"] by simp
  then show ?case using Cons by simp
qed simp

lemma relative_components_no_slash:
  assumes "w \<in> set (relative_components p)"
  shows "CHR ''/'' \<notin> set w"
proof -
  have "w \<in> set (split_slash (relative_part p))"
    using assms in_set_butlastD [of w "split_slash (relative_part p)"] last_in_set [OF split_slash_not_Nil [of "relative_part p"]]
    by (auto simp: relative_components_def Let_def split: if_splits)
  then show ?thesis by (rule split_slash_no_slash)
qed

lemma join_slash_starts: "list_all plain_word ws \<Longrightarrow> ws \<noteq> [] \<Longrightarrow> join_slash ws \<noteq> [] \<and> hd (join_slash ws) \<noteq> CHR ''/''"
  by (cases ws rule: join_slash.cases) (auto simp: hd_append neq_Nil_conv)

lemma lexically_normal_leading: "take 2 (lexically_normal p) \<noteq> ''//''"
proof -
  obtain stack trailing where f: "foldl (normal_step (is_absolute p)) ([], False) (relative_components p) = (stack, trailing)"
    by fastforce
  have "list_all plain_word (rev stack)"
    using normal_fold_plain [of "([], False)" "relative_components p" "is_absolute p"] relative_components_no_slash f by simp
  then have "stack = [] \<or> join_slash (rev stack) \<noteq> [] \<and> hd (join_slash (rev stack)) \<noteq> CHR ''/''"
    using join_slash_starts by auto
  then show ?thesis
    by (auto simp: lexically_normal_def f Let_def neq_Nil_conv numeral_2_eq_2)
qed

lemma path_join_leading: "take 2 p \<noteq> ''//'' \<Longrightarrow> \<not> is_absolute q \<Longrightarrow> take 2 (path_join p q) \<noteq> ''//''"
  by (cases p rule: list.exhaust; cases q)
    (auto simp: path_join_def is_absolute_def numeral_2_eq_2 take_Cons' split: if_splits)

end
