(* ===== verification/Utf8_Text.thy ===== *)
theory Utf8_Text
  imports LV_Prelude
begin

text \<open>
  The UTF-8 validator that the scanner applies to every path it records and the restore engine to
  every path it is about to create (\<^verbatim>\<open>is_valid_utf8\<close> of \<^verbatim>\<open>file_scanner.cpp\<close> and, line
  for line the same, of \<^verbatim>\<open>restore_engine.cpp\<close>), with a proof that it accepts exactly the
  encodings of sequences of Unicode scalar values.
\<close>

unbundle bit_operations_syntax

section \<open>The validator\<close>

text \<open>\<^verbatim>\<open>text[index]\<close> read as \<^verbatim>\<open>unsigned char\<close>.\<close>

definition byte_values :: "string \<Rightarrow> nat list" where
  "byte_values text = map of_char text"

definition sequence_length :: "nat \<Rightarrow> nat option" where
  "sequence_length first =
     (if first \<ge> 0xC2 \<and> first \<le> 0xDF then Some 2
      else if first \<ge> 0xE0 \<and> first \<le> 0xEF then Some 3
      else if first \<ge> 0xF0 \<and> first \<le> 0xF4 then Some 4
      else None)"

definition second_excluded :: "nat \<Rightarrow> nat \<Rightarrow> bool" where
  "second_excluded first second \<longleftrightarrow>
     first = 0xE0 \<and> second < 0xA0 \<or> first = 0xED \<and> second > 0x9F \<or>
     first = 0xF0 \<and> second < 0x90 \<or> first = 0xF4 \<and> second > 0x8F"

text \<open>The loop, from the suffix that starts at \<^verbatim>\<open>index\<close>.\<close>

function utf8_from :: "nat list \<Rightarrow> bool" where
  "utf8_from [] = True"
| "utf8_from (first # more) =
     (if first \<le> 0x7F then utf8_from more
      else case sequence_length first of
        None \<Rightarrow> False
      | Some len \<Rightarrow>
          if len > Suc (length more) then False
          else if list_ex (\<lambda>b. b AND 0xC0 \<noteq> 0x80) (take (len - 1) more) then False
          else if second_excluded first (hd more) then False
          else utf8_from (drop (len - 1) more))"
  by pat_completeness auto
termination
  by (relation "measure length") auto

definition is_valid_utf8 :: "string \<Rightarrow> bool" where
  "is_valid_utf8 text = utf8_from (byte_values text)"

section \<open>Unicode scalar values and their encoding\<close>

definition scalar_value :: "nat \<Rightarrow> bool" where
  "scalar_value c \<longleftrightarrow> c < 0xD800 \<or> 0xE000 \<le> c \<and> c < 0x110000"

definition utf8_encode :: "nat \<Rightarrow> nat list" where
  "utf8_encode c =
     (if c < 0x80 then [c]
      else if c < 0x800 then [0xC0 + c div 64, 0x80 + c mod 64]
      else if c < 0x10000 then [0xE0 + c div 4096, 0x80 + c div 64 mod 64, 0x80 + c mod 64]
      else [0xF0 + c div 262144, 0x80 + c div 4096 mod 64, 0x80 + c div 64 mod 64, 0x80 + c mod 64])"

lemma and_192: "b < 256 \<Longrightarrow> b AND 0xC0 = 64 * (b div (64 :: nat))"
proof -
  assume "b < 256"
  have c0: "0xC0 = push_bit 6 (mask 2 :: nat)"
    by (simp add: push_bit_eq_mult mask_eq_exp_minus_1)
  have "b AND 0xC0 = push_bit 6 (drop_bit 6 b AND mask 2)"
    unfolding c0 by (rule bit_eqI) (auto simp: bit_simps)
  also have "\<dots> = 64 * (b div 64 mod 4)"
    by (simp add: push_bit_eq_mult drop_bit_eq_div take_bit_eq_mod flip: take_bit_eq_mask)
  also have "\<dots> = 64 * (b div 64)"
    using \<open>b < 256\<close> by simp
  finally show ?thesis .
qed

lemma continuation_iff: "b < 256 \<Longrightarrow> b AND 0xC0 = (0x80 :: nat) \<longleftrightarrow> 0x80 \<le> b \<and> b \<le> 0xBF"
  by (subst and_192) auto

lemma continuation_plus: "r < 64 \<Longrightarrow> (128 + r) AND 192 = (128 :: nat)"
  using continuation_iff [of "128 + r"] by simp

text \<open>The validator skips exactly one encoded scalar value.\<close>

lemma utf8_from_encode:
  assumes "scalar_value c"
  shows "utf8_from (utf8_encode c @ rest) = utf8_from rest"
proof -
  consider "c < 0x80" | "0x80 \<le> c" "c < 0x800" | "0x800 \<le> c" "c < 0x10000" | "0x10000 \<le> c" "c < 0x110000"
    using assms by (fastforce simp: scalar_value_def)
  then show ?thesis
  proof cases
    case 2
    then have "2 \<le> c div 64" "c div 64 \<le> 31" by auto
    with 2 show ?thesis
      by (simp add: utf8_encode_def sequence_length_def continuation_plus second_excluded_def)
  next
    case 3
    define q where "q = c div 4096"
    define r where "r = c div 64 mod 64"
    have m: "c div 64 = 64 * q + r"
      using mult_div_mod_eq [of 64 "c div 64"] by (simp add: q_def r_def div_mult2_eq [of c 64 64, simplified])
    have "32 \<le> c div 64" "c div 64 < 1024" using 3 by auto
    with m have "q \<le> 15" "r < 64" "q = 0 \<Longrightarrow> 32 \<le> r" by (auto simp: r_def)
    moreover have "c div 64 < 864 \<or> 896 \<le> c div 64" using assms by (auto simp: scalar_value_def)
    with m have "q = 13 \<Longrightarrow> r < 32" using \<open>r < 64\<close> by auto
    ultimately show ?thesis
      using 3 by (auto simp: utf8_encode_def sequence_length_def continuation_plus second_excluded_def simp flip: q_def r_def)
  next
    case 4
    define q where "q = c div 262144"
    define r where "r = c div 4096 mod 64"
    have m: "c div 4096 = 64 * q + r"
      using mult_div_mod_eq [of 64 "c div 4096"]
      by (simp add: q_def r_def div_mult2_eq [of c 4096 64, simplified])
    have "16 \<le> c div 4096" "c div 4096 < 272" using 4 by auto
    with m have "q \<le> 4" "r < 64" "q = 0 \<Longrightarrow> 16 \<le> r" "q = 4 \<Longrightarrow> r < 16" by (auto simp: r_def)
    then show ?thesis
      using 4 by (auto simp: utf8_encode_def sequence_length_def continuation_plus second_excluded_def simp flip: q_def r_def)
  qed (simp add: utf8_encode_def)
qed

text \<open>Conversely, a sequence the validator steps over is the encoding of a scalar value.\<close>

lemma digit64: "r < 64 \<Longrightarrow> (64 * m + r) div 64 = (m :: nat) \<and> (64 * m + r) mod 64 = r"
  by simp

lemma div_digits: "c div 4096 = c div 64 div (64 :: nat)" "c div 262144 = c div 64 div 64 div (64 :: nat)"
  by (simp_all flip: div_mult2_eq)

lemma utf8_decode2:
  assumes "0xC2 \<le> a" "a \<le> 0xDF" "0x80 \<le> b" "b \<le> 0xBF"
  shows "\<exists>c. scalar_value c \<and> utf8_encode c = [a, b]"
proof -
  define i j where "i = a - 0xC0" and "j = b - 0x80"
  have e: "a = 0xC0 + i" "b = 0x80 + j" "2 \<le> i" "i < 32" "j < 64"
    using assms by (auto simp: i_def j_def)
  then show ?thesis
    using digit64 [of j i] by (intro exI [of _ "64 * i + j"]) (auto simp: scalar_value_def utf8_encode_def)
qed

lemma utf8_decode3:
  assumes "0xE0 \<le> a" "a \<le> 0xEF" "0x80 \<le> b" "b \<le> 0xBF" "0x80 \<le> c" "c \<le> 0xBF" "\<not> second_excluded a b"
  shows "\<exists>x. scalar_value x \<and> utf8_encode x = [a, b, c]"
proof -
  define i j k where "i = a - 0xE0" and "j = b - 0x80" and "k = c - 0x80"
  have e: "a = 0xE0 + i" "b = 0x80 + j" "c = 0x80 + k" "i < 16" "j < 64" "k < 64"
    using assms by (auto simp: i_def j_def k_def)
  let ?x = "64 * (64 * i + j) + k"
  have d: "?x div 64 = 64 * i + j" "?x mod 64 = k" "?x div 4096 = i"
    using digit64 [of k "64 * i + j"] digit64 [of j i] e(5,6) by (simp_all only: div_digits)
  have "i < 13 \<or> i = 13 \<and> j < 32 \<or> 14 \<le> i" "1 \<le> i \<or> 32 \<le> j"
    using assms(7) e(1,2) by (auto simp: second_excluded_def)
  then have "scalar_value ?x" "0x800 \<le> ?x" "?x < 0x10000"
    using e(4-6) by (auto simp: scalar_value_def)
  then show ?thesis
    using e(1-3) d digit64 [OF e(5), of i] by (intro exI [of _ ?x]) (simp only: utf8_encode_def, simp)
qed

lemma utf8_decode4:
  assumes "0xF0 \<le> a" "a \<le> 0xF4" "0x80 \<le> b" "b \<le> 0xBF" "0x80 \<le> c" "c \<le> 0xBF" "0x80 \<le> d" "d \<le> 0xBF"
    "\<not> second_excluded a b"
  shows "\<exists>x. scalar_value x \<and> utf8_encode x = [a, b, c, d]"
proof -
  define i j k l where "i = a - 0xF0" and "j = b - 0x80" and "k = c - 0x80" and "l = d - 0x80"
  have e: "a = 0xF0 + i" "b = 0x80 + j" "c = 0x80 + k" "d = 0x80 + l" "i \<le> 4" "j < 64" "k < 64" "l < 64"
    using assms by (auto simp: i_def j_def k_def l_def)
  let ?x = "64 * (64 * (64 * i + j) + k) + l"
  have d: "?x div 64 = 64 * (64 * i + j) + k" "?x mod 64 = l" "?x div 4096 = 64 * i + j" "?x div 262144 = i"
    using digit64 [of l "64 * (64 * i + j) + k"] digit64 [of k "64 * i + j"] digit64 [of j i] e(6-8)
    by (simp_all only: div_digits)
  have "scalar_value ?x" "0x10000 \<le> ?x"
    using assms(9) e by (auto simp: scalar_value_def second_excluded_def)
  then show ?thesis
    using e(1-4) d digit64 [OF e(6), of i] digit64 [OF e(7), of "64 * i + j"]
    by (intro exI [of _ ?x]) (simp only: utf8_encode_def, simp)
qed

section \<open>The validator accepts exactly the encodings\<close>

lemma utf8_step:
  assumes "\<not> first \<le> 0x7F" and "utf8_from (first # more)" and "\<forall>b \<in> set more. b < 256"
  shows "\<exists>c rest. scalar_value c \<and> first # more = utf8_encode c @ rest \<and> utf8_from rest \<and>
    length rest < Suc (length more)"
proof -
  obtain len where len: "sequence_length first = Some len" "len \<le> Suc (length more)"
      "\<forall>b \<in> set (take (len - 1) more). b AND 0xC0 = 0x80" "\<not> second_excluded first (hd more)"
      "utf8_from (drop (len - 1) more)"
    using assms(1,2) by (auto simp: list_ex_iff split: option.splits if_splits)
  have cont: "\<forall>b \<in> set (take (len - 1) more). 0x80 \<le> b \<and> b \<le> 0xBF"
    using len(3) assms(3) continuation_iff in_set_takeD by metis
  consider "len = 2" "0xC2 \<le> first" "first \<le> 0xDF" | "len = 3" "0xE0 \<le> first" "first \<le> 0xEF"
    | "len = 4" "0xF0 \<le> first" "first \<le> 0xF4"
    using len(1) by (auto simp: sequence_length_def split: if_splits)
  then have "\<exists>c. scalar_value c \<and> utf8_encode c = first # take (len - 1) more"
  proof cases
    case 1
    then obtain b bs where "more = b # bs" using len(2) by (cases more) auto
    then show ?thesis using 1 cont utf8_decode2 [of first b] by simp
  next
    case 2
    then obtain b c bs where "more = b # c # bs"
      using len(2) by (cases more; cases "tl more") auto
    then show ?thesis using 2 cont len(4) utf8_decode3 [of first b c] by simp
  next
    case 3
    then obtain b c d bs where "more = b # c # d # bs"
      using len(2) by (cases more; cases "tl more"; cases "tl (tl more)") auto
    then show ?thesis using 3 cont len(4) utf8_decode4 [of first b c d] by simp
  qed
  then show ?thesis
    using len(5) by (metis append_Cons append_take_drop_id length_drop less_Suc_eq_le diff_le_self)
qed

lemma utf8_from_iff:
  "\<forall>b \<in> set bs. b < 256 \<Longrightarrow>
   utf8_from bs \<longleftrightarrow> (\<exists>cs. list_all scalar_value cs \<and> bs = concat (map utf8_encode cs))"
proof
  show "utf8_from bs" if "\<exists>cs. list_all scalar_value cs \<and> bs = concat (map utf8_encode cs)"
  proof -
    have "list_all scalar_value cs \<Longrightarrow> utf8_from (concat (map utf8_encode cs))" for cs
      by (induction cs) (simp_all add: utf8_from_encode)
    then show ?thesis using that by blast
  qed
  show "\<exists>cs. list_all scalar_value cs \<and> bs = concat (map utf8_encode cs)"
    if "\<forall>b \<in> set bs. b < 256" "utf8_from bs"
    using that
  proof (induction bs rule: length_induct)
    case (1 bs)
    have next_scalar: ?case if "bs = utf8_encode c @ rest" "scalar_value c" "utf8_from rest" "length rest < length bs" for c rest
    proof -
      have "\<exists>cs. list_all scalar_value cs \<and> rest = concat (map utf8_encode cs)"
        using 1(1) [rule_format, OF that(4) _ that(3)] 1(2) that(1) by auto
      then obtain cs where "list_all scalar_value cs" "rest = concat (map utf8_encode cs)"
        by blast
      then show ?thesis using that(1,2) by (intro exI [of _ "c # cs"]) simp
    qed
    show ?case
    proof (cases bs)
      case Nil
      then show ?thesis by (intro exI [of _ "[]"]) simp
    next
      case (Cons first more)
      show ?thesis
      proof (cases "first \<le> 0x7F")
        case True
        then show ?thesis
          using next_scalar [of first more] 1(3) Cons by (simp add: utf8_encode_def scalar_value_def)
      next
        case False
        have "\<forall>b \<in> set more. b < 256" using 1(2) Cons by simp
        then obtain c rest where "scalar_value c" "bs = utf8_encode c @ rest" "utf8_from rest"
            "length rest < length bs"
          using utf8_step [OF False 1(3) [unfolded Cons]] unfolding Cons length_Cons by metis
        then show ?thesis using next_scalar by blast
      qed
    qed
  qed
qed

text \<open>
  [C30] The validator accepts a text exactly when its bytes are the UTF-8 encoding of a sequence of
  Unicode scalar values: overlong forms, surrogates, values above U+10FFFF, stray continuation bytes
  and truncated sequences are all refused, and nothing that is well-formed is.
\<close>

theorem is_valid_utf8_iff:
  "is_valid_utf8 text \<longleftrightarrow>
     (\<exists>cs. list_all scalar_value cs \<and> byte_values text = concat (map utf8_encode cs))"
  unfolding is_valid_utf8_def by (rule utf8_from_iff) (auto simp: byte_values_def)

end
