(* ===== verification/Posix_Metadata.thy ===== *)
theory Posix_Metadata
  imports Vault_FS Codec
begin

text \<open>
  File metadata on POSIX, from \<^verbatim>\<open>src/core/filesystem/platform/posix_file_metadata.cpp\<close>:
  modification times as nanoseconds since the epoch and back, the permitted mode bits, the names of
  temporary files, and the calls that put saved metadata on a restored file or directory.
\<close>

unbundle bit_operations_syntax

section \<open>Modification times\<close>

abbreviation nanoseconds_per_second :: int where
  "nanoseconds_per_second \<equiv> 1000000000"

text \<open>Division of \<^verbatim>\<open>std::int64_t\<close> values truncates towards zero.\<close>

definition trunc_div :: "int \<Rightarrow> int \<Rightarrow> int" where
  "trunc_div a b = sgn a * (\<bar>a\<bar> div b)"

definition trunc_mod :: "int \<Rightarrow> int \<Rightarrow> int" where
  "trunc_mod a b = a - b * trunc_div a b"

definition nanoseconds_since_epoch :: "int \<Rightarrow> int \<Rightarrow> exn + int" where
  "nanoseconds_since_epoch seconds nanoseconds =
     (if nanoseconds < 0 \<or> nanoseconds \<ge> nanoseconds_per_second \<or>
         seconds > trunc_div int64_max nanoseconds_per_second \<or>
         seconds < trunc_div int64_min nanoseconds_per_second
      then throw_lv E_filesystem_error ''file modification time is outside the supported range''
      else
        let whole_seconds = seconds * nanoseconds_per_second in
        if whole_seconds > int64_max - nanoseconds
        then throw_lv E_filesystem_error ''file modification time is outside the supported range''
        else Inr (whole_seconds + nanoseconds))"

text \<open>\<^verbatim>\<open>time_t\<close> has 64 bits, so the narrowing check compares equal values.\<close>

definition restored_modification_time :: "int \<Rightarrow> exn + (int \<times> int)" where
  "restored_modification_time modified_time_ns =
     (let seconds = trunc_div modified_time_ns nanoseconds_per_second;
          nanoseconds = trunc_mod modified_time_ns nanoseconds_per_second;
          (seconds, nanoseconds) =
            (if nanoseconds < 0 then (seconds - 1, nanoseconds + nanoseconds_per_second)
             else (seconds, nanoseconds));
          tv_sec = seconds
      in if tv_sec \<noteq> seconds
         then throw_lv E_filesystem_error ''restored modification time is outside the platform range''
         else Inr (tv_sec, nanoseconds))"

lemma trunc_div_nonneg: "0 \<le> a \<Longrightarrow> trunc_div a b = a div b"
  by (cases "a = 0") (simp_all add: trunc_div_def)

lemma trunc_div_neg: "a < 0 \<Longrightarrow> trunc_div a b = - ((- a) div b)"
  by (simp add: trunc_div_def)

lemma restored_time_floor:
  "restored_modification_time t = Inr (t div nanoseconds_per_second, t mod nanoseconds_per_second)"
proof (cases "0 \<le> t")
  case True
  have "trunc_mod t nanoseconds_per_second = t mod nanoseconds_per_second"
    using True by (simp add: trunc_mod_def trunc_div_nonneg minus_mult_div_eq_mod)
  then show ?thesis
    using True by (simp add: restored_modification_time_def Let_def trunc_div_nonneg)
next
  case False
  define q where "q = (- t) div nanoseconds_per_second"
  define r where "r = (- t) mod nanoseconds_per_second"
  have t: "t = - (nanoseconds_per_second * q) - r"
    unfolding q_def r_def using mult_div_mod_eq [of nanoseconds_per_second "- t"] by linarith
  have r: "0 \<le> r" "r < nanoseconds_per_second"
    by (simp_all add: r_def)
  have div: "trunc_div t nanoseconds_per_second = - q"
    unfolding q_def by (rule trunc_div_neg) (use False in linarith)
  have parts: "trunc_div t nanoseconds_per_second = - q" "trunc_mod t nanoseconds_per_second = - r"
    using t unfolding trunc_mod_def div by linarith+
  show ?thesis
  proof (cases "r = 0")
    case True
    then show ?thesis using t parts by (simp add: restored_modification_time_def)
  next
    case nz: False
    have "t div nanoseconds_per_second = - q - 1 \<and> t mod nanoseconds_per_second = nanoseconds_per_second - r"
      using t r nz
      by (intro conjI int_div_pos_eq [of _ _ _ "nanoseconds_per_second - r"]
          int_mod_pos_eq [of _ _ "- q - 1"]) (auto simp: algebra_simps)
    then show ?thesis using parts r nz by (simp add: restored_modification_time_def)
  qed
qed

text \<open>
  [C31] Times survive a snapshot and a restore: a time stamp that the scanner can store is restored to
  the same seconds and nanoseconds, and a stored time is read back from the restored file as the same
  number, for every stored time from second -9223372036 on.
\<close>

theorem modification_time_round_trip:
  "(nanoseconds_since_epoch s n = Inr t \<longrightarrow> restored_modification_time t = Inr (s, n)) \<and>
   (int64_min + 854775808 \<le> t \<and> t \<le> int64_max \<longrightarrow>
      (\<exists>s n. restored_modification_time t = Inr (s, n) \<and> nanoseconds_since_epoch s n = Inr t))"
proof (intro conjI impI)
  assume "nanoseconds_since_epoch s n = Inr t"
  then have "t = nanoseconds_per_second * s + n" "0 \<le> n" "n < nanoseconds_per_second"
    by (auto simp: nanoseconds_since_epoch_def Let_def split: if_splits)
  then show "restored_modification_time t = Inr (s, n)"
    by (simp add: restored_time_floor)
next
  assume t: "int64_min + 854775808 \<le> t \<and> t \<le> int64_max"
  define s n where "s = t div nanoseconds_per_second" and "n = t mod nanoseconds_per_second"
  have e: "t = nanoseconds_per_second * s + n" "0 \<le> n" "n < nanoseconds_per_second"
    by (simp_all add: s_def n_def)
  have "nanoseconds_since_epoch s n = Inr t"
    using t e by (simp add: nanoseconds_since_epoch_def trunc_div_def)
  then show "\<exists>s n. restored_modification_time t = Inr (s, n) \<and> nanoseconds_since_epoch s n = Inr t"
    by (auto simp: restored_time_floor s_def n_def)
qed

theorem modification_time_round_trip_witness:
  "restored_modification_time (- 1) = Inr (- 1, 999999999) \<and> nanoseconds_since_epoch (- 1) 999999999 = Inr (- 1)"
proof -
  have "nanoseconds_since_epoch (- 1) 999999999 = Inr (- 1)"
    by (simp add: nanoseconds_since_epoch_def trunc_div_def)
  then show ?thesis using modification_time_round_trip by blast
qed

section \<open>Modes and names\<close>

text \<open>\<^verbatim>\<open>S_IFMT | S_ISUID | S_ISGID | S_ISVTX | S_IRWXU | S_IRWXG | S_IRWXO\<close>\<close>

definition valid_mode_mask :: u32 where
  "valid_mode_mask = 0xFFFF"

definition validate_posix_mode :: "u32 \<Rightarrow> exn + unit" where
  "validate_posix_mode posix_mode =
     (if posix_mode AND NOT valid_mode_mask \<noteq> 0
      then throw_lv E_filesystem_error ''saved POSIX mode contains unsupported bits'' else Inr ())"

definition random_temporary_name :: "bytes \<Rightarrow> string" where
  "random_temporary_name random = ''.localvault-restore-'' @ to_hex random @ ''.tmp''"

section \<open>Putting metadata on a path\<close>

text \<open>\<^verbatim>\<open>TemporaryOutputFile::apply_metadata\<close> and \<^verbatim>\<open>apply_restored_metadata\<close> make the
  same two calls, on a descriptor and on a path: the permission bits unless the saved mode is zero,
  then the modification time.\<close>

definition change_mode :: "string \<Rightarrow> u32 \<Rightarrow> (fs, unit) proc" where
  "change_mode path mode =
     syscall E_filesystem_error ''failed to restore POSIX permissions: '' (\<lambda>f.
       Inr ((), f\<lparr>modes := (modes f)(path := mode)\<rparr>))"

definition change_time :: "string \<Rightarrow> int \<times> int \<Rightarrow> (fs, unit) proc" where
  "change_time path time =
     syscall E_filesystem_error ''failed to restore modification time: '' (\<lambda>f.
       Inr ((), f\<lparr>mtimes := (mtimes f)(path := time)\<rparr>))"

definition apply_metadata :: "string \<Rightarrow> int \<Rightarrow> u32 \<Rightarrow> (fs, unit) proc" where
  "apply_metadata path modified_time_ns posix_mode =
     seqp (liftp (validate_posix_mode posix_mode))
     (seqp (if posix_mode \<noteq> 0 then change_mode path (posix_mode AND 0xFFF) else ret ())
     (bindp (liftp (restored_modification_time modified_time_ns)) (change_time path)))"

definition apply_restored_metadata :: "string \<Rightarrow> int \<Rightarrow> u32 \<Rightarrow> (fs, unit) proc" where
  "apply_restored_metadata path modified_time_ns posix_mode =
     seqp (liftp (validate_posix_mode posix_mode))
     (seqp (if posix_mode \<noteq> 0 then change_mode path (posix_mode AND 0xFFF) else ret ())
     (bindp (liftp (restored_modification_time modified_time_ns)) (change_time path)))"

end
