(* ===== verification/Restore_Plan.thy ===== *)
theory Restore_Plan
  imports Paths Utf8_Text Posix_Metadata "HOL-Library.Char_ord" "HOL-Library.List_Lexorder"
    "HOL-Library.Product_Lexorder"
begin

text \<open>
  What the restore engine decides before it writes anything
  (\<^verbatim>\<open>src/core/restore_engine.cpp\<close>, up to \<^verbatim>\<open>unique_temporary_path\<close>): whether the
  destination is acceptable, which stored paths are safe, which entries are selected, what happens to
  each of them, and whether the chunks of a file fit together. The tree below the destination root is
  a file system whose keys are the component sequences of relative paths, joined by slashes.
\<close>

section \<open>Requests and plans\<close>

datatype ConflictDecision = decide_skip | decide_replace | decide_cancel

record RestoreRequest =
  rq_snapshot_id :: SnapshotId
  rq_relative_paths :: "string list"
  rq_destination_root :: string
  rq_overwrite_policy :: OverwritePolicy
  rq_conflict_resolver :: "(string \<Rightarrow> EntryType \<Rightarrow> exn + ConflictDecision) option"
  rq_verify_final_file_hash :: bool

record RestoreResult =
  rr_restored_files :: u64
  rr_restored_directories :: u64
  rr_restored_symlinks :: u64
  rr_restored_bytes :: ByteCount
  rr_skipped_entries :: "SkippedEntry list"

datatype RestoreAction = act_create | act_merge_directory | act_replace | act_skip

record PlannedEntry =
  pl_entry :: EntryInfo
  pl_action :: RestoreAction
  pl_metadata_allowed :: bool

section \<open>Stored paths\<close>

definition path_key :: "string \<Rightarrow> string" where
  "path_key path = path"

definition is_safe_stored_path :: "string \<Rightarrow> bool" where
  "is_safe_stored_path path =
     (if path = [] \<or> is_absolute path \<or> root_path path \<noteq> [] \<or>
         \<not> path_eq (lexically_normal path) path
      then False
      else if list_ex (\<lambda>w. w = [] \<or> w = ''.'' \<or> w = ''..'') (components path) then False
      else is_valid_utf8 (path_key path))"

definition path_depth :: "string \<Rightarrow> nat" where
  "path_depth path = length (components path)"

fun component_prefix :: "string list \<Rightarrow> string list \<Rightarrow> bool" where
  "component_prefix (p # ps) (q # qs) = (if p \<noteq> q then False else component_prefix ps qs)"
| "component_prefix ps qs = (ps = [])"

definition is_component_prefix :: "string \<Rightarrow> string \<Rightarrow> bool" where
  "is_component_prefix ancestor path = component_prefix (components ancestor) (components path)"

definition platform_path_is_component_prefix :: "string \<Rightarrow> string \<Rightarrow> bool" where
  "platform_path_is_component_prefix ancestor path = component_prefix (components ancestor) (components path)"

section \<open>The destination\<close>

datatype NoFollowPathType = nf_not_found | nf_directory | nf_indirection | nf_other

text \<open>The walk over the existing ancestors of the destination; \<open>inspect\<close> is
  \<^verbatim>\<open>inspect_path_no_follow\<close> on the whole file system.\<close>

fun destination_walk :: "(string \<Rightarrow> exn + NoFollowPathType) \<Rightarrow> string \<Rightarrow> string list \<Rightarrow> exn + unit" where
  "destination_walk inspect current [] = Inr ()"
| "destination_walk inspect current (component # rest) =
     (let current = path_join current component in
      bindE (inspect current) (\<lambda>type.
      if type = nf_not_found then Inr ()
      else if type = nf_indirection
      then throw_lv E_unsafe_restore_path ''restore destination has a link or reparse-point ancestor''
      else if type \<noteq> nf_directory
      then throw_lv E_destination_exists ''restore destination has a non-directory ancestor''
      else destination_walk inspect current rest))"

text \<open>\<open>absolute\<close> and \<open>canonical\<close> are \<^verbatim>\<open>std::filesystem::absolute\<close> and
  \<^verbatim>\<open>weakly_canonical\<close>: an error message or the path.\<close>

definition normalized_destination ::
  "(string \<Rightarrow> string + string) \<Rightarrow> (string \<Rightarrow> string + string) \<Rightarrow> (string \<Rightarrow> exn + NoFollowPathType) \<Rightarrow>
   string \<Rightarrow> string \<Rightarrow> exn + string" where
  "normalized_destination absolute canonical inspect requested repository_root =
     (if requested = [] then throw_lv E_invalid_argument ''restore destination root must not be empty''
      else case absolute requested of
        Inl m \<Rightarrow> throw_lv E_filesystem_error (''failed to make restore destination absolute: '' @ m)
      | Inr full \<Rightarrow>
          let lexical = lexically_normal full in
          bindE (destination_walk inspect (root_path lexical) (relative_components lexical)) (\<lambda>_.
          case canonical lexical of
            Inl m \<Rightarrow> throw_lv E_filesystem_error
                       (''failed to resolve restore destination for containment: '' @ m)
          | Inr resolved_destination \<Rightarrow>
              (case canonical repository_root of
                 Inl m \<Rightarrow> throw_lv E_filesystem_error (''failed to resolve repository root: '' @ m)
               | Inr resolved_repository \<Rightarrow>
                   if platform_path_is_component_prefix resolved_repository resolved_destination \<or>
                      platform_path_is_component_prefix resolved_destination resolved_repository
                   then throw_lv E_unsafe_restore_path
                          ''restore destination and repository must not contain each other''
                   else Inr lexical)))"

section \<open>Entries\<close>

fun count_roots :: "EntryInfo list \<Rightarrow> nat \<Rightarrow> exn + nat" where
  "count_roots [] root_count = Inr root_count"
| "count_roots (entry # entries) root_count =
     (if ei_relative_path entry = [] then
        (if ei_type entry \<noteq> directory
         then throw_lv E_database_error ''snapshot root entry is not a directory''
         else count_roots entries (Suc root_count))
      else if \<not> is_safe_stored_path (ei_relative_path entry)
      then throw_lv E_unsafe_restore_path ''snapshot contains an unsafe stored relative path''
      else count_roots entries root_count)"

definition validate_entries :: "EntryInfo list \<Rightarrow> exn + unit" where
  "validate_entries entries =
     bindE (count_roots entries 0) (\<lambda>root_count.
       if root_count \<noteq> 1
       then throw_lv E_database_error ''snapshot must contain exactly one root entry'' else Inr ())"

fun validate_selected_file_hashes :: "EntryInfo list \<Rightarrow> exn + unit" where
  "validate_selected_file_hashes [] = Inr ()"
| "validate_selected_file_hashes (entry # entries) =
     (if ei_type entry = regular_file \<and>
         (case ei_file_hash_hex entry of None \<Rightarrow> True | Some h \<Rightarrow> \<not> is_lowercase_blake3_hex h)
      then throw_lv E_object_corrupt ''regular-file entry has no valid BLAKE3 file hash''
      else validate_selected_file_hashes entries)"

subsection \<open>Selection\<close>

type_synonym path_index = "(string \<times> EntryInfo) list"

text \<open>\<^verbatim>\<open>std::map::emplace\<close>: the first entry under a key stays.\<close>

definition emplace :: "string \<Rightarrow> EntryInfo \<Rightarrow> path_index \<Rightarrow> path_index" where
  "emplace key entry m = (if map_of m key \<noteq> None then m else insort_key fst (key, entry) m)"

fun index_entries :: "EntryInfo list \<Rightarrow> path_index \<Rightarrow> path_index" where
  "index_entries [] by_path = by_path"
| "index_entries (entry # entries) by_path =
     (if ei_relative_path entry = [] then index_entries entries by_path
      else index_entries entries (emplace (path_key (ei_relative_path entry)) entry by_path))"

fun find_root :: "EntryInfo list \<Rightarrow> EntryInfo option \<Rightarrow> EntryInfo option" where
  "find_root [] root = root"
| "find_root (entry # entries) root =
     (if ei_relative_path entry = [] then find_root entries (Some entry) else find_root entries root)"

definition insert_keys :: "string list \<Rightarrow> string list \<Rightarrow> string list" where
  "insert_keys new keys = fold insort_insert new keys"

fun select_requested :: "path_index \<Rightarrow> string list \<Rightarrow> string list \<Rightarrow> exn + string list" where
  "select_requested by_path [] selected_keys = Inr selected_keys"
| "select_requested by_path (requested # requests) selected_keys =
     (if \<not> is_safe_stored_path requested
      then throw_lv E_invalid_argument ''selected restore path must be a safe nonempty relative path''
      else
        let normalized = lexically_normal requested in
        case map_of by_path (path_key normalized) of
          None \<Rightarrow> throw_lv E_invalid_argument ''selected restore path does not exist in the snapshot''
        | Some found \<Rightarrow>
            let keys = insort_insert (path_key normalized) selected_keys;
                keys = (if ei_type found = directory
                        then insert_keys (map fst (filter (\<lambda>(candidate_key, candidate).
                               is_component_prefix normalized (ei_relative_path candidate)) by_path)) keys
                        else keys)
            in select_requested by_path requests keys)"

text \<open>The walk from a selected entry to its ancestors. A relative path is used up after as many steps as
  it has characters.\<close>

fun add_ancestors :: "path_index \<Rightarrow> nat \<Rightarrow> string \<Rightarrow> string list \<Rightarrow> exn + string list" where
  "add_ancestors by_path 0 parent selected_keys = Inr selected_keys"
| "add_ancestors by_path (Suc steps) parent selected_keys =
     (if parent = [] then Inr selected_keys
      else case map_of by_path (path_key parent) of
        None \<Rightarrow> throw_lv E_database_error ''selected entry is missing a directory ancestor''
      | Some found \<Rightarrow>
          if ei_type found \<noteq> directory
          then throw_lv E_database_error ''selected entry is missing a directory ancestor''
          else add_ancestors by_path steps (parent_path parent)
                 (insort_insert (path_key parent) selected_keys))"

fun select_ancestors :: "path_index \<Rightarrow> string list \<Rightarrow> string list \<Rightarrow> exn + string list" where
  "select_ancestors by_path [] selected_keys = Inr selected_keys"
| "select_ancestors by_path (key # keys) selected_keys =
     (case map_of by_path key of
        None \<Rightarrow> Inl (StdException ''map::at'')
      | Some entry \<Rightarrow>
          bindE (add_ancestors by_path (length (ei_relative_path entry))
                   (parent_path (ei_relative_path entry)) selected_keys)
            (select_ancestors by_path keys))"

text \<open>After \<^verbatim>\<open>validate_entries\<close> there is exactly one root entry.\<close>

definition select_entries :: "EntryInfo list \<Rightarrow> string list \<Rightarrow> exn + EntryInfo list" where
  "select_entries entries requested_paths =
     (let by_path = index_entries entries []; root = find_root entries None in
      if requested_paths = [] then Inr entries
      else
        bindE (select_requested by_path requested_paths []) (\<lambda>descendant_keys.
        bindE (select_ancestors by_path descendant_keys descendant_keys) (\<lambda>selected_keys.
        Inr ((case root of None \<Rightarrow> [] | Some r \<Rightarrow> [r]) @
             List.map_filter (map_of by_path) selected_keys))))"

section \<open>Chunks\<close>

definition checked_add :: "ByteCount \<Rightarrow> ByteCount \<Rightarrow> exn + ByteCount" where
  "checked_add left right =
     (if right > u64_max - left
      then throw_lv E_object_corrupt ''restored byte offset overflow'' else Inr (left + right))"

definition maximum_stored_size :: "ByteCount \<Rightarrow> ByteCount" where
  "maximum_stored_size chunk_size =
     (let overhead = 65536; maximum = u64_max; fractional_overhead = chunk_size div 8 in
      if fractional_overhead > maximum - chunk_size then maximum
      else
        let subtotal = chunk_size + fractional_overhead in
        if overhead > maximum - subtotal then maximum else subtotal + overhead)"

fun chunk_sequence_ok ::
  "ByteCount \<Rightarrow> ByteCount \<Rightarrow> ChunkReferenceInfo list \<Rightarrow> ByteCount \<Rightarrow> int \<Rightarrow> exn + ByteCount" where
  "chunk_sequence_ok chunk_size stored_limit [] expected_offset expected_sequence = Inr expected_offset"
| "chunk_sequence_ok chunk_size stored_limit (chunk # chunks) expected_offset expected_sequence =
     (if cr_sequence_number chunk \<noteq> expected_sequence \<or> cr_raw_offset chunk \<noteq> expected_offset \<or>
         cr_raw_length chunk = 0 \<or> cr_raw_length chunk \<noteq> cr_raw_size chunk \<or>
         cr_raw_length chunk > chunk_size \<or> cr_raw_size chunk > chunk_size \<or>
         cr_stored_size chunk = 0 \<or> cr_stored_size chunk > stored_limit
      then throw_lv E_object_corrupt ''entry has invalid or non-contiguous chunk metadata''
      else
        bindE (checked_add expected_offset (cr_raw_length chunk)) (\<lambda>next_offset.
        if expected_sequence = int64_max then throw_lv E_object_corrupt ''entry has too many chunks''
        else chunk_sequence_ok chunk_size stored_limit chunks next_offset (expected_sequence + 1)))"

definition validate_chunks :: "EntryInfo \<Rightarrow> ChunkReferenceInfo list \<Rightarrow> ByteCount \<Rightarrow> exn + unit" where
  "validate_chunks entry chunks chunk_size =
     bindE (chunk_sequence_ok chunk_size (maximum_stored_size chunk_size) chunks 0 0) (\<lambda>expected_offset.
       if expected_offset \<noteq> ei_logical_size entry \<or> (ei_logical_size entry = 0 \<and> chunks \<noteq> []) \<or>
          (ei_logical_size entry \<noteq> 0 \<and> chunks = [])
       then throw_lv E_object_corrupt ''entry chunks do not match the stored logical size''
       else Inr ())"

section \<open>Looking at the destination tree\<close>

definition dest_key :: "string \<Rightarrow> string" where
  "dest_key relative_path = join_slash (components relative_path)"

definition node_type :: "fs \<Rightarrow> string \<Rightarrow> NoFollowPathType" where
  "node_type f p =
     (case others f p of
        Some (Link _) \<Rightarrow> nf_indirection
      | _ \<Rightarrow> if dirs f p then nf_directory else if path_taken f p then nf_other else nf_not_found)"

definition inspect_path_no_follow :: "string \<Rightarrow> (fs, NoFollowPathType) proc" where
  "inspect_path_no_follow path =
     syscall E_filesystem_error ''failed to inspect path without following links: '' (\<lambda>f.
       Inr (node_type f path, f))"

definition existing_status :: "string \<Rightarrow> (fs, NoFollowPathType option) proc" where
  "existing_status path =
     syscall E_filesystem_error ''failed to inspect restore path: '' (\<lambda>f.
       Inr (if node_type f path = nf_not_found then None else Some (node_type f path), f))"

fun safe_walk :: "string list \<Rightarrow> string list \<Rightarrow> (fs, unit) proc" where
  "safe_walk current [] = ret ()"
| "safe_walk current (component # rest) =
     bindp (inspect_path_no_follow (join_slash (current @ [component]))) (\<lambda>type.
     if type = nf_not_found then ret ()
     else if type = nf_indirection
     then raise_lv E_unsafe_restore_path ''existing link or reparse-point ancestor makes restore unsafe''
     else if type \<noteq> nf_directory
     then raise_lv E_destination_exists ''restore path has a non-directory ancestor''
     else safe_walk (current @ [component]) rest)"

definition require_safe_ancestors :: "string \<Rightarrow> (fs, unit) proc" where
  "require_safe_ancestors relative_path =
     bindp (inspect_path_no_follow []) (\<lambda>type.
     if type \<noteq> nf_directory
     then raise_lv E_unsafe_restore_path ''restore root is no longer a real directory''
     else safe_walk [] (components (parent_path relative_path)))"

definition require_real_directory :: "string \<Rightarrow> (fs, unit) proc" where
  "require_real_directory path =
     bindp (inspect_path_no_follow path) (\<lambda>type.
       guardp (type = nf_directory) E_unsafe_restore_path
         ''restored directory is no longer a real directory'')"

section \<open>The plan\<close>

definition conflict_action :: "RestoreRequest \<Rightarrow> EntryInfo \<Rightarrow> string \<Rightarrow> NoFollowPathType \<Rightarrow> exn + RestoreAction" where
  "conflict_action request entry destination existing =
     (if ei_type entry = directory \<and> existing = nf_directory then Inr act_merge_directory
      else if rq_overwrite_policy request = P_never then Inr act_skip
      else
        bindE (if rq_overwrite_policy request = P_prompt then
                 (case rq_conflict_resolver request of
                    None \<Rightarrow> throw_lv E_invalid_argument ''prompt overwrite policy requires a conflict resolver''
                  | Some resolver \<Rightarrow> resolver destination (ei_type entry))
               else Inr decide_replace) (\<lambda>decision.
        if decision = decide_cancel
        then throw_lv E_cancelled ''restore cancelled during conflict handling''
        else if decision = decide_skip then Inr act_skip
        else if ei_type entry = directory \<or> existing = nf_directory
        then throw_lv E_destination_exists
               ''replacing a directory with a different entry type is unsupported''
        else Inr act_replace))"

text \<open>One entry: the action and whether it starts a skipped subtree.\<close>

definition plan_entry :: "RestoreRequest \<Rightarrow> string \<Rightarrow> EntryInfo \<Rightarrow> (fs, PlannedEntry) proc" where
  "plan_entry request root entry =
     seqp (require_safe_ancestors (ei_relative_path entry))
     (bindp (existing_status (dest_key (ei_relative_path entry))) (\<lambda>status.
      bindp (liftp (case status of
               Some existing \<Rightarrow>
                 conflict_action request entry (path_join root (ei_relative_path entry)) existing
             | None \<Rightarrow> Inr act_create)) (\<lambda>action.
      ret \<lparr>pl_entry = entry, pl_action = action, pl_metadata_allowed = (action \<noteq> act_skip)\<rparr>)))"

fun plan_entries :: "RestoreRequest \<Rightarrow> string \<Rightarrow> EntryInfo list \<Rightarrow> string list \<Rightarrow> (fs, PlannedEntry list) proc" where
  "plan_entries request root [] skipped_directories = ret []"
| "plan_entries request root (entry # entries) skipped_directories =
     (if ei_relative_path entry = [] then
        bindp (plan_entries request root entries skipped_directories) (\<lambda>plan.
          ret (\<lparr>pl_entry = entry, pl_action = act_merge_directory, pl_metadata_allowed = True\<rparr> # plan))
      else if list_ex (\<lambda>skipped. is_component_prefix skipped (ei_relative_path entry)) skipped_directories then
        bindp (plan_entries request root entries skipped_directories) (\<lambda>plan.
          ret (\<lparr>pl_entry = entry, pl_action = act_skip, pl_metadata_allowed = False\<rparr> # plan))
      else
        bindp (plan_entry request root entry) (\<lambda>planned.
        bindp (plan_entries request root entries
                 (if pl_action planned = act_skip \<and> ei_type entry = directory
                  then skipped_directories @ [ei_relative_path entry] else skipped_directories)) (\<lambda>plan.
          ret (planned # plan))))"

definition build_plan :: "RestoreRequest \<Rightarrow> string \<Rightarrow> EntryInfo list \<Rightarrow> (fs, PlannedEntry list) proc" where
  "build_plan request root selected =
     plan_entries request root
       (sort_key (\<lambda>entry. (path_depth (ei_relative_path entry), path_key (ei_relative_path entry))) selected) []"

section \<open>Safe paths\<close>

lemma component_prefix_iff: "component_prefix ps qs \<longleftrightarrow> prefix ps qs"
  by (induction ps qs rule: component_prefix.induct) auto

lemma safe_path_proper:
  "is_safe_stored_path p \<Longrightarrow> \<not> is_absolute p \<and> proper_components (components p)"
proof -
  assume safe: "is_safe_stored_path p"
  then have rel: "p \<noteq> []" "\<not> is_absolute p" by (auto simp: is_safe_stored_path_def split: if_splits)
  then have "components p \<noteq> []"
    by (simp add: components_def relative_components_def relative_part_id Let_def)
  moreover have "proper_name w" if "w \<in> set (components p)" for w
    using safe that rel(2) components_no_slash [of w p]
    by (auto simp: is_safe_stored_path_def proper_name_def list_ex_iff components_def split: if_splits)
  ultimately show ?thesis using rel(2) by (simp add: proper_components_def list_all_iff)
qed

lemma proper_path_safe:
  assumes "\<not> is_absolute p" and "proper_components (components p)" and "is_valid_utf8 p"
  shows "is_safe_stored_path p"
proof -
  have "components p \<noteq> []" using assms(2) by (simp add: proper_components_def)
  then have "p \<noteq> []" by auto
  moreover have "path_eq (lexically_normal p) p"
    using assms proper_is_normal by blast
  moreover have "\<not> list_ex (\<lambda>w. w = [] \<or> w = ''.'' \<or> w = ''..'') (components p)"
    using assms(2) by (auto simp: proper_components_def proper_name_def list_all_iff list_ex_iff)
  ultimately show ?thesis
    using assms by (simp add: is_safe_stored_path_def root_path_def path_key_def)
qed

text \<open>
  [C28] Stored paths are confined: a path passes \<^verbatim>\<open>is_safe_stored_path\<close> exactly when it is a
  non-empty relative path in valid UTF-8 none of whose components is empty, dot or dot-dot; the test
  against the lexical normal form excludes nothing else. Appended to a directory it names a place
  strictly below that directory.
\<close>

theorem is_safe_stored_path_iff:
  "(is_safe_stored_path p \<longleftrightarrow>
      \<not> is_absolute p \<and> proper_components (components p) \<and> is_valid_utf8 p) \<and>
   (is_safe_stored_path p \<and> is_absolute root \<and> last root \<noteq> CHR ''/'' \<longrightarrow>
      components (path_join root p) = components root @ components p)"
proof (intro conjI iffI impI)
  assume safe: "is_safe_stored_path p"
  show "is_valid_utf8 p" using safe by (auto simp: is_safe_stored_path_def path_key_def split: if_splits)
  show "\<not> is_absolute p" "proper_components (components p)" using safe_path_proper [OF safe] by simp_all
next
  assume r: "\<not> is_absolute p \<and> proper_components (components p) \<and> is_valid_utf8 p"
  then show "is_safe_stored_path p" using proper_path_safe by blast
next
  assume r: "is_safe_stored_path p \<and> is_absolute root \<and> last root \<noteq> CHR ''/''"
  then have "p \<noteq> []" by (auto simp: is_safe_stored_path_def)
  then show "components (path_join root p) = components root @ components p"
    using r safe_path_proper components_join by blast
qed

theorem is_safe_stored_path_iff_witness:
  "is_safe_stored_path ''a/b'' \<and> \<not> is_safe_stored_path ''a/../b'' \<and>
   components (path_join ''/r'' ''a/b'') = [''/'', ''r'', ''a'', ''b'']"
proof -
  have "is_safe_stored_path ''a/b''" "\<not> is_safe_stored_path ''a/../b''"
    by code_simp+
  moreover have "components ''/r'' = [''/'', ''r'']" "components ''a/b'' = [''a'', ''b'']"
    by code_simp+
  ultimately show ?thesis
    using is_safe_stored_path_iff [of "''a/b''" "''/r''"] by (simp add: is_absolute_def)
qed

end
