(* ===== verification/Restore_Checks.thy ===== *)
theory Restore_Checks
  imports Restore_Plan
begin

text \<open>
  What the checks of \<^theory_text>\<open>Restore_Plan\<close> guarantee: chunk lists that pass are gapless partitions of the
  file, selections are closed under ancestors, and a plan never replaces anything when the policy
  forbids it.
\<close>

section \<open>Byte counters\<close>

interpretation restore_adder: checked_adder checked_add
proof unfold_locales
  fix a b :: u64
  show "checked_add a b = Inr (a + b)" if "unat a + unat b < 2 ^ 64"
  proof -
    have "\<not> b > u64_max - a" using that u64_guard_iff [of a b] by (simp add: add.commute)
    then show ?thesis by (simp add: checked_add_def)
  qed
  show "\<exists>e. checked_add a b = Inl e" if "2 ^ 64 \<le> unat a + unat b"
  proof -
    have "b > u64_max - a" using that u64_guard_iff [of a b] by (simp add: add.commute)
    then show ?thesis by (simp add: checked_add_def)
  qed
qed

text \<open>
  [C32] The limit on compressed sizes never wraps around: it is the chunk size plus an eighth plus
  64 KiB, or the largest 64-bit value where that sum does not fit.
\<close>

theorem maximum_stored_size_exact:
  "unat (maximum_stored_size n) = min (2 ^ 64 - 1) (unat n + unat n div 8 + 65536)"
proof -
  let ?f = "n div 8"
  have f: "unat ?f = unat n div 8" by (simp add: unat_div)
  have max: "unat u64_max = 2 ^ 64 - 1" by simp
  have k64: "unat (65536 :: u64) = 65536" by simp
  show ?thesis
  proof (cases "2 ^ 64 \<le> unat n + unat n div 8")
    case True
    then have "?f > u64_max - n" using u64_guard_iff [of n ?f] f by (simp add: add.commute)
    then show ?thesis using True max by (simp add: maximum_stored_size_def Let_def)
  next
    case False
    then have no: "\<not> ?f > u64_max - n" using u64_guard_iff [of n ?f] f by (simp add: add.commute)
    have sub: "unat (n + ?f) = unat n + unat n div 8"
      using False f by (simp add: unat_word_ariths)
    have guard: "(65536 :: u64) > u64_max - (n + ?f) \<longleftrightarrow> 2 ^ 64 \<le> unat n + unat n div 8 + 65536"
      unfolding u64_guard_iff [of "n + ?f" 65536] sub k64 by (simp add: add.commute)
    show ?thesis
    proof (cases "2 ^ 64 \<le> unat n + unat n div 8 + 65536")
      case True
      then show ?thesis using no guard max by (simp add: maximum_stored_size_def Let_def)
    next
      case False
      have "unat (n + ?f + 65536) = unat n + unat n div 8 + 65536"
        using False sub k64 by (simp add: unat_word_ariths(1) [of "n + ?f" 65536] del: unat_numeral)
      then show ?thesis using no guard False by (simp add: maximum_stored_size_def Let_def)
    qed
  qed
qed

section \<open>Chunk lists\<close>

text \<open>The declarative reading: numbered from \<open>k\<close>, contiguous from offset \<open>off\<close>, each of a permitted
  size.\<close>

fun gapless :: "ByteCount \<Rightarrow> ChunkReferenceInfo list \<Rightarrow> nat \<Rightarrow> int \<Rightarrow> bool" where
  "gapless chunk_size [] off k = True"
| "gapless chunk_size (c # cs) off k \<longleftrightarrow>
     cr_sequence_number c = k \<and> unat (cr_raw_offset c) = off \<and> cr_raw_length c = cr_raw_size c \<and>
     0 < unat (cr_raw_length c) \<and> cr_raw_length c \<le> chunk_size \<and>
     0 < unat (cr_stored_size c) \<and> cr_stored_size c \<le> maximum_stored_size chunk_size \<and>
     gapless chunk_size cs (off + unat (cr_raw_length c)) (k + 1)"

definition raw_total :: "ChunkReferenceInfo list \<Rightarrow> nat" where
  "raw_total cs = sum_list (map (\<lambda>c. unat (cr_raw_length c)) cs)"

lemma raw_total_simps [simp]: "raw_total [] = 0" "raw_total (c # cs) = unat (cr_raw_length c) + raw_total cs"
  by (simp_all add: raw_total_def)

lemma chunk_head_iff:
  "\<not> (cr_sequence_number c \<noteq> k \<or> cr_raw_offset c \<noteq> off \<or> cr_raw_length c = 0 \<or>
      cr_raw_length c \<noteq> cr_raw_size c \<or> cr_raw_length c > n \<or> cr_raw_size c > n \<or>
      cr_stored_size c = 0 \<or> cr_stored_size c > maximum_stored_size n) \<longleftrightarrow>
   cr_sequence_number c = k \<and> unat (cr_raw_offset c) = unat off \<and> cr_raw_length c = cr_raw_size c \<and>
     0 < unat (cr_raw_length c) \<and> cr_raw_length c \<le> n \<and>
     0 < unat (cr_stored_size c) \<and> cr_stored_size c \<le> maximum_stored_size n"
  by (auto simp: not_less unat_gt_0 simp flip: word_unat_eq_iff)

lemma chunk_sequence_ok_iff:
  "k \<le> int64_max \<Longrightarrow> chunk_sequence_ok n (maximum_stored_size n) cs off k = Inr end_offset \<longleftrightarrow>
     gapless n cs (unat off) k \<and> unat end_offset = unat off + raw_total cs \<and> k + int (length cs) \<le> int64_max"
proof (induction cs arbitrary: off k)
  case Nil
  then show ?case by (auto simp: word_unat_eq_iff)
next
  case (Cons c cs)
  let ?len = "unat (cr_raw_length c)"
  have end_lt: "unat end_offset < 2 ^ 64" using u64_unat_less [of end_offset] by simp
  have split: "chunk_sequence_ok n (maximum_stored_size n) (c # cs) off k = Inr end_offset \<longleftrightarrow>
      (cr_sequence_number c = k \<and> unat (cr_raw_offset c) = unat off \<and> cr_raw_length c = cr_raw_size c \<and>
       0 < ?len \<and> cr_raw_length c \<le> n \<and> 0 < unat (cr_stored_size c) \<and>
       cr_stored_size c \<le> maximum_stored_size n) \<and> k \<noteq> int64_max \<and>
      (\<exists>next. checked_add off (cr_raw_length c) = Inr next \<and>
         chunk_sequence_ok n (maximum_stored_size n) cs next (k + 1) = Inr end_offset)"
    unfolding chunk_sequence_ok.simps chunk_head_iff [symmetric] by (auto simp: bindE_Inr_iff)
  show ?case
  proof (cases "k \<noteq> int64_max \<and> unat off + ?len < 2 ^ 64")
    case True
    then have add: "checked_add off (cr_raw_length c) = Inr (off + cr_raw_length c)"
      using restore_adder.add_fits by simp
    have "unat (off + cr_raw_length c) = unat off + ?len"
      using True by (simp add: unat_word_ariths)
    then show ?thesis
      unfolding split using Cons.IH [of "k + 1" "off + cr_raw_length c"] True Cons.prems add by auto
  next
    case False
    then have "\<not> (\<exists>next. k \<noteq> int64_max \<and> checked_add off (cr_raw_length c) = Inr next)"
      using restore_adder.add_returns_iff by blast
    then show ?thesis
      unfolding split using False Cons.prems end_lt by auto
  qed
qed

text \<open>
  [C29] Accepted chunk lists are exactly the gapless ones: \<^verbatim>\<open>validate_chunks\<close> passes if and only if the
  chunks are numbered from 0, contiguous from offset 0 without wrap-around, each of a permitted raw and
  stored size, and their lengths add up to the logical size of the file.
\<close>

theorem validate_chunks_iff:
  "validate_chunks entry chunks n = Inr () \<longleftrightarrow>
     gapless n chunks 0 0 \<and> raw_total chunks = unat (ei_logical_size entry) \<and>
     int (length chunks) \<le> int64_max"
proof -
  have ok: "chunk_sequence_ok n (maximum_stored_size n) chunks 0 0 = Inr t \<longleftrightarrow>
      gapless n chunks 0 0 \<and> unat t = raw_total chunks \<and> int (length chunks) \<le> int64_max" for t
    using chunk_sequence_ok_iff [of 0 n chunks 0 t] by simp
  have empty: "raw_total chunks = 0 \<longleftrightarrow> chunks = []" if "gapless n chunks 0 0"
    using that by (cases chunks) auto
  have "validate_chunks entry chunks n = Inr () \<longleftrightarrow>
      (\<exists>t. chunk_sequence_ok n (maximum_stored_size n) chunks 0 0 = Inr t \<and> t = ei_logical_size entry \<and>
        (ei_logical_size entry = 0 \<longleftrightarrow> chunks = []))"
    by (auto simp: validate_chunks_def bindE_Inr_iff)
  also have "\<dots> \<longleftrightarrow> gapless n chunks 0 0 \<and> raw_total chunks = unat (ei_logical_size entry) \<and>
     int (length chunks) \<le> int64_max"
    unfolding ok using empty by (metis unat_eq_zero)
  finally show ?thesis .
qed

section \<open>Selection\<close>

lemma map_of_insort: "k \<notin> fst ` set m \<Longrightarrow> map_of (insort_key fst (k, e) m) = (map_of m)(k \<mapsto> e)"
  by (induction m) (auto simp: fun_eq_iff)

lemma map_of_emplace:
  "map_of (emplace k e m) = (if map_of m k = None then (map_of m)(k \<mapsto> e) else map_of m)"
  by (simp add: emplace_def map_of_insort map_of_eq_None_iff)

lemma index_entries_lookup:
  "map_of (index_entries es m) k =
     (case map_of m k of Some e \<Rightarrow> Some e
      | None \<Rightarrow> if k = [] then None else List.find (\<lambda>e. ei_relative_path e = k) es)"
  by (induction es m rule: index_entries.induct)
    (auto simp: map_of_emplace path_key_def split: option.split)

lemma map_of_index_iff:
  assumes "distinct (map ei_relative_path entries)"
  shows "map_of (index_entries entries []) k = Some e \<longleftrightarrow>
    e \<in> set entries \<and> ei_relative_path e = k \<and> k \<noteq> []"
proof -
  have "List.find (\<lambda>e. ei_relative_path e = k) es = Some e \<longleftrightarrow> e \<in> set es \<and> ei_relative_path e = k"
    if "distinct (map ei_relative_path es)" for es
    using that by (induction es) (auto simp: rev_image_eqI)
  then show ?thesis using assms by (auto simp: index_entries_lookup)
qed

lemma map_fst_insort: "map fst (insort_key fst x m) = insort (fst x) (map fst m)"
  by (induction m) auto

lemma index_distinct: "distinct (map fst m) \<Longrightarrow> distinct (map fst (index_entries es m))"
proof (induction es m rule: index_entries.induct)
  case (2 entry entries m)
  have "distinct (map fst (emplace k e m))" if "distinct (map fst m)" for k e
    using that by (auto simp: emplace_def map_of_eq_None_iff map_fst_insort distinct_insort)
  then show ?case using 2 by auto
qed simp

lemma index_member:
  assumes "distinct (map ei_relative_path entries)"
  shows "(k, e) \<in> set (index_entries entries []) \<longleftrightarrow> e \<in> set entries \<and> ei_relative_path e = k \<and> k \<noteq> []"
  using map_of_index_iff [OF assms] index_distinct [of "[]" entries] by (simp add: map_of_eq_Some_iff)

lemma set_insort_insert [simp]: "set (insort_insert k ks) = insert k (set ks)"
  by (auto simp: insort_insert_key_def set_insort_key)

lemma set_insert_keys [simp]: "set (insert_keys new keys) = set new \<union> set keys"
  unfolding insert_keys_def by (induction new arbitrary: keys) auto

text \<open>The entries a request names: the entry itself and, for a directory, everything below it.\<close>

definition named_by :: "EntryInfo list \<Rightarrow> string \<Rightarrow> string \<Rightarrow> bool" where
  "named_by entries r k \<longleftrightarrow>
     (\<exists>f \<in> set entries. ei_relative_path f = lexically_normal r \<and>
        (k = lexically_normal r \<or>
         ei_type f = directory \<and> k \<in> ei_relative_path ` set entries - {[]} \<and>
           is_component_prefix (lexically_normal r) k))"

lemma named_by_found:
  assumes "distinct (map ei_relative_path entries)" and "f \<in> set entries" and "ei_relative_path f = lexically_normal r"
  shows "named_by entries r k \<longleftrightarrow> k = lexically_normal r \<or>
    ei_type f = directory \<and> k \<in> ei_relative_path ` set entries - {[]} \<and> is_component_prefix (lexically_normal r) k"
proof -
  have "g = f" if "g \<in> set entries" "ei_relative_path g = lexically_normal r" for g
    using that assms by (metis distinct_map inj_onD)
  then show ?thesis using assms(2,3) unfolding named_by_def by metis
qed

lemma candidate_keys:
  assumes "distinct (map ei_relative_path entries)"
  shows "fst ` {(k, e) \<in> set (index_entries entries []). is_component_prefix r (ei_relative_path e)} =
    {k \<in> ei_relative_path ` set entries - {[]}. is_component_prefix r k}"
proof (intro set_eqI iffI)
  fix k
  assume "k \<in> fst ` {(k, e) \<in> set (index_entries entries []). is_component_prefix r (ei_relative_path e)}"
  then obtain e where "(k, e) \<in> set (index_entries entries [])" "is_component_prefix r (ei_relative_path e)"
    by force
  then show "k \<in> {k \<in> ei_relative_path ` set entries - {[]}. is_component_prefix r k}"
    using index_member [OF assms, of k e] by auto
next
  fix k
  assume "k \<in> {k \<in> ei_relative_path ` set entries - {[]}. is_component_prefix r k}"
  then obtain e where "e \<in> set entries" "ei_relative_path e = k" "k \<noteq> []" "is_component_prefix r k"
    by auto
  then have "(k, e) \<in> {(k, e) \<in> set (index_entries entries []). is_component_prefix r (ei_relative_path e)}"
    using index_member [OF assms, of k e] by simp
  then show "k \<in> fst ` {(k, e) \<in> set (index_entries entries []). is_component_prefix r (ei_relative_path e)}"
    by (rule image_eqI [rotated]) simp
qed

lemma select_requested_Inr:
  assumes distinct: "distinct (map ei_relative_path entries)"
    and "select_requested (index_entries entries []) reqs init = Inr K"
  shows "set K = set init \<union> {k. \<exists>r \<in> set reqs. named_by entries r k} \<and>
    (\<forall>r \<in> set reqs. is_safe_stored_path r \<and> (\<exists>f \<in> set entries. ei_relative_path f = lexically_normal r))"
  using assms(2)
proof (induction reqs arbitrary: init)
  case (Cons r reqs)
  let ?bp = "index_entries entries []" and ?r = "lexically_normal r"
  from Cons.prems obtain found where found: "is_safe_stored_path r" "map_of ?bp ?r = Some found"
    by (auto simp: Let_def path_key_def split: if_splits option.splits)
  define K1 where "K1 = (if ei_type found = directory
      then insert_keys (map fst (filter (\<lambda>(candidate_key, candidate).
        is_component_prefix ?r (ei_relative_path candidate)) ?bp)) (insort_insert ?r init)
      else insort_insert ?r init)"
  have f: "found \<in> set entries" "ei_relative_path found = ?r"
    using found(2) map_of_index_iff [OF distinct] by auto
  have rest: "select_requested ?bp reqs K1 = Inr K"
    using Cons.prems found by (simp add: Let_def path_key_def K1_def split: if_splits)
  have "set K1 = set init \<union> {k. named_by entries r k}"
    using candidate_keys [OF distinct, of ?r]
    unfolding named_by_found [OF distinct f] K1_def by (auto simp: image_iff)
  then show ?case
    using Cons.IH [OF rest] found(1) f by auto
qed simp

section \<open>Ancestors\<close>

definition ancestors :: "string \<Rightarrow> string set" where
  "ancestors p = {q. q \<noteq> [] \<and> (\<exists>n. q = (parent_path ^^ n) p)}"

lemma parent_path_Nil [simp]: "parent_path [] = []"
  by (simp add: parent_path_def is_absolute_def)

lemma ancestors_Nil [simp]: "ancestors [] = {}"
proof -
  have "(parent_path ^^ n) [] = []" for n by (induction n) auto
  then show ?thesis by (simp add: ancestors_def)
qed

lemma ancestors_step: "p \<noteq> [] \<Longrightarrow> ancestors p = insert p (ancestors (parent_path p))"
proof (intro set_eqI iffI)
  fix q
  assume p: "p \<noteq> []"
  show "q \<in> insert p (ancestors (parent_path p))" if q: "q \<in> ancestors p"
  proof -
    obtain n where n: "q = (parent_path ^^ n) p" "q \<noteq> []" using q by (auto simp: ancestors_def)
    then show ?thesis by (cases n) (auto simp: ancestors_def funpow_swap1)
  qed
  show "q \<in> ancestors p" if q: "q \<in> insert p (ancestors (parent_path p))"
  proof (cases "q = p")
    case True
    then show ?thesis using p by (auto simp: ancestors_def intro: exI [of _ 0])
  next
    case False
    then obtain n where "q = (parent_path ^^ n) (parent_path p)" "q \<noteq> []" using q by (auto simp: ancestors_def)
    then have "q = (parent_path ^^ Suc n) p" by (simp add: funpow_swap1)
    then show ?thesis using \<open>q \<noteq> []\<close> unfolding ancestors_def by blast
  qed
qed

lemma parent_shorter: "\<not> is_absolute p \<Longrightarrow> p \<noteq> [] \<Longrightarrow> length (parent_path p) < length p"
  by (cases rule: path_cases [of p]) auto

lemma add_ancestors_Inr:
  assumes "\<not> is_absolute p" and "length p \<le> steps" and "add_ancestors bp steps p init = Inr K"
  shows "set K = set init \<union> ancestors p \<and>
    (\<forall>q \<in> ancestors p. \<exists>e. map_of bp q = Some e \<and> ei_type e = directory)"
  using assms
proof (induction bp steps p init rule: add_ancestors.induct)
  case (2 bp steps p init)
  show ?case
  proof (cases "p = []")
    case False
    with 2(4) obtain e where e: "map_of bp p = Some e" "ei_type e = directory"
        "add_ancestors bp steps (parent_path p) (insort_insert p init) = Inr K"
      by (auto simp: path_key_def split: option.splits if_splits)
    have "length (parent_path p) \<le> steps" using parent_shorter [OF 2(2) False] 2(3) by simp
    then have "set K = set (insort_insert p init) \<union> ancestors (parent_path p) \<and>
        (\<forall>q \<in> ancestors (parent_path p). \<exists>e. map_of bp q = Some e \<and> ei_type e = directory)"
      using 2(1) [OF False _ _ parent_relative [OF 2(2)]] e by (simp add: path_key_def)
    then show ?thesis
      unfolding ancestors_step [OF False] using e(1,2) by auto
  qed (use 2 in auto)
qed simp

lemma select_ancestors_Inr:
  assumes "\<forall>k \<in> set D. \<forall>e. map_of bp k = Some e \<longrightarrow> ei_relative_path e = k \<and> k \<noteq> [] \<and> \<not> is_absolute k"
    and "select_ancestors bp D init = Inr K"
  shows "set K = set init \<union> (\<Union>k \<in> set D. ancestors (parent_path k)) \<and>
    (\<forall>k \<in> set D. \<forall>q \<in> ancestors (parent_path k). \<exists>e. map_of bp q = Some e \<and> ei_type e = directory)"
  using assms
proof (induction D arbitrary: init)
  case (Cons k D)
  from Cons.prems(2) obtain e K1 where e: "map_of bp k = Some e"
      "add_ancestors bp (length (ei_relative_path e)) (parent_path (ei_relative_path e)) init = Inr K1"
      "select_ancestors bp D K1 = Inr K"
    by (auto simp: bindE_Inr_iff split: option.splits)
  have k: "ei_relative_path e = k" "k \<noteq> []" "\<not> is_absolute k"
    using Cons.prems(1) e(1) by auto
  have "length (parent_path k) \<le> length k" using parent_shorter [OF k(3,2)] by simp
  then have "set K1 = set init \<union> ancestors (parent_path k) \<and>
      (\<forall>q \<in> ancestors (parent_path k). \<exists>e. map_of bp q = Some e \<and> ei_type e = directory)"
    using add_ancestors_Inr [OF parent_relative [OF k(3)] _ e(2) [unfolded k(1)]] by blast
  moreover have "set K = set K1 \<union> (\<Union>k \<in> set D. ancestors (parent_path k)) \<and>
      (\<forall>k \<in> set D. \<forall>q \<in> ancestors (parent_path k). \<exists>e. map_of bp q = Some e \<and> ei_type e = directory)"
    using Cons.IH [OF _ e(3)] Cons.prems(1) by simp
  ultimately show ?case by auto
qed simp

lemma count_roots_Inr:
  "count_roots es n = Inr m \<longleftrightarrow>
     (\<forall>e \<in> set es. if ei_relative_path e = [] then ei_type e = directory
                   else is_safe_stored_path (ei_relative_path e)) \<and>
     m = n + length (filter (\<lambda>e. ei_relative_path e = []) es)"
  by (induction es n rule: count_roots.induct) auto

lemma validate_entries_Inr:
  assumes "validate_entries es = Inr ()"
  shows "e \<in> set es \<Longrightarrow> ei_relative_path e \<noteq> [] \<Longrightarrow> is_safe_stored_path (ei_relative_path e)"
    and "e \<in> set es \<Longrightarrow> ei_relative_path e = [] \<Longrightarrow> ei_type e = directory"
    and "\<exists>e \<in> set es. ei_relative_path e = []"
proof -
  have c: "count_roots es 0 = Inr 1"
    using assms by (auto simp: validate_entries_def bindE_Inr_iff split: if_splits)
  then have all: "\<forall>e \<in> set es. if ei_relative_path e = [] then ei_type e = directory
      else is_safe_stored_path (ei_relative_path e)" "length (filter (\<lambda>e. ei_relative_path e = []) es) = 1"
    unfolding count_roots_Inr by auto
  show "e \<in> set es \<Longrightarrow> ei_relative_path e \<noteq> [] \<Longrightarrow> is_safe_stored_path (ei_relative_path e)"
    "e \<in> set es \<Longrightarrow> ei_relative_path e = [] \<Longrightarrow> ei_type e = directory"
    using all(1) by fastforce+
  have "filter (\<lambda>e. ei_relative_path e = []) es \<noteq> []" using all(2) by auto
  then show "\<exists>e \<in> set es. ei_relative_path e = []" by (auto simp: filter_empty_conv)
qed

lemma find_root_Some:
  "distinct (map ei_relative_path es) \<Longrightarrow> r \<in> set es \<Longrightarrow> ei_relative_path r = [] \<Longrightarrow> find_root es x = Some r"
proof (induction es arbitrary: x)
  case (Cons e es)
  have none: "find_root xs y = y" if "\<forall>e \<in> set xs. ei_relative_path e \<noteq> []" for xs y
    using that by (induction xs) auto
  show ?case
  proof (cases "ei_relative_path e = []")
    case True
    then have "e = r" "\<forall>e \<in> set es. ei_relative_path e \<noteq> []"
      using Cons.prems by (auto simp: image_iff)
    then show ?thesis using True none by simp
  qed (use Cons in auto)
qed simp

lemma ancestors_parent:
  assumes "q \<in> ancestors p"
  shows "parent_path q = [] \<or> parent_path q \<in> ancestors p"
proof -
  obtain n where "q = (parent_path ^^ n) p" using assms by (auto simp: ancestors_def)
  then have "parent_path q = (parent_path ^^ Suc n) p" by simp
  then show ?thesis unfolding ancestors_def by blast
qed

lemma ancestors_relative:
  assumes "\<not> is_absolute p" and "q \<in> ancestors p"
  shows "\<not> is_absolute q \<and> length q \<le> length p"
proof -
  have "\<not> is_absolute ((parent_path ^^ n) p) \<and> length ((parent_path ^^ n) p) \<le> length p" for n
  proof (induction n)
    case (Suc n)
    let ?q = "(parent_path ^^ n) p"
    have "length (parent_path ?q) \<le> length ?q"
      using parent_shorter [of ?q] Suc by (cases "?q = []") auto
    then show ?case using Suc parent_relative by auto
  qed (use assms in simp)
  then show ?thesis using assms(2) by (auto simp: ancestors_def)
qed

lemma set_map_filter_lookup: "set (List.map_filter m ks) = {e. \<exists>k \<in> set ks. m k = Some e}"
  by (auto simp: map_filter_def image_iff) force

text \<open>What a selection consists of: the requested paths \<open>D\<close>, and \<open>K\<close>, their ancestors and themselves.\<close>

lemma select_entries_keys:
  assumes valid: "validate_entries entries = Inr ()" and distinct: "distinct (map ei_relative_path entries)"
    and "requested \<noteq> []" and "select_entries entries requested = Inr selected"
  obtains D K where "D = {k. \<exists>r \<in> set requested. named_by entries r k}"
    and "\<And>k. k \<in> D \<Longrightarrow> k \<noteq> [] \<and> \<not> is_absolute k"
    and "\<And>q. q \<in> K \<longleftrightarrow> (\<exists>k \<in> D. q \<in> ancestors k)"
    and "\<And>k q. k \<in> D \<Longrightarrow> q \<in> ancestors (parent_path k) \<Longrightarrow>
      \<exists>d \<in> set entries. ei_relative_path d = q \<and> ei_type d = directory"
    and "\<And>e. e \<in> set selected \<longleftrightarrow> e \<in> set entries \<and> (ei_relative_path e = [] \<or> ei_relative_path e \<in> K)"
proof -
  let ?bp = "index_entries entries []"
  obtain root where root: "root \<in> set entries" "ei_relative_path root = []"
    using validate_entries_Inr(3) [OF valid] by blast
  obtain D K where D: "select_requested ?bp requested [] = Inr D" "select_ancestors ?bp D D = Inr K"
      "selected = root # List.map_filter (map_of ?bp) K"
    using assms(3,4) find_root_Some [OF distinct root]
    by (auto simp: select_entries_def Let_def bindE_Inr_iff)
  note asked = select_requested_Inr [OF distinct D(1)]
  have named: "set D = {k. \<exists>r \<in> set requested. named_by entries r k}" using asked by simp
  have safe: "ei_relative_path e \<noteq> [] \<Longrightarrow> \<not> is_absolute (ei_relative_path e)" if "e \<in> set entries" for e
    using that validate_entries_Inr(1) [OF valid] safe_path_proper by blast
  have keys: "\<forall>k \<in> set D. \<forall>e. map_of ?bp k = Some e \<longrightarrow> ei_relative_path e = k \<and> k \<noteq> [] \<and> \<not> is_absolute k"
    using map_of_index_iff [OF distinct] safe by metis
  note K = select_ancestors_Inr [OF keys D(2)]
  have proper: "k \<noteq> [] \<and> \<not> is_absolute k" if k: "k \<in> set D" for k
  proof -
    obtain r where r: "r \<in> set requested" "named_by entries r k" using k unfolding named by blast
    then have "is_safe_stored_path r" using asked by blast
    then have "lexically_normal r \<noteq> []"
      using safe_path_proper lexically_normal_proper proper_join(2) by metis
    then have "k \<noteq> []" using r(2) by (auto simp: named_by_def)
    moreover have "k \<in> ei_relative_path ` set entries" using r(2) by (auto simp: named_by_def intro: rev_image_eqI)
    ultimately show ?thesis using safe by blast
  qed
  show thesis
  proof (rule that [of "set D" "set K"])
    show "q \<in> set K \<longleftrightarrow> (\<exists>k \<in> set D. q \<in> ancestors k)" for q using K ancestors_step proper by auto
    show "\<exists>d \<in> set entries. ei_relative_path d = q \<and> ei_type d = directory"
      if "k \<in> set D" "q \<in> ancestors (parent_path k)" for k q
      using K that map_of_index_iff [OF distinct, of q] by blast
    fix e
    have member: "e \<in> set selected \<longleftrightarrow> e = root \<or> (e \<in> set entries \<and> ei_relative_path e \<noteq> [] \<and> ei_relative_path e \<in> set K)"
      using map_of_index_iff [OF distinct] by (auto simp: D(3) set_map_filter_lookup)
    have "e = root" if "e \<in> set entries" "ei_relative_path e = []"
      using that root distinct by (metis distinct_map inj_onD)
    then show "e \<in> set selected \<longleftrightarrow> e \<in> set entries \<and> (ei_relative_path e = [] \<or> ei_relative_path e \<in> set K)"
      unfolding member using root by blast
  qed (fact named proper)+
qed

lemma ancestors_above:
  assumes "q \<in> ancestors k" and "k \<noteq> []" and "\<not> is_absolute k" and "parent_path q \<noteq> []"
  shows "parent_path q \<in> ancestors k \<and> parent_path q \<in> ancestors (parent_path k)"
proof -
  have above: "parent_path q \<in> ancestors k" using ancestors_parent assms(1,4) by blast
  have "q \<noteq> []" using assms(4) by auto
  moreover have "\<not> is_absolute q" "length q \<le> length k" using ancestors_relative assms(1,3) by blast+
  ultimately have "length (parent_path q) < length k" using parent_shorter by fastforce
  then show ?thesis using above ancestors_step [OF assms(2)] by auto
qed

text \<open>
  [C27] A selection is complete, minimal and closed: for requested paths, exactly the root, the
  entries the requests name with everything below named directories, and the ancestors of those are
  selected, and the parent of every selected entry is a selected directory.
\<close>

theorem select_entries_exact:
  assumes valid: "validate_entries entries = Inr ()" and distinct: "distinct (map ei_relative_path entries)"
    and "requested \<noteq> []" and "select_entries entries requested = Inr selected"
  shows "(\<forall>e. e \<in> set selected \<longleftrightarrow> e \<in> set entries \<and> (ei_relative_path e = [] \<or>
        (\<exists>r \<in> set requested. \<exists>k. named_by entries r k \<and> ei_relative_path e \<in> ancestors k))) \<and>
    (\<forall>e \<in> set selected. parent_path (ei_relative_path e) = [] \<or>
        (\<exists>d \<in> set selected. ei_relative_path d = parent_path (ei_relative_path e) \<and> ei_type d = directory))"
proof -
  obtain D K where D: "D = {k. \<exists>r \<in> set requested. named_by entries r k}"
    and proper: "\<And>k. k \<in> D \<Longrightarrow> k \<noteq> [] \<and> \<not> is_absolute k"
    and K: "\<And>q. q \<in> K \<longleftrightarrow> (\<exists>k \<in> D. q \<in> ancestors k)"
    and above: "\<And>k q. k \<in> D \<Longrightarrow> q \<in> ancestors (parent_path k) \<Longrightarrow>
      \<exists>d \<in> set entries. ei_relative_path d = q \<and> ei_type d = directory"
    and member: "\<And>e. e \<in> set selected \<longleftrightarrow> e \<in> set entries \<and> (ei_relative_path e = [] \<or> ei_relative_path e \<in> K)"
    by (rule select_entries_keys [OF assms]) blast
  have "\<exists>d \<in> set selected. ei_relative_path d = parent_path (ei_relative_path e) \<and> ei_type d = directory"
    if e: "e \<in> set selected" "parent_path (ei_relative_path e) \<noteq> []" for e
  proof -
    have "ei_relative_path e \<noteq> []" using e(2) by auto
    then obtain k where k: "k \<in> D" "ei_relative_path e \<in> ancestors k" using e(1) member K by blast
    note up = ancestors_above [OF k(2) _ _ e(2)]
    have "parent_path (ei_relative_path e) \<in> K" using up proper [OF k(1)] k(1) K by blast
    then show ?thesis using above [OF k(1)] up proper [OF k(1)] member by metis
  qed
  then show ?thesis using member unfolding K D by blast
qed

text \<open>A snapshot with a nested file, of which one directory is asked for.\<close>

definition demo_entry :: "int \<Rightarrow> string \<Rightarrow> EntryType \<Rightarrow> EntryInfo" where
  "demo_entry i p ty = \<lparr>ei_id = i, ei_snapshot_id = 1, ei_relative_path = p, ei_type = ty, ei_logical_size = 0,
     ei_modified_time_ns = 0, ei_posix_mode = 0, ei_windows_attributes = None, ei_file_hash_hex = None,
     ei_symlink_target = None\<rparr>"

definition demo_entries :: "EntryInfo list" where
  "demo_entries = [demo_entry 1 [] directory, demo_entry 2 ''a'' directory, demo_entry 3 ''a/b'' directory,
     demo_entry 4 ''a/b/f'' regular_file, demo_entry 5 ''c'' regular_file]"

theorem select_entries_exact_witness:
  "\<exists>selected. select_entries demo_entries [''a/b''] = Inr selected \<and> demo_entry 2 ''a'' directory \<in> set selected"
proof -
  have v: "validate_entries demo_entries = Inr ()" by code_simp
  have d: "distinct (map ei_relative_path demo_entries)" by code_simp
  have s: "select_entries demo_entries [''a/b''] = Inr
      [demo_entry 1 [] directory, demo_entry 2 ''a'' directory, demo_entry 3 ''a/b'' directory,
       demo_entry 4 ''a/b/f'' regular_file]" by code_simp
  have p: "parent_path ''a/b'' = ''a''" by code_simp
  have "demo_entry 3 ''a/b'' directory \<in> set [demo_entry 1 [] directory, demo_entry 2 ''a'' directory,
      demo_entry 3 ''a/b'' directory, demo_entry 4 ''a/b/f'' regular_file]" by simp
  then have "\<exists>d \<in> set [demo_entry 1 [] directory, demo_entry 2 ''a'' directory,
      demo_entry 3 ''a/b'' directory, demo_entry 4 ''a/b/f'' regular_file].
      ei_relative_path d = ''a'' \<and> ei_type d = directory"
    using select_entries_exact [OF v d _ s] p by (fastforce simp: demo_entry_def)
  then show ?thesis using s by auto
qed

end
