(* ===== verification/Restore_Engine.thy ===== *)
theory Restore_Engine
  imports Restore_Checks Object_Store Recovery
begin

text \<open>
  \<^verbatim>\<open>RestoreEngine::restore\<close> of \<^verbatim>\<open>src/core/restore_engine.cpp\<close>: recovery under the
  writer lock, the checks of \<^theory_text>\<open>Restore_Plan\<close>, and then four passes over the plan: directories,
  regular files (each written to a temporary file, verified, flushed and renamed), symbolic links, and
  the metadata of directories. The state is the open repository, its object files, the destination
  tree, and what the caller can observe.
\<close>

section \<open>State\<close>

datatype OperationPhase =
    ph_preparing | ph_scanning | ph_reading | ph_hashing | ph_compressing | ph_writing_objects
  | ph_writing_metadata | ph_restoring | ph_verifying | ph_garbage_collecting | ph_finalizing | ph_complete

record ProgressEvent =
  pe_phase :: OperationPhase
  pe_current_path :: string
  pe_discovered_entries :: u64
  pe_processed_entries :: u64
  pe_processed_bytes :: u64
  pe_total_entries :: "u64 option"
  pe_total_bytes :: "u64 option"
  pe_new_chunks :: u64
  pe_reused_chunks :: u64
  pe_message :: string

text \<open>The stop token is polled; the progress callback is recorded and may throw.\<close>

record restore_state =
  rt_repository :: repository
  rt_store :: fs
  rt_dest :: fs
  rt_stop :: "nat \<Rightarrow> bool"
  rt_polls :: nat
  rt_sequence :: u64
  rt_events :: "ProgressEvent list"

record restore_env =
  re_config :: os_config
  re_repository_root :: string
  re_absolute :: "string \<Rightarrow> string + string"
  re_canonical :: "string \<Rightarrow> string + string"
  re_inspect :: "string \<Rightarrow> exn + NoFollowPathType"
  re_lock :: "exn + unit"
  re_now :: "SnapshotId \<Rightarrow> int"
  re_random :: "string \<Rightarrow> bytes list"
  re_progress :: "(ProgressEvent \<Rightarrow> exn + unit) option"

definition in_dest :: "(fs, 'a) proc \<Rightarrow> (restore_state, 'a) proc" where
  "in_dest m s = (case m (rt_dest s) of (r, f) \<Rightarrow> (r, s\<lparr>rt_dest := f\<rparr>))"

definition in_repository :: "(repository, 'a) proc \<Rightarrow> (restore_state, 'a) proc" where
  "in_repository m s = (case m (rt_repository s) of (r, x) \<Rightarrow> (r, s\<lparr>rt_repository := x\<rparr>))"

definition check_cancelled :: "(restore_state, unit) proc" where
  "check_cancelled s =
     (if rt_stop s (rt_polls s) then (throw_lv E_cancelled ''restore cancelled'', s\<lparr>rt_polls := Suc (rt_polls s)\<rparr>)
      else (Inr (), s\<lparr>rt_polls := Suc (rt_polls s)\<rparr>))"

definition report_progress ::
  "restore_env \<Rightarrow> OperationPhase \<Rightarrow> string \<Rightarrow> RestoreResult \<Rightarrow> u64 \<Rightarrow> (restore_state, unit) proc" where
  "report_progress env phase path result total_entries =
     (case re_progress env of
        None \<Rightarrow> ret ()
      | Some callback \<Rightarrow>
          let event = \<lparr>pe_phase = phase, pe_current_path = path, pe_discovered_entries = 0,
                pe_processed_entries = rr_restored_files result + rr_restored_directories result +
                  rr_restored_symlinks result + word_of_nat (length (rr_skipped_entries result)),
                pe_processed_bytes = rr_restored_bytes result, pe_total_entries = Some total_entries,
                pe_total_bytes = None, pe_new_chunks = 0, pe_reused_chunks = 0, pe_message = []\<rparr> in
          seqp (modifyp (\<lambda>s. s\<lparr>rt_events := rt_events s @ [event]\<rparr>)) (liftp (callback event)))"

definition skip_entry :: "string \<Rightarrow> string \<Rightarrow> RestoreResult \<Rightarrow> RestoreResult" where
  "skip_entry path reason result =
     result\<lparr>rr_skipped_entries := rr_skipped_entries result @ [\<lparr>sk_relative_path = path, sk_reason = reason\<rparr>]\<rparr>"

section \<open>Directories\<close>

definition create_restored_directory :: "string \<Rightarrow> (fs, unit) proc" where
  "create_restored_directory path =
     syscall E_filesystem_error ''failed to create restored directory: '' (\<lambda>f.
       if path_taken f path then throw_lv E_filesystem_error ''failed to create restored directory: ''
       else Inr ((), f\<lparr>dirs := (dirs f)(path := True)\<rparr>))"

definition restore_directory :: "PlannedEntry \<Rightarrow> RestoreResult \<Rightarrow> (restore_state, RestoreResult) proc" where
  "restore_directory planned result =
     (let entry = pl_entry planned; path = ei_relative_path entry in
      seqp check_cancelled
      (if ei_type entry \<noteq> directory then ret result
       else if pl_action planned = act_skip
       then ret (skip_entry path ''destination directory conflicts'' result)
       else
         seqp (if pl_action planned = act_create
               then seqp (in_dest (require_safe_ancestors path))
                      (in_dest (create_restored_directory (dest_key path)))
               else ret ())
           (ret (result\<lparr>rr_restored_directories := rr_restored_directories result + 1\<rparr>))))"

section \<open>Regular files\<close>

definition read_object :: "restore_env \<Rightarrow> ChunkReferenceInfo \<Rightarrow> (restore_state, bytes) proc" where
  "read_object env chunk s =
     (case read_verified (re_config env) (cr_hash_hex chunk) (cr_object_path chunk) (cr_raw_size chunk)
             (cr_stored_size chunk)
             \<lparr>os_fs = rt_store s, os_conn = r_conn (rt_repository s), os_known = []\<rparr> of
        (r, objects) \<Rightarrow> (r, s\<lparr>rt_store := os_fs objects\<rparr>))"

text \<open>The bytes written so far stand for the state of the full-file hasher.\<close>

fun restore_chunks ::
  "restore_env \<Rightarrow> string \<Rightarrow> ChunkReferenceInfo list \<Rightarrow> bytes \<Rightarrow> ByteCount \<Rightarrow>
   (restore_state, bytes \<times> ByteCount) proc" where
  "restore_chunks env output [] hashed written = ret (hashed, written)"
| "restore_chunks env output (chunk # refs) hashed written =
     seqp check_cancelled
     (bindp (read_object env chunk) (\<lambda>raw.
      seqp (guardp (length raw = unat (cr_raw_length chunk)) E_object_corrupt
              ''verified object size does not match entry chunk'')
      (seqp (in_dest (write_loop output raw))
      (seqp (in_repository (in_conn (hit during_restore_write)))
      (bindp (liftp (checked_add written (cr_raw_length chunk))) (\<lambda>written'.
       restore_chunks env output refs (hashed @ raw) written'))))))"

definition temporary_names :: "restore_env \<Rightarrow> string \<Rightarrow> string list" where
  "temporary_names env path =
     map (\<lambda>random. join_slash (components (parent_path path) @ [random_temporary_name random]))
       (re_random env path)"

definition with_output ::
  "restore_env \<Rightarrow> string \<Rightarrow> (string \<Rightarrow> (restore_state, 'a) proc) \<Rightarrow> (restore_state, 'a) proc" where
  "with_output env path body =
     bindp (in_dest (create_temporary (temporary_names env path) 100))
       (\<lambda>output s. case body output s of
          (r, s') \<Rightarrow> (r, s'\<lparr>rt_dest := drop_temporary output (rt_dest s')\<rparr>))"

text \<open>\<^verbatim>\<open>catch (const LocalVaultError&)\<close> around metadata: a warning text, or none.\<close>

definition metadata_warning :: "string \<Rightarrow> (fs, unit) proc \<Rightarrow> (restore_state, string option) proc" where
  "metadata_warning prefix_text m =
     handle (seqp (in_dest m) (ret None))
       (\<lambda>e. case e of Lv err \<Rightarrow> ret (Some (prefix_text @ what err)) | _ \<Rightarrow> raise e)"

definition publish_file ::
  "restore_env \<Rightarrow> u64 \<Rightarrow> PlannedEntry \<Rightarrow> string \<Rightarrow> string option \<Rightarrow> RestoreResult \<Rightarrow>
   (restore_state, RestoreResult) proc" where
  "publish_file env total_entries planned output warning result =
     (let entry = pl_entry planned; path = ei_relative_path entry in
      bindp (in_dest (publish output (dest_key path) (pl_action planned = act_replace))) (\<lambda>published.
      if published = destination_exists
      then ret (skip_entry path ''destination appeared during restore'' result)
      else
        seqp (in_dest (flush_containing_directory (dest_key path)))
        (bindp (liftp (checked_add (rr_restored_bytes result) (ei_logical_size entry))) (\<lambda>restored_bytes.
         let result = result\<lparr>rr_restored_files := rr_restored_files result + 1,
                             rr_restored_bytes := restored_bytes\<rparr>;
             result = (case warning of None \<Rightarrow> result | Some text \<Rightarrow> skip_entry path text result)
         in seqp (report_progress env ph_restoring path result total_entries) (ret result)))))"

definition write_file ::
  "restore_env \<Rightarrow> u64 \<Rightarrow> ChunkReferenceInfo list \<Rightarrow> PlannedEntry \<Rightarrow> RestoreResult \<Rightarrow> string \<Rightarrow>
   (restore_state, RestoreResult) proc" where
  "write_file env total_entries refs planned result output =
     (let entry = pl_entry planned; path = ei_relative_path entry in
      bindp (restore_chunks env output refs [] 0) (\<lambda>(hashed, written).
      seqp (guardp (written = ei_logical_size entry) E_object_corrupt
              ''restored file size does not match snapshot metadata'')
      (seqp (guardp (ei_file_hash_hex entry = Some (hash_raw (oc_blake3 (re_config env)) hashed))
               E_object_corrupt ''restored file failed full-file BLAKE3 verification'')
      (seqp (in_dest (temporary_sync output))
      (bindp (metadata_warning ''content restored; metadata not fully restored: ''
                (apply_metadata output (ei_modified_time_ns entry) (ei_posix_mode entry))) (\<lambda>warning.
       seqp (in_dest (require_safe_ancestors path))
         (publish_file env total_entries planned output warning result)))))))"

definition restore_file ::
  "restore_env \<Rightarrow> u64 \<Rightarrow> (int \<times> ChunkReferenceInfo list) list \<Rightarrow> PlannedEntry \<Rightarrow> RestoreResult \<Rightarrow>
   (restore_state, RestoreResult) proc" where
  "restore_file env total_entries chunks_by_entry planned result =
     (let entry = pl_entry planned; path = ei_relative_path entry in
      if ei_type entry \<noteq> regular_file then ret result
      else
        seqp check_cancelled
        (if pl_action planned = act_skip
         then ret (skip_entry path ''destination file conflicts'' result)
         else
           seqp (in_dest (require_safe_ancestors path))
             (with_output env path (\<lambda>output.
                case map_of chunks_by_entry (ei_id entry) of
                  None \<Rightarrow> raise (StdException ''map::at'')
                | Some refs \<Rightarrow> write_file env total_entries refs planned result output))))"

section \<open>Symbolic links\<close>

function to_decimal :: "nat \<Rightarrow> string" where
  "to_decimal n = (if n < 10 then [char_of (48 + n)] else to_decimal (n div 10) @ [char_of (48 + n mod 10)])"
  by pat_completeness auto
termination by (relation "measure id") auto

declare to_decimal.simps [simp del]

fun unique_temporary_path :: "nat \<Rightarrow> string \<Rightarrow> (restore_state, string) proc" where
  "unique_temporary_path 0 path =
     raise_lv E_filesystem_error ''failed to choose a unique restore temporary path''"
| "unique_temporary_path (Suc attempts) path =
     bindp (gets rt_sequence) (\<lambda>sequence.
     seqp (modifyp (\<lambda>s. s\<lparr>rt_sequence := sequence + 1\<rparr>))
     (let name = ''.localvault-restore-'' @ to_decimal (unat sequence) @ ''.tmp'';
          candidate = join_slash (components (parent_path path) @ [name]) in
      bindp (in_dest (existing_status candidate)) (\<lambda>status.
      if status = None then ret candidate else unique_temporary_path attempts path)))"

definition create_restored_symlink :: "string \<Rightarrow> string \<Rightarrow> (fs, bool) proc" where
  "create_restored_symlink target link_path =
     syscall E_filesystem_error ''failed to create restored symbolic link: '' (\<lambda>f.
       if path_taken f link_path
       then throw_lv E_filesystem_error ''failed to create restored symbolic link: File exists''
       else Inr (True, f\<lparr>others := (others f)(link_path \<mapsto> Link target)\<rparr>))"

definition with_temporary_path ::
  "string \<Rightarrow> (string \<Rightarrow> (restore_state, 'a) proc) \<Rightarrow> (restore_state, 'a) proc" where
  "with_temporary_path path body =
     bindp (unique_temporary_path 100 path)
       (\<lambda>temporary s. case body temporary s of
          (r, s') \<Rightarrow> (r, s'\<lparr>rt_dest := drop_temporary temporary (rt_dest s')\<rparr>))"

definition write_symlink :: "PlannedEntry \<Rightarrow> string \<Rightarrow> RestoreResult \<Rightarrow> string \<Rightarrow> (restore_state, RestoreResult) proc" where
  "write_symlink planned target result temporary =
     (let path = ei_relative_path (pl_entry planned) in
      bindp (in_dest (create_restored_symlink target temporary)) (\<lambda>created.
      if \<not> created
      then ret (skip_entry path ''symbolic-link creation privilege is unavailable'' result)
      else
        seqp (in_dest (require_safe_ancestors path))
        (bindp (in_dest (publish temporary (dest_key path) (pl_action planned = act_replace))) (\<lambda>published.
         if published = destination_exists
         then ret (skip_entry path ''destination appeared during restore'' result)
         else
           seqp (in_dest (flush_containing_directory (dest_key path)))
             (ret (result\<lparr>rr_restored_symlinks := rr_restored_symlinks result + 1\<rparr>))))))"

definition restore_symlink :: "PlannedEntry \<Rightarrow> RestoreResult \<Rightarrow> (restore_state, RestoreResult) proc" where
  "restore_symlink planned result =
     (let entry = pl_entry planned; path = ei_relative_path entry in
      if ei_type entry \<noteq> symbolic_link then ret result
      else
        seqp check_cancelled
        (if pl_action planned = act_skip
         then ret (skip_entry path ''destination symbolic link conflicts'' result)
         else case ei_symlink_target entry of
           None \<Rightarrow> raise_lv E_database_error ''symbolic-link entry has no saved target''
         | Some target \<Rightarrow>
             seqp (in_dest (require_safe_ancestors path))
               (with_temporary_path path (write_symlink planned target result))))"

section \<open>Metadata of directories\<close>

definition restore_directory_metadata :: "PlannedEntry \<Rightarrow> RestoreResult \<Rightarrow> (restore_state, RestoreResult) proc" where
  "restore_directory_metadata planned result =
     (let entry = pl_entry planned; path = ei_relative_path entry in
      if ei_type entry \<noteq> directory \<or> \<not> pl_metadata_allowed planned then ret result
      else
        seqp (in_dest (require_safe_ancestors path))
        (seqp (in_dest (require_real_directory (dest_key path)))
        (bindp (metadata_warning ''directory restored; metadata not fully restored: ''
                  (apply_restored_metadata (dest_key path) (ei_modified_time_ns entry) (ei_posix_mode entry)))
           (\<lambda>warning. ret (case warning of None \<Rightarrow> result | Some text \<Rightarrow> skip_entry path text result)))))"

section \<open>The whole restore\<close>

fun foldp :: "('x \<Rightarrow> 'a \<Rightarrow> ('s, 'a) proc) \<Rightarrow> 'x list \<Rightarrow> 'a \<Rightarrow> ('s, 'a) proc" where
  "foldp step [] a = ret a"
| "foldp step (x # xs) a = bindp (step x a) (foldp step xs)"

definition empty_result :: RestoreResult where
  "empty_result = \<lparr>rr_restored_files = 0, rr_restored_directories = 0, rr_restored_symlinks = 0,
     rr_restored_bytes = 0, rr_skipped_entries = []\<rparr>"

fun collect_chunks ::
  "ByteCount \<Rightarrow> EntryInfo list \<Rightarrow> (restore_state, (int \<times> ChunkReferenceInfo list) list) proc" where
  "collect_chunks chunk_size [] = ret []"
| "collect_chunks chunk_size (entry # es) =
     (if ei_type entry \<noteq> regular_file then collect_chunks chunk_size es
      else
        bindp (in_repository (in_conn (list_entry_chunks (ei_id entry)))) (\<lambda>refs.
        seqp (liftp (validate_chunks entry refs chunk_size))
        (bindp (collect_chunks chunk_size es) (\<lambda>collected.
          ret ((ei_id entry, refs) # collected)))))"

definition create_destination :: "(fs, unit) proc" where
  "create_destination =
     syscall E_filesystem_error ''failed to create restore destination: '' (\<lambda>f.
       if dirs f [] then Inr ((), f)
       else if path_taken f [] then throw_lv E_filesystem_error ''failed to create restore destination: Not a directory''
       else Inr ((), f\<lparr>dirs := (dirs f)([] := True)\<rparr>))"

text \<open>The four passes.\<close>

definition run_plan ::
  "restore_env \<Rightarrow> string \<Rightarrow> (int \<times> ChunkReferenceInfo list) list \<Rightarrow> PlannedEntry list \<Rightarrow>
   (restore_state, RestoreResult) proc" where
  "run_plan env destination_root chunks_by_entry plan =
     (let total_entries = word_of_nat (length plan) in
      seqp (liftp (checked_maximum_chunk_size (oc_maximum_chunk_size (re_config env))))
      (seqp (report_progress env ph_restoring destination_root empty_result total_entries)
      (bindp (foldp restore_directory plan empty_result) (\<lambda>result.
       bindp (foldp (restore_file env total_entries chunks_by_entry) plan result) (\<lambda>result.
       bindp (foldp restore_symlink plan result) (\<lambda>result.
       bindp (foldp restore_directory_metadata
                (sort_key (\<lambda>planned. (- int (path_depth (ei_relative_path (pl_entry planned))),
                                       path_key (ei_relative_path (pl_entry planned)))) plan) result) (\<lambda>result.
       seqp (report_progress env ph_complete destination_root result total_entries)
         (ret result))))))))"

text \<open>What is read from the repository before the destination is touched.\<close>

definition restore_inputs ::
  "restore_env \<Rightarrow> RestoreRequest \<Rightarrow>
   (restore_state, EntryInfo list \<times> (int \<times> ChunkReferenceInfo list) list) proc" where
  "restore_inputs env request =
     seqp (in_repository (recover_after_writer_lock (re_now env)))
     (seqp (in_repository (in_conn (require_complete_snapshot (rq_snapshot_id request))))
     (bindp (in_repository (in_conn (list_entries (rq_snapshot_id request)))) (\<lambda>entries.
      seqp (liftp (validate_entries entries))
      (bindp (liftp (select_entries entries (rq_relative_paths request))) (\<lambda>selected.
       seqp (liftp (validate_selected_file_hashes selected))
       (bindp (collect_chunks (oc_maximum_chunk_size (re_config env)) selected) (\<lambda>chunks_by_entry.
        ret (selected, chunks_by_entry))))))))"

definition restore :: "restore_env \<Rightarrow> RestoreRequest \<Rightarrow> (restore_state, RestoreResult) proc" where
  "restore env request =
     bindp (gets (\<lambda>s. r_mode (rt_repository s))) (\<lambda>mode.
     seqp (guardp (mode = read_write) E_invalid_argument ''restore requires a read-write repository'')
     (seqp (guardp (\<not> (rq_overwrite_policy request = P_prompt \<and> rq_conflict_resolver request = None))
              E_invalid_argument ''prompt overwrite policy requires a conflict resolver'')
     (seqp check_cancelled
     (bindp (liftp (normalized_destination (re_absolute env) (re_canonical env) (re_inspect env)
               (rq_destination_root request) (re_repository_root env))) (\<lambda>destination_root.
      seqp (liftp (re_lock env))
      (bindp (restore_inputs env request) (\<lambda>(selected, chunks_by_entry).
       seqp (in_dest create_destination)
       (bindp (in_dest (build_plan request destination_root selected)) (\<lambda>plan.
         run_plan env destination_root chunks_by_entry plan)))))))))"

end
