(* ===== verification/Restore_Safety.thy ===== *)
theory Restore_Safety
  imports Restore_Engine
begin

text \<open>
  What a restore may do to a destination that is not empty. A set of paths is protected when each of
  them is in use and keeps its kind and its contents; every system call of the restore keeps it, with
  the one proviso that a rename over an existing name is a replacement the plan has asked for. The plan
  asks for one only where the overwrite policy, or the person it asks, allows it.
\<close>

section \<open>Protected paths\<close>

definition protects :: "(string \<Rightarrow> bool) \<Rightarrow> fs \<Rightarrow> fs \<Rightarrow> bool" where
  "protects S D f \<longleftrightarrow> (\<forall>p. S p \<longrightarrow> path_taken f p \<and>
     files f p = files D p \<and> dirs f p = dirs D p \<and> others f p = others D p)"

text \<open>A procedure that keeps an invariant and whose result satisfies a predicate.\<close>

definition ensures :: "('s \<Rightarrow> bool) \<Rightarrow> ('a \<Rightarrow> bool) \<Rightarrow> ('s, 'a) proc \<Rightarrow> bool" where
  "ensures I P m \<longleftrightarrow> (\<forall>s. I s \<longrightarrow> wp m (\<lambda>a t. I t \<and> P a) (\<lambda>_. I) s)"

lemma ensures_bindp: "ensures I P m \<Longrightarrow> (\<And>a. P a \<Longrightarrow> ensures I Q (k a)) \<Longrightarrow> ensures I Q (bindp m k)"
  by (auto simp: ensures_def wp_bindp elim!: wp_mono)

lemma keeps_ensures: "keeps I m \<longleftrightarrow> ensures I (\<lambda>_. True) m"
  by (simp add: keeps_wp ensures_def)

lemma keeps_bindp_post: "ensures I P m \<Longrightarrow> (\<And>a. P a \<Longrightarrow> keeps I (k a)) \<Longrightarrow> keeps I (bindp m k)"
  unfolding keeps_ensures by (rule ensures_bindp)

lemma ensures_mono: "ensures I P m \<Longrightarrow> (\<And>a. P a \<Longrightarrow> Q a) \<Longrightarrow> ensures I Q m"
  by (auto simp: ensures_def wp_def split: sum.split prod.split)

lemma ensures_ret: "P a \<Longrightarrow> ensures I P (ret a)"
  by (simp add: ensures_def wp_ret)

lemma ensures_raise_lv: "ensures I P (raise_lv c m)"
  by (simp add: ensures_def wp_raise_lv)

lemma ensures_liftp: "(\<And>a. r = Inr a \<Longrightarrow> P a) \<Longrightarrow> ensures I P (liftp r)"
  by (simp add: ensures_def wp_liftp split: sum.split)

lemma ensures_seqp: "keeps I m \<Longrightarrow> ensures I P n \<Longrightarrow> ensures I P (seqp m n)"
  by (auto simp: ensures_def keeps_wp wp_seqp elim!: wp_mono)

section \<open>Every call of the restore keeps the protected paths\<close>

lemma interfere_protects: "protects S D f \<Longrightarrow> protects S D (interfere f)"
  by (auto simp: protects_def interfere_def Let_def path_taken_def split: option.split)

lemma syscall_ensures:
  assumes "\<And>f a h. protects S D f \<Longrightarrow> op f = Inr (a, h) \<Longrightarrow> protects S D h \<and> P a"
  shows "ensures (protects S D) P (syscall c t op)"
  using assms interfere_protects
  by (fastforce simp: ensures_def wp_def syscall_def Let_def split: option.split sum.split)

lemma syscall_keeps:
  assumes "\<And>f a h. protects S D f \<Longrightarrow> op f = Inr (a, h) \<Longrightarrow> protects S D h"
  shows "keeps (protects S D) (syscall c t op)"
  unfolding keeps_ensures by (rule syscall_ensures) (use assms in blast)

lemma protects_same:
  assumes "protects S D f" and "files g = files f" "dirs g = dirs f" "others g = others f"
  shows "protects S D g"
proof -
  have "path_taken g = path_taken f" using assms(2-4) by (simp add: path_taken_def fun_eq_iff)
  then show ?thesis using assms by (simp add: protects_def)
qed

lemma protected_taken: "protects S D f \<Longrightarrow> S p \<Longrightarrow> path_taken f p"
  by (simp add: protects_def)

lemma protects_free:
  assumes "protects S D f" and "\<not> S p"
    and "\<forall>q. q \<noteq> p \<longrightarrow> files g q = files f q \<and> dirs g q = dirs f q \<and> others g q = others f q"
  shows "protects S D g"
proof -
  have "path_taken g q = path_taken f q" if "q \<noteq> p" for q
    using assms(3) that by (simp add: path_taken_def)
  then show ?thesis using assms unfolding protects_def by metis
qed

lemma protects_new:
  "protects S D f \<Longrightarrow> \<not> path_taken f p \<Longrightarrow>
   \<forall>q. q \<noteq> p \<longrightarrow> files g q = files f q \<and> dirs g q = dirs f q \<and> others g q = others f q \<Longrightarrow>
   protects S D g"
  by (rule protects_free [of S D f p]) (use protected_taken in blast)+

lemma inspect_keeps [keeps_intros]: "keeps (protects S D) (inspect_path_no_follow p)"
  unfolding inspect_path_no_follow_def by (rule syscall_keeps) auto

lemma safe_walk_keeps [keeps_intros]: "keeps (protects S D) (safe_walk current names)"
  by (induction current names rule: safe_walk.induct) (auto intro!: keeps_intros)

lemma require_safe_ancestors_keeps [keeps_intros]: "keeps (protects S D) (require_safe_ancestors p)"
  unfolding require_safe_ancestors_def by (intro keeps_intros)

lemma require_real_directory_keeps [keeps_intros]: "keeps (protects S D) (require_real_directory p)"
  unfolding require_real_directory_def by (intro keeps_intros)

lemma existing_status_free:
  "ensures (protects S D) (\<lambda>status. status = None \<longrightarrow> \<not> S p) (existing_status p)"
  unfolding existing_status_def
  by (rule syscall_ensures)
    (auto dest: protected_taken simp: node_type_def path_taken_def split: if_splits option.splits other_node.splits)

lemma flush_keeps [keeps_intros]: "keeps (protects S D) (flush_containing_directory p)"
  unfolding flush_containing_directory_def by (rule syscall_keeps) (auto elim!: protects_same)

lemma sync_keeps [keeps_intros]: "keeps (protects S D) (temporary_sync p)"
  unfolding temporary_sync_def by (rule syscall_keeps) (auto elim!: protects_same)

lemma change_mode_keeps [keeps_intros]: "keeps (protects S D) (change_mode p mode)"
  unfolding change_mode_def by (rule syscall_keeps) (auto elim!: protects_same)

lemma change_time_keeps [keeps_intros]: "keeps (protects S D) (change_time p time)"
  unfolding change_time_def by (rule syscall_keeps) (auto elim!: protects_same)

lemma apply_metadata_keeps [keeps_intros]: "keeps (protects S D) (apply_metadata p time mode)"
  unfolding apply_metadata_def by (intro keeps_intros)

lemma apply_restored_metadata_keeps [keeps_intros]:
  "keeps (protects S D) (apply_restored_metadata p time mode)"
  unfolding apply_restored_metadata_def by (intro keeps_intros)

lemma create_temporary_free:
  "ensures (protects S D) (\<lambda>t. \<not> S t \<and> t \<in> set candidates) (create_temporary candidates attempts)"
proof (induction candidates attempts rule: create_temporary.induct)
  case (3 candidate candidates attempts)
  have "ensures (protects S D) (\<lambda>created. created \<longrightarrow> \<not> S candidate)
    (syscall E_filesystem_error ''failed to create restore temporary file: '' (\<lambda>f.
              if path_taken f candidate then Inr (False, f)
              else Inr (True, f\<lparr>files := (files f)(candidate \<mapsto> [])\<rparr>)))"
    by (rule syscall_ensures) (auto split: if_splits simp: protects_def path_taken_def)
  moreover have "ensures (protects S D) (\<lambda>t. \<not> S t \<and> t \<in> set (candidate # candidates))
    (create_temporary candidates attempts)" if "\<not> created" for created
    by (rule ensures_mono [OF 3 [OF that]]) simp
  ultimately show ?case
    by (auto intro!: ensures_bindp ensures_ret)
qed (simp_all add: ensures_raise_lv)

lemma write_loop_keeps: "\<not> S p \<Longrightarrow> keeps (protects S D) (write_loop p bs)"
  by (rule keepsI) (auto dest!: write_loop_writes_to simp: writes_to_def same_but_def elim!: protects_free)

lemma drop_temporary_protects: "\<not> S p \<Longrightarrow> protects S D f \<Longrightarrow> protects S D (drop_temporary p f)"
  by (auto simp: drop_temporary_def elim!: protects_free)

lemma rename_protects:
  "protects S D f \<Longrightarrow> \<not> S t \<Longrightarrow> \<not> S p \<Longrightarrow> protects S D (rename_path t p f)"
  by (auto simp: rename_path_def protects_def path_taken_def)

text \<open>A name that may be replaced is unprotected or names a directory, which a rename never replaces.\<close>

lemma publish_keeps:
  assumes "\<not> S t" and "replaced \<Longrightarrow> \<not> S p \<or> dirs D p"
  shows "keeps (protects S D) (publish t p replaced)"
  unfolding publish_def
proof (rule syscall_keeps)
  fix f a h
  assume f: "protects S D f"
    and op: "(if \<not> replaced \<and> path_taken f p then Inr (destination_exists, f)
       else if dirs f p
       then throw_lv E_filesystem_error ''failed to publish restored path: Is a directory''
       else if files f t = None \<and> others f t = None
       then throw_lv E_filesystem_error ''failed to publish restored path: No such file or directory''
       else Inr (published, rename_path t p f)) = Inr (a, h)"
  show "protects S D h"
  proof (cases "a = destination_exists")
    case True
    then show ?thesis using f op by (auto split: if_splits)
  next
    case False
    then have h: "h = rename_path t p f" and free: "replaced \<or> \<not> path_taken f p" and "\<not> dirs f p"
      using op by (auto split: if_splits)
    then have "\<not> S p" using f assms(2) by (auto simp: protects_def)
    then show ?thesis using rename_protects [OF f assms(1)] h by simp
  qed
qed

lemma create_restored_directory_keeps [keeps_intros]: "keeps (protects S D) (create_restored_directory p)"
  unfolding create_restored_directory_def
  by (rule syscall_keeps) (auto split: if_splits elim!: protects_new [where p = p])

lemma create_restored_symlink_keeps [keeps_intros]: "keeps (protects S D) (create_restored_symlink target p)"
  unfolding create_restored_symlink_def
  by (rule syscall_keeps) (auto split: if_splits elim!: protects_new [where p = p])

lemma create_destination_keeps [keeps_intros]: "keeps (protects S D) create_destination"
  unfolding create_destination_def
  by (rule syscall_keeps)
    (auto split: if_splits elim!: protects_new [where p = "[]"])

section \<open>The plan replaces only with permission\<close>

text \<open>Who allows a replacement: the policy, or the resolver when it was asked about that path.\<close>

definition permitted :: "RestoreRequest \<Rightarrow> string \<Rightarrow> string \<Rightarrow> bool" where
  "permitted request root p \<longleftrightarrow>
     (case rq_overwrite_policy request of
        P_never \<Rightarrow> False
      | P_always \<Rightarrow> True
      | P_prompt \<Rightarrow> \<exists>resolver path type. rq_conflict_resolver request = Some resolver \<and>
          dest_key path = p \<and> resolver (path_join root path) type = Inr decide_replace)"

definition honours :: "(string \<Rightarrow> bool) \<Rightarrow> fs \<Rightarrow> PlannedEntry \<Rightarrow> bool" where
  "honours S D planned \<longleftrightarrow> (pl_action planned = act_replace \<longrightarrow>
     (let p = dest_key (ei_relative_path (pl_entry planned)) in \<not> S p \<or> dirs D p))"

definition respects_policy :: "(string \<Rightarrow> bool) \<Rightarrow> fs \<Rightarrow> RestoreRequest \<Rightarrow> string \<Rightarrow> bool" where
  "respects_policy S D request root \<longleftrightarrow> (\<forall>p. S p \<longrightarrow> dirs D p \<or> \<not> permitted request root p)"

lemma conflict_action_permitted:
  assumes action: "conflict_action request entry (path_join root (ei_relative_path entry)) existing = Inr act_replace"
  shows "permitted request root (dest_key (ei_relative_path entry))"
proof (cases "rq_overwrite_policy request")
  case P_prompt
  then obtain resolver decision where r: "rq_conflict_resolver request = Some resolver"
      "resolver (path_join root (ei_relative_path entry)) (ei_type entry) = Inr decision"
      "decision \<noteq> decide_skip" "decision \<noteq> decide_cancel"
    using action by (auto simp: conflict_action_def bindE_Inr_iff split: if_splits option.splits)
  then have "decision = decide_replace" by (cases decision) simp_all
  then show ?thesis using P_prompt r(1,2) unfolding permitted_def by auto
qed (use action in \<open>simp_all add: conflict_action_def permitted_def split: if_splits\<close>)

lemma plan_entry_honours:
  assumes "respects_policy S D request root"
  shows "ensures (protects S D) (honours S D) (plan_entry request root entry)"
  unfolding plan_entry_def
proof (intro ensures_seqp keeps_intros ensures_bindp [OF existing_status_free]
    ensures_bindp [where P = "\<lambda>action. action = act_replace \<longrightarrow> permitted request root (dest_key (ei_relative_path entry))"]
    ensures_liftp ensures_ret)
  fix status action
  assume "(case status of None \<Rightarrow> Inr act_create
      | Some existing \<Rightarrow> conflict_action request entry (path_join root (ei_relative_path entry)) existing) = Inr action"
  then show "action = act_replace \<longrightarrow> permitted request root (dest_key (ei_relative_path entry))"
    using conflict_action_permitted by (auto split: option.splits)
next
  fix action
  assume "action = act_replace \<longrightarrow> permitted request root (dest_key (ei_relative_path entry))"
  then show "honours S D \<lparr>pl_entry = entry, pl_action = action, pl_metadata_allowed = (action \<noteq> act_skip)\<rparr>"
    using assms by (auto simp: honours_def Let_def respects_policy_def)
qed

lemma plan_entries_honours:
  assumes "respects_policy S D request root"
  shows "ensures (protects S D) (\<lambda>plan. \<forall>planned \<in> set plan. honours S D planned)
     (plan_entries request root es skipped)"
proof (induction es arbitrary: skipped)
  case Nil
  show ?case by (simp add: ensures_ret)
next
  case (Cons entry es)
  show ?case
    by (auto intro!: ensures_bindp [OF Cons.IH] ensures_bindp [OF plan_entry_honours [OF assms]] ensures_ret
        simp: honours_def)
qed

lemma build_plan_honours:
  "respects_policy S D request root \<Longrightarrow>
   ensures (protects S D) (\<lambda>plan. \<forall>planned \<in> set plan. honours S D planned) (build_plan request root selected)"
  unfolding build_plan_def by (rule plan_entries_honours)

section \<open>The passes of the restore\<close>

definition on_dest :: "(fs \<Rightarrow> bool) \<Rightarrow> restore_state \<Rightarrow> bool" where
  "on_dest P s \<longleftrightarrow> P (rt_dest s)"

lemma keeps_in_dest [keeps_intros]: "keeps P m \<Longrightarrow> keeps (on_dest P) (in_dest m)"
  by (auto simp: keeps_def in_dest_def on_dest_def split: prod.split)

lemma ensures_in_dest: "ensures I P m \<Longrightarrow> ensures (on_dest I) P (in_dest m)"
  by (auto simp: ensures_def wp_def in_dest_def on_dest_def split: prod.split sum.split)

lemma keeps_in_repository [keeps_intros]: "keeps (on_dest P) (in_repository m)"
  by (auto simp: keeps_def in_repository_def on_dest_def split: prod.split)

lemma keeps_read_object [keeps_intros]: "keeps (on_dest P) (read_object env chunk)"
  by (auto simp: keeps_def read_object_def on_dest_def split: prod.split)

lemma keeps_check_cancelled [keeps_intros]: "keeps (on_dest P) check_cancelled"
  by (simp add: keeps_def check_cancelled_def on_dest_def)

lemma keeps_report_progress [keeps_intros]: "keeps (on_dest P) (report_progress env phase p result n)"
  by (auto simp: report_progress_def Let_def on_dest_def split: option.split intro!: keeps_intros)

lemma keeps_foldp: "(\<And>x a. x \<in> set xs \<Longrightarrow> keeps I (step x a)) \<Longrightarrow> keeps I (foldp step xs a)"
  by (induction xs arbitrary: a) (auto intro!: keeps_intros)

lemma metadata_warning_keeps [keeps_intros]: "keeps P m \<Longrightarrow> keeps (on_dest P) (metadata_warning text m)"
  unfolding metadata_warning_def by (auto intro!: keeps_intros split: exn.split)

lemma restore_chunks_keeps:
  "\<not> S output \<Longrightarrow> keeps (on_dest (protects S D)) (restore_chunks env output refs hashed written)"
  by (induction refs arbitrary: hashed written) (auto intro!: keeps_intros write_loop_keeps)

lemma with_output_keeps:
  assumes "\<And>t. \<not> S t \<Longrightarrow> keeps (on_dest (protects S D)) (body t)"
  shows "keeps (on_dest (protects S D)) (with_output env path body)"
  unfolding with_output_def
proof (rule keeps_bindp_post [OF ensures_in_dest [OF create_temporary_free]], rule keepsI)
  fix t s r s'
  assume t: "\<not> S t \<and> t \<in> set (temporary_names env path)" and s: "on_dest (protects S D) s"
    and run: "(case body t s of (r, s') \<Rightarrow> (r, s'\<lparr>rt_dest := drop_temporary t (rt_dest s')\<rparr>)) = (r, s')"
  then show "on_dest (protects S D) s'"
    using keepsD [OF assms s] drop_temporary_protects by (auto simp: on_dest_def split: prod.splits)
qed

lemma unique_temporary_path_free:
  "ensures (on_dest (protects S D)) (\<lambda>t. \<not> S t) (unique_temporary_path attempts path)"
proof (induction attempts arbitrary: path)
  case 0
  show ?case by (simp add: ensures_raise_lv)
next
  case (Suc attempts)
  have sequence: "ensures (on_dest (protects S D)) (\<lambda>_. True) (gets rt_sequence)"
    "keeps (on_dest (protects S D)) (modifyp (\<lambda>s. s\<lparr>rt_sequence := n\<rparr>))" for n
    by (simp_all add: ensures_def wp_gets keeps_def modifyp_def on_dest_def)
  show ?case
    unfolding unique_temporary_path.simps Let_def
    by (intro ensures_bindp [OF sequence(1)] ensures_seqp sequence(2)
        ensures_bindp [OF ensures_in_dest [OF existing_status_free]])
      (simp add: ensures_ret Suc)
qed

lemma with_temporary_path_keeps:
  assumes "\<And>t. \<not> S t \<Longrightarrow> keeps (on_dest (protects S D)) (body t)"
  shows "keeps (on_dest (protects S D)) (with_temporary_path path body)"
  unfolding with_temporary_path_def
proof (rule keeps_bindp_post [OF unique_temporary_path_free], rule keepsI)
  fix t s r s'
  assume t: "\<not> S t" and s: "on_dest (protects S D) s"
    and run: "(case body t s of (r, s') \<Rightarrow> (r, s'\<lparr>rt_dest := drop_temporary t (rt_dest s')\<rparr>)) = (r, s')"
  then show "on_dest (protects S D) s'"
    using keepsD [OF assms s] drop_temporary_protects by (auto simp: on_dest_def split: prod.splits)
qed

lemma publish_planned_keeps:
  "\<not> S t \<Longrightarrow> honours S D planned \<Longrightarrow>
   keeps (protects S D) (publish t (dest_key (ei_relative_path (pl_entry planned))) (pl_action planned = act_replace))"
  by (rule publish_keeps) (auto simp: honours_def Let_def)

lemma publish_file_keeps:
  "\<not> S t \<Longrightarrow> honours S D planned \<Longrightarrow>
   keeps (on_dest (protects S D)) (publish_file env n planned t warning result)"
  unfolding publish_file_def Let_def by (intro keeps_intros publish_planned_keeps)

lemma write_file_keeps:
  "\<not> S t \<Longrightarrow> honours S D planned \<Longrightarrow>
   keeps (on_dest (protects S D)) (write_file env n refs planned result t)"
  unfolding write_file_def Let_def case_prod_unfold
  by (intro keeps_intros restore_chunks_keeps publish_file_keeps)

lemma restore_file_keeps:
  "honours S D planned \<Longrightarrow> keeps (on_dest (protects S D)) (restore_file env n refs planned result)"
  unfolding restore_file_def Let_def by (intro keeps_intros with_output_keeps write_file_keeps)

lemma write_symlink_keeps:
  "\<not> S t \<Longrightarrow> honours S D planned \<Longrightarrow>
   keeps (on_dest (protects S D)) (write_symlink planned target result t)"
  unfolding write_symlink_def Let_def by (intro keeps_intros publish_planned_keeps)

lemma restore_symlink_keeps:
  "honours S D planned \<Longrightarrow> keeps (on_dest (protects S D)) (restore_symlink planned result)"
  unfolding restore_symlink_def Let_def
  by (cases "ei_symlink_target (pl_entry planned)")
    (auto intro!: keeps_intros with_temporary_path_keeps write_symlink_keeps)

lemma restore_directory_keeps: "keeps (on_dest (protects S D)) (restore_directory planned result)"
  unfolding restore_directory_def Let_def by (intro keeps_intros)

lemma restore_directory_metadata_keeps:
  "keeps (on_dest (protects S D)) (restore_directory_metadata planned result)"
  unfolding restore_directory_metadata_def Let_def by (intro keeps_intros)

lemma run_plan_keeps:
  "\<forall>planned \<in> set plan. honours S D planned \<Longrightarrow>
   keeps (on_dest (protects S D)) (run_plan env root refs plan)"
  unfolding run_plan_def Let_def
  by (intro keeps_intros keeps_foldp restore_directory_keeps restore_file_keeps restore_symlink_keeps
      restore_directory_metadata_keeps) simp_all

lemma collect_chunks_keeps [keeps_intros]: "keeps (on_dest P) (collect_chunks chunk_size es)"
  by (induction es) (auto intro!: keeps_intros)

lemma restore_inputs_keeps [keeps_intros]: "keeps (on_dest P) (restore_inputs env request)"
  unfolding restore_inputs_def by (intro keeps_intros)

text \<open>The destination root that the request resolves to, if it resolves.\<close>

definition destination_root :: "restore_env \<Rightarrow> RestoreRequest \<Rightarrow> exn + string" where
  "destination_root env request =
     normalized_destination (re_absolute env) (re_canonical env) (re_inspect env)
       (rq_destination_root request) (re_repository_root env)"

lemma restore_keeps:
  assumes "\<And>root. destination_root env request = Inr root \<Longrightarrow> respects_policy S D request root"
  shows "keeps (on_dest (protects S D)) (restore env request)"
proof -
  have plan: "ensures (on_dest (protects S D)) (\<lambda>plan. \<forall>planned \<in> set plan. honours S D planned)
      (in_dest (build_plan request root selected))" if "destination_root env request = Inr root" for root selected
    by (rule ensures_in_dest, rule build_plan_honours, rule assms, rule that)
  have root: "ensures (on_dest (protects S D)) (\<lambda>root. destination_root env request = Inr root)
      (liftp (destination_root env request))"
    by (rule ensures_liftp)
  show ?thesis
    unfolding restore_def case_prod_unfold destination_root_def [symmetric]
    by (intro keeps_intros keeps_bindp_post [OF root] keeps_bindp_post [OF plan] run_plan_keeps)
qed

text \<open>
  [C5] A restore overwrites only with permission: on every exit, normal or not, whatever fails and
  whatever other processes create, each path of the destination that was in use before still has the
  same kind and the same contents, unless the policy of the request allows replacements, or the
  resolver has answered "replace" for that very path; a directory is kept even then.
\<close>

theorem restore_overwrites_only_with_permission:
  assumes "restore env request s = (r, s')" and "path_taken (rt_dest s) p"
    and "dirs (rt_dest s) p \<or>
      (\<forall>root. destination_root env request = Inr root \<longrightarrow> \<not> permitted request root p)"
  shows "files (rt_dest s') p = files (rt_dest s) p \<and> dirs (rt_dest s') p = dirs (rt_dest s) p \<and>
    others (rt_dest s') p = others (rt_dest s) p"
proof -
  let ?S = "\<lambda>q. q = p" and ?D = "rt_dest s"
  have "respects_policy ?S ?D request root" if "destination_root env request = Inr root" for root
    using assms(3) that by (auto simp: respects_policy_def)
  then have kept: "keeps (on_dest (protects ?S ?D)) (restore env request)"
    by (rule restore_keeps)
  have "on_dest (protects ?S ?D) s"
    using assms(2) by (simp add: on_dest_def protects_def)
  from keepsD [OF kept this assms(1)] have "on_dest (protects ?S ?D) s'" .
  then show ?thesis by (simp add: on_dest_def protects_def)
qed

section \<open>A small restore\<close>

text \<open>A repository with one complete snapshot of a directory that holds two empty files, and a
  destination where the name of one of them is in use.\<close>

definition demo_row :: "int \<Rightarrow> string \<Rightarrow> string \<Rightarrow> string option \<Rightarrow> entry_row" where
  "demo_row i path kind hash = \<lparr>en_id = i, en_snapshot_id = 1, en_relative_path = path, en_parent_path = [],
     en_name = path, en_type = kind, en_logical_size = 0, en_modified_time_ns = 0, en_posix_mode = 0,
     en_windows_attributes = None, en_file_hash = hash, en_symlink_target = None\<rparr>"

definition demo_restore_tables :: tables where
  "demo_restore_tables = demo_tables\<lparr>
     entries := [demo_row 1 [] ''directory'' None, demo_row 2 ''a'' ''file'' (Some (hash_raw demo_blake3 [])),
       demo_row 3 ''k'' ''file'' (Some (hash_raw demo_blake3 []))],
     chunks := [], entry_chunks := [], entry_seq := 3\<rparr>"

definition demo_restore_state :: restore_state where
  "demo_restore_state = \<lparr>
     rt_repository = crashed_repository\<lparr>r_conn := quiet demo_restore_tables, r_recovery_complete := True\<rparr>,
     rt_store = demo_fs, rt_dest = demo_fs\<lparr>files := [''k'' \<mapsto> [7]], dirs := (\<lambda>p. p = [])\<rparr>,
     rt_stop = (\<lambda>_. False), rt_polls = 0, rt_sequence = 0, rt_events = []\<rparr>"

definition demo_restore_env :: restore_env where
  "demo_restore_env = \<lparr>re_config = demo_config, re_repository_root = ''/repo'', re_absolute = Inr,
     re_canonical = Inr, re_inspect = (\<lambda>_. Inr nf_directory), re_lock = Inr (), re_now = (\<lambda>_. 9),
     re_random = (\<lambda>_. [[1]]), re_progress = None\<rparr>"

definition demo_request :: RestoreRequest where
  "demo_request = \<lparr>rq_snapshot_id = 1, rq_relative_paths = [], rq_destination_root = ''/out'',
     rq_overwrite_policy = P_never, rq_conflict_resolver = None, rq_verify_final_file_hash = True\<rparr>"

theorem restore_overwrites_only_with_permission_witness:
  "files (rt_dest (snd (restore demo_restore_env demo_request demo_restore_state))) ''k'' = Some [7] \<and>
   dirs (rt_dest (snd (restore demo_restore_env (demo_request\<lparr>rq_overwrite_policy := P_always\<rparr>)
     demo_restore_state))) []"
proof -
  have dest: "rt_dest demo_restore_state = demo_fs\<lparr>files := [''k'' \<mapsto> [7]], dirs := (\<lambda>p. p = [])\<rparr>"
    by (simp add: demo_restore_state_def)
  have "\<not> permitted demo_request root ''k''" for root
    by (simp add: permitted_def demo_request_def)
  then show ?thesis
    using restore_overwrites_only_with_permission
      [of demo_restore_env demo_request demo_restore_state _ _ "''k''", OF prod.collapse [symmetric]]
      restore_overwrites_only_with_permission
      [of demo_restore_env "demo_request\<lparr>rq_overwrite_policy := P_always\<rparr>" demo_restore_state _ _ "[]",
        OF prod.collapse [symmetric]]
    by (simp add: dest path_taken_def)
qed

end
