(* ===== verification/Restore_Content.thy ===== *)
theory Restore_Content
  imports Restore_Safety "HOL-Library.Multiset"
begin

text \<open>
  What a successful restore leaves in the destination: every selected regular file is either listed
  among the skipped entries or present with the recorded length and the recorded BLAKE3 identifier.
\<close>

section \<open>Outcomes of procedures that return\<close>

abbreviation yields :: "('s, 'a) proc \<Rightarrow> ('a \<Rightarrow> 's \<Rightarrow> bool) \<Rightarrow> 's \<Rightarrow> bool" where
  "yields m Q s \<equiv> wp m Q (\<lambda>_ _. True) s"

lemma yields_bindp: "yields m Q s \<Longrightarrow> (\<And>a t. Q a t \<Longrightarrow> yields (k a) R t) \<Longrightarrow> yields (bindp m k) R s"
  unfolding wp_bindp by (erule wp_mono)

lemma yields_seqp: "yields m (\<lambda>_. Q) s \<Longrightarrow> (\<And>t. Q t \<Longrightarrow> yields n R t) \<Longrightarrow> yields (seqp m n) R s"
  unfolding wp_seqp by (erule wp_mono)

lemma yields_keeps: "keeps I m \<Longrightarrow> I s \<Longrightarrow> yields m (\<lambda>_. I) s"
  unfolding keeps_wp by (blast intro: wp_mono)

lemma yields_keeps_bindp:
  "keeps I m \<Longrightarrow> I s \<Longrightarrow> (\<And>a t. I t \<Longrightarrow> yields (k a) R t) \<Longrightarrow> yields (bindp m k) R s"
  by (rule yields_bindp [OF yields_keeps])

lemma yields_keeps_seqp:
  "keeps I m \<Longrightarrow> I s \<Longrightarrow> (\<And>t. I t \<Longrightarrow> yields n R t) \<Longrightarrow> yields (seqp m n) R s"
  by (rule yields_seqp [OF yields_keeps])

lemma yields_guardp_seqp: "(b \<Longrightarrow> yields n R s) \<Longrightarrow> yields (seqp (guardp b c m) n) R s"
  by (simp add: wp_seqp wp_guardp)

lemma yields_liftp_bindp: "(\<And>a. r = Inr a \<Longrightarrow> yields (k a) R s) \<Longrightarrow> yields (bindp (liftp r) k) R s"
  by (simp add: wp_bindp wp_liftp split: sum.split)

lemma yields_raise: "yields (raise e) Q s"
  by (simp add: wp_raise)

lemma yields_in_dest: "yields (in_dest m) Q s \<longleftrightarrow> yields m (\<lambda>a f. Q a (s\<lparr>rt_dest := f\<rparr>)) (rt_dest s)"
  by (simp add: wp_def in_dest_def split: prod.split)

section \<open>Writing one file\<close>

abbreviation content_is :: "string \<Rightarrow> bytes \<Rightarrow> restore_state \<Rightarrow> bool" where
  "content_is p c \<equiv> on_dest (\<lambda>f. files f p = Some c)"

lemma write_loop_appends:
  "content_is p c s \<Longrightarrow> yields (in_dest (write_loop p bs)) (\<lambda>_. content_is p (c @ bs)) s"
  unfolding yields_in_dest
  by (auto simp: wp_def on_dest_def dest: write_loop_content split: prod.split sum.split)

lemma restore_chunks_content:
  "content_is out hashed s \<Longrightarrow>
   yields (restore_chunks env out refs hashed written)
     (\<lambda>(hashed', written') t. content_is out hashed' t \<and>
        unat written' + length hashed = unat written + length hashed') s"
proof (induction refs arbitrary: hashed written s)
  case Nil
  then show ?case by (simp add: wp_ret)
next
  case (Cons chunk refs)
  show ?case
    unfolding restore_chunks.simps
  proof (intro yields_keeps_seqp [where I = "content_is out hashed", OF keeps_check_cancelled Cons.prems]
      yields_keeps_bindp [where I = "content_is out hashed", OF keeps_read_object] yields_guardp_seqp
      yields_seqp [OF write_loop_appends]
      yields_keeps_seqp [OF keeps_in_repository] yields_liftp_bindp, assumption, assumption, assumption)
    fix t raw u v w written'
    assume raw: "length raw = unat (cr_raw_length chunk)" and t: "content_is out (hashed @ raw) w"
      and sum: "checked_add written (cr_raw_length chunk) = Inr written'"
    have "unat written' = unat written + length raw"
      using restore_adder.add_returns [OF sum] raw by simp
    then show "yields (restore_chunks env out refs (hashed @ raw) written')
      (\<lambda>(hashed', written') t. content_is out hashed' t \<and>
        unat written' + length hashed = unat written + length hashed') w"
      by - (rule wp_mono [OF Cons.IH [OF t]], auto)
  qed
qed

lemma content_kept:
  assumes "\<And>D. keeps (protects (\<lambda>q. q = p) D) m"
  shows "keeps (\<lambda>f. files f p = Some c) m"
proof (rule keepsI)
  fix f r g
  assume f: "files f p = Some c" and run: "m f = (r, g)"
  have "protects (\<lambda>q. q = p) f f" using f by (simp add: protects_def path_taken_def)
  then have "protects (\<lambda>q. q = p) f g" using keepsD [OF assms _ run] by blast
  then show "files g p = Some c" using f by (simp add: protects_def)
qed

lemma interfere_content: "files f p = Some c \<Longrightarrow> files (interfere f) p = Some c"
  by (auto simp: interfere_def Let_def path_taken_def split: option.split)

lemma publish_content:
  "files f t = Some c \<Longrightarrow> yields (publish t p replaced) (\<lambda>r g. r = published \<longrightarrow> files g p = Some c) f"
  using interfere_content
  by (fastforce simp: wp_def publish_def syscall_def Let_def rename_path_def split: option.split)

lemma create_temporary_content:
  "yields (create_temporary candidates attempts) (\<lambda>t f. t \<in> set candidates \<and> files f t = Some []) f"
proof (induction candidates attempts arbitrary: f rule: create_temporary.induct)
  case (3 candidate candidates attempts)
  have "yields (syscall E_filesystem_error ''failed to create restore temporary file: '' (\<lambda>f.
              if path_taken f candidate then Inr (False, f)
              else Inr (True, f\<lparr>files := (files f)(candidate \<mapsto> [])\<rparr>)))
    (\<lambda>created f. created \<longrightarrow> files f candidate = Some []) f"
    by (simp add: wp_def syscall_def Let_def split: option.split)
  moreover have "yields (create_temporary candidates attempts)
      (\<lambda>t f. t \<in> set (candidate # candidates) \<and> files f t = Some []) g" if "\<not> created" for g created
    by (rule wp_mono [OF 3 [OF that]]) auto
  ultimately show ?case
    unfolding create_temporary.simps by - (rule yields_bindp, assumption, simp add: wp_ret)
qed (simp_all add: wp_raise_lv)

text \<open>What counts as restored, and as mentioned in the result.\<close>

definition restored_file :: "blake3 \<Rightarrow> EntryInfo \<Rightarrow> fs \<Rightarrow> bool" where
  "restored_file blake3 entry f \<longleftrightarrow>
     (\<exists>content. files f (dest_key (ei_relative_path entry)) = Some content \<and>
        length content = unat (ei_logical_size entry) \<and>
        ei_file_hash_hex entry = Some (hash_raw blake3 content))"

definition mentioned :: "RestoreResult \<Rightarrow> EntryInfo \<Rightarrow> bool" where
  "mentioned result entry \<longleftrightarrow> ei_relative_path entry \<in> sk_relative_path ` set (rr_skipped_entries result)"

abbreviation settled_file :: "restore_env \<Rightarrow> EntryInfo \<Rightarrow> RestoreResult \<Rightarrow> restore_state \<Rightarrow> bool" where
  "settled_file env entry result s \<equiv>
     mentioned result entry \<or> on_dest (restored_file (oc_blake3 (re_config env)) entry) s"

lemma mentioned_skip [simp]: "mentioned (skip_entry (ei_relative_path entry) reason result) entry"
  by (simp add: mentioned_def skip_entry_def)

lemma restored_kept:
  assumes "\<And>D. keeps (on_dest (protects (\<lambda>q. q = dest_key (ei_relative_path entry)) D)) m"
  shows "keeps (on_dest (restored_file blake3 entry)) m"
proof (rule keepsI)
  fix s r t
  let ?k = "dest_key (ei_relative_path entry)"
  assume s: "on_dest (restored_file blake3 entry) s" and run: "m s = (r, t)"
  then have "on_dest (protects (\<lambda>q. q = ?k) (rt_dest s)) s"
    by (auto simp: on_dest_def restored_file_def protects_def path_taken_def)
  from keepsD [OF assms this run] have "files (rt_dest t) ?k = files (rt_dest s) ?k"
    by (simp add: on_dest_def protects_def)
  then show "on_dest (restored_file blake3 entry) t"
    using s by (simp add: on_dest_def restored_file_def)
qed

lemma publish_file_settles:
  assumes "content_is t c s" and "length c = unat (ei_logical_size (pl_entry planned))"
    and "ei_file_hash_hex (pl_entry planned) = Some (hash_raw (oc_blake3 (re_config env)) c)"
  shows "yields (publish_file env n planned t warning result) (settled_file env (pl_entry planned)) s"
proof -
  let ?e = "pl_entry planned"
  have published: "yields (in_dest (publish t (dest_key (ei_relative_path ?e)) replaced))
      (\<lambda>r u. r = published \<longrightarrow> on_dest (restored_file (oc_blake3 (re_config env)) ?e) u) s" for replaced
    unfolding yields_in_dest
    by (rule wp_mono [OF publish_content]) (use assms in \<open>auto simp: on_dest_def restored_file_def\<close>)
  show ?thesis
    unfolding publish_file_def Let_def
  proof (rule yields_bindp [OF published], goal_cases)
    case (1 r u)
    show ?case
    proof (cases r)
      case destination_exists
      then show ?thesis by (simp add: wp_ret)
    next
      case published
      have kept: "keeps (on_dest (restored_file (oc_blake3 (re_config env)) ?e)) (in_dest (flush_containing_directory p))"
        for p by (intro restored_kept keeps_intros)
      have "on_dest (restored_file (oc_blake3 (re_config env)) ?e) u" using 1 published by simp
      then show ?thesis
        using published
        by (simp, intro yields_keeps_seqp [OF kept] yields_liftp_bindp
            yields_keeps_seqp [OF keeps_report_progress]) (auto simp: wp_ret)
    qed
  qed
qed

lemma write_file_settles:
  assumes "content_is t [] s"
  shows "yields (write_file env n refs planned result t) (settled_file env (pl_entry planned)) s"
proof -
  have sync: "keeps (content_is t c) (in_dest (temporary_sync t))" for c
    by (intro keeps_in_dest content_kept keeps_intros)
  have warn: "keeps (content_is t c) (metadata_warning msg (apply_metadata t w b))" for c msg w b
    by (intro metadata_warning_keeps content_kept keeps_intros)
  have safe: "keeps (content_is t c) (in_dest (require_safe_ancestors p))" for c p
    by (intro keeps_in_dest content_kept keeps_intros)
  show ?thesis
    unfolding write_file_def Let_def case_prod_unfold
  proof (rule yields_bindp [OF restore_chunks_content [OF assms]], goal_cases)
    case (1 a u)
    then have c: "content_is t (fst a) u" "length (fst a) = unat (snd a)" by auto
    show ?case
      by (intro yields_guardp_seqp yields_keeps_seqp [OF sync] yields_keeps_bindp [OF warn]
          yields_keeps_seqp [OF safe] publish_file_settles) (use c in auto)
  qed
qed

lemma restore_file_settles:
  assumes "dest_key (ei_relative_path (pl_entry planned)) \<notin>
    set (temporary_names env (ei_relative_path (pl_entry planned)))"
  shows "yields (restore_file env n refs planned result)
    (\<lambda>result' t. ei_type (pl_entry planned) = regular_file \<longrightarrow> settled_file env (pl_entry planned) result' t) s"
proof -
  let ?e = "pl_entry planned" and ?path = "ei_relative_path (pl_entry planned)"
  have with_output: "yields (with_output env ?path body) (settled_file env ?e) s"
    if body: "\<And>t s. content_is t [] s \<Longrightarrow> yields (body t) (settled_file env ?e) s"
    for body :: "string \<Rightarrow> (restore_state, RestoreResult) proc" and s
  proof -
    have new: "yields (in_dest (create_temporary (temporary_names env ?path) 100))
        (\<lambda>t u. t \<in> set (temporary_names env ?path) \<and> content_is t [] u) s"
      unfolding yields_in_dest by (rule wp_mono [OF create_temporary_content]) (auto simp: on_dest_def)
    show ?thesis
      unfolding with_output_def
    proof (rule yields_bindp [OF new], goal_cases)
      case (1 t u)
      then have "t \<noteq> dest_key ?path" using assms by auto
      then show ?case
        using body [of t u] 1
        by (auto simp: wp_def on_dest_def restored_file_def drop_temporary_def split: prod.splits sum.splits)
    qed
  qed
  show ?thesis
  proof (cases "ei_type ?e = regular_file")
    case True
    have "yields (case map_of refs (ei_id ?e) of None \<Rightarrow> raise (StdException ''map::at'')
        | Some chunk_refs \<Rightarrow> write_file env n chunk_refs planned result t) (settled_file env ?e) s"
      if "content_is t [] s" for t s
      using write_file_settles [OF that] by (simp add: yields_raise split: option.split)
    then have "yields (restore_file env n refs planned result) (settled_file env ?e) s"
      using True unfolding restore_file_def Let_def
      by (simp, intro conjI impI yields_keeps_seqp [where I = "\<lambda>_. True"] with_output)
        (auto simp: wp_ret keeps_def)
    then show ?thesis using True by simp
  next
    case False
    then show ?thesis by (simp add: restore_file_def Let_def wp_ret)
  qed
qed

section \<open>The result only grows\<close>

text \<open>No pass forgets a skipped entry.\<close>

definition grows :: "RestoreResult \<Rightarrow> ('s, RestoreResult) proc \<Rightarrow> bool" where
  "grows result m \<longleftrightarrow>
     (\<forall>s result' t. m s = (Inr result', t) \<longrightarrow> set (rr_skipped_entries result) \<subseteq> set (rr_skipped_entries result'))"

named_theorems grows_intros "rules for passes that only add skipped entries"

lemma grows_ret [grows_intros]:
  "set (rr_skipped_entries result) \<subseteq> set (rr_skipped_entries result') \<Longrightarrow> grows result (ret result')"
  by (simp add: grows_def ret_def)

lemma grows_raise [grows_intros]: "grows result (raise e)" "grows result (raise_lv c m)"
  by (simp_all add: grows_def proc_defs)

lemma grows_bindp [grows_intros]: "(\<And>a. grows result (k a)) \<Longrightarrow> grows result (bindp m k)"
  unfolding grows_def bindp_def by (auto split: prod.splits sum.splits)

lemma grows_seqp [grows_intros]: "grows result n \<Longrightarrow> grows result (seqp m n)"
  unfolding seqp_def by (rule grows_bindp)

lemma grows_if [grows_intros]: "grows result m \<Longrightarrow> grows result n \<Longrightarrow> grows result (if b then m else n)"
  by simp

lemma grows_option [grows_intros]:
  "grows result m \<Longrightarrow> (\<And>x. grows result (n x)) \<Longrightarrow> grows result (case v of None \<Rightarrow> m | Some x \<Rightarrow> n x)"
  by (cases v) simp_all

lemma skip_entry_subset [simp]:
  "set (rr_skipped_entries result) \<subseteq> set (rr_skipped_entries (skip_entry p reason result))"
  by (auto simp: skip_entry_def)

lemma with_output_grows [grows_intros]:
  "(\<And>t. grows result (body t)) \<Longrightarrow> grows result (with_output env path body)"
  unfolding with_output_def by (rule grows_bindp) (auto simp: grows_def split: prod.splits)

lemma with_temporary_path_grows [grows_intros]:
  "(\<And>t. grows result (body t)) \<Longrightarrow> grows result (with_temporary_path path body)"
  unfolding with_temporary_path_def by (rule grows_bindp) (auto simp: grows_def split: prod.splits)

lemma publish_file_grows [grows_intros]: "grows result (publish_file env n planned t warning result)"
  unfolding publish_file_def Let_def
  by (intro grows_intros) (auto simp: skip_entry_def split: option.split)

lemma write_file_grows [grows_intros]: "grows result (write_file env n refs planned result t)"
  unfolding write_file_def Let_def case_prod_unfold by (intro grows_intros)

lemma restore_file_grows: "grows result (restore_file env n refs planned result)"
  unfolding restore_file_def Let_def by (intro grows_intros) simp_all

lemma write_symlink_grows [grows_intros]: "grows result (write_symlink planned target result t)"
  unfolding write_symlink_def Let_def by (intro grows_intros) simp_all

lemma restore_symlink_grows: "grows result (restore_symlink planned result)"
  unfolding restore_symlink_def Let_def by (intro grows_intros) simp_all

lemma restore_directory_metadata_grows: "grows result (restore_directory_metadata planned result)"
  unfolding restore_directory_metadata_def Let_def
  by (intro grows_intros) (auto simp: skip_entry_def split: option.split)

lemma foldp_grows: "(\<And>x result. grows result (step x result)) \<Longrightarrow> grows result (foldp step xs result)"
proof (induction xs arbitrary: result)
  case Nil
  show ?case by (simp add: grows_ret)
next
  case (Cons x xs)
  then show ?case
    unfolding grows_def foldp.simps bindp_def by (fastforce split: prod.splits sum.splits)
qed

lemma foldp_append: "foldp step (xs @ ys) a = bindp (foldp step xs a) (foldp step ys)"
  by (induction xs arbitrary: a) (auto simp: bindp_def ret_def fun_eq_iff split: prod.split sum.split)

lemma grows_mentioned: "grows result m \<Longrightarrow> mentioned result entry \<Longrightarrow> yields m (\<lambda>result' _. mentioned result' entry) s"
  by (fastforce simp: grows_def mentioned_def wp_def split: prod.split sum.split)

text \<open>Once settled, a file stays settled through any step that grows the result and spares the file.\<close>

lemma settled_kept:
  assumes "settled_file env entry result s" and "grows result m"
    and "\<And>D. keeps (on_dest (protects (\<lambda>q. q = dest_key (ei_relative_path entry)) D)) m"
  shows "yields m (settled_file env entry) s"
  using assms(1)
proof
  assume "mentioned result entry"
  from grows_mentioned [OF assms(2) this] show ?thesis by (rule wp_mono) simp_all
next
  assume "on_dest (restored_file (oc_blake3 (re_config env)) entry) s"
  with restored_kept [OF assms(3)] show ?thesis by (rule wp_mono [OF yields_keeps]) simp_all
qed

lemma foldp_settled_kept:
  assumes "settled_file env entry result s" and "\<And>x result. grows result (step x result)"
    and "\<And>x result D. x \<in> set xs \<Longrightarrow>
      keeps (on_dest (protects (\<lambda>q. q = dest_key (ei_relative_path entry)) D)) (step x result)"
  shows "yields (foldp step xs result) (settled_file env entry) s"
  by (rule settled_kept [OF assms(1) foldp_grows [OF assms(2)] keeps_foldp [OF assms(3)]])

section \<open>The whole plan\<close>

abbreviation planned_key :: "PlannedEntry \<Rightarrow> string" where
  "planned_key planned \<equiv> dest_key (ei_relative_path (pl_entry planned))"

lemma distinct_honours:
  "distinct (map planned_key plan) \<Longrightarrow> x \<in> set plan \<Longrightarrow> planned \<in> set plan \<Longrightarrow> x \<noteq> planned \<Longrightarrow>
   honours (\<lambda>q. q = planned_key planned) D x"
  by (auto simp: honours_def Let_def distinct_map inj_on_def)

lemma restore_file_pass_settles:
  assumes "planned \<in> set plan" and "ei_type (pl_entry planned) = regular_file"
    and "distinct (map planned_key plan)"
    and "planned_key planned \<notin> set (temporary_names env (ei_relative_path (pl_entry planned)))"
  shows "yields (foldp (restore_file env n refs) plan result) (settled_file env (pl_entry planned)) s"
proof -
  from assms(1) obtain xs ys where plan: "plan = xs @ planned # ys" by (metis split_list)
  then have "x \<noteq> planned" if "x \<in> set ys" for x
    using assms(3) that by auto
  then have later: "keeps (on_dest (protects (\<lambda>q. q = planned_key planned) D)) (restore_file env n refs x r)"
    if "x \<in> set ys" for x r D
    using that plan by (intro restore_file_keeps distinct_honours [OF assms(3)]) auto
  show ?thesis
    unfolding plan foldp_append foldp.simps
  proof (rule yields_bindp [where Q = "\<lambda>_ _. True"], simp add: wp_def split: prod.split sum.split,
      rule yields_bindp [OF restore_file_settles [OF assms(4)]])
    fix r t
    assume "ei_type (pl_entry planned) = regular_file \<longrightarrow> settled_file env (pl_entry planned) r t"
    then show "yields (foldp (restore_file env n refs) ys r) (settled_file env (pl_entry planned)) t"
      using assms(2) by (intro foldp_settled_kept restore_file_grows later) simp_all
  qed
qed

lemma run_plan_settles:
  assumes "planned \<in> set plan" and "ei_type (pl_entry planned) = regular_file"
    and "distinct (map planned_key plan)"
    and "planned_key planned \<notin> set (temporary_names env (ei_relative_path (pl_entry planned)))"
  shows "yields (run_plan env root refs plan) (settled_file env (pl_entry planned)) s"
proof -
  have symlinks: "keeps (on_dest (protects (\<lambda>q. q = planned_key planned) D)) (restore_symlink x r)"
    if "x \<in> set plan" for x r D
  proof (cases "x = planned")
    case True
    then show ?thesis using assms(2) by (simp add: restore_symlink_def Let_def keeps_ret)
  next
    case False
    then show ?thesis by (intro restore_symlink_keeps distinct_honours [OF assms(3) that assms(1)])
  qed
  have trivial: "yields m (\<lambda>_ _. True) t" for m :: "(restore_state, 'b) proc" and t
    by (simp add: wp_def split: prod.split sum.split)
  note symlink_pass = foldp_settled_kept [OF _ restore_symlink_grows symlinks]
    and metadata_pass = foldp_settled_kept [OF _ restore_directory_metadata_grows restore_directory_metadata_keeps]
  have last: "yields (seqp (report_progress env phase root r (word_of_nat (length plan))) (ret r))
      (settled_file env (pl_entry planned)) t" if "settled_file env (pl_entry planned) r t" for phase r t
    using that by (rule settled_kept) (intro grows_intros subset_refl keeps_intros)+
  show ?thesis
    unfolding run_plan_def Let_def
    by (rule yields_seqp [OF trivial], rule yields_seqp [OF trivial], rule yields_bindp [OF trivial],
        rule yields_bindp [OF restore_file_pass_settles [OF assms]], rule yields_bindp [OF symlink_pass],
        assumption, assumption, rule yields_bindp [OF metadata_pass], assumption, rule last)
qed

lemma plan_entries_entries:
  "yields (plan_entries request root es skipped) (\<lambda>plan _. map pl_entry plan = es) f"
proof (induction es arbitrary: skipped f)
  case Nil
  show ?case by (simp add: wp_ret)
next
  case (Cons entry es)
  have "yields (plan_entry request root entry) (\<lambda>planned _. pl_entry planned = entry) g" for g
    by (auto simp: plan_entry_def wp_def bindp_def seqp_def ret_def split: prod.split sum.split)
  then show ?case
    by (auto simp: wp_ret intro!: yields_bindp [OF Cons.IH] yields_bindp [of "plan_entry request root entry"])
qed

lemma build_plan_entries:
  "yields (build_plan request root selected)
     (\<lambda>plan _. set (map pl_entry plan) = set selected \<and>
        (distinct (map (\<lambda>e. dest_key (ei_relative_path e)) selected) \<longrightarrow> distinct (map planned_key plan))) f"
  unfolding build_plan_def
proof (rule wp_mono [OF plan_entries_entries])
  fix plan :: "PlannedEntry list" and g :: fs
  let ?key = "\<lambda>entry. (path_depth (ei_relative_path entry), path_key (ei_relative_path entry))"
  assume plan: "map pl_entry plan = sort_key ?key selected"
  have "map planned_key plan = map (\<lambda>e. dest_key (ei_relative_path e)) (map pl_entry plan)" by simp
  also have "mset \<dots> = mset (map (\<lambda>e. dest_key (ei_relative_path e)) selected)"
    unfolding plan mset_map mset_sort ..
  finally have "distinct (map planned_key plan) = distinct (map (\<lambda>e. dest_key (ei_relative_path e)) selected)"
    by (rule mset_eq_imp_distinct_iff)
  then show "set (map pl_entry plan) = set selected \<and>
      (distinct (map (\<lambda>e. dest_key (ei_relative_path e)) selected) \<longrightarrow> distinct (map planned_key plan))"
    unfolding plan by simp
qed simp

section \<open>From the stored rows to the destination\<close>

definition on_repository :: "(repository \<Rightarrow> bool) \<Rightarrow> restore_state \<Rightarrow> bool" where
  "on_repository P s \<longleftrightarrow> P (rt_repository s)"

lemma keeps_on_repository [keeps_intros]: "keeps P m \<Longrightarrow> keeps (on_repository P) (in_repository m)"
  by (auto simp: keeps_def in_repository_def on_repository_def split: prod.split)

lemma keeps_repository_check_cancelled [keeps_intros]: "keeps (on_repository P) check_cancelled"
  by (simp add: keeps_def check_cancelled_def on_repository_def)

text \<open>The entries of a complete snapshot as the reader returns them.\<close>

definition stored_entries :: "SnapshotId \<Rightarrow> tables \<Rightarrow> exn + EntryInfo list" where
  "stored_entries sid t = mapE read_entry (sort_key en_relative_path (complete_entries sid t))"

lemma frozen_stored_entries: "frozen sid V t \<Longrightarrow> frozen sid V t' \<Longrightarrow> stored_entries sid t = stored_entries sid t'"
  by (simp add: stored_entries_def complete_entries_view)

lemma list_entries_stored: "yields (list_entries sid) (\<lambda>es _. stored_entries sid (db c) = Inr es) c"
  by (auto simp: wp_def list_entries_def bindp_def query_def sql_def liftp_def stored_entries_def Let_def
      split: prod.splits sum.splits option.splits)

lemma restore_inputs_selected:
  assumes "on_repository (on_conn (on_db (frozen (rq_snapshot_id request) V))) s"
    and "frozen (rq_snapshot_id request) V t" and "stored_entries (rq_snapshot_id request) t = Inr es"
    and "select_entries es (rq_relative_paths request) = Inr selected"
  shows "yields (restore_inputs env request) (\<lambda>r _. fst r = selected) s"
proof -
  let ?sid = "rq_snapshot_id request"
  let ?I = "on_repository (on_conn (on_db (frozen ?sid V)))"
  have recovery: "keeps ?I (in_repository (recover_after_writer_lock (re_now env)))"
    "keeps ?I (in_repository (in_conn (require_complete_snapshot ?sid)))"
    by (intro keeps_on_repository frozen.recover_after_writer_lock_keeps keeps_intros)+
  have listing: "yields (in_repository (in_conn (list_entries ?sid))) (\<lambda>r _. r = es) u" if "?I u" for u
  proof -
    have "stored_entries ?sid (db (r_conn (rt_repository u))) = Inr es"
      using frozen_stored_entries [OF _ assms(2), of "db (r_conn (rt_repository u))"] that assms(3)
      by (simp add: on_repository_def on_conn_def on_db_def)
    then show ?thesis
      using list_entries_stored [of ?sid "r_conn (rt_repository u)"]
      by (auto simp: wp_def in_repository_def in_conn_def split: prod.split sum.split)
  qed
  have trivial: "yields m (\<lambda>_ _. True) u" for m :: "(restore_state, 'b) proc" and u
    by (simp add: wp_def split: prod.split sum.split)
  show ?thesis
    unfolding restore_inputs_def
    by (rule yields_keeps_seqp [OF recovery(1) assms(1)], rule yields_keeps_seqp [OF recovery(2)], assumption,
        rule yields_bindp [OF listing], assumption, rule yields_seqp [OF trivial], rule yields_liftp_bindp,
        rule yields_seqp [OF trivial], rule yields_bindp [OF trivial]) (use assms(4) in \<open>auto simp: wp_ret\<close>)
qed

lemma build_plan_includes:
  assumes "distinct (map (\<lambda>e. dest_key (ei_relative_path e)) selected)" and "entry \<in> set selected"
  shows "yields (in_dest (build_plan request root selected))
    (\<lambda>plan _. \<exists>planned \<in> set plan. pl_entry planned = entry \<and> distinct (map planned_key plan)) u"
  unfolding yields_in_dest
proof (rule wp_mono [OF build_plan_entries])
  fix plan :: "PlannedEntry list" and f
  assume p: "set (map pl_entry plan) = set selected \<and>
    (distinct (map (\<lambda>e. dest_key (ei_relative_path e)) selected) \<longrightarrow> distinct (map planned_key plan))"
  then have "entry \<in> pl_entry ` set plan" using assms(2) by simp
  then obtain planned where "planned \<in> set plan" "pl_entry planned = entry" by blast
  then show "\<exists>planned \<in> set plan. pl_entry planned = entry \<and> distinct (map planned_key plan)"
    using p assms(1) by auto
qed simp

text \<open>
  [C4] A restore that returns has delivered: for every regular file that the request selects from the
  stored rows of a complete snapshot, either the result mentions the file among the skipped entries, or
  the destination holds a file at its path whose length is the recorded size and whose BLAKE3
  identifier is the recorded hash. No chunk is lost, reordered or doubled on the way, and neither the
  other entries nor the clean-up of temporary files undo it. The stored paths name distinct places and the
  random temporary names differ from the file's own path.
\<close>

theorem restore_delivers:
  assumes "restore env request s = (Inr result, s')"
    and "schema_ok (db (r_conn (rt_repository s)))" and "saved (r_conn (rt_repository s)) = None"
    and "snapshot_has_status (db (r_conn (rt_repository s))) (rq_snapshot_id request) [''complete'']"
    and "stored_entries (rq_snapshot_id request) (db (r_conn (rt_repository s))) = Inr es"
    and "select_entries es (rq_relative_paths request) = Inr selected"
    and "distinct (map (\<lambda>e. dest_key (ei_relative_path e)) selected)"
    and "entry \<in> set selected" and "ei_type entry = regular_file"
    and "dest_key (ei_relative_path entry) \<notin> set (temporary_names env (ei_relative_path entry))"
  shows "mentioned result entry \<or> restored_file (oc_blake3 (re_config env)) entry (rt_dest s')"
proof -
  let ?t = "db (r_conn (rt_repository s))" and ?sid = "rq_snapshot_id request"
  let ?V = "published_view ?sid ?t"
  let ?I = "on_repository (on_conn (on_db (frozen ?sid ?V)))"
  have frozen: "frozen ?sid ?V ?t" using assms(2,4) by (simp add: frozen_def)
  then have start: "?I s"
    using assms(3) by (simp add: on_repository_def on_conn_def on_db_def committed_def)
  note inputs = restore_inputs_selected [OF _ frozen assms(5,6)]
  have trivial: "yields m (\<lambda>_ _. True) u" for m :: "(restore_state, 'b) proc" and u
    by (simp add: wp_def split: prod.split sum.split)
  note plan = build_plan_includes [OF assms(7,8), of request]
  have run: "yields (run_plan env root refs plan) (settled_file env entry) u"
    if "\<exists>planned \<in> set plan. pl_entry planned = entry \<and> distinct (map planned_key plan)" for root refs plan u
    using that run_plan_settles [of _ plan env root refs u] assms(9,10) by auto
  have gets: "keeps ?I (gets f)" for f :: "restore_state \<Rightarrow> 'd"
    by (rule keeps_gets)
  have guards: "keeps ?I (guardp b c m)" "keeps ?I check_cancelled" for b c m
    by (intro keeps_intros)+
  have lifts: "keeps ?I (liftp r)" for r :: "exn + 'c"
    by (rule keeps_liftp)
  have body: "yields (seqp (in_dest create_destination)
      (bindp (in_dest (build_plan request root sel)) (run_plan env root refs))) (settled_file env entry) u"
    if "sel = selected" for root sel refs u
    unfolding that by (rule yields_seqp [OF trivial], rule yields_bindp [OF plan], erule run)
  have "yields (restore env request) (settled_file env entry) s"
    unfolding restore_def case_prod_unfold
    by (rule yields_keeps_bindp [OF gets start], rule yields_keeps_seqp [OF guards(1)], assumption,
        rule yields_keeps_seqp [OF guards(1)], assumption, rule yields_keeps_seqp [OF guards(2)], assumption,
        rule yields_keeps_bindp [OF lifts], assumption, rule yields_keeps_seqp [OF lifts], assumption,
        rule yields_bindp [OF inputs], assumption, erule body)
  then show ?thesis
    using assms(1) by (auto simp: wp_def on_dest_def)
qed

section \<open>The repository during a restore\<close>

lemma keeps_repository_in_dest [keeps_intros]: "keeps (on_repository P) (in_dest m)"
  by (auto simp: keeps_def in_dest_def on_repository_def split: prod.split)

lemma keeps_repository_read_object [keeps_intros]: "keeps (on_repository P) (read_object env chunk)"
  by (auto simp: keeps_def read_object_def on_repository_def split: prod.split)

lemma keeps_repository_report_progress [keeps_intros]:
  "keeps (on_repository P) (report_progress env phase p result n)"
  by (auto simp: report_progress_def Let_def on_repository_def split: option.split intro!: keeps_intros)

lemma keeps_repository_metadata_warning [keeps_intros]: "keeps (on_repository P) (metadata_warning msg m)"
  unfolding metadata_warning_def by (auto intro!: keeps_intros split: exn.split)

lemma keeps_repository_temporaries [keeps_intros]:
  assumes "\<And>t. keeps (on_repository P) (body t)"
  shows "keeps (on_repository P) (with_output env path body)"
    and "keeps (on_repository P) (with_temporary_path path body)"
proof -
  have drop: "keeps (on_repository P)
      (\<lambda>s. case body t s of (r, s') \<Rightarrow> (r, s'\<lparr>rt_dest := drop_temporary t (rt_dest s')\<rparr>))" for t
    using assms [of t] by (simp add: keeps_def on_repository_def case_prod_beta)
  have "keeps (on_repository P) (unique_temporary_path attempts path)" for attempts path
  proof (induction attempts arbitrary: path)
    case (Suc attempts)
    show ?case
      unfolding unique_temporary_path.simps Let_def
      by (intro keeps_intros Suc) (simp add: on_repository_def)
  qed (simp add: keeps_raise_lv)
  then show "keeps (on_repository P) (with_output env path body)"
    and "keeps (on_repository P) (with_temporary_path path body)"
    unfolding with_output_def with_temporary_path_def by (intro keeps_bindp keeps_repository_in_dest drop)+
qed

lemma keeps_repository_chunks [keeps_intros]:
  "(\<And>point. keeps P (in_conn (hit point))) \<Longrightarrow>
   keeps (on_repository P) (restore_chunks env output refs hashed written)"
  by (induction refs arbitrary: hashed written) (auto intro!: keeps_intros keeps_on_repository)

lemma restore_keeps_repository:
  assumes "keeps P (recover_after_writer_lock (re_now env))" and "\<And>point. keeps P (in_conn (hit point))"
    and "\<And>i. keeps P (in_conn (require_complete_snapshot i))" and "\<And>i. keeps P (in_conn (list_entries i))"
    and "\<And>i. keeps P (in_conn (list_entry_chunks i))"
  shows "keeps (on_repository P) (restore env request)"
proof -
  have "keeps (on_repository P) (collect_chunks chunk_size es)" for chunk_size es
    by (induction es) (auto intro!: keeps_intros keeps_on_repository assms)
  then have inputs: "keeps (on_repository P) (restore_inputs env request)"
    unfolding restore_inputs_def by (intro keeps_intros keeps_on_repository assms)
  have "keeps (on_repository P) (restore_directory planned r)"
    "keeps (on_repository P) (restore_file env n refs planned r)"
    "keeps (on_repository P) (restore_symlink planned r)"
    "keeps (on_repository P) (restore_directory_metadata planned r)" for planned r n refs
    unfolding restore_directory_def restore_file_def restore_symlink_def restore_directory_metadata_def
      write_file_def write_symlink_def publish_file_def Let_def case_prod_unfold
    by (intro keeps_intros assms)+
  then have "keeps (on_repository P) (run_plan env root refs plan)" for root refs plan
    unfolding run_plan_def Let_def by (intro keeps_intros keeps_foldp)
  then show ?thesis
    unfolding restore_def case_prod_unfold by (intro keeps_intros inputs)
qed

text \<open>
  [C20] A restore only reads the vault: on every exit, and although it may first have to recover from
  an earlier crash, each snapshot that was complete before is still complete with all its rows, chunk
  references and chunk rows, and the committed tables satisfy the schema.
\<close>

theorem restore_spares_snapshots:
  assumes "restore env request s = (r, s')" and "schema_ok (db (r_conn (rt_repository s)))"
    and "saved (r_conn (rt_repository s)) = None"
    and "snapshot_has_status (db (r_conn (rt_repository s))) sid [''complete'']"
  shows "schema_ok (committed (r_conn (rt_repository s'))) \<and>
    snapshot_has_status (committed (r_conn (rt_repository s'))) sid [''complete''] \<and>
    published_view sid (committed (r_conn (rt_repository s'))) =
      published_view sid (db (r_conn (rt_repository s)))"
proof -
  let ?V = "published_view sid (db (r_conn (rt_repository s)))"
  let ?P = "on_conn (on_db (frozen sid ?V))"
  have kept: "keeps (on_repository ?P) (restore env request)"
    by (rule restore_keeps_repository) (intro keeps_intros frozen.recover_after_writer_lock_keeps)+
  have "on_repository ?P s"
    using assms(2-4) by (simp add: on_repository_def on_conn_def on_db_def committed_def frozen_def)
  from keepsD [OF kept this assms(1)] show ?thesis
    by (simp add: on_repository_def on_conn_def on_db_def frozen_def)
qed

section \<open>The small restore, step by step\<close>

lemmas fs_runs = syscall_def interfere_def node_type_def inspect_path_no_follow_def [THEN fun_cong]
  existing_status_def [THEN fun_cong] safe_walk.simps [THEN fun_cong]
  require_safe_ancestors_def [THEN fun_cong] require_real_directory_def [THEN fun_cong]
  create_temporary.simps(3) [where attempts = 99, simplified, THEN fun_cong]
  temporary_sync_def [THEN fun_cong] apply_metadata_def [THEN fun_cong]
  apply_restored_metadata_def [THEN fun_cong] change_mode_def [THEN fun_cong] change_time_def [THEN fun_cong]
  publish_def [THEN fun_cong] flush_containing_directory_def [THEN fun_cong] rename_path_def
  validate_posix_mode_def restored_modification_time_def trunc_div_def trunc_mod_def path_taken_def
  drop_temporary_def

lemmas restore_runs = run_plan_def [THEN fun_cong] foldp.simps [THEN fun_cong] build_plan_def [THEN fun_cong]
  plan_entries.simps [THEN fun_cong] plan_entry_def [THEN fun_cong] restore_directory_def [THEN fun_cong]
  restore_symlink_def [THEN fun_cong] restore_directory_metadata_def [THEN fun_cong]
  restore_file_def [THEN fun_cong] with_output_def [THEN fun_cong] write_file_def [THEN fun_cong]
  restore_chunks.simps [THEN fun_cong] in_dest_def in_repository_def in_conn_def check_cancelled_def
  metadata_warning_def [THEN fun_cong] publish_file_def [THEN fun_cong]
  report_progress_def [THEN fun_cong] create_destination_def [THEN fun_cong]
  collect_chunks.simps [THEN fun_cong] checked_add_def conflict_action_def

definition demo_info :: "int \<Rightarrow> string \<Rightarrow> EntryType \<Rightarrow> EntryInfo" where
  "demo_info i path kind = (demo_entry i path kind)\<lparr>ei_file_hash_hex :=
     (if kind = regular_file then Some (hash_raw demo_blake3 []) else None)\<rparr>"

definition demo_infos :: "EntryInfo list" where
  "demo_infos = [demo_info 1 [] directory, demo_info 2 ''a'' regular_file, demo_info 3 ''k'' regular_file]"

lemma demo_infos_stored: "stored_entries 1 demo_restore_tables = Inr demo_infos"
  by (simp add: stored_entries_def demo_infos_def demo_restore_tables_def demo_tables_def complete_entries_def
      snapshot_has_status_def demo_row_def read_entry_def demo_info_def demo_entry_def
      entry_type_from_storage_def checked_byte_count_def checked_uint32_def)

lemma demo_env_simps:
  "re_config demo_restore_env = demo_config" "re_progress demo_restore_env = None"
  "re_lock demo_restore_env = Inr ()" "rq_snapshot_id demo_request = 1" "rq_relative_paths demo_request = []"
  "rq_overwrite_policy demo_request = P_never" "oc_blake3 demo_config = demo_blake3"
  "oc_maximum_chunk_size demo_config = 4194304"
  by (simp_all add: demo_restore_env_def demo_request_def demo_config_def)

lemma demo_paths:
  "temporary_names demo_restore_env ''a'' = [''.localvault-restore-01.tmp'']"
  "temporary_names demo_restore_env ''k'' = [''.localvault-restore-01.tmp'']"
  "dest_key ''a'' = ''a''" "components (parent_path ''a'') = []" "dest_key ''k'' = ''k''"
  "components (parent_path ''k'') = []" "path_depth [] = 0" "path_depth ''a'' = 1" "path_depth ''k'' = 1"
  "dest_key [] = []" "components (parent_path []) = []"
  by code_simp+

lemma demo_destination: "destination_root demo_restore_env demo_request = Inr ''/out''"
  by code_simp

lemma demo_selected:
  "validate_entries demo_infos = Inr ()" "select_entries demo_infos [] = Inr demo_infos"
  "validate_selected_file_hashes demo_infos = Inr ()"
  by code_simp+

lemma demo_info_simps:
  "ei_id (demo_info i p ty) = i" "ei_relative_path (demo_info i p ty) = p" "ei_type (demo_info i p ty) = ty"
  "ei_logical_size (demo_info i p ty) = 0" "ei_posix_mode (demo_info i p ty) = 0"
  "ei_modified_time_ns (demo_info i p ty) = 0"
  "ei_file_hash_hex (demo_info i p regular_file) = Some (hash_raw demo_blake3 [])"
  by (simp_all add: demo_info_def demo_entry_def)

lemma demo_rows:
  "filter (\<lambda>s. sn_id s = 1 \<and> sn_status s = ''complete'') (snapshots demo_restore_tables) =
     [hd (snapshots demo_restore_tables)]"
  "chunk_reference_rows i demo_restore_tables = []"
  "\<exists>x. read_snapshot (hd (snapshots demo_restore_tables)) = Inr x"
  by (simp_all add: demo_restore_tables_def demo_tables_def chunk_reference_rows_def read_snapshot_def
      checked_byte_count_def checked_uint64_def snapshot_status_from_storage_def)

lemma demo_chunks: "validate_chunks (demo_info i p regular_file) [] n = Inr ()"
  by (simp add: validate_chunks_def demo_info_def demo_entry_def)

lemma demo_sorted:
  "sort_key (\<lambda>entry. (path_depth (ei_relative_path entry), ei_relative_path entry)) demo_infos = demo_infos"
  by (simp add: demo_infos_def demo_info_simps demo_paths)

lemma demo_unfold:
  "collect_chunks n demo_infos s = collect_chunks n [demo_info 1 [] directory,
     demo_info 2 ''a'' regular_file, demo_info 3 ''k'' regular_file] s"
  "plan_entries q root demo_infos sk f = plan_entries q root [demo_info 1 [] directory,
     demo_info 2 ''a'' regular_file, demo_info 3 ''k'' regular_file] sk f"
  by (simp_all add: demo_infos_def)

lemmas demo_facts = demo_unfold demo_info_simps demo_env_simps path_key_def empty_result_def demo_paths
  checked_maximum_chunk_size_def demo_destination [unfolded destination_root_def] demo_selected
  demo_infos_stored [unfolded stored_entries_def] demo_rows(1,2) demo_chunks demo_sorted

lemma demo_restore_result:
  "\<exists>result. fst (restore demo_restore_env demo_request demo_restore_state) = Inr result \<and>
     map sk_relative_path (rr_skipped_entries result) = [''k'']"
proof -
  obtain x where x: "read_snapshot (hd (snapshots demo_restore_tables)) = Inr x" using demo_rows(3) ..
  show ?thesis
    by (simp add: restore_def [THEN fun_cong] restore_inputs_def [THEN fun_cong] restore_runs fs_runs run_simps
        recover_after_writer_lock_def [THEN fun_cong] require_complete_snapshot_def [THEN fun_cong]
        list_entries_def [THEN fun_cong] list_entry_chunks_def [THEN fun_cong] query_def [THEN fun_cong] sql_def
        next_tick_def demo_facts x demo_restore_state_def crashed_repository_def quiet_def demo_fs_def
        skip_entry_def cong: run_congs)
qed

lemma demo_restore_tables_ok:
  "schema_ok demo_restore_tables" "snapshot_has_status demo_restore_tables 1 [''complete'']"
  by (simp_all add: schema_defs demo_restore_tables_def demo_tables_def demo_row_def status_values_def
      entry_type_values_def snapshot_has_status_def)

theorem restore_spares_snapshots_witness:
  "published_view 1 (committed (r_conn (rt_repository
     (snd (restore demo_restore_env demo_request demo_restore_state))))) = published_view 1 demo_restore_tables"
  using restore_spares_snapshots [OF prod.collapse [symmetric], of demo_restore_state 1 demo_restore_env demo_request]
  by (simp add: demo_restore_state_def demo_restore_tables_ok)

text \<open>The free name gets the file, the name in use is reported.\<close>

theorem restore_delivers_witness:
  "restored_file demo_blake3 (demo_info 2 ''a'' regular_file)
     (rt_dest (snd (restore demo_restore_env demo_request demo_restore_state)))"
proof -
  obtain result where r: "fst (restore demo_restore_env demo_request demo_restore_state) = Inr result"
      "map sk_relative_path (rr_skipped_entries result) = [''k'']"
    using demo_restore_result by (elim exE conjE)
  have run: "restore demo_restore_env demo_request demo_restore_state =
      (Inr result, snd (restore demo_restore_env demo_request demo_restore_state))"
    by (rule prod_eqI) (simp_all only: r(1) fst_conv snd_conv)
  have db: "r_conn (rt_repository demo_restore_state) = quiet demo_restore_tables"
    by (simp add: demo_restore_state_def)
  have "\<not> mentioned result (demo_info 2 ''a'' regular_file)"
    unfolding mentioned_def list.set_map [symmetric] r(2) by (simp add: demo_info_simps)
  then show ?thesis
    using restore_delivers [OF run, of demo_infos demo_infos "demo_info 2 ''a'' regular_file"]
    by (simp add: db demo_restore_tables_ok demo_env_simps demo_infos_stored demo_selected demo_info_simps demo_paths)
      (simp add: demo_infos_def demo_info_simps demo_paths)
qed

end
