(* ===== verification/Pipeline.thy ===== *)
theory Pipeline
  imports Bounded_Queue
begin

text \<open>
  The threads of \<^verbatim>\<open>SnapshotEngine::create_snapshot\<close> (\<^verbatim>\<open>src/core/snapshot_engine.cpp\<close>):
  a scanner feeds a bounded queue of jobs, workers turn jobs into results and feed a second bounded
  queue, one writer drains it. The first error, or a cancellation, stops everything. A step is what one
  thread does between two points at which others can interfere: one queue operation, or the work on one
  item; what is done to the rest of the world is a procedure on a shared state.
\<close>

section \<open>Threads\<close>

record ('s, 'j, 'r) code =
  cd_discover :: "'j \<Rightarrow> ('s, unit) proc"
  cd_scanned :: "('s, unit) proc"
  cd_work :: "nat \<Rightarrow> 'j \<Rightarrow> ('s, 'r) proc"
  cd_begin :: "('s, unit) proc"
  cd_write :: "'r \<Rightarrow> ('s, unit) proc"
  cd_flush :: "('s, unit) proc"
  cd_abandon :: "('s, unit) proc"
  cd_cancel :: "('s, unit) proc"

text \<open>The scanner has callbacks still to make and then returns or throws; it is between two of them, or
  offers the job of one to the queue.\<close>

datatype 'j scanner = Scanning "'j list" "exn option" | Offering 'j "'j list" "exn option" | Scanner_left

datatype ('j, 'r) worker_thread = Taking | Working 'j | Giving 'r | Worker_left

datatype 'r writer = Starting | Popping | Writing 'r | Writer_left

text \<open>The last two fields record what has happened: the jobs done with their results, and the results
  written.\<close>

record ('s, 'j, 'r) pipeline =
  pp_shared :: 's
  pp_scanner :: "'j scanner"
  pp_jobs :: "'j queue"
  pp_workers :: "('j, 'r) worker_thread list"
  pp_active :: nat
  pp_processed :: "'r queue"
  pp_writer :: "'r writer"
  pp_stop :: bool
  pp_error :: "exn option"
  pp_done :: "('j \<times> 'r) list"
  pp_written :: "'r list"

abbreviation cancelled_error :: exn where
  "cancelled_error \<equiv> Lv (LocalVaultError E_cancelled ''snapshot cancelled'')"

definition shutdown :: "('s, 'j, 'r) code \<Rightarrow> exn \<Rightarrow> ('s, 'j, 'r) pipeline \<Rightarrow> ('s, 'j, 'r) pipeline" where
  "shutdown code e p =
     p\<lparr>pp_error := (case pp_error p of None \<Rightarrow> Some e | Some first \<Rightarrow> Some first), pp_stop := True,
       pp_jobs := close (pp_jobs p), pp_processed := close (pp_processed p),
       pp_shared := snd (cd_cancel code (pp_shared p))\<rparr>"

definition rejected :: "bool \<Rightarrow> string \<Rightarrow> exn" where
  "rejected stop queue_name =
     (if stop then cancelled_error
      else Lv (LocalVaultError E_internal_error (queue_name @ '' rejected a pipeline item'')))"

section \<open>Steps\<close>

definition scanner_leaves :: "('s, 'j, 'r) pipeline \<Rightarrow> ('s, 'j, 'r) pipeline" where
  "scanner_leaves p = p\<lparr>pp_scanner := Scanner_left\<rparr>"

definition scanner_step :: "('s, 'j, 'r) code \<Rightarrow> ('s, 'j, 'r) pipeline \<Rightarrow> ('s, 'j, 'r) pipeline option" where
  "scanner_step code p =
     (case pp_scanner p of
        Scanner_left \<Rightarrow> None
      | Scanning [] ending \<Rightarrow>
          (case ending of
             Some e \<Rightarrow> Some (shutdown code e (scanner_leaves p))
           | None \<Rightarrow>
               (case cd_scanned code (pp_shared p) of
                  (Inl e, s) \<Rightarrow> Some (shutdown code e (scanner_leaves (p\<lparr>pp_shared := s\<rparr>)))
                | (Inr _, s) \<Rightarrow>
                    Some (scanner_leaves (p\<lparr>pp_shared := s, pp_jobs := close (pp_jobs p)\<rparr>))))
      | Scanning (job # todo) ending \<Rightarrow>
          if pp_stop p then Some (shutdown code cancelled_error (scanner_leaves p))
          else
            (case cd_discover code job (pp_shared p) of
               (Inl e, s) \<Rightarrow> Some (shutdown code e (scanner_leaves (p\<lparr>pp_shared := s\<rparr>)))
             | (Inr _, s) \<Rightarrow> Some (p\<lparr>pp_shared := s, pp_scanner := Offering job todo ending\<rparr>))
      | Offering job todo ending \<Rightarrow>
          (case push_impl (pp_stop p) (pp_stop p) (pp_stop p) (pp_stop p) job (pp_jobs p) of
             Blocked \<Rightarrow> None
           | Returned pushed jobs \<Rightarrow>
               if pushed then Some (p\<lparr>pp_jobs := jobs, pp_scanner := Scanning todo ending\<rparr>)
               else Some (shutdown code (rejected (pp_stop p) ''file-job queue'') (scanner_leaves p))))"

text \<open>The last worker to leave closes the queue of results.\<close>

definition worker_leaves :: "nat \<Rightarrow> ('s, 'j, 'r) pipeline \<Rightarrow> ('s, 'j, 'r) pipeline" where
  "worker_leaves i p =
     p\<lparr>pp_workers := (pp_workers p)[i := Worker_left], pp_active := pp_active p - 1,
       pp_processed := (if pp_active p = 1 then close (pp_processed p) else pp_processed p)\<rparr>"

definition worker_step ::
  "('s, 'j, 'r) code \<Rightarrow> nat \<Rightarrow> ('s, 'j, 'r) pipeline \<Rightarrow> ('s, 'j, 'r) pipeline option" where
  "worker_step code i p =
     (if length (pp_workers p) \<le> i then None
      else case pp_workers p ! i of
        Worker_left \<Rightarrow> None
      | Taking \<Rightarrow>
          (case pop (pp_stop p) (pp_stop p) (pp_jobs p) of
             Blocked \<Rightarrow> None
           | Returned None jobs \<Rightarrow> Some (worker_leaves i p)
           | Returned (Some job) jobs \<Rightarrow>
               Some (p\<lparr>pp_jobs := jobs, pp_workers := (pp_workers p)[i := Working job]\<rparr>))
      | Working job \<Rightarrow>
          (case cd_work code i job (pp_shared p) of
             (Inl e, s) \<Rightarrow> Some (worker_leaves i (shutdown code e (p\<lparr>pp_shared := s\<rparr>)))
           | (Inr result, s) \<Rightarrow>
               Some (p\<lparr>pp_shared := s, pp_workers := (pp_workers p)[i := Giving result],
                       pp_done := pp_done p @ [(job, result)]\<rparr>))
      | Giving result \<Rightarrow>
          (case push_impl (pp_stop p) (pp_stop p) (pp_stop p) (pp_stop p) result (pp_processed p) of
             Blocked \<Rightarrow> None
           | Returned pushed processed \<Rightarrow>
               if pushed then Some (p\<lparr>pp_processed := processed, pp_workers := (pp_workers p)[i := Taking]\<rparr>)
               else Some (worker_leaves i (shutdown code (rejected (pp_stop p) ''processed-entry queue'') p))))"

definition writer_leaves :: "('s, 'j, 'r) pipeline \<Rightarrow> ('s, 'j, 'r) pipeline" where
  "writer_leaves p = p\<lparr>pp_writer := Writer_left\<rparr>"

text \<open>When the writer leaves early its open batch is given up.\<close>

definition writer_fails :: "('s, 'j, 'r) code \<Rightarrow> exn \<Rightarrow> ('s, 'j, 'r) pipeline \<Rightarrow> ('s, 'j, 'r) pipeline" where
  "writer_fails code e p =
     writer_leaves (shutdown code e (p\<lparr>pp_shared := snd (cd_abandon code (pp_shared p))\<rparr>))"

definition writer_step :: "('s, 'j, 'r) code \<Rightarrow> ('s, 'j, 'r) pipeline \<Rightarrow> ('s, 'j, 'r) pipeline option" where
  "writer_step code p =
     (case pp_writer p of
        Writer_left \<Rightarrow> None
      | Starting \<Rightarrow>
          (case cd_begin code (pp_shared p) of
             (Inl e, s) \<Rightarrow> Some (writer_leaves (shutdown code e (p\<lparr>pp_shared := s\<rparr>)))
           | (Inr _, s) \<Rightarrow> Some (p\<lparr>pp_shared := s, pp_writer := Popping\<rparr>))
      | Popping \<Rightarrow>
          (case pop (pp_stop p) (pp_stop p) (pp_processed p) of
             Blocked \<Rightarrow> None
           | Returned (Some result) processed \<Rightarrow>
               Some (p\<lparr>pp_processed := processed, pp_writer := Writing result\<rparr>)
           | Returned None processed \<Rightarrow>
               if pp_stop p
               then Some (writer_leaves (p\<lparr>pp_shared := snd (cd_abandon code (pp_shared p))\<rparr>))
               else (case cd_flush code (pp_shared p) of
                       (Inl e, s) \<Rightarrow> Some (writer_fails code e (p\<lparr>pp_shared := s\<rparr>))
                     | (Inr _, s) \<Rightarrow> Some (writer_leaves (p\<lparr>pp_shared := s\<rparr>))))
      | Writing result \<Rightarrow>
          (case cd_write code result (pp_shared p) of
             (Inl e, s) \<Rightarrow> Some (writer_fails code e (p\<lparr>pp_shared := s\<rparr>))
           | (Inr _, s) \<Rightarrow>
               Some (p\<lparr>pp_shared := s, pp_writer := Popping, pp_written := pp_written p @ [result]\<rparr>)))"

text \<open>What can move next: a thread, or an interruption from outside (cancellation by the caller, a
  progress callback that throws).\<close>

datatype choice = Scanner | Worker nat | Writer | Interrupt exn

fun pipeline_step ::
  "('s, 'j, 'r) code \<Rightarrow> choice \<Rightarrow> ('s, 'j, 'r) pipeline \<Rightarrow> ('s, 'j, 'r) pipeline option" where
  "pipeline_step code Scanner p = scanner_step code p"
| "pipeline_step code (Worker i) p = worker_step code i p"
| "pipeline_step code Writer p = writer_step code p"
| "pipeline_step code (Interrupt e) p = (if pp_stop p then None else Some (shutdown code e p))"

definition joined :: "('s, 'j, 'r) pipeline \<Rightarrow> bool" where
  "joined p \<longleftrightarrow> pp_scanner p = Scanner_left \<and> list_all (\<lambda>w. w = Worker_left) (pp_workers p) \<and>
     pp_writer p = Writer_left"

definition start_pipeline ::
  "'s \<Rightarrow> 'j list \<Rightarrow> exn option \<Rightarrow> nat \<Rightarrow> 'j queue \<Rightarrow> 'r queue \<Rightarrow> ('s, 'j, 'r) pipeline" where
  "start_pipeline s todo ending worker_count jobs processed =
     \<lparr>pp_shared = s, pp_scanner = Scanning todo ending, pp_jobs = jobs,
      pp_workers = replicate worker_count Taking, pp_active = worker_count, pp_processed = processed,
      pp_writer = Starting, pp_stop = False, pp_error = None, pp_done = [], pp_written = []\<rparr>"

text \<open>A schedule is a sequence of choices; a choice that cannot move is passed over.\<close>

definition schedule :: "('s, 'j, 'r) code \<Rightarrow> choice list \<Rightarrow> ('s, 'j, 'r) pipeline \<Rightarrow> ('s, 'j, 'r) pipeline" where
  "schedule code choices p =
     fold (\<lambda>c p. case pipeline_step code c p of None \<Rightarrow> p | Some p' \<Rightarrow> p') choices p"

inductive pipeline_run ::
  "('s, 'j, 'r) code \<Rightarrow> ('s, 'j, 'r) pipeline \<Rightarrow> nat \<Rightarrow> ('s, 'j, 'r) pipeline \<Rightarrow> bool" for code p0 where
  no_step: "pipeline_run code p0 0 p0"
| one_more: "pipeline_run code p0 n p \<Longrightarrow> pipeline_step code c p = Some p' \<Longrightarrow> pipeline_run code p0 (Suc n) p'"

section \<open>Invariant\<close>

lemma sum_list_map_update:
  fixes g :: "'a \<Rightarrow> 'm :: comm_monoid_add"
  shows "i < length ws \<Longrightarrow> sum_list (map g (ws[i := x])) + g (ws ! i) = sum_list (map g ws) + g x"
proof (induction ws arbitrary: i)
  case (Cons w ws)
  show ?case
  proof (cases i)
    case 0
    then show ?thesis by (simp add: ac_simps)
  next
    case (Suc k)
    then have "sum_list (map g (ws[k := x])) + g (ws ! k) = sum_list (map g ws) + g x" using Cons by simp
    then show ?thesis using Suc by (simp add: add.assoc)
  qed
qed simp

fun alive :: "('j, 'r) worker_thread \<Rightarrow> nat" where
  "alive Worker_left = 0" | "alive w = 1"

definition consistent :: "('s, 'j, 'r) pipeline \<Rightarrow> bool" where
  "consistent p \<longleftrightarrow> queue_ok (pp_jobs p) \<and> queue_ok (pp_processed p) \<and> pp_workers p \<noteq> [] \<and>
     pp_active p = sum_list (map alive (pp_workers p))"

text \<open>Queues are closed exactly when nobody will feed them any more, and a thread leaves without an error
  only when its source is closed and drained.\<close>

definition pipeline_ok :: "('s, 'j, 'r) pipeline \<Rightarrow> bool" where
  "pipeline_ok p \<longleftrightarrow> consistent p \<and>
     (pp_active p = 0 \<longrightarrow> closed (pp_processed p)) \<and>
     (pp_scanner p = Scanner_left \<longrightarrow> closed (pp_jobs p)) \<and>
     (pp_stop p \<longrightarrow> closed (pp_jobs p) \<and> closed (pp_processed p)) \<and>
     (\<not> pp_stop p \<longrightarrow>
        (closed (pp_processed p) \<longrightarrow> pp_active p = 0) \<and>
        (closed (pp_jobs p) \<longrightarrow> pp_scanner p = Scanner_left) \<and>
        (Worker_left \<in> set (pp_workers p) \<longrightarrow> closed (pp_jobs p) \<and> items (pp_jobs p) = []) \<and>
        (pp_writer p = Writer_left \<longrightarrow> closed (pp_processed p) \<and> items (pp_processed p) = [])) \<and>
     (pp_stop p \<longleftrightarrow> pp_error p \<noteq> None)"

lemma close_simps [simp]: "closed (close q)" "items (close q) = items q"
  by (simp_all add: close_def)

lemma shutdown_simps [simp]:
  "pp_scanner (shutdown code e p) = pp_scanner p" "pp_workers (shutdown code e p) = pp_workers p"
  "pp_active (shutdown code e p) = pp_active p" "pp_writer (shutdown code e p) = pp_writer p"
  "pp_stop (shutdown code e p)" "pp_done (shutdown code e p) = pp_done p" "pp_written (shutdown code e p) = pp_written p"
  "pp_jobs (shutdown code e p) = close (pp_jobs p)" "pp_processed (shutdown code e p) = close (pp_processed p)"
  "pp_error (shutdown code e p) \<noteq> None"
  by (simp_all add: shutdown_def split: option.split)

lemma shutdown_ok: "consistent p \<Longrightarrow> pipeline_ok (shutdown code e p)"
  using shutdown_simps(10) [of code e p] by (simp add: pipeline_ok_def consistent_def close_ok)

lemma consistent_updates [simp]:
  "consistent (p\<lparr>pp_shared := s\<rparr>) = consistent p" "consistent (scanner_leaves p) = consistent p"
  "consistent (p\<lparr>pp_scanner := sc\<rparr>) = consistent p"
  "consistent (writer_leaves p) = consistent p" "consistent (p\<lparr>pp_writer := w\<rparr>) = consistent p"
  by (simp_all add: consistent_def scanner_leaves_def writer_leaves_def)

lemma consistent_worker:
  assumes "consistent p" and "i < length (pp_workers p)" and "alive (pp_workers p ! i) = alive w"
  shows "consistent (p\<lparr>pp_workers := (pp_workers p)[i := w]\<rparr>)"
  using assms sum_list_map_update [OF assms(2), of alive w] by (auto simp: consistent_def)

lemma consistent_leaves:
  assumes "consistent p" and "i < length (pp_workers p)" and "pp_workers p ! i \<noteq> Worker_left"
  shows "consistent (worker_leaves i p)"
proof -
  have "alive (pp_workers p ! i) = 1" using assms(3) by (cases "pp_workers p ! i") auto
  then show ?thesis
    using assms(1) sum_list_map_update [OF assms(2), of alive Worker_left] close_ok
    by (auto simp: consistent_def worker_leaves_def)
qed

lemma alive_left: "sum_list (map alive ws) = 0 \<longleftrightarrow> list_all (\<lambda>w. w = Worker_left) ws"
proof (induction ws)
  case (Cons w ws)
  then show ?case by (cases w) auto
qed simp

lemma leaves_stopped_ok:
  assumes "pipeline_ok p" and "pp_stop p" and "i < length (pp_workers p)" and "pp_workers p ! i \<noteq> Worker_left"
  shows "pipeline_ok (worker_leaves i p)"
  using assms consistent_leaves [OF _ assms(3,4)]
  by (auto simp: pipeline_ok_def worker_leaves_def)

lemma push_Returned_open:
  "push_impl s s s s v q = Returned True q' \<Longrightarrow> queue_ok q \<Longrightarrow>
   \<not> s \<and> \<not> closed q \<and> queue_ok q' \<and> \<not> closed q' \<and> contents q' = contents q @ [v] \<and> length (items q') = Suc (length (items q))"
  using push_true_cases [of s s s s v q q'] push_ok [of q s s s s v q']
  by (auto simp: push_impl_def contents_def split: if_splits)

lemma pop_Returned_Some:
  "pop s s q = Returned (Some v) q' \<Longrightarrow> queue_ok q \<Longrightarrow>
   \<not> s \<and> items q \<noteq> [] \<and> queue_ok q' \<and> closed q' = closed q \<and> contents q = v # contents q' \<and>
   length (items q) = Suc (length (items q'))"
  using pop_ok [of q s s v q'] by (auto simp: contents_def elim!: pop_some_cases)

lemma pop_Returned_None: "pop s s q = Returned None q' \<Longrightarrow> s \<or> closed q \<and> items q = []"
  by (auto simp: pop_def Let_def split: if_splits list.splits)

lemma scanner_step_cases:
  assumes "scanner_step code p = Some p'"
  obtains (fails) s e where "pp_scanner p \<noteq> Scanner_left" "p' = shutdown code e (scanner_leaves (p\<lparr>pp_shared := s\<rparr>))"
      "s = pp_shared p \<or> s = snd (cd_scanned code (pp_shared p)) \<or> (\<exists>job. s = snd (cd_discover code job (pp_shared p)))"
  | (ends) s where "pp_scanner p = Scanning [] None" "cd_scanned code (pp_shared p) = (Inr (), s)"
      "p' = scanner_leaves (p\<lparr>pp_shared := s, pp_jobs := close (pp_jobs p)\<rparr>)"
  | (discovers) s job todo ending where "pp_scanner p = Scanning (job # todo) ending"
      "cd_discover code job (pp_shared p) = (Inr (), s)" "p' = p\<lparr>pp_shared := s, pp_scanner := Offering job todo ending\<rparr>"
  | (offers) jobs job todo ending where "pp_scanner p = Offering job todo ending"
      "push_impl (pp_stop p) (pp_stop p) (pp_stop p) (pp_stop p) job (pp_jobs p) = Returned True jobs"
      "p' = p\<lparr>pp_jobs := jobs, pp_scanner := Scanning todo ending\<rparr>"
proof -
  have same: "p = p\<lparr>pp_shared := pp_shared p\<rparr>" by simp
  show thesis
  proof (cases "pp_scanner p")
    case Scanner_left
    then show thesis using assms by (simp add: scanner_step_def)
  next
    case (Offering job todo ending)
    obtain pushed jobs where push: "push_impl (pp_stop p) (pp_stop p) (pp_stop p) (pp_stop p) job (pp_jobs p) = Returned pushed jobs"
      using assms Offering by (cases "push_impl (pp_stop p) (pp_stop p) (pp_stop p) (pp_stop p) job (pp_jobs p)")
        (simp_all add: scanner_step_def)
    show thesis
    proof (cases pushed)
      case True
      then show thesis using offers [OF Offering] assms Offering push by (simp add: scanner_step_def)
    next
      case False
      then show thesis using fails [of "rejected (pp_stop p) ''file-job queue''" "pp_shared p"] assms Offering push by (simp add: scanner_step_def)
    qed
  next
    case (Scanning todo ending)
    show thesis
    proof (cases todo)
      case Nil
      obtain r s where scanned: "cd_scanned code (pp_shared p) = (r, s)" by fastforce
      show thesis
      proof (cases ending)
        case None
        show thesis
        proof (cases r)
          case (Inl e)
          then show thesis using fails [of e s] assms Scanning Nil None scanned by (simp add: scanner_step_def)
        next
          case (Inr u)
          then show thesis using ends [of s] assms Scanning Nil None scanned by (simp add: scanner_step_def)
        qed
      next
        case (Some e)
        then show thesis using fails [of e "pp_shared p"] assms Scanning Nil by (simp add: scanner_step_def)
      qed
    next
      case (Cons job later)
      obtain r s where found: "cd_discover code job (pp_shared p) = (r, s)" by fastforce
      show thesis
      proof (cases "pp_stop p")
        case True
        then show thesis using fails [of cancelled_error "pp_shared p"] assms Scanning Cons by (simp add: scanner_step_def)
      next
        case running: False
        show thesis
        proof (cases r)
          case (Inl e)
          have "s = snd (cd_discover code job (pp_shared p))" using found by simp
          then have s: "s = pp_shared p \<or> s = snd (cd_scanned code (pp_shared p)) \<or> (\<exists>job. s = snd (cd_discover code job (pp_shared p)))"
            by blast
          have "p' = shutdown code e (scanner_leaves (p\<lparr>pp_shared := s\<rparr>))"
            using assms Scanning Cons running found Inl by (simp add: scanner_step_def)
          then show thesis using fails [OF _ _ s] Scanning by simp
        next
          case (Inr u)
          then show thesis using discovers [of job later ending s] assms Scanning Cons running found by (simp add: scanner_step_def)
        qed
      qed
    qed
  qed
qed

lemma scanner_step_ok: "pipeline_ok p \<Longrightarrow> scanner_step code p = Some p' \<Longrightarrow> pipeline_ok p'"
proof -
  assume ok: "pipeline_ok p" and step: "scanner_step code p = Some p'"
  have c: "consistent p" using ok by (simp add: pipeline_ok_def)
  from step show ?thesis
  proof (cases rule: scanner_step_cases)
    case (fails s e)
    show ?thesis unfolding fails(2) by (rule shutdown_ok) (simp add: c)
  next
    case (ends s)
    then show ?thesis using ok by (auto simp: pipeline_ok_def consistent_def scanner_leaves_def close_ok)
  next
    case (discovers s job todo ending)
    then show ?thesis using ok by (auto simp: pipeline_ok_def consistent_def)
  next
    case (offers jobs job todo ending)
    then show ?thesis using ok push_Returned_open [OF offers(2)] by (auto simp: pipeline_ok_def consistent_def)
  qed
qed

lemma worker_step_cases:
  assumes "worker_step code i p = Some p'"
  obtains (drains) "i < length (pp_workers p)" "pp_workers p ! i = Taking" "p' = worker_leaves i p"
      "pp_stop p \<or> closed (pp_jobs p) \<and> items (pp_jobs p) = []"
  | (takes) job jobs where "i < length (pp_workers p)" "pp_workers p ! i = Taking"
      "pop (pp_stop p) (pp_stop p) (pp_jobs p) = Returned (Some job) jobs"
      "p' = p\<lparr>pp_jobs := jobs, pp_workers := (pp_workers p)[i := Working job]\<rparr>"
  | (works) job result s where "i < length (pp_workers p)" "pp_workers p ! i = Working job"
      "cd_work code i job (pp_shared p) = (Inr result, s)"
      "p' = p\<lparr>pp_shared := s, pp_workers := (pp_workers p)[i := Giving result], pp_done := pp_done p @ [(job, result)]\<rparr>"
  | (gives) result processed where "i < length (pp_workers p)" "pp_workers p ! i = Giving result"
      "push_impl (pp_stop p) (pp_stop p) (pp_stop p) (pp_stop p) result (pp_processed p) = Returned True processed"
      "p' = p\<lparr>pp_processed := processed, pp_workers := (pp_workers p)[i := Taking]\<rparr>"
  | (fails) s e where "i < length (pp_workers p)" "pp_workers p ! i \<noteq> Worker_left"
      "p' = worker_leaves i (shutdown code e (p\<lparr>pp_shared := s\<rparr>))"
      "s = pp_shared p \<or> (\<exists>job. s = snd (cd_work code i job (pp_shared p)))"
proof -
  have i: "i < length (pp_workers p)" using assms by (simp add: worker_step_def split: if_splits)
  show thesis
  proof (cases "pp_workers p ! i")
    case Worker_left
    then show thesis using assms i by (simp add: worker_step_def)
  next
    case Taking
    show thesis
    proof (cases "pop (pp_stop p) (pp_stop p) (pp_jobs p)")
      case Blocked
      then show thesis using assms i Taking by (simp add: worker_step_def)
    next
      case (Returned got jobs)
      show thesis
      proof (cases got)
        case None
        then show thesis
          using drains assms i Taking Returned pop_Returned_None [of "pp_stop p" "pp_jobs p" jobs] by (simp add: worker_step_def)
      next
        case (Some job)
        then show thesis using takes assms i Taking Returned by (simp add: worker_step_def)
      qed
    qed
  next
    case (Working job)
    obtain r s where work: "cd_work code i job (pp_shared p) = (r, s)" by fastforce
    show thesis
    proof (cases r)
      case (Inl e)
      have "s = snd (cd_work code i job (pp_shared p))" using work by simp
      then have s: "s = pp_shared p \<or> (\<exists>job. s = snd (cd_work code i job (pp_shared p)))" by blast
      have "p' = worker_leaves i (shutdown code e (p\<lparr>pp_shared := s\<rparr>))"
        using assms i Working work Inl by (simp add: worker_step_def)
      then show thesis using fails [OF i _ _ s] Working by simp
    next
      case (Inr result)
      then show thesis using works assms i Working work by (simp add: worker_step_def)
    qed
  next
    case (Giving result)
    show thesis
    proof (cases "push_impl (pp_stop p) (pp_stop p) (pp_stop p) (pp_stop p) result (pp_processed p)")
      case Blocked
      then show thesis using assms i Giving by (simp add: worker_step_def)
    next
      case (Returned pushed processed)
      show thesis
      proof (cases pushed)
        case True
        then show thesis using gives assms i Giving Returned by (simp add: worker_step_def)
      next
        case False
        then have "p' = worker_leaves i (shutdown code (rejected (pp_stop p) ''processed-entry queue'') (p\<lparr>pp_shared := pp_shared p\<rparr>))"
          using assms i Giving Returned by (simp add: worker_step_def)
        then show thesis using fails [OF i _ _ disjI1 [OF refl]] Giving by simp
      qed
    qed
  qed
qed

lemma active_pos:
  assumes "consistent p" and "i < length (pp_workers p)" and "pp_workers p ! i \<noteq> Worker_left"
  shows "0 < pp_active p"
proof -
  have "\<not> list_all (\<lambda>w. w = Worker_left) (pp_workers p)" using assms(2,3) by (auto simp: list_all_length)
  then have "sum_list (map alive (pp_workers p)) \<noteq> 0" using alive_left by blast
  then show ?thesis using assms(1) unfolding consistent_def by linarith
qed

lemma alive_busy [simp]: "w \<noteq> Worker_left \<Longrightarrow> alive w = 1"
  by (cases w) auto

lemma left_in_update: "Worker_left \<in> set (ws[i := w]) \<Longrightarrow> w \<noteq> Worker_left \<Longrightarrow> Worker_left \<in> set ws"
  using set_update_subset_insert [of ws i w] by auto

lemma worker_step_ok:
  assumes ok: "pipeline_ok p" and step: "worker_step code i p = Some p'"
  shows "pipeline_ok p'"
proof -
  have c: "consistent p" using ok by (simp add: pipeline_ok_def)
  from step show ?thesis
  proof (cases rule: worker_step_cases)
    case drains
    have left: "pp_workers p ! i \<noteq> Worker_left" using drains(2) by simp
    show ?thesis
    proof (cases "pp_stop p")
      case True
      then show ?thesis unfolding drains(3) using leaves_stopped_ok [OF ok _ drains(1) left] by simp
    next
      case False
      then show ?thesis unfolding drains(3)
        using ok consistent_leaves [OF c drains(1) left] active_pos [OF c drains(1) left] drains(4)
        by (auto simp: pipeline_ok_def worker_leaves_def)
    qed
  next
    case (takes job jobs)
    have popped: "\<not> pp_stop p" "items (pp_jobs p) \<noteq> []" "queue_ok jobs" "closed jobs = closed (pp_jobs p)"
      using pop_Returned_Some [OF takes(3)] c by (simp_all add: consistent_def)
    have "consistent p'"
      using consistent_worker [OF c takes(1), of "Working job"] takes(2,4) popped(3) by (simp add: consistent_def)
    then show ?thesis unfolding takes(4) using ok popped by (auto simp: pipeline_ok_def dest: left_in_update)
  next
    case (works job result s)
    have "consistent p'"
      using consistent_worker [OF c works(1), of "Giving result"] works(2,4) by (simp add: consistent_def)
    then show ?thesis unfolding works(4) using ok by (auto simp: pipeline_ok_def dest: left_in_update)
  next
    case (gives result processed)
    have pushed: "\<not> pp_stop p" "\<not> closed (pp_processed p)" "queue_ok processed" "\<not> closed processed"
      using push_Returned_open [OF gives(3)] c by (simp_all add: consistent_def)
    have "consistent p'"
      using consistent_worker [OF c gives(1), of Taking] gives(2,4) pushed(3) by (simp add: consistent_def)
    then show ?thesis unfolding gives(4) using ok pushed by (auto simp: pipeline_ok_def dest: left_in_update)
  next
    case (fails s e)
    show ?thesis unfolding fails(3)
      by (rule leaves_stopped_ok) (use c fails in \<open>simp_all add: shutdown_ok\<close>)
  qed
qed

lemma writer_step_cases:
  assumes "writer_step code p = Some p'"
  obtains (begins) s where "pp_writer p = Starting" "cd_begin code (pp_shared p) = (Inr (), s)"
      "p' = p\<lparr>pp_shared := s, pp_writer := Popping\<rparr>"
  | (pops) result processed where "pp_writer p = Popping"
      "pop (pp_stop p) (pp_stop p) (pp_processed p) = Returned (Some result) processed"
      "p' = p\<lparr>pp_processed := processed, pp_writer := Writing result\<rparr>"
  | (writes) result s where "pp_writer p = Writing result" "cd_write code result (pp_shared p) = (Inr (), s)"
      "p' = p\<lparr>pp_shared := s, pp_writer := Popping, pp_written := pp_written p @ [result]\<rparr>"
  | (finishes) s where "pp_writer p = Popping" "cd_flush code (pp_shared p) = (Inr (), s)"
      "\<not> pp_stop p" "closed (pp_processed p)" "items (pp_processed p) = []"
      "p' = writer_leaves (p\<lparr>pp_shared := s\<rparr>)"
  | (stops) "pp_writer p = Popping" "pp_stop p"
      "p' = writer_leaves (p\<lparr>pp_shared := snd (cd_abandon code (pp_shared p))\<rparr>)"
  | (fails_early) s e where "pp_writer p = Starting" "p' = writer_leaves (shutdown code e (p\<lparr>pp_shared := s\<rparr>))"
      "s = snd (cd_begin code (pp_shared p))"
  | (fails_flush) s e where "pp_writer p = Popping" "p' = writer_fails code e (p\<lparr>pp_shared := s\<rparr>)"
      "s = snd (cd_flush code (pp_shared p))"
  | (fails_write) s e result where "pp_writer p = Writing result" "p' = writer_fails code e (p\<lparr>pp_shared := s\<rparr>)"
      "s = snd (cd_write code result (pp_shared p))"
proof (cases "pp_writer p")
  case Writer_left
  then show thesis using assms by (simp add: writer_step_def)
next
  case Starting
  obtain r s where run: "cd_begin code (pp_shared p) = (r, s)" by fastforce
  then have s: "s = snd (cd_begin code (pp_shared p))" by simp
  show thesis
  proof (cases r)
    case (Inl e)
    then have "p' = writer_leaves (shutdown code e (p\<lparr>pp_shared := s\<rparr>))"
      using assms Starting run by (simp add: writer_step_def)
    then show thesis by (rule fails_early [OF Starting _ s])
  next
    case (Inr u)
    then show thesis using begins [OF Starting] assms Starting run by (simp add: writer_step_def)
  qed
next
  case (Writing result)
  obtain r s where run: "cd_write code result (pp_shared p) = (r, s)" by fastforce
  then have s: "s = snd (cd_write code result (pp_shared p))" by simp
  show thesis
  proof (cases r)
    case (Inl e)
    then have "p' = writer_fails code e (p\<lparr>pp_shared := s\<rparr>)"
      using assms Writing run by (simp add: writer_step_def)
    then show thesis by (rule fails_write [OF Writing _ s])
  next
    case (Inr u)
    then show thesis using writes [OF Writing] assms Writing run by (simp add: writer_step_def)
  qed
next
  case Popping
  show thesis
  proof (cases "pop (pp_stop p) (pp_stop p) (pp_processed p)")
    case Blocked
    then show thesis using assms Popping by (simp add: writer_step_def)
  next
    case (Returned got processed)
    show thesis
    proof (cases got)
      case (Some result)
      then show thesis using pops [OF Popping] assms Popping Returned by (simp add: writer_step_def)
    next
      case None
      obtain r s where run: "cd_flush code (pp_shared p) = (r, s)" by fastforce
      then have s: "s = snd (cd_flush code (pp_shared p))" by simp
      have drained: "pp_stop p \<or> closed (pp_processed p) \<and> items (pp_processed p) = []"
        using pop_Returned_None Returned None by blast
      show thesis
      proof (cases "pp_stop p")
        case True
        then show thesis using stops [OF Popping] assms Popping Returned None by (simp add: writer_step_def)
      next
        case running: False
        show thesis
        proof (cases r)
          case (Inl e)
          then have "p' = writer_fails code e (p\<lparr>pp_shared := s\<rparr>)"
            using assms Popping Returned None run running by (simp add: writer_step_def)
          then show thesis by (rule fails_flush [OF Popping _ s])
        next
          case (Inr u)
          then show thesis
            using finishes [OF Popping] assms Popping Returned None run running drained by (simp add: writer_step_def)
        qed
      qed
    qed
  qed
qed

lemma writer_leaves_stopped: "pipeline_ok p \<Longrightarrow> pp_stop p \<Longrightarrow> pipeline_ok (writer_leaves p)"
  by (simp add: pipeline_ok_def) (simp add: writer_leaves_def)

lemma pipeline_ok_shared: "pipeline_ok (p\<lparr>pp_shared := s\<rparr>) = pipeline_ok p"
  by (simp add: pipeline_ok_def)

lemma writer_step_ok:
  assumes ok: "pipeline_ok p" and step: "writer_step code p = Some p'"
  shows "pipeline_ok p'"
proof -
  have c: "consistent p" using ok by (simp add: pipeline_ok_def)
  from step show ?thesis
  proof (cases rule: writer_step_cases)
    case (begins s)
    then show ?thesis using ok by (auto simp: pipeline_ok_def consistent_def)
  next
    case (pops result processed)
    have popped: "\<not> pp_stop p" "queue_ok processed" "closed processed = closed (pp_processed p)"
      using pop_Returned_Some [OF pops(2)] c by (simp_all add: consistent_def)
    then show ?thesis unfolding pops(3) using ok c pops(1) by (auto simp: pipeline_ok_def consistent_def)
  next
    case (writes result s)
    then show ?thesis using ok by (auto simp: pipeline_ok_def consistent_def)
  next
    case (finishes s)
    then show ?thesis using ok by (auto simp: pipeline_ok_def consistent_def writer_leaves_def)
  next
    case stops
    then show ?thesis by (simp add: writer_leaves_stopped ok pipeline_ok_shared)
  next
    case (fails_early s e)
    then show ?thesis by (simp add: writer_leaves_stopped shutdown_ok c)
  next
    case (fails_flush s e)
    then show ?thesis by (simp add: writer_fails_def writer_leaves_stopped shutdown_ok c)
  next
    case (fails_write s e result)
    then show ?thesis by (simp add: writer_fails_def writer_leaves_stopped shutdown_ok c)
  qed
qed

lemma pipeline_step_ok: "pipeline_ok p \<Longrightarrow> pipeline_step code c p = Some p' \<Longrightarrow> pipeline_ok p'"
proof (cases c)
  case (Interrupt e)
  assume "pipeline_ok p" "pipeline_step code c p = Some p'"
  then show ?thesis using Interrupt by (auto simp: pipeline_ok_def [of p] shutdown_ok split: if_splits)
qed (auto intro: scanner_step_ok worker_step_ok writer_step_ok)

lemma start_ok:
  assumes "queue_ok jobs" "queue_ok processed" "\<not> closed jobs" "\<not> closed processed" "0 < worker_count"
  shows "pipeline_ok (start_pipeline s todo ending worker_count jobs processed)"
  using assms by (simp add: pipeline_ok_def consistent_def start_pipeline_def sum_list_replicate)

lemma pipeline_run_ok: "pipeline_run code p0 n p \<Longrightarrow> pipeline_ok p0 \<Longrightarrow> pipeline_ok p"
  by (induction rule: pipeline_run.induct) (auto intro: pipeline_step_ok)

end
