(* ===== verification/Pipeline_Laws.thy ===== *)
theory Pipeline_Laws
  imports Pipeline "HOL-Library.Multiset"
begin

text \<open>
  What the snapshot pipeline guarantees for every interleaving of its threads: a measure that every step
  lowers, some thread that can always move, an account of where every job and every result is, and what
  happens after the first error.
\<close>

section \<open>Termination\<close>

fun scanner_weight :: "'j scanner \<Rightarrow> nat" where
  "scanner_weight (Scanning todo ending) = 7 * length todo + 1"
| "scanner_weight (Offering job todo ending) = 7 * length todo + 7"
| "scanner_weight Scanner_left = 0"

fun worker_weight :: "('j, 'r) worker_thread \<Rightarrow> nat" where
  "worker_weight Taking = 1"
| "worker_weight (Working job) = 5"
| "worker_weight (Giving result) = 4"
| "worker_weight Worker_left = 0"

fun writer_weight :: "'r writer \<Rightarrow> nat" where
  "writer_weight Starting = 2"
| "writer_weight Popping = 1"
| "writer_weight (Writing result) = 2"
| "writer_weight Writer_left = 0"

definition work_left :: "('s, 'j, 'r) pipeline \<Rightarrow> nat" where
  "work_left p = scanner_weight (pp_scanner p) + 5 * length (items (pp_jobs p)) +
     sum_list (map worker_weight (pp_workers p)) + 2 * length (items (pp_processed p)) +
     writer_weight (pp_writer p) + (if pp_stop p then 0 else 1)"

lemma work_left_shutdown: "work_left (shutdown code e p) \<le> work_left p"
  by (simp add: work_left_def)

lemma work_left_shared [simp]: "work_left (p\<lparr>pp_shared := s\<rparr>) = work_left p"
  by (simp add: work_left_def)

lemma work_left_worker:
  assumes "i < length (pp_workers p)" and "worker_weight w < worker_weight (pp_workers p ! i) + k"
  shows "sum_list (map worker_weight ((pp_workers p)[i := w])) < sum_list (map worker_weight (pp_workers p)) + k"
  using sum_list_map_update [OF assms(1), of worker_weight w] assms(2) by simp

lemma worker_leaves_decreases:
  assumes "i < length (pp_workers p)" and "pp_workers p ! i \<noteq> Worker_left"
  shows "work_left (worker_leaves i p) < work_left p"
proof -
  have "worker_weight Worker_left < worker_weight (pp_workers p ! i) + 0"
    using assms(2) by (cases "pp_workers p ! i") auto
  from work_left_worker [OF assms(1) this] show ?thesis by (simp add: work_left_def worker_leaves_def)
qed

lemma scanner_step_decreases:
  assumes "scanner_step code p = Some p'" and "consistent p"
  shows "work_left p' < work_left p"
  using assms(1)
proof (cases rule: scanner_step_cases)
  case (fails s e)
  have "work_left (scanner_leaves p) < work_left p"
    using fails(1) by (cases "pp_scanner p") (simp_all add: work_left_def scanner_leaves_def)
  moreover have "work_left p' \<le> work_left (scanner_leaves (p\<lparr>pp_shared := s\<rparr>))"
    unfolding fails(2) by (rule work_left_shutdown)
  ultimately show ?thesis by (simp add: scanner_leaves_def work_left_def)
next
  case (offers jobs job todo ending)
  have "length (items jobs) = Suc (length (items (pp_jobs p)))"
    using push_Returned_open [OF offers(2)] assms(2) by (simp add: consistent_def)
  then show ?thesis using offers(1,3) by (simp add: work_left_def)
qed (simp_all add: work_left_def scanner_leaves_def)

lemma worker_step_decreases:
  assumes "worker_step code i p = Some p'" and "consistent p"
  shows "work_left p' < work_left p"
  using assms(1)
proof (cases rule: worker_step_cases)
  case drains
  then show ?thesis using worker_leaves_decreases [of i p] by simp
next
  case (takes job jobs)
  have "length (items (pp_jobs p)) = Suc (length (items jobs))"
    using pop_Returned_Some [OF takes(3)] assms(2) by (simp add: consistent_def)
  then show ?thesis using work_left_worker [OF takes(1), of "Working job" 5] takes(2,4) by (simp add: work_left_def)
next
  case (works job result s)
  then show ?thesis using work_left_worker [OF works(1), of "Giving result" 0] by (simp add: work_left_def)
next
  case (gives result processed)
  have "length (items processed) = Suc (length (items (pp_processed p)))"
    using push_Returned_open [OF gives(3)] assms(2) by (simp add: consistent_def)
  moreover have "sum_list (map worker_weight ((pp_workers p)[i := Taking])) + 4 = sum_list (map worker_weight (pp_workers p)) + 1"
    using sum_list_map_update [OF gives(1), of worker_weight Taking] gives(2) by simp
  ultimately show ?thesis using gives(4) by (simp add: work_left_def)
next
  case (fails s e)
  have "work_left p' < work_left (shutdown code e (p\<lparr>pp_shared := s\<rparr>))"
    unfolding fails(3) by (rule worker_leaves_decreases) (simp_all add: fails)
  also have "\<dots> \<le> work_left p" using work_left_shutdown [of code e "p\<lparr>pp_shared := s\<rparr>"] by simp
  finally show ?thesis .
qed

lemma writer_leaves_decreases: "pp_writer p \<noteq> Writer_left \<Longrightarrow> work_left (writer_leaves p) < work_left p"
  by (cases "pp_writer p") (simp_all add: work_left_def writer_leaves_def)

lemma writer_leaves_shutdown_decreases:
  assumes "pp_writer p \<noteq> Writer_left"
  shows "work_left (writer_leaves (shutdown code e (p\<lparr>pp_shared := s\<rparr>))) < work_left p"
proof -
  have "work_left (writer_leaves (shutdown code e (p\<lparr>pp_shared := s\<rparr>))) < work_left (shutdown code e (p\<lparr>pp_shared := s\<rparr>))"
    by (rule writer_leaves_decreases) (simp add: assms)
  also have "\<dots> \<le> work_left p" using work_left_shutdown [of code e "p\<lparr>pp_shared := s\<rparr>"] by simp
  finally show ?thesis .
qed

lemma writer_step_decreases:
  assumes "writer_step code p = Some p'" and "consistent p"
  shows "work_left p' < work_left p"
  using assms(1)
proof (cases rule: writer_step_cases)
  case (pops result processed)
  have "length (items (pp_processed p)) = Suc (length (items processed))"
    using pop_Returned_Some [OF pops(2)] assms(2) by (simp add: consistent_def)
  then show ?thesis using pops by (simp add: work_left_def)
next
  case (finishes s)
  then show ?thesis using writer_leaves_decreases [of "p\<lparr>pp_shared := s\<rparr>"] by simp
next
  case stops
  then show ?thesis using writer_leaves_decreases [of "p\<lparr>pp_shared := snd (cd_abandon code (pp_shared p))\<rparr>"] by simp
next
  case (fails_early s e)
  then show ?thesis using writer_leaves_shutdown_decreases [of p code e s] by simp
next
  case (fails_flush s e)
  then show ?thesis using writer_leaves_shutdown_decreases [of p code e] by (simp add: writer_fails_def)
next
  case (fails_write s e result)
  then show ?thesis using writer_leaves_shutdown_decreases [of p code e] by (simp add: writer_fails_def)
qed (simp_all add: work_left_def)

lemma pipeline_step_decreases:
  assumes "pipeline_step code c p = Some p'" and "consistent p"
  shows "work_left p' < work_left p"
proof (cases c)
  case (Interrupt e)
  then have "\<not> pp_stop p" "p' = shutdown code e p" using assms(1) by (auto split: if_splits)
  then show ?thesis by (simp add: work_left_def)
qed (use assms scanner_step_decreases worker_step_decreases writer_step_decreases in auto)

lemma run_bounded: "pipeline_run code p0 n p \<Longrightarrow> pipeline_ok p0 \<Longrightarrow> n + work_left p \<le> work_left p0"
proof (induction rule: pipeline_run.induct)
  case (one_more n p c p')
  have "pipeline_ok p" by (rule pipeline_run_ok [OF one_more.hyps(1) one_more.prems])
  then have "work_left p' < work_left p"
    using pipeline_step_decreases [OF one_more.hyps(2)] by (simp add: pipeline_ok_def)
  then show ?case using one_more.IH [OF one_more.prems] by simp
qed simp

section \<open>No deadlock\<close>

lemma pipeline_okD:
  assumes "pipeline_ok p"
  shows "queue_ok (pp_jobs p)" "queue_ok (pp_processed p)" "0 < length (pp_workers p)"
    "\<not> pp_stop p \<Longrightarrow> pp_writer p = Writer_left \<Longrightarrow> closed (pp_processed p)"
    "\<not> pp_stop p \<Longrightarrow> Worker_left \<in> set (pp_workers p) \<Longrightarrow> closed (pp_jobs p)"
    "pp_scanner p = Scanner_left \<Longrightarrow> closed (pp_jobs p)"
    "list_all (\<lambda>w. w = Worker_left) (pp_workers p) \<Longrightarrow> closed (pp_processed p)"
  using assms alive_left [of "pp_workers p"] by (simp_all add: pipeline_ok_def consistent_def)

lemma push_Blocked:
  assumes "push_impl s s s s v q = Blocked" and "queue_ok q"
  shows "\<not> s \<and> \<not> closed q \<and> items q \<noteq> []"
proof -
  have blocked: "\<not> s" "\<not> closed q" "\<not> has_capacity q (item_size q v)"
    "case byte_capacity q of None \<Rightarrow> True | Some cap \<Rightarrow> item_size q v \<le> cap"
    using assms(1) by (auto simp: push_impl_def Let_def split: if_splits option.splits)
  have "items q \<noteq> []"
  proof
    assume none: "items q = []"
    then have "bytes_used q = 0" using assms(2) by (simp add: queue_ok_def queue_bytes_def unat_eq_zero)
    moreover have "0 < unat (item_capacity q)" using assms(2) by (simp add: queue_ok_def unat_gt_0)
    ultimately have "has_capacity q (item_size q v)"
      using none blocked(4) by (simp add: has_capacity_def split: option.splits)
    then show False using blocked(3) by simp
  qed
  then show ?thesis using blocked(1,2) by blast
qed

lemma pop_Blocked: "pop s s q = Blocked \<Longrightarrow> \<not> s \<and> \<not> closed q \<and> items q = []"
  by (auto simp: pop_def Let_def split: if_splits list.splits)

definition can_move :: "('s, 'j, 'r) code \<Rightarrow> ('s, 'j, 'r) pipeline \<Rightarrow> bool" where
  "can_move code p \<longleftrightarrow> scanner_step code p \<noteq> None \<or> (\<exists>i < length (pp_workers p). worker_step code i p \<noteq> None) \<or>
     writer_step code p \<noteq> None"

lemma writer_moves:
  assumes "pp_writer p \<noteq> Writer_left" and "pop (pp_stop p) (pp_stop p) (pp_processed p) \<noteq> Blocked"
  shows "can_move code p"
proof -
  obtain got processed where "pop (pp_stop p) (pp_stop p) (pp_processed p) = Returned got processed"
    using assms(2) by (cases "pop (pp_stop p) (pp_stop p) (pp_processed p)") auto
  then have "writer_step code p \<noteq> None"
    using assms(1) by (cases "pp_writer p"; cases got)
      (simp_all add: writer_step_def split: sum.split prod.split)
  then show ?thesis by (simp add: can_move_def)
qed

lemma giving_moves:
  assumes "pipeline_ok p" and "i < length (pp_workers p)" and "pp_workers p ! i = Giving result"
  shows "can_move code p"
proof (cases "push_impl (pp_stop p) (pp_stop p) (pp_stop p) (pp_stop p) result (pp_processed p)")
  case Blocked
  then have full: "\<not> pp_stop p" "\<not> closed (pp_processed p)" "items (pp_processed p) \<noteq> []"
    using push_Blocked [OF Blocked pipeline_okD(2) [OF assms(1)]] by simp_all
  then have "pp_writer p \<noteq> Writer_left" using pipeline_okD(4) [OF assms(1)] by auto
  moreover have "pop (pp_stop p) (pp_stop p) (pp_processed p) \<noteq> Blocked"
    using pop_Blocked [of "pp_stop p" "pp_processed p"] full(3) by auto
  ultimately show ?thesis by (rule writer_moves)
next
  case (Returned pushed processed)
  then have "worker_step code i p \<noteq> None" using assms(2,3) by (simp add: worker_step_def)
  then show ?thesis using assms(2) by (auto simp: can_move_def)
qed

lemma worker_moves:
  assumes "pipeline_ok p" and i: "i < length (pp_workers p)" and "pp_workers p ! i \<noteq> Worker_left"
    and "pop (pp_stop p) (pp_stop p) (pp_jobs p) \<noteq> Blocked"
  shows "can_move code p"
proof (cases "pp_workers p ! i")
  case (Giving result)
  then show ?thesis by (rule giving_moves [OF assms(1) i])
next
  case Taking
  obtain got jobs where "pop (pp_stop p) (pp_stop p) (pp_jobs p) = Returned got jobs"
    using assms(4) by (cases "pop (pp_stop p) (pp_stop p) (pp_jobs p)") auto
  then have "worker_step code i p \<noteq> None" using i Taking by (simp add: worker_step_def split: option.split)
  then show ?thesis using i by (auto simp: can_move_def)
next
  case (Working job)
  then have "worker_step code i p \<noteq> None" using i by (simp add: worker_step_def split: sum.split prod.split)
  then show ?thesis using i by (auto simp: can_move_def)
qed (use assms in simp)

lemma scanner_moves:
  assumes "pipeline_ok p" and "pp_scanner p \<noteq> Scanner_left"
  shows "can_move code p"
proof (cases "pp_scanner p")
  case (Scanning todo ending)
  then have "scanner_step code p \<noteq> None"
    by (simp add: scanner_step_def split: list.split option.split sum.split prod.split)
  then show ?thesis by (simp add: can_move_def)
next
  case (Offering job todo ending)
  show ?thesis
  proof (cases "push_impl (pp_stop p) (pp_stop p) (pp_stop p) (pp_stop p) job (pp_jobs p)")
    case Blocked
    then have full: "\<not> pp_stop p" "\<not> closed (pp_jobs p)" "items (pp_jobs p) \<noteq> []"
      using push_Blocked [OF Blocked pipeline_okD(1) [OF assms(1)]] by simp_all
    then have "Worker_left \<notin> set (pp_workers p)" using pipeline_okD(5) [OF assms(1)] by auto
    then have "pp_workers p ! 0 \<noteq> Worker_left" using nth_mem [OF pipeline_okD(3) [OF assms(1)]] by metis
    moreover have "pop (pp_stop p) (pp_stop p) (pp_jobs p) \<noteq> Blocked"
      using pop_Blocked [of "pp_stop p" "pp_jobs p"] full(3) by auto
    ultimately show ?thesis by (rule worker_moves [OF assms(1) pipeline_okD(3) [OF assms(1)]])
  next
    case (Returned pushed jobs)
    then have "scanner_step code p \<noteq> None" using Offering by (simp add: scanner_step_def)
    then show ?thesis by (simp add: can_move_def)
  qed
qed (use assms in simp)

lemma no_deadlock:
  assumes ok: "pipeline_ok p" and "\<not> joined p"
  shows "can_move code p"
proof (cases "pp_scanner p = Scanner_left")
  case False
  then show ?thesis using scanner_moves ok by blast
next
  case True
  then have jobs: "pop (pp_stop p) (pp_stop p) (pp_jobs p) \<noteq> Blocked"
    using pop_Blocked [of "pp_stop p" "pp_jobs p"] pipeline_okD(6) [OF ok] by auto
  show ?thesis
  proof (cases "list_all (\<lambda>w. w = Worker_left) (pp_workers p)")
    case False
    then show ?thesis using worker_moves [OF ok _ _ jobs] by (auto simp: list_all_length)
  next
    case gone: True
    then have "closed (pp_processed p)" by (rule pipeline_okD(7) [OF ok])
    then have "pop (pp_stop p) (pp_stop p) (pp_processed p) \<noteq> Blocked"
      using pop_Blocked [of "pp_stop p" "pp_processed p"] by auto
    moreover have "pp_writer p \<noteq> Writer_left" using assms(2) True gone by (simp add: joined_def)
    ultimately show ?thesis by (intro writer_moves)
  qed
qed

lemma can_move_step:
  assumes "can_move code p"
  shows "\<exists>c p'. (\<forall>e. c \<noteq> Interrupt e) \<and> pipeline_step code c p = Some p'"
proof -
  consider (scanner) p' where "scanner_step code p = Some p'" | (worker) i p' where "worker_step code i p = Some p'"
    | (writer) p' where "writer_step code p = Some p'"
    using assms by (auto simp: can_move_def)
  then show ?thesis
  proof cases
    case scanner
    then show ?thesis by (intro exI [of _ Scanner] exI [of _ p']) simp
  next
    case worker
    then show ?thesis by (intro exI [of _ "Worker i"] exI [of _ p']) simp
  next
    case writer
    then show ?thesis by (intro exI [of _ Writer] exI [of _ p']) simp
  qed
qed

section \<open>Every job once\<close>

fun scanner_jobs :: "'j scanner \<Rightarrow> 'j multiset" where
  "scanner_jobs (Scanning todo ending) = mset todo"
| "scanner_jobs (Offering job todo ending) = add_mset job (mset todo)"
| "scanner_jobs Scanner_left = {#}"

fun scanner_ends :: "exn option \<Rightarrow> 'j scanner \<Rightarrow> bool" where
  "scanner_ends e (Scanning todo ending) = (ending = e)"
| "scanner_ends e (Offering job todo ending) = (ending = e)"
| "scanner_ends e Scanner_left = (e = None)"

fun worker_job :: "('j, 'r) worker_thread \<Rightarrow> 'j multiset" where
  "worker_job (Working job) = {#job#}" | "worker_job w = {#}"

fun worker_result :: "('j, 'r) worker_thread \<Rightarrow> 'r multiset" where
  "worker_result (Giving result) = {#result#}" | "worker_result w = {#}"

fun writer_result :: "'r writer \<Rightarrow> 'r multiset" where
  "writer_result (Writing result) = {#result#}" | "writer_result w = {#}"

text \<open>As long as nothing stops the pipeline, every job is with the scanner, in the queue, with a worker or
  done, and every result is with a worker, in the queue, with the writer or written.\<close>

definition accounted :: "'j list \<Rightarrow> exn option \<Rightarrow> ('s, 'j, 'r) pipeline \<Rightarrow> bool" where
  "accounted todo ending p \<longleftrightarrow> \<not> pp_stop p \<longrightarrow>
     scanner_ends ending (pp_scanner p) \<and>
     mset todo = scanner_jobs (pp_scanner p) + mset (contents (pp_jobs p)) +
       sum_list (map worker_job (pp_workers p)) + mset (map fst (pp_done p)) \<and>
     mset (map snd (pp_done p)) = sum_list (map worker_result (pp_workers p)) +
       mset (contents (pp_processed p)) + writer_result (pp_writer p) + mset (pp_written p)"

lemma contents_close [simp]: "contents (close q) = contents q"
  by (simp add: contents_def)

lemma scanner_step_accounted:
  assumes "accounted todo ending p" and "consistent p" and "scanner_step code p = Some p'"
  shows "accounted todo ending p'"
  using assms(3)
proof (cases rule: scanner_step_cases)
  case (offers jobs job later e)
  have "contents jobs = contents (pp_jobs p) @ [job]"
    using push_Returned_open [OF offers(2)] assms(2) by (simp add: consistent_def)
  then show ?thesis using assms(1) offers(1,3) by (simp add: accounted_def)
qed (use assms(1) in \<open>simp_all add: accounted_def scanner_leaves_def\<close>)

lemma worker_step_accounted:
  assumes "accounted todo ending p" and "consistent p" and "worker_step code i p = Some p'"
  shows "accounted todo ending p'"
  using assms(3)
proof (cases rule: worker_step_cases)
  case drains
  note upd = sum_list_map_update [OF drains(1)]
  show ?thesis
    using assms(1) upd [of worker_job Worker_left] upd [of worker_result Worker_left] drains(2,3)
    by (simp add: accounted_def worker_leaves_def)
next
  case (takes job jobs)
  note upd = sum_list_map_update [OF takes(1)]
  have "contents (pp_jobs p) = job # contents jobs"
    using pop_Returned_Some [OF takes(3)] assms(2) by (simp add: consistent_def)
  then show ?thesis
    using assms(1) upd [of worker_job "Working job"] upd [of worker_result "Working job"] takes(2,4)
    by (simp add: accounted_def)
next
  case (works job result s)
  note upd = sum_list_map_update [OF works(1)]
  have "sum_list (map worker_job (pp_workers p)) = add_mset job (sum_list (map worker_job ((pp_workers p)[i := Giving result])))"
    using upd [of worker_job "Giving result"] works(2) by simp
  then show ?thesis
    using assms(1) upd [of worker_result "Giving result"] works(2,4) by (simp add: accounted_def)
next
  case (gives result processed)
  note upd = sum_list_map_update [OF gives(1)]
  have "contents processed = contents (pp_processed p) @ [result]"
    using push_Returned_open [OF gives(3)] assms(2) by (simp add: consistent_def)
  moreover have "sum_list (map worker_result (pp_workers p)) = add_mset result (sum_list (map worker_result ((pp_workers p)[i := Taking])))"
    using upd [of worker_result Taking] gives(2) by simp
  ultimately show ?thesis
    using assms(1) upd [of worker_job Taking] gives(2,4) by (simp add: accounted_def)
qed (simp add: accounted_def worker_leaves_def)

lemma writer_step_accounted:
  assumes "accounted todo ending p" and "consistent p" and "writer_step code p = Some p'"
  shows "accounted todo ending p'"
  using assms(3)
proof (cases rule: writer_step_cases)
  case (pops result processed)
  have "contents (pp_processed p) = result # contents processed"
    using pop_Returned_Some [OF pops(2)] assms(2) by (simp add: consistent_def)
  then show ?thesis using assms(1) pops(1,3) by (simp add: accounted_def)
qed (use assms(1) in \<open>simp_all add: accounted_def writer_leaves_def writer_fails_def\<close>)

lemma pipeline_step_accounted:
  assumes "accounted todo ending p" and "consistent p" and "pipeline_step code c p = Some p'"
  shows "accounted todo ending p'"
proof (cases c)
  case (Interrupt e)
  then show ?thesis using assms(3) by (auto simp: accounted_def split: if_splits)
next
  case Scanner
  then show ?thesis using scanner_step_accounted [OF assms(1,2)] assms(3) by simp
next
  case (Worker i)
  then show ?thesis using worker_step_accounted [OF assms(1,2)] assms(3) by simp
next
  case Writer
  then show ?thesis using writer_step_accounted [OF assms(1,2)] assms(3) by simp
qed

lemma run_accounted:
  "pipeline_run code p0 n p \<Longrightarrow> pipeline_ok p0 \<Longrightarrow> accounted todo ending p0 \<Longrightarrow> accounted todo ending p"
proof (induction rule: pipeline_run.induct)
  case (one_more n p c p')
  have "pipeline_ok p" by (rule pipeline_run_ok [OF one_more.hyps(1) one_more.prems(1)])
  then have "consistent p" by (simp add: pipeline_ok_def)
  then show ?case using pipeline_step_accounted [OF _ _ one_more.hyps(2)] one_more.IH one_more.prems by blast
qed

lemma sum_list_empty_multisets [simp]: "sum_list (replicate n {#}) = {#}"
  by (induction n) simp_all

lemma new_queues_start:
  assumes "new_queue job_capacity = Inr jobs" and "new_byte_queue capacity byte_cap sz = Inr processed"
    and "0 < worker_count"
  shows "pipeline_ok (start_pipeline s todo ending worker_count jobs processed) \<and>
    accounted todo ending (start_pipeline s todo ending worker_count jobs processed) \<and>
    items jobs = [] \<and> items processed = []"
proof -
  have fresh: "queue_ok jobs" "queue_ok processed" "\<not> closed jobs" "\<not> closed processed" "items jobs = []" "items processed = []"
    using new_queue_ok [OF assms(1)] new_byte_queue_ok [OF assms(2)] assms(1,2)
    by (auto simp: new_queue_def new_byte_queue_def split: if_splits)
  have "accounted todo ending (start_pipeline s todo ending worker_count jobs processed)"
    by (simp add: accounted_def start_pipeline_def sum_list_replicate contents_def fresh)
  then show ?thesis using start_ok [OF fresh(1-4) assms(3), of s todo ending] fresh(5,6) by simp
qed

lemma joined_accounted:
  assumes "accounted todo ending p" and ok: "pipeline_ok p" and "joined p" and running: "\<not> pp_stop p"
  shows "ending = None \<and> mset (map fst (pp_done p)) = mset todo \<and> mset (pp_written p) = mset (map snd (pp_done p))"
proof -
  have workers: "pp_workers p = replicate (length (pp_workers p)) Worker_left"
    using assms(3) by (simp add: joined_def list_all_iff replicate_eqI replicate_length_same)
  have "Worker_left \<in> set (pp_workers p)" "pp_writer p = Writer_left"
    using assms(3) pipeline_okD(3) [OF ok] by (cases "pp_workers p"; auto simp: joined_def)+
  then have "items (pp_jobs p) = []" "items (pp_processed p) = []"
    using ok running by (simp_all add: pipeline_ok_def)
  moreover have "sum_list (map worker_job (pp_workers p)) = {#}" "sum_list (map worker_result (pp_workers p)) = {#}"
    by (subst workers, simp)+
  ultimately show ?thesis
    using assms(1,3) running by (simp add: accounted_def joined_def contents_def)
qed

section \<open>The first error\<close>

lemma step_keeps_error:
  assumes "pipeline_step code c p = Some p'" and "pp_error p = Some e"
  shows "pp_error p' = Some e"
proof -
  have shut: "pp_error (shutdown code e' q) = Some e" if "pp_error q = Some e" for e' q
    using that by (simp add: shutdown_def)
  show ?thesis
  proof (cases c)
    case Scanner
    then have "scanner_step code p = Some p'" using assms(1) by simp
    then show ?thesis by (cases rule: scanner_step_cases) (simp_all add: assms(2) shut scanner_leaves_def)
  next
    case (Worker i)
    then have "worker_step code i p = Some p'" using assms(1) by simp
    then show ?thesis by (cases rule: worker_step_cases) (simp_all add: assms(2) shut worker_leaves_def)
  next
    case Writer
    then have "writer_step code p = Some p'" using assms(1) by simp
    then show ?thesis
      by (cases rule: writer_step_cases) (simp_all add: assms(2) shut writer_leaves_def writer_fails_def)
  qed (use assms shut in \<open>auto split: if_splits\<close>)
qed

fun in_hand :: "'r writer \<Rightarrow> nat" where
  "in_hand (Writing result) = 1" | "in_hand w = 0"

lemma step_writes_nothing_new:
  assumes "pipeline_step code c p = Some p'" and "pp_stop p"
  shows "length (pp_written p') + in_hand (pp_writer p') \<le> length (pp_written p) + in_hand (pp_writer p)"
proof (cases c)
  case Scanner
  then have "scanner_step code p = Some p'" using assms(1) by simp
  then show ?thesis by (cases rule: scanner_step_cases) (simp_all add: scanner_leaves_def)
next
  case (Worker i)
  then have "worker_step code i p = Some p'" using assms(1) by simp
  then show ?thesis by (cases rule: worker_step_cases) (simp_all add: worker_leaves_def)
next
  case Writer
  then have "writer_step code p = Some p'" using assms(1) by simp
  then show ?thesis
  proof (cases rule: writer_step_cases)
    case (pops result processed)
    then show ?thesis using assms(2) by (simp add: pop_def Let_def split: if_splits list.splits)
  qed (simp_all add: writer_leaves_def writer_fails_def)
qed (use assms in simp)

lemma run_after_error:
  "pipeline_run code p n p' \<Longrightarrow> pipeline_ok p \<Longrightarrow> pp_error p = Some e \<Longrightarrow>
   pp_error p' = Some e \<and>
   length (pp_written p') + in_hand (pp_writer p') \<le> length (pp_written p) + in_hand (pp_writer p)"
proof (induction rule: pipeline_run.induct)
  case (one_more n q c q')
  have ok: "pipeline_ok q" by (rule pipeline_run_ok [OF one_more.hyps(1) one_more.prems(1)])
  have e: "pp_error q = Some e" using one_more.IH one_more.prems by blast
  then have "pp_stop q" using ok by (simp add: pipeline_ok_def)
  then show ?case
    using step_keeps_error [OF one_more.hyps(2) e] step_writes_nothing_new [OF one_more.hyps(2)] one_more.IH one_more.prems
    by fastforce
qed simp

section \<open>Properties\<close>

text \<open>[C8] The snapshot pipeline terminates and does not deadlock: whatever the threads are given to do and however
  they are interleaved, a run makes at most seven steps for every item the scanner delivers, one for every
  worker and four more, and as long as not all threads have left, some thread can move by itself.\<close>

theorem pipeline_terminates:
  assumes "new_queue job_capacity = Inr jobs" and "new_byte_queue capacity byte_cap sz = Inr processed"
    and "0 < worker_count"
    and "pipeline_run code (start_pipeline s todo ending worker_count jobs processed) n p"
  shows "n \<le> 7 * length todo + worker_count + 4 \<and>
    (joined p \<or> (\<exists>c p'. (\<forall>e. c \<noteq> Interrupt e) \<and> pipeline_step code c p = Some p'))"
proof -
  let ?p0 = "start_pipeline s todo ending worker_count jobs processed"
  note new = new_queues_start [OF assms(1-3), of s todo ending]
  have start: "pipeline_ok ?p0" using new by simp
  have weight: "work_left ?p0 = 7 * length todo + worker_count + 4"
    using new by (simp add: start_pipeline_def work_left_def sum_list_replicate)
  have "n \<le> 7 * length todo + worker_count + 4" using run_bounded [OF assms(4) start] weight by simp
  moreover have "\<exists>c p'. (\<forall>e. c \<noteq> Interrupt e) \<and> pipeline_step code c p = Some p'" if "\<not> joined p"
    using no_deadlock [OF pipeline_run_ok [OF assms(4) start] that] by (rule can_move_step)
  ultimately show ?thesis by blast
qed

text \<open>[C7] A pipeline that ends without an error has processed everything exactly once: the scanner came to
  its end, the jobs done are the items it delivered, and the results written are the results of those
  jobs, with multiplicity; the order is left to the schedule.\<close>

theorem pipeline_processes_each_once:
  assumes "new_queue job_capacity = Inr jobs" and "new_byte_queue capacity byte_cap sz = Inr processed"
    and "0 < worker_count"
    and "pipeline_run code (start_pipeline s todo ending worker_count jobs processed) n p"
    and "joined p" and "pp_error p = None"
  shows "ending = None \<and> mset (map fst (pp_done p)) = mset todo \<and>
    mset (pp_written p) = mset (map snd (pp_done p))"
proof -
  let ?p0 = "start_pipeline s todo ending worker_count jobs processed"
  have start: "pipeline_ok ?p0" "accounted todo ending ?p0"
    using new_queues_start [OF assms(1-3), of s todo ending] by simp_all
  have ok: "pipeline_ok p" by (rule pipeline_run_ok [OF assms(4) start(1)])
  then have "\<not> pp_stop p" using assms(6) by (simp add: pipeline_ok_def)
  then show ?thesis using joined_accounted [OF run_accounted [OF assms(4) start] ok assms(5)] by blast
qed

text \<open>[C37] The first error is the one reported: once an error or a cancellation has stopped the pipeline,
  no later one replaces it, both queues stay closed, and apart from the result the writer already holds
  nothing more is written.\<close>

theorem pipeline_first_error:
  assumes "new_queue job_capacity = Inr jobs" and "new_byte_queue capacity byte_cap sz = Inr processed"
    and "0 < worker_count"
    and "pipeline_run code (start_pipeline s todo ending worker_count jobs processed) n p"
    and "pp_error p = Some e" and "pipeline_run code p m p'"
  shows "pp_error p' = Some e \<and> pp_stop p' \<and> closed (pp_jobs p') \<and> closed (pp_processed p') \<and>
    length (pp_written p') \<le> Suc (length (pp_written p))"
proof -
  have ok: "pipeline_ok p"
    using pipeline_run_ok [OF assms(4)] new_queues_start [OF assms(1-3), of s todo ending] by simp
  have after: "pp_error p' = Some e"
    "length (pp_written p') + in_hand (pp_writer p') \<le> length (pp_written p) + in_hand (pp_writer p)"
    using run_after_error [OF assms(6) ok assms(5)] by blast+
  have "in_hand (pp_writer p) \<le> 1" by (cases "pp_writer p") simp_all
  moreover have "pp_stop p' \<and> closed (pp_jobs p') \<and> closed (pp_processed p')"
    using pipeline_run_ok [OF assms(6) ok] after(1) by (simp add: pipeline_ok_def)
  ultimately show ?thesis using after by simp
qed

section \<open>Running to the end\<close>

lemma run_prepend:
  "pipeline_run code p' n q \<Longrightarrow> pipeline_step code c p = Some p' \<Longrightarrow> pipeline_run code p (Suc n) q"
proof (induction rule: pipeline_run.induct)
  case no_step
  then show ?case by (rule pipeline_run.one_more [OF pipeline_run.no_step])
next
  case (one_more n q d q')
  then show ?case using pipeline_run.one_more by blast
qed

lemma schedule_run: "\<exists>n. pipeline_run code p n (schedule code choices p)"
proof (induction choices arbitrary: p)
  case Nil
  then show ?case using pipeline_run.no_step [of code p] by (auto simp: schedule_def)
next
  case (Cons c choices)
  show ?case
  proof (cases "pipeline_step code c p")
    case None
    then show ?thesis using Cons [of p] by (simp add: schedule_def)
  next
    case (Some p')
    then show ?thesis using Cons [of p'] run_prepend by (fastforce simp: schedule_def)
  qed
qed

text \<open>The main thread waits for all threads. After the interleaving that \<open>choices\<close> prescribes, the threads that are
  left run on in a fixed order; no run is longer than \<open>work_left\<close>, so that many rounds are enough.\<close>

fun first_move ::
  "('s, 'j, 'r) code \<Rightarrow> choice list \<Rightarrow> ('s, 'j, 'r) pipeline \<Rightarrow> ('s, 'j, 'r) pipeline option" where
  "first_move code [] p = None"
| "first_move code (c # choices) p =
     (case pipeline_step code c p of None \<Rightarrow> first_move code choices p | Some p' \<Rightarrow> Some p')"

fun run_on :: "('s, 'j, 'r) code \<Rightarrow> nat \<Rightarrow> ('s, 'j, 'r) pipeline \<Rightarrow> ('s, 'j, 'r) pipeline" where
  "run_on code 0 p = p"
| "run_on code (Suc n) p =
     (case first_move code (Scanner # Writer # map Worker [0..<length (pp_workers p)]) p of
        None \<Rightarrow> p | Some p' \<Rightarrow> run_on code n p')"

definition run_threads ::
  "('s, 'j, 'r) code \<Rightarrow> choice list \<Rightarrow> ('s, 'j, 'r) pipeline \<Rightarrow> ('s, 'j, 'r) pipeline" where
  "run_threads code choices p = (let q = schedule code choices p in run_on code (work_left q) q)"

lemma first_move_Some: "first_move code cs p = Some p' \<Longrightarrow> \<exists>c \<in> set cs. pipeline_step code c p = Some p'"
  by (induction cs) (auto split: option.splits)

lemma first_move_None: "first_move code cs p = None \<longleftrightarrow> (\<forall>c \<in> set cs. pipeline_step code c p = None)"
  by (induction cs) (auto split: option.splits)

lemma run_append:
  "pipeline_run code q m r \<Longrightarrow> pipeline_run code p n q \<Longrightarrow> \<exists>k. pipeline_run code p k r"
  by (induction rule: pipeline_run.induct) (auto intro: pipeline_run.intros)

lemma run_on_joins:
  "pipeline_ok p \<Longrightarrow> work_left p \<le> n \<Longrightarrow> joined (run_on code n p) \<and> (\<exists>k. pipeline_run code p k (run_on code n p))"
proof (induction n arbitrary: p)
  case 0
  have "joined p"
  proof (rule ccontr)
    assume "\<not> joined p"
    then obtain c p' where "pipeline_step code c p = Some p'"
      using can_move_step [OF no_deadlock [OF 0(1)]] by blast
    then have "work_left p' < work_left p" using pipeline_step_decreases [of code c p p'] 0(1) by (simp add: pipeline_ok_def)
    then show False using 0(2) by simp
  qed
  then show ?case using pipeline_run.no_step [of code p] by auto
next
  case (Suc n)
  let ?cs = "Scanner # Writer # map Worker [0..<length (pp_workers p)]"
  show ?case
  proof (cases "first_move code ?cs p")
    case None
    then have "\<not> can_move code p" unfolding first_move_None by (auto simp: can_move_def)
    then have "joined p" using no_deadlock [OF Suc.prems(1)] by blast
    then show ?thesis using None pipeline_run.no_step [of code p] by (auto simp del: first_move.simps)
  next
    case (Some p')
    then obtain c where step: "pipeline_step code c p = Some p'" using first_move_Some by blast
    have ok: "pipeline_ok p'" by (rule pipeline_step_ok [OF Suc.prems(1) step])
    have "work_left p' < work_left p"
      using pipeline_step_decreases [OF step] Suc.prems(1) by (simp add: pipeline_ok_def)
    then have "joined (run_on code n p') \<and> (\<exists>k. pipeline_run code p' k (run_on code n p'))"
      using Suc.IH [OF ok] Suc.prems(2) by simp
    then show ?thesis using Some step run_prepend by (fastforce simp del: first_move.simps)
  qed
qed

lemma run_threads_joins:
  assumes "pipeline_ok p"
  shows "joined (run_threads code choices p) \<and> (\<exists>k. pipeline_run code p k (run_threads code choices p))"
proof -
  obtain n where run: "pipeline_run code p n (schedule code choices p)" using schedule_run by blast
  have "joined (run_threads code choices p) \<and>
      (\<exists>k. pipeline_run code (schedule code choices p) k (run_threads code choices p))"
    unfolding run_threads_def Let_def by (rule run_on_joins [OF pipeline_run_ok [OF run assms]]) simp
  then show ?thesis using run_append [OF _ run] by blast
qed

section \<open>Witnesses\<close>

text \<open>Three jobs, two workers and queues of one place; the second schedule is cancelled while the writer holds
  a result.\<close>

definition demo_code :: "(nat list, nat, nat) code" where
  "demo_code =
     \<lparr>cd_discover = (\<lambda>job. ret ()), cd_scanned = ret (), cd_work = (\<lambda>i job. ret (job + 100)), cd_begin = ret (),
      cd_write = (\<lambda>result. modifyp (\<lambda>s. s @ [result])), cd_flush = ret (), cd_abandon = modifyp (\<lambda>s. []), cd_cancel = ret ()\<rparr>"

definition demo_jobs :: "nat queue" where
  "demo_jobs = \<lparr>item_capacity = 1, byte_capacity = None, size_function = None, items = [], bytes_used = 0, closed = False\<rparr>"

definition demo_processed :: "nat queue" where
  "demo_processed = \<lparr>item_capacity = 1, byte_capacity = Some 10, size_function = Some (\<lambda>_. 4), items = [], bytes_used = 0, closed = False\<rparr>"

definition demo_start :: "(nat list, nat, nat) pipeline" where
  "demo_start = start_pipeline [] [1, 2, 3] None 2 demo_jobs demo_processed"

definition demo_round :: "choice list" where
  "demo_round = [Scanner, Worker 1, Scanner, Worker 0, Writer, Worker 1]"

definition demo_finished :: "(nat list, nat, nat) pipeline" where
  "demo_finished = schedule demo_code (concat (replicate 10 demo_round)) demo_start"

definition demo_stopped :: "(nat list, nat, nat) pipeline" where
  "demo_stopped = schedule demo_code (demo_round @ demo_round @ [Worker 0, Writer, Interrupt cancelled_error]) demo_start"

definition demo_left :: "(nat list, nat, nat) pipeline" where
  "demo_left = schedule demo_code (concat (replicate 3 demo_round)) demo_stopped"

lemma demo_queues: "new_queue 1 = Inr demo_jobs" "new_byte_queue 1 10 (Some (\<lambda>_. 4)) = Inr demo_processed"
  by (simp_all add: new_queue_def new_byte_queue_def demo_jobs_def demo_processed_def)

text \<open>Witness of the termination theorem.\<close>

theorem pipeline_terminates_witness:
  "\<exists>n. pipeline_run demo_code demo_start n demo_finished \<and> n \<le> 27 \<and> joined demo_finished"
proof -
  obtain n where run: "pipeline_run demo_code demo_start n demo_finished"
    using schedule_run unfolding demo_finished_def by blast
  then have "n \<le> 7 * length [1 :: nat, 2, 3] + 2 + 4"
    using pipeline_terminates [OF demo_queues, of 2 demo_code "[]" "[1, 2, 3]" None n demo_finished]
    by (simp add: demo_start_def)
  moreover have "joined demo_finished" by code_simp
  ultimately show ?thesis using run by auto
qed

text \<open>Witness of the theorem that every job is processed once.\<close>

theorem pipeline_processes_each_once_witness:
  "mset (map fst (pp_done demo_finished)) = mset [1, 2, 3] \<and> mset (pp_written demo_finished) = mset (map snd (pp_done demo_finished)) \<and>
   pp_written demo_finished = [101, 102, 103]"
proof -
  obtain n where run: "pipeline_run demo_code demo_start n demo_finished"
    using schedule_run unfolding demo_finished_def by blast
  have "joined demo_finished" "pp_error demo_finished = None" "pp_written demo_finished = [101, 102, 103]"
    by code_simp+
  then show ?thesis
    using pipeline_processes_each_once [OF demo_queues, of 2 demo_code "[]" "[1, 2, 3]" None n demo_finished] run
    by (simp add: demo_start_def)
qed

text \<open>Witness of the theorem on the first error.\<close>

theorem pipeline_first_error_witness:
  "pp_error demo_left = Some cancelled_error \<and> length (pp_written demo_left) \<le> Suc (length (pp_written demo_stopped)) \<and>
   joined demo_left \<and> pp_written demo_left = [101] \<and> pp_written demo_stopped = []"
proof -
  obtain n where run: "pipeline_run demo_code demo_start n demo_stopped"
    using schedule_run unfolding demo_stopped_def by blast
  obtain m where later: "pipeline_run demo_code demo_stopped m demo_left"
    using schedule_run unfolding demo_left_def by blast
  have error: "pp_error demo_stopped = Some cancelled_error" by code_simp
  have "joined demo_left" "pp_written demo_left = [101]" "pp_written demo_stopped = []" by code_simp+
  then show ?thesis
    using pipeline_first_error [OF demo_queues _ _ error later, of 2 "[]" "[1, 2, 3]" None n] run
    by (simp add: demo_start_def)
qed

end
