(* ===== verification/Ignore_Rules.thy ===== *)
theory Ignore_Rules
  imports Utf8_Text Paths LV_Types
begin

text \<open>
  Ignore rules (\<^verbatim>\<open>src/core/filesystem/ignore_rules.cpp\<close>): the lines of an ignore file become
  patterns; a path is ignored when some pattern matches its name or, component by component, the whole
  path. The component matcher is an iterative one that backtracks to the last star only; it is shown
  to agree with the obvious recursive definition over Unicode characters.
\<close>

unbundle bit_operations_syntax

section \<open>Matching\<close>

datatype IgnoreCaseSensitivity = case_sensitive | case_insensitive

definition normalize_separators :: "string \<Rightarrow> string" where
  "normalize_separators path = map (\<lambda>c. if c = CHR 0x5C then CHR ''/'' else c) path"

definition fold_ascii :: "char \<Rightarrow> char" where
  "fold_ascii c = (if (of_char c :: nat) \<ge> 65 \<and> (of_char c :: nat) \<le> 90 then char_of (of_char c + 32 :: nat) else c)"

definition equal_literal :: "IgnoreCaseSensitivity \<Rightarrow> char \<Rightarrow> char \<Rightarrow> bool" where
  "equal_literal case_sensitivity left right \<longleftrightarrow>
     (if left = right \<or> case_sensitivity = case_sensitive then left = right
      else fold_ascii left = fold_ascii right)"

text \<open>Offsets are represented by the suffix that starts there. \<^verbatim>\<open>next_character\<close> looks at the
  leading byte only and never runs past the end.\<close>

definition character_length :: "nat \<Rightarrow> nat" where
  "character_length first =
     (if first AND 0xE0 = 0xC0 then 2
      else if first AND 0xF0 = 0xE0 then 3
      else if first AND 0xF8 = 0xF0 then 4
      else 1)"

fun next_character :: "string \<Rightarrow> string" where
  "next_character [] = []"
| "next_character (c # text) = drop (character_length (of_char c)) (c # text)"

text \<open>The loop of \<^verbatim>\<open>match_component\<close>: pattern suffix, name suffix, and the position after the last
  star with the name position it was last tried at. \<open>None\<close> stands for a loop that does not end.\<close>

partial_function (option) match_loop ::
  "IgnoreCaseSensitivity \<Rightarrow> string \<Rightarrow> string \<Rightarrow> (string \<times> string) option \<Rightarrow> bool option" where
  "match_loop cs pattern name star =
     (if name = [] then Some (dropWhile (\<lambda>c. c = CHR ''*'') pattern = [])
      else if pattern \<noteq> [] \<and> hd pattern = CHR ''?''
      then match_loop cs (tl pattern) (next_character name) star
      else if pattern \<noteq> [] \<and> hd pattern = CHR ''*''
      then match_loop cs (tl pattern) name (Some (tl pattern, name))
      else if pattern \<noteq> [] \<and> equal_literal cs (hd pattern) (hd name)
      then match_loop cs (tl pattern) (tl name) star
      else case star of
        Some (star_pattern, star_name) \<Rightarrow>
          match_loop cs star_pattern (next_character star_name) (Some (star_pattern, next_character star_name))
      | None \<Rightarrow> Some False)"

declare match_loop.simps [code]

definition match_component :: "IgnoreCaseSensitivity \<Rightarrow> string \<Rightarrow> string \<Rightarrow> bool option" where
  "match_component cs pattern name = match_loop cs pattern name None"

text \<open>\<^verbatim>\<open>match_path\<close>: components are cut off at the next slash; both sides must end together.\<close>

definition first_component :: "string \<Rightarrow> string" where
  "first_component text = takeWhile (\<lambda>c. c \<noteq> CHR ''/'') text"

definition after_separator :: "string \<Rightarrow> string option" where
  "after_separator text =
     (case dropWhile (\<lambda>c. c \<noteq> CHR ''/'') text of [] \<Rightarrow> None | _ # rest \<Rightarrow> Some rest)"

lemma after_separator_shorter: "after_separator t = Some rest \<Longrightarrow> length rest < length t"
  using length_dropWhile_le [of "\<lambda>c. c \<noteq> CHR ''/''" t]
  by (auto simp: after_separator_def split: list.splits)

function match_path :: "IgnoreCaseSensitivity \<Rightarrow> string \<Rightarrow> string \<Rightarrow> bool option" where
  "match_path cs pattern path =
     Option.bind (match_component cs (first_component pattern) (first_component path)) (\<lambda>matched.
     if \<not> matched then Some False
     else case (after_separator pattern, after_separator path) of
       (Some pattern', Some path') \<Rightarrow> match_path cs pattern' path'
     | (None, None) \<Rightarrow> Some True
     | _ \<Rightarrow> Some False)"
  by pat_completeness auto
termination
  by (relation "measure (\<lambda>(_, pattern, _). length pattern)") (auto dest: after_separator_shorter [OF sym])

declare match_path.simps [simp del]

definition name_of :: "string \<Rightarrow> string" where
  "name_of path = rev (takeWhile (\<lambda>c. c \<noteq> CHR ''/'') (rev path))"

section \<open>The matcher against its specification\<close>

text \<open>Characters: a leading byte with the bytes it announces.\<close>

function characters :: "string \<Rightarrow> string list" where
  "characters [] = []"
| "characters (c # text) =
     take (character_length (of_char c)) (c # text) # characters (next_character (c # text))"
  by pat_completeness auto
termination
  by (relation "measure length") (auto simp: character_length_def)

text \<open>The specification: a question mark stands for one character, a star for any number of them.\<close>

fun glob :: "IgnoreCaseSensitivity \<Rightarrow> string list \<Rightarrow> string list \<Rightarrow> bool" where
  "glob cs [] name = (name = [])"
| "glob cs (p # pattern) [] = (p = ''*'' \<and> glob cs pattern [])"
| "glob cs (p # pattern) (c # name) =
     (if p = ''*'' then glob cs pattern (c # name) \<or> glob cs (p # pattern) name
      else (p = ''?'' \<or> list_all2 (equal_literal cs) p c) \<and> glob cs pattern name)"

text \<open>What the matcher needs to know about a character: its length is the announced one, and no byte
  after the first can be mistaken for a wildcard or a separator.\<close>

definition wildcard :: "char \<Rightarrow> bool" where
  "wildcard c \<longleftrightarrow> c = CHR ''*'' \<or> c = CHR ''?''"

definition whole :: "string \<Rightarrow> bool" where
  "whole p \<longleftrightarrow> p \<noteq> [] \<and> length p = character_length (of_char (hd p)) \<and>
     (\<forall>c \<in> set (tl p). (128 :: nat) \<le> of_char c)"

lemma and_high_bits:
  "b < 2 ^ (k + m) \<Longrightarrow> (b :: nat) AND push_bit k (mask m) = 2 ^ k * (b div 2 ^ k)"
proof -
  assume b: "b < 2 ^ (k + m)"
  have "b AND push_bit k (mask m) = push_bit k (drop_bit k b AND mask m)"
    by (rule bit_eqI) (auto simp: bit_simps)
  also have "\<dots> = 2 ^ k * (b div 2 ^ k mod 2 ^ m)"
    by (simp add: push_bit_eq_mult drop_bit_eq_div take_bit_eq_mod flip: take_bit_eq_mask)
  also have "b div 2 ^ k mod 2 ^ m = b div 2 ^ k"
    using b by (simp add: power_add less_mult_imp_div_less mult.commute)
  finally show ?thesis .
qed

lemma character_length_iff:
  assumes "b < 256"
  shows "character_length b =
    (if 0xC0 \<le> b \<and> b < 0xE0 then 2 else if 0xE0 \<le> b \<and> b < 0xF0 then 3 else if 0xF0 \<le> b \<and> b < 0xF8 then 4 else 1)"
proof -
  have "b AND 0xE0 = 32 * (b div 32)" "b AND 0xF0 = 16 * (b div 16)" "b AND 0xF8 = 8 * (b div 8)"
    using and_high_bits [of b 5 3] and_high_bits [of b 4 4] and_high_bits [of b 3 5] assms
    by (simp_all add: push_bit_eq_mult mask_eq_exp_minus_1)
  then show ?thesis using assms by (simp add: character_length_def) linarith
qed

lemma high_byte_plain:
  assumes "(128 :: nat) \<le> of_char c"
  shows "\<not> wildcard c" and "c \<noteq> CHR ''/''" and "c \<noteq> CHR 0x5C"
proof -
  have "(of_char (CHR ''*'') :: nat) = 42" "(of_char (CHR ''?'') :: nat) = 63"
    "(of_char (CHR ''/'') :: nat) = 47" "(of_char (CHR 0x5C) :: nat) = 92"
    by simp_all
  then show "\<not> wildcard c" and "c \<noteq> CHR ''/''" and "c \<noteq> CHR 0x5C"
    using assms unfolding wildcard_def by fastforce+
qed

lemma wholeE:
  assumes "whole p"
  obtains c q where "p = c # q" "character_length (of_char c) = Suc (length q)" "\<not> list_ex wildcard q"
    "CHR ''/'' \<notin> set q" "CHR 0x5C \<notin> set q"
proof (cases p)
  case (Cons c q)
  then have "\<forall>x \<in> set q. (128 :: nat) \<le> of_char x" "character_length (of_char c) = Suc (length q)"
    using assms by (auto simp: whole_def)
  then have "\<not> list_ex wildcard q" "CHR ''/'' \<notin> set q" "CHR 0x5C \<notin> set q"
    using high_byte_plain by (fastforce simp: list_ex_iff)+
  then show ?thesis using that Cons \<open>character_length (of_char c) = Suc (length q)\<close> by blast
qed (use assms in \<open>simp add: whole_def\<close>)

lemma next_whole: "whole p \<Longrightarrow> next_character (p @ rest) = rest"
  by (erule wholeE) simp

lemma characters_whole: "\<forall>p \<in> set ps. whole p \<Longrightarrow> characters (concat ps) = ps"
proof (induction ps)
  case (Cons p ps)
  then have "whole p" by simp
  then obtain c q where p: "p = c # q" "character_length (of_char c) = Suc (length q)"
    by (rule wholeE)
  then show ?case
    using Cons by simp
qed simp

lemma equal_literal_length: "equal_literal cs a b \<Longrightarrow> character_length (of_char a) = character_length (of_char b)"
proof -
  assume eq: "equal_literal cs a b"
  show ?thesis
  proof (cases "a = b")
    case False
    have ab: "(of_char a :: nat) < 256" "(of_char b :: nat) < 256" by simp_all
    have "fold_ascii a = fold_ascii b" using eq False by (auto simp: equal_literal_def split: if_splits)
    then have "(of_char (fold_ascii a) :: nat) = of_char (fold_ascii b)" by simp
    then have "(of_char a :: nat) < 128 \<and> (of_char b :: nat) < 128"
      using False ab by (auto simp: fold_ascii_def of_char_of split: if_splits)
    then show ?thesis using ab by (simp add: character_length_iff)
  qed simp
qed

lemma equal_literal_whole:
  "whole p \<Longrightarrow> whole q \<Longrightarrow> equal_literal cs (hd p) (hd q) \<Longrightarrow> length p = length q"
  using equal_literal_length by (simp add: whole_def)

text \<open>Facts about the specification.\<close>

lemma glob_star: "glob cs (''*'' # pattern) name \<longleftrightarrow> (\<exists>k \<le> length name. glob cs pattern (drop k name))"
proof (induction name)
  case (Cons c name)
  have "(\<exists>k \<le> length (c # name). glob cs pattern (drop k (c # name))) \<longleftrightarrow>
      glob cs pattern (c # name) \<or> (\<exists>k \<le> length name. glob cs pattern (drop k name))"
    by (metis Suc_le_mono drop0 drop_Suc_Cons le0 length_Cons not0_implies_Suc)
  then show ?case using Cons by simp
qed simp

lemma glob_run:
  "''*'' \<notin> set run \<Longrightarrow> glob cs (run @ pattern) name \<Longrightarrow>
   length run \<le> length name \<and> glob cs pattern (drop (length run) name)"
proof (induction run arbitrary: name)
  case (Cons p run)
  then show ?case by (cases name) auto
qed simp

text \<open>A later star makes an earlier one superfluous.\<close>

lemma glob_last_star:
  assumes "''*'' \<notin> set run" and "length run = length matched"
    and "glob cs (''*'' # run @ ''*'' # pattern) (tl (matched @ name))"
  shows "glob cs (''*'' # pattern) name"
proof -
  obtain k where "glob cs (run @ ''*'' # pattern) (drop k (tl (matched @ name)))"
    using assms(3) glob_star by blast
  then have "glob cs (''*'' # pattern) (drop (length run) (drop k (tl (matched @ name))))"
    using glob_run [OF assms(1)] by blast
  moreover have "drop (length run) (drop k (tl (matched @ name))) = drop (length matched + Suc k) (matched @ name)"
    by (simp only: assms(2) drop_drop tl_drop [symmetric] drop_Suc add_Suc_right)
  ultimately have "glob cs (''*'' # pattern) (drop (Suc k) name)"
    by simp
  then obtain j where "j \<le> length (drop (Suc k) name)" "glob cs pattern (drop j (drop (Suc k) name))"
    using glob_star by blast
  then have j: "glob cs pattern (drop (j + Suc k) name)" by simp
  have "\<exists>i \<le> length name. glob cs pattern (drop i name)"
  proof (cases "j + Suc k \<le> length name")
    case True
    then show ?thesis using j by blast
  next
    case False
    then show ?thesis using j by (intro exI [of _ "length name"]) simp
  qed
  then show ?thesis using glob_star by blast
qed

lemma glob_last_star_end:
  assumes "''*'' \<notin> set run" and "length run = length matched"
    and "glob cs (''*'' # run @ pattern) (tl matched)"
  shows "glob cs pattern []"
proof (cases run)
  case Nil
  then show ?thesis using assms(2,3) by simp
next
  case (Cons p ps)
  obtain k where "glob cs (run @ pattern) (drop k (tl matched))"
    using assms(3) glob_star by blast
  then have "length run \<le> length (drop k (tl matched))" using glob_run [OF assms(1)] by blast
  then show ?thesis using assms(2) Cons by simp
qed

lemma glob_nil: "\<forall>p \<in> set pattern. whole p \<Longrightarrow> glob cs pattern [] \<longleftrightarrow> dropWhile (\<lambda>c. c = CHR ''*'') (concat pattern) = []"
proof (induction pattern)
  case (Cons p pattern)
  then have "whole p" by simp
  then obtain c q where p: "p = c # q" "character_length (of_char c) = Suc (length q)"
    by (rule wholeE)
  show ?case
  proof (cases "c = CHR ''*''")
    case True
    then have "q = []" using p(2) by (simp add: character_length_iff)
    then show ?thesis using Cons p True by simp
  next
    case False
    then show ?thesis using p by simp
  qed
qed simp

text \<open>One character of the pattern against one character of the name.\<close>

definition retry :: "IgnoreCaseSensitivity \<Rightarrow> (string \<times> string) option \<Rightarrow> bool option" where
  "retry cs star = (case star of
     Some (star_pattern, star_name) \<Rightarrow>
       match_loop cs star_pattern (next_character star_name) (Some (star_pattern, next_character star_name))
   | None \<Rightarrow> Some False)"

lemma match_loop_literal:
  "\<not> wildcard x \<Longrightarrow> match_loop cs (x # p) (y # n) star =
     (if equal_literal cs x y then match_loop cs p n star else retry cs star)"
  by (subst match_loop.simps) (simp add: wildcard_def retry_def)

lemma match_loop_run:
  "length t = length c \<Longrightarrow> \<not> list_ex wildcard t \<Longrightarrow>
   match_loop cs (t @ p) (c @ n) star =
     (if list_all2 (equal_literal cs) t c then match_loop cs p n star else retry cs star)"
  by (induction t c rule: list_induct2) (auto simp: match_loop_literal)

lemma match_loop_character:
  assumes "whole t" and "whole c" and "t \<noteq> ''*''" and "t \<noteq> ''?''"
  shows "match_loop cs (t @ p) (c @ n) star =
     (if list_all2 (equal_literal cs) t c then match_loop cs p n star else retry cs star)"
proof -
  obtain x q where t: "t = x # q" "character_length (of_char x) = Suc (length q)" "\<not> list_ex wildcard q"
    using assms(1) by (rule wholeE)
  obtain y r where c: "c = y # r" "character_length (of_char y) = Suc (length r)"
    using assms(2) by (rule wholeE)
  have "\<not> wildcard x"
    using assms(3,4) t by (auto simp: wildcard_def character_length_iff)
  then have plain: "\<not> list_ex wildcard t" using t by simp
  show ?thesis
  proof (cases "equal_literal cs x y")
    case True
    then have "length t = length c" using equal_literal_whole [OF assms(1,2)] t c by simp
    then show ?thesis using plain by (rule match_loop_run)
  next
    case False
    then show ?thesis using t c match_loop_literal [OF \<open>\<not> wildcard x\<close>] by simp
  qed
qed

text \<open>The loop, between characters. The pattern behind the last star and the name where it was last
  tried are the current ones with the same number of characters in front.\<close>

abbreviation star_bytes :: "(string list \<times> string list) option \<Rightarrow> (string \<times> string) option" where
  "star_bytes star \<equiv> map_option (\<lambda>(ps, ns). (concat ps, concat ns)) star"

definition star_ok :: "(string list \<times> string list) option \<Rightarrow> string list \<Rightarrow> string list \<Rightarrow> bool" where
  "star_ok star P N \<longleftrightarrow> (case star of None \<Rightarrow> True | Some (SP, SN) \<Rightarrow>
     \<exists>Q R. SP = Q @ P \<and> SN = R @ N \<and> length Q = length R \<and> ''*'' \<notin> set Q)"

definition star_option :: "IgnoreCaseSensitivity \<Rightarrow> (string list \<times> string list) option \<Rightarrow> bool" where
  "star_option cs star \<longleftrightarrow> (case star of None \<Rightarrow> False | Some (SP, SN) \<Rightarrow> glob cs (''*'' # SP) (tl SN))"

definition star_whole :: "(string list \<times> string list) option \<Rightarrow> bool" where
  "star_whole star \<longleftrightarrow> (case star of None \<Rightarrow> True | Some (SP, SN) \<Rightarrow> (\<forall>p \<in> set (SP @ SN). whole p))"

lemma star_ok_step:
  "star_ok star (p # P) (c # N) \<Longrightarrow> p \<noteq> ''*'' \<Longrightarrow> star_ok star P N"
proof (cases star)
  case (Some x)
  assume "star_ok star (p # P) (c # N)" "p \<noteq> ''*''"
  then obtain Q R where "fst x = Q @ p # P" "snd x = R @ c # N" "length Q = length R" "''*'' \<notin> set Q"
    using Some by (auto simp: star_ok_def)
  then show ?thesis
    using Some \<open>p \<noteq> ''*''\<close>
    by (auto simp: star_ok_def split_beta intro!: exI [of _ "Q @ [p]"] exI [of _ "R @ [c]"])
qed (simp add: star_ok_def)

lemma star_ok_new: "star_ok (Some (P, N)) P N"
  by (simp add: star_ok_def)

definition progress_of :: "string list \<times> string list \<times> (string list \<times> string list) option \<Rightarrow> nat list" where
  "progress_of = (\<lambda>(P, N, star). case star of
      None \<Rightarrow> [Suc (length P), 0, length P] | Some (SP, SN) \<Rightarrow> [length SP, length SN, length P])"

text \<open>What the last star still has to offer, if the matcher is right for all states in which that star has
  swallowed one character more.\<close>

lemma retry_glob:
  assumes rest: "\<And>SP c SN. star = Some (SP, c # SN) \<Longrightarrow>
      match_loop cs (concat SP) (concat SN) (star_bytes (Some (SP, SN))) =
        Some (glob cs SP SN \<or> star_option cs (Some (SP, SN)))"
    and "star_whole star" and "star_ok star P N" and "N \<noteq> []"
  shows "retry cs (star_bytes star) = Some (star_option cs star)"
proof (cases star)
  case None
  then show ?thesis by (simp add: retry_def star_option_def)
next
  case (Some x)
  obtain SP SN where x: "x = (SP, SN)" by (cases x)
  obtain Q R where "SN = R @ N" "SP = Q @ P" using assms(3) Some x by (auto simp: star_ok_def)
  then have "SN \<noteq> []" using assms(4) by simp
  then obtain c SN' where SN: "SN = c # SN'" by (auto simp: neq_Nil_conv)
  have w: "whole c" using assms(2) Some x SN by (auto simp: star_whole_def)
  have "glob cs (''*'' # SP) SN' \<longleftrightarrow> glob cs SP SN' \<or> star_option cs (Some (SP, SN'))"
    by (cases SN') (simp_all add: star_option_def)
  then show ?thesis
    using Some x SN next_whole [OF w] rest [of SP c SN'] by (simp add: retry_def star_option_def)
qed

lemma match_loop_glob:
  assumes "\<forall>p \<in> set (P @ N). whole p" and "star_whole star" and "star_ok star P N"
  shows "match_loop cs (concat P) (concat N) (star_bytes star) = Some (glob cs P N \<or> star_option cs star)"
  using assms
proof (induction "(P, N, star)" arbitrary: P N star
    rule: wf_induct_rule [OF wf_measures [of "[\<lambda>x. progress_of x ! 0, \<lambda>x. progress_of x ! 1, \<lambda>x. progress_of x ! 2]"]])
  case (1 P N star)
  note IH = 1(1) and whole = 1(2) and swhole = 1(3) and ok = 1(4)
  have retry: "retry cs (star_bytes star) = Some (star_option cs star)" if "N \<noteq> []"
    by (rule retry_glob [OF _ swhole ok that], rule IH)
      (use swhole in \<open>auto simp: progress_of_def star_ok_new star_whole_def\<close>)
  show ?case
  proof (cases N)
    case Nil
    have "glob cs P []" if "star_option cs star"
      using that ok Nil by (auto simp: star_option_def star_ok_def split: option.splits intro: glob_last_star_end)
    then show ?thesis
      using Nil glob_nil [of P cs] whole by (subst match_loop.simps) auto
  next
    case (Cons c N')
    have wc: "whole c" using whole Cons by simp
    then obtain y r where c: "c = y # r" by (rule wholeE)
    show ?thesis
    proof (cases P)
      case Nil
      then show ?thesis
        using retry Cons c by (subst match_loop.simps) (simp add: retry_def)
    next
      case (Cons p P')
      note P = Cons
      have wp: "whole p" using whole P by simp
      show ?thesis
      proof (cases "p = ''*''")
        case True
        have "match_loop cs (concat P') (concat N) (star_bytes (Some (P', N))) =
            Some (glob cs P' N \<or> star_option cs (Some (P', N)))"
        proof (rule IH)
          show "((P', N, Some (P', N)), P, N, star) \<in> measures
              [\<lambda>x. progress_of x ! 0, \<lambda>x. progress_of x ! 1, \<lambda>x. progress_of x ! 2]"
            using P ok by (auto simp: progress_of_def star_ok_def split: option.splits)
        qed (use whole P in \<open>auto simp: star_ok_new star_whole_def\<close>)
        moreover have "glob cs P N \<longleftrightarrow> glob cs P' N \<or> star_option cs (Some (P', N))"
          using P True \<open>N = c # N'\<close> by (simp add: star_option_def)
        moreover have "glob cs P N" if "star_option cs star"
          using that ok P True by (auto simp: star_option_def star_ok_def split: option.splits intro: glob_last_star)
        ultimately show ?thesis
          using P True \<open>N = c # N'\<close> c by (subst match_loop.simps) auto
      next
        case False
        have smaller: "((P', N', star), P, N, star) \<in> measures
            [\<lambda>x. progress_of x ! 0, \<lambda>x. progress_of x ! 1, \<lambda>x. progress_of x ! 2]"
          using P by (auto simp: progress_of_def split: option.split)
        have step: "match_loop cs (concat P') (concat N') (star_bytes star) = Some (glob cs P' N' \<or> star_option cs star)"
          by (rule IH [OF smaller]) (use whole swhole ok P \<open>N = c # N'\<close> star_ok_step [OF _ False] in auto)
        show ?thesis
        proof (cases "p = ''?''")
          case True
          then show ?thesis
            using P \<open>N = c # N'\<close> step c next_whole [OF wc, of "concat N'"] by (subst match_loop.simps) simp
        next
          case neither: False
          then show ?thesis
            using match_loop_character [OF wp wc False neither, of cs "concat P'" "concat N'"] step retry P
              \<open>N = c # N'\<close> False by auto
        qed
      qed
    qed
  qed
qed

section \<open>Text in UTF-8\<close>

definition well_formed :: "string \<Rightarrow> bool" where
  "well_formed t \<longleftrightarrow> (\<exists>ps. t = concat ps \<and> (\<forall>p \<in> set ps. whole p))"

lemma well_formed_characters: "well_formed t \<Longrightarrow> concat (characters t) = t \<and> (\<forall>p \<in> set (characters t). whole p)"
  using characters_whole by (auto simp: well_formed_def)

lemma encode_whole:
  assumes "scalar_value c" and "map of_char p = utf8_encode c"
  shows "whole p"
proof -
  have len: "length p = length (utf8_encode c)" using assms(2) by (metis length_map)
  then have ne: "p \<noteq> []" by (auto simp: utf8_encode_def split: if_splits)
  have hd: "of_char (hd p) = hd (utf8_encode c)" using assms(2) ne by (metis hd_map)
  have tl: "map of_char (tl p) = tl (utf8_encode c)" using assms(2) by (metis map_tl)
  have b: "hd (utf8_encode c) < 256" unfolding hd [symmetric] by simp
  have "\<forall>x \<in> set (tl (utf8_encode c)). 128 \<le> x" by (auto simp: utf8_encode_def)
  then have "\<forall>x \<in> set (tl p). (128 :: nat) \<le> of_char x" unfolding tl [symmetric] by simp
  moreover have "length (utf8_encode c) = character_length (hd (utf8_encode c))"
    using assms(1) b by (auto simp: character_length_iff utf8_encode_def scalar_value_def split: if_splits)
  ultimately show ?thesis using len ne hd by (simp add: whole_def)
qed

lemma valid_utf8_well_formed: "is_valid_utf8 t \<Longrightarrow> well_formed t"
proof -
  assume "is_valid_utf8 t"
  then have "\<exists>cs. list_all scalar_value cs \<and> byte_values t = concat (map utf8_encode cs)"
    unfolding is_valid_utf8_def by (subst (asm) utf8_from_iff) (auto simp: byte_values_def)
  then obtain cs where "list_all scalar_value cs" "byte_values t = concat (map utf8_encode cs)"
    by blast
  then show ?thesis
  proof (induction cs arbitrary: t)
    case Nil
    then show ?case by (auto simp: byte_values_def well_formed_def intro: exI [of _ "[]"])
  next
    case (Cons c cs)
    let ?n = "length (utf8_encode c)"
    have t: "map of_char t = utf8_encode c @ concat (map utf8_encode cs)"
      using Cons.prems(2) by (simp add: byte_values_def)
    have "map of_char (take ?n t) = utf8_encode c"
      using arg_cong [OF t, of "take ?n"] by (simp add: take_map)
    from encode_whole [OF _ this] have p: "whole (take ?n t)" using Cons.prems(1) by simp
    have "byte_values (drop ?n t) = concat (map utf8_encode cs)"
      using arg_cong [OF t, of "drop ?n"] by (simp add: byte_values_def drop_map)
    then obtain ps where "drop ?n t = concat ps" "\<forall>p \<in> set ps. whole p"
      using Cons.IH Cons.prems(1) by (auto simp: well_formed_def)
    then show ?case
      unfolding well_formed_def using p by (intro exI [of _ "take ?n t # ps"]) (metis append_take_drop_id concat.simps(2) set_ConsD)
  qed
qed

lemma match_component_glob:
  assumes "well_formed pattern" and "well_formed name"
  shows "match_component cs pattern name = Some (glob cs (characters pattern) (characters name))"
  using match_loop_glob [of "characters pattern" "characters name" None cs]
    well_formed_characters [OF assms(1)] well_formed_characters [OF assms(2)]
  by (auto simp: match_component_def star_ok_def star_option_def star_whole_def)

text \<open>Components and normalised paths are well formed too.\<close>

lemma split_slash_cases:
  "split_slash t = (case after_separator t of None \<Rightarrow> [t] | Some rest \<Rightarrow> first_component t # split_slash rest)"
proof (induction t)
  case (Cons c t)
  show ?case
  proof (cases "c = CHR ''/''")
    case False
    then show ?thesis
      using Cons by (auto simp: after_separator_def first_component_def split: list.splits option.splits)
  qed (simp add: after_separator_def first_component_def)
qed (simp add: after_separator_def)

lemma first_component_end: "after_separator t = None \<Longrightarrow> first_component t = t"
  by (simp add: after_separator_def first_component_def dropWhile_eq_Nil_conv takeWhile_eq_all_conv split: list.splits)

lemma well_formed_append: "whole p \<Longrightarrow> well_formed t \<Longrightarrow> well_formed (p @ t)"
  unfolding well_formed_def by (metis concat.simps(2) set_ConsD)

lemma well_formed_induct [consumes 1, case_names Nil Cons]:
  assumes "well_formed t" and "P []"
    and "\<And>p t. whole p \<Longrightarrow> well_formed t \<Longrightarrow> P t \<Longrightarrow> P (p @ t)"
  shows "P t"
proof -
  obtain ps where "t = concat ps" "\<forall>p \<in> set ps. whole p"
    using assms(1) by (auto simp: well_formed_def)
  then show ?thesis
    by (induction ps arbitrary: t) (use assms(2,3) in \<open>auto simp: well_formed_def\<close>)
qed

lemma well_formed_Nil [simp]: "well_formed []"
  unfolding well_formed_def by (rule exI [of _ "[]"]) simp

lemma split_slash_prepend: "CHR ''/'' \<notin> set p \<Longrightarrow> split_slash (p @ t) = (p @ hd (split_slash t)) # tl (split_slash t)"
  by (induction p) (auto simp: split_slash_cases [of t] split: option.split)

lemma well_formed_split: "well_formed t \<Longrightarrow> \<forall>w \<in> set (split_slash t). well_formed w"
proof (induction t rule: well_formed_induct)
  case (Cons p t)
  from \<open>whole p\<close> obtain c q where p: "p = c # q" "CHR ''/'' \<notin> set q" "character_length (of_char c) = Suc (length q)"
    by (rule wholeE)
  obtain w ws where t: "split_slash t = w # ws" by (cases "split_slash t") (auto simp: split_slash_cases split: option.splits)
  show ?case
  proof (cases "c = CHR ''/''")
    case True
    then have "q = []" using p(3) by (simp add: character_length_iff)
    then show ?thesis using p True Cons by simp
  next
    case False
    then have "split_slash (p @ t) = (p @ w) # ws" using split_slash_prepend [of p t] p t by simp
    then show ?thesis using Cons well_formed_append t by simp
  qed
qed simp

lemma well_formed_normalize: "well_formed t \<Longrightarrow> well_formed (normalize_separators t)"
proof (induction t rule: well_formed_induct)
  case (Cons p t)
  from \<open>whole p\<close> obtain c q where p: "p = c # q" "CHR 0x5C \<notin> set q" "character_length (of_char c) = Suc (length q)"
    by (rule wholeE)
  have q: "map (\<lambda>c. if c = CHR 0x5C then CHR ''/'' else c) q = q"
    using p(2) by (induction q) auto
  have "whole (normalize_separators p)"
  proof (cases "c = CHR 0x5C")
    case True
    then have "q = []" using p(3) by (simp add: character_length_iff)
    then show ?thesis using p True by (simp add: normalize_separators_def whole_def character_length_iff)
  next
    case False
    then show ?thesis using Cons(1) p q by (simp add: normalize_separators_def)
  qed
  then show ?case
    using well_formed_append [OF _ Cons.IH] by (simp add: normalize_separators_def)
qed (simp add: normalize_separators_def)

lemma after_separator_None: "after_separator t = None \<longleftrightarrow> CHR ''/'' \<notin> set t"
proof (cases "dropWhile (\<lambda>c. c \<noteq> CHR ''/'') t = []")
  case True
  then have "after_separator t = None" by (simp only: after_separator_def) simp
  moreover have "CHR ''/'' \<notin> set t" using True unfolding dropWhile_eq_Nil_conv by blast
  ultimately show ?thesis by simp
next
  case False
  then have "after_separator t \<noteq> None" by (simp add: after_separator_def split: list.split)
  moreover have "CHR ''/'' \<in> set t" using False unfolding dropWhile_eq_Nil_conv by blast
  ultimately show ?thesis by simp
qed

lemma split_slash_single: "after_separator t = None \<Longrightarrow> split_slash t = [first_component t]"
  by (simp add: split_slash_cases [of t] first_component_end)

lemma name_of_last: "name_of t = last (split_slash t)"
proof (induction t)
  case (Cons c t)
  show ?case
  proof (cases "CHR ''/'' \<in> set t")
    case True
    then have "name_of (c # t) = name_of t"
      by (simp add: name_of_def takeWhile_append1 [of "CHR ''/''"])
    moreover obtain rest where "after_separator t = Some rest"
      using True after_separator_None by (metis not_None_eq)
    then have "last (split_slash (c # t)) = last (split_slash t)"
      by (auto simp: split_slash_cases [of t] split_slash_cases [of rest] split: option.split)
    ultimately show ?thesis using Cons by simp
  next
    case False
    then have "\<And>x. x \<in> set (rev t) \<Longrightarrow> x \<noteq> CHR ''/''" by (metis set_rev)
    then have "takeWhile (\<lambda>c. c \<noteq> CHR ''/'') (rev t @ [c]) = rev t @ takeWhile (\<lambda>c. c \<noteq> CHR ''/'') [c]"
      by (rule takeWhile_append2)
    then have "name_of (c # t) = (if c = CHR ''/'' then t else c # t)"
      by (simp add: name_of_def)
    moreover have "split_slash t = [t]" using False by (rule split_slash_word)
    ultimately show ?thesis by simp
  qed
qed (simp add: name_of_def)

lemma match_path_split:
  "\<forall>w \<in> set (split_slash pattern). well_formed w \<Longrightarrow> \<forall>w \<in> set (split_slash path). well_formed w \<Longrightarrow>
   match_path cs pattern path =
     Some (list_all2 (\<lambda>p n. glob cs (characters p) (characters n)) (split_slash pattern) (split_slash path))"
proof (induction cs pattern path rule: match_path.induct)
  case (1 cs pattern path)
  have first: "well_formed (first_component t)" if "\<forall>w \<in> set (split_slash t). well_formed w" for t
    using that split_slash_single [of t] by (cases "after_separator t") (simp_all add: split_slash_cases [of t])
  note component = match_component_glob [OF first [OF 1(2)] first [OF 1(3)], of cs]
  show ?case
  proof (cases "after_separator pattern")
    case None
    show ?thesis
    proof (cases "after_separator path")
      case None
      show ?thesis
        unfolding split_slash_single [OF None] split_slash_single [OF \<open>after_separator pattern = None\<close>]
          match_path.simps [of cs pattern path] component
        by (simp add: None \<open>after_separator pattern = None\<close>)
    next
      case (Some path')
      then show ?thesis
        unfolding split_slash_single [OF \<open>after_separator pattern = None\<close>]
          match_path.simps [of cs pattern path] component
        by (simp add: \<open>after_separator pattern = None\<close> split_slash_cases [of path] split_slash_cases [of path']
            split: option.split)
    qed
  next
    case (Some pattern')
    show ?thesis
    proof (cases "after_separator path")
      case None
      then show ?thesis
        using Some by (simp add: match_path.simps [of cs pattern path] component split_slash_cases [of pattern]
            split_slash_single)
    next
      case (Some path')
      have "match_path cs pattern' path' = Some (list_all2 (\<lambda>p n. glob cs (characters p) (characters n))
          (split_slash pattern') (split_slash path'))"
        if "glob cs (characters (first_component pattern)) (characters (first_component path))"
        by (rule 1(1) [OF component]) (use that 1(2,3) Some \<open>after_separator pattern = Some pattern'\<close>
            split_slash_cases [of pattern] split_slash_cases [of path] in auto)
      then show ?thesis
        using Some \<open>after_separator pattern = Some pattern'\<close>
        by (simp add: match_path.simps [of cs pattern path] component split_slash_cases [of pattern]
            split_slash_cases [of path])
    qed
  qed
qed

section \<open>Rules\<close>

record Pattern =
  pt_text :: string
  pt_name_only :: bool
  pt_directory_only :: bool

record IgnoreMatchResult =
  im_ignored :: bool
  im_prune_directory :: bool

record IgnoreRules =
  ir_patterns :: "Pattern list"
  ir_case_sensitivity :: IgnoreCaseSensitivity

fun match_patterns ::
  "IgnoreCaseSensitivity \<Rightarrow> string \<Rightarrow> bool \<Rightarrow> Pattern list \<Rightarrow> IgnoreMatchResult option" where
  "match_patterns cs normalized is_directory [] = Some \<lparr>im_ignored = False, im_prune_directory = False\<rparr>"
| "match_patterns cs normalized is_directory (pattern # patterns) =
     (if pt_directory_only pattern \<and> \<not> is_directory then match_patterns cs normalized is_directory patterns
      else
        Option.bind (match_path cs (pt_text pattern) (if pt_name_only pattern then name_of normalized else normalized))
          (\<lambda>matched.
             if matched then Some \<lparr>im_ignored = True, im_prune_directory = is_directory\<rparr>
             else match_patterns cs normalized is_directory patterns))"

definition match_rules :: "IgnoreRules \<Rightarrow> string \<Rightarrow> bool \<Rightarrow> IgnoreMatchResult option" where
  "match_rules rules path is_directory =
     match_patterns (ir_case_sensitivity rules) (normalize_separators path) is_directory (ir_patterns rules)"

text \<open>The lines of the file: \<^verbatim>\<open>getline\<close> yields no line after a final newline.\<close>

fun split_lines :: "string \<Rightarrow> string list" where
  "split_lines [] = []"
| "split_lines (c # cs) =
     (if c = CHR 0x0A then [] # split_lines cs
      else case cs of
        [] \<Rightarrow> [[c]]
      | _ \<Rightarrow> if hd cs = CHR 0x0A then [c] # split_lines (tl cs)
             else (case split_lines cs of [] \<Rightarrow> [[c]] | l # ls \<Rightarrow> (c # l) # ls))"

definition strip_return :: "string \<Rightarrow> string" where
  "strip_return line = (if line \<noteq> [] \<and> last line = CHR 0x0D then butlast line else line)"

definition read_lines :: "string \<Rightarrow> string list" where
  "read_lines content =
     filter (\<lambda>line. line \<noteq> [] \<and> hd line \<noteq> CHR ''#'') (map strip_return (split_lines content))"

definition parse_line :: "string \<Rightarrow> Pattern option" where
  "parse_line raw =
     (let line = normalize_separators raw;
          directory_only = (line \<noteq> [] \<and> last line = CHR ''/'');
          body = (if directory_only then butlast line else line)
      in if body = [] then None
         else Some \<lparr>pt_text = body, pt_name_only = (CHR ''/'' \<notin> set body), pt_directory_only = directory_only\<rparr>)"

text \<open>What the file system says about the ignore file: a failed \<^verbatim>\<open>status\<close> call (with whether the
  error is \<^verbatim>\<open>no_such_file_or_directory\<close>), an absent file, another kind of file, or a regular file
  that cannot be opened, fails while being read, or has contents.\<close>

datatype ignore_file =
    Status_error bool string
  | Absent
  | Not_regular
  | Cannot_open
  | Read_error
  | Contents string

definition load_rules ::
  "(string \<Rightarrow> ignore_file) \<Rightarrow> string \<Rightarrow> string option \<Rightarrow> IgnoreCaseSensitivity \<Rightarrow> exn + IgnoreRules" where
  "load_rules inspect source_root replacement_file cs =
     (let path = (case replacement_file of Some p \<Rightarrow> p | None \<Rightarrow> path_join source_root ''.localvaultignore'');
          no_rules = Inr \<lparr>ir_patterns = [], ir_case_sensitivity = cs\<rparr> in
      case inspect path of
        Status_error missing m \<Rightarrow>
          if replacement_file = None \<and> missing then no_rules
          else throw_lv E_filesystem_error (''failed to inspect ignore file: '' @ m)
      | Absent \<Rightarrow>
          if replacement_file = None then no_rules
          else throw_lv E_filesystem_error ''ignore file does not exist''
      | Not_regular \<Rightarrow> throw_lv E_filesystem_error ''ignore file is not a regular file''
      | Cannot_open \<Rightarrow> throw_lv E_filesystem_error ''failed to open ignore file''
      | Read_error \<Rightarrow> throw_lv E_filesystem_error ''failed to read ignore file''
      | Contents text \<Rightarrow>
          Inr \<lparr>ir_patterns = List.map_filter parse_line (read_lines text), ir_case_sensitivity = cs\<rparr>)"

definition rules_empty :: "IgnoreRules \<Rightarrow> bool" where
  "rules_empty rules \<longleftrightarrow> ir_patterns rules = []"

section \<open>What the rules ignore\<close>

definition pattern_matches :: "IgnoreCaseSensitivity \<Rightarrow> Pattern \<Rightarrow> string \<Rightarrow> bool" where
  "pattern_matches cs pattern path \<longleftrightarrow>
     list_all2 (\<lambda>p n. glob cs (characters p) (characters n)) (split_slash (pt_text pattern))
       (if pt_name_only pattern then [last (split_slash path)] else split_slash path)"

lemma name_of_split: "split_slash (name_of t) = [name_of t]"
proof -
  have "CHR ''/'' \<notin> set (name_of t)" by (auto simp: name_of_def dest: set_takeWhileD)
  then show ?thesis by (rule split_slash_word)
qed

text \<open>
  [C33] The ignore rules mean what their notation says: for patterns and a path in UTF-8, matching
  always terminates, and a path is ignored exactly when some pattern (one that is for directories only
  counts only for directories) agrees with its last component, or for a pattern with a slash with all
  its components one by one, where a question mark stands for one Unicode character, a star for any
  number of them, and any other character for itself up to the case convention. The directory is pruned
  exactly when it is ignored.
\<close>

theorem ignore_rules_meaning:
  assumes "\<forall>pattern \<in> set (ir_patterns rules). is_valid_utf8 (pt_text pattern)" and "is_valid_utf8 path"
  shows "match_rules rules path is_directory =
    (let ignored = (\<exists>pattern \<in> set (ir_patterns rules). (pt_directory_only pattern \<longrightarrow> is_directory) \<and>
           pattern_matches (ir_case_sensitivity rules) pattern (normalize_separators path))
     in Some \<lparr>im_ignored = ignored, im_prune_directory = ignored \<and> is_directory\<rparr>)"
proof -
  let ?path = "normalize_separators path"
  have path: "\<forall>w \<in> set (split_slash ?path). well_formed w"
    using assms(2) by (intro well_formed_split well_formed_normalize valid_utf8_well_formed)
  have name: "\<forall>w \<in> set (split_slash (name_of ?path)). well_formed w"
    unfolding name_of_split using path last_in_set [OF split_slash_not_Nil] by (simp add: name_of_last)
  have one: "match_path cs (pt_text pattern) (if pt_name_only pattern then name_of ?path else ?path) =
      Some (pattern_matches cs pattern ?path)" if "is_valid_utf8 (pt_text pattern)" for cs pattern
    using match_path_split [OF well_formed_split [OF valid_utf8_well_formed [OF that]] path]
      match_path_split [OF well_formed_split [OF valid_utf8_well_formed [OF that]] name, unfolded name_of_split]
    by (simp add: pattern_matches_def name_of_last)
  have "match_patterns cs ?path is_directory patterns =
      (let ignored = (\<exists>pattern \<in> set patterns. (pt_directory_only pattern \<longrightarrow> is_directory) \<and>
             pattern_matches cs pattern ?path)
       in Some \<lparr>im_ignored = ignored, im_prune_directory = ignored \<and> is_directory\<rparr>)"
    if "\<forall>pattern \<in> set patterns. is_valid_utf8 (pt_text pattern)" for cs patterns
    using that by (induction patterns) (auto simp: one Let_def)
  from this [OF assms(1)] show ?thesis by (simp add: match_rules_def)
qed

text \<open>Termination does not depend on the encoding: the position after the last star, the place where it
  was last tried, and the rest of the pattern decrease lexicographically.\<close>

lemma next_character_shorter: "name \<noteq> [] \<Longrightarrow> length (next_character name) < length name"
  by (cases name) (auto simp: character_length_def)

lemma match_loop_terminates:
  assumes "case star of None \<Rightarrow> True | Some (SP, SN) \<Rightarrow> length p \<le> length SP \<and> length n \<le> length SN"
  shows "\<exists>b. match_loop cs p n star = Some b"
  using assms
proof (induction "(p, n, star)" arbitrary: p n star rule: wf_induct_rule [OF wf_measures [of
      "[\<lambda>(p, n, star). case star of None \<Rightarrow> Suc (length p) | Some (SP, SN) \<Rightarrow> length SP,
        \<lambda>(p, n, star). case star of None \<Rightarrow> 0 | Some (SP, SN) \<Rightarrow> length SN, \<lambda>(p, n, star). length p]"]])
  case (1 p n star)
  note IH = 1(1) and bounded = 1(2)
  consider (stop) "n = []" | (any) q where "n \<noteq> []" "p = CHR ''?'' # q" | (star) q where "n \<noteq> []" "p = CHR ''*'' # q"
    | (lit) x q where "n \<noteq> []" "p = x # q" "x \<noteq> CHR ''?''" "x \<noteq> CHR ''*''" "equal_literal cs x (hd n)"
    | (retry) "n \<noteq> []" "p = [] \<or> hd p \<noteq> CHR ''?'' \<and> hd p \<noteq> CHR ''*'' \<and> \<not> equal_literal cs (hd p) (hd n)"
    by (cases p) auto
  then show ?case
  proof cases
    case stop
    then show ?thesis by (subst match_loop.simps) simp
  next
    case any
    have "\<exists>b. match_loop cs q (next_character n) star = Some b"
      by (rule IH) (use any bounded next_character_shorter [OF any(1)] in \<open>auto split: option.splits\<close>)
    then show ?thesis using any by (subst match_loop.simps) simp
  next
    case star
    have "\<exists>b. match_loop cs q n (Some (q, n)) = Some b"
      by (rule IH) (use star bounded in \<open>auto split: option.splits\<close>)
    then show ?thesis using star by (subst match_loop.simps) simp
  next
    case lit
    have "\<exists>b. match_loop cs q (tl n) star = Some b"
      by (rule IH) (use lit bounded in \<open>auto split: option.splits\<close>)
    then show ?thesis using lit by (subst match_loop.simps) simp
  next
    case retry
    show ?thesis
    proof (cases star)
      case None
      then show ?thesis using retry by (subst match_loop.simps) auto
    next
      case (Some s)
      obtain SP SN where s: "s = (SP, SN)" by (cases s)
      have "length SN \<noteq> 0" using bounded retry(1) Some s by auto
      then have shorter: "length (next_character SN) < length SN" using next_character_shorter by simp
      have "\<exists>b. match_loop cs SP (next_character SN) (Some (SP, next_character SN)) = Some b"
        by (rule IH) (use Some s shorter in auto)
      then show ?thesis using retry Some s by (subst match_loop.simps) auto
    qed
  qed
qed

lemma match_path_terminates: "\<exists>b. match_path cs pattern path = Some b"
proof (induction cs pattern path rule: match_path.induct)
  case (1 cs pattern path)
  obtain b where b: "match_component cs (first_component pattern) (first_component path) = Some b"
    using match_loop_terminates [where star = None and cs = cs and p = "first_component pattern" and n = "first_component path"]
    by (auto simp: match_component_def)
  show ?case
    using 1 [OF b] b by (subst match_path.simps) (auto split: option.split)
qed

text \<open>
  [C34] Matching a path against the rules of an ignore file always ends, whatever bytes the patterns and
  the path consist of.
\<close>

theorem ignore_matching_terminates: "\<exists>result. match_rules rules path is_directory = Some result"
proof -
  have "\<exists>result. match_patterns cs p is_directory patterns = Some result" for cs p patterns
  proof (induction patterns)
    case (Cons pattern patterns)
    obtain b where "match_path cs (pt_text pattern) (if pt_name_only pattern then name_of p else p) = Some b"
      using match_path_terminates by blast
    then show ?case using Cons by auto
  qed simp
  then show ?thesis by (simp add: match_rules_def)
qed

definition demo_rules :: IgnoreRules where
  "demo_rules = \<lparr>ir_patterns = [\<lparr>pt_text = ''*.t?p'', pt_name_only = True, pt_directory_only = False\<rparr>],
     ir_case_sensitivity = case_sensitive\<rparr>"

theorem ignore_rules_meaning_witness:
  "match_rules demo_rules ''a/b.c.tmp'' False = Some \<lparr>im_ignored = True, im_prune_directory = False\<rparr>"
proof -
  have "\<forall>pattern \<in> set (ir_patterns demo_rules). is_valid_utf8 (pt_text pattern)" "is_valid_utf8 ''a/b.c.tmp''"
    by code_simp+
  note ignore_rules_meaning [OF this, of False]
  moreover have "pattern_matches case_sensitive \<lparr>pt_text = ''*.t?p'', pt_name_only = True, pt_directory_only = False\<rparr>
      (normalize_separators ''a/b.c.tmp'')"
    by code_simp
  ultimately show ?thesis by (simp add: demo_rules_def)
qed

end
