(* ===== verification/File_Scanner.thy ===== *)
theory File_Scanner
  imports Ignore_Rules Posix_Metadata "HOL-Library.Char_ord" "HOL-Library.List_Lexorder"
    "HOL-Library.Product_Lexorder"
begin

text \<open>
  The scanner (\<^verbatim>\<open>src/core/filesystem/file_scanner.cpp\<close>) and the metadata it reads through
  \<^verbatim>\<open>lstat\<close> (\<^verbatim>\<open>posix_file_metadata.cpp\<close>). The source tree is a parameter: for every path it
  says what each of the calls of the scanner returns, errors included. Symbolic links are never
  followed, so the tree is finite. Callbacks are procedures on a state of the caller; they may raise.
\<close>

unbundle bit_operations_syntax

section \<open>Metadata of a path\<close>

record stat =
  st_size :: int
  st_mtim :: "int \<times> int"
  st_ctim :: "int \<times> int"
  st_dev :: u64
  st_ino :: u64
  st_mode :: u32

record PlatformFileMetadata =
  pm_logical_size :: u64
  pm_modified_time_ns :: int
  pm_changed_time_ns :: int
  pm_file_id_volume :: u64
  pm_file_id_value :: u64
  pm_posix_mode :: u32

definition same_stable_identity :: "PlatformFileMetadata \<Rightarrow> PlatformFileMetadata \<Rightarrow> bool" where
  "same_stable_identity a b \<longleftrightarrow>
     pm_logical_size a = pm_logical_size b \<and> pm_modified_time_ns a = pm_modified_time_ns b \<and>
     pm_changed_time_ns a = pm_changed_time_ns b \<and> pm_file_id_volume a = pm_file_id_volume b \<and>
     pm_file_id_value a = pm_file_id_value b"

text \<open>An \<^verbatim>\<open>lstat\<close> call fails with the text of \<^verbatim>\<open>errno\<close> or fills the structure.\<close>

definition read_platform_file_metadata_no_follow :: "string + stat \<Rightarrow> exn + PlatformFileMetadata" where
  "read_platform_file_metadata_no_follow lstat =
     (case lstat of
        Inl m \<Rightarrow> throw_lv E_filesystem_error (''failed to read file metadata without following symlinks: '' @ m)
      | Inr information \<Rightarrow>
          if st_size information < 0
          then throw_lv E_filesystem_error ''file size is outside the supported range''
          else
            bindE (nanoseconds_since_epoch (fst (st_mtim information)) (snd (st_mtim information))) (\<lambda>modified.
            bindE (nanoseconds_since_epoch (fst (st_ctim information)) (snd (st_ctim information))) (\<lambda>changed.
            Inr \<lparr>pm_logical_size = word_of_int (st_size information), pm_modified_time_ns = modified,
                 pm_changed_time_ns = changed, pm_file_id_volume = st_dev information,
                 pm_file_id_value = st_ino information, pm_posix_mode = st_mode information\<rparr>)))"

datatype ScannerReparseKind = rp_none | rp_symbolic_link | rp_junction | rp_volume_mount_point | rp_other

record ScannerPlatformMetadata =
  sp_filesystem_identity :: u64
  sp_reparse_kind :: ScannerReparseKind
  sp_hidden :: bool
  sp_cloud_placeholder :: bool

definition read_scanner_platform_metadata_no_follow ::
  "string \<Rightarrow> string + stat \<Rightarrow> exn + ScannerPlatformMetadata" where
  "read_scanner_platform_metadata_no_follow path lstat =
     (case lstat of
        Inl m \<Rightarrow> throw_lv E_filesystem_error
                   (''failed to inspect scanner metadata without following symlinks: '' @ m)
      | Inr information \<Rightarrow>
          Inr \<lparr>sp_filesystem_identity = st_dev information,
               sp_reparse_kind = (if st_mode information AND 0xF000 = 0xA000 then rp_symbolic_link else rp_none),
               sp_hidden = (take 1 (name_of path) = ''.''), sp_cloud_placeholder = False\<rparr>)"

definition scanner_paths_are_case_sensitive :: "string \<Rightarrow> bool" where
  "scanner_paths_are_case_sensitive source_root = True"

section \<open>Deciding about an entry\<close>

record FileScannerOptions =
  fo_include_hidden :: bool
  fo_one_file_system :: bool
  fo_ignore_file :: "string option"

datatype ScanEntryKind =
    sk_ordinary | sk_symbolic_link | sk_junction | sk_volume_mount_point | sk_unsupported_reparse_point

record ScanEntryFacts =
  sf_kind :: ScanEntryKind
  sf_hidden :: bool
  sf_cloud_placeholder :: bool
  sf_filesystem_boundary :: bool

datatype ScanEntryAction = sa_capture | sa_capture_as_symbolic_link | sa_skip | sa_warn_and_skip

record ScanEntryDecision =
  sd_action :: ScanEntryAction
  sd_warning_code :: string

definition decide_scan_entry :: "ScanEntryFacts \<Rightarrow> FileScannerOptions \<Rightarrow> ScanEntryDecision" where
  "decide_scan_entry facts options =
     (if \<not> fo_include_hidden options \<and> sf_hidden facts
      then \<lparr>sd_action = sa_skip, sd_warning_code = []\<rparr>
      else if sf_cloud_placeholder facts
      then \<lparr>sd_action = sa_warn_and_skip, sd_warning_code = ''cloud_placeholder''\<rparr>
      else if sf_kind facts = sk_volume_mount_point
      then \<lparr>sd_action = sa_warn_and_skip, sd_warning_code = ''volume_mount_point''\<rparr>
      else if sf_kind facts = sk_unsupported_reparse_point
      then \<lparr>sd_action = sa_warn_and_skip, sd_warning_code = ''unsupported_reparse_point''\<rparr>
      else if fo_one_file_system options \<and> sf_filesystem_boundary facts
      then \<lparr>sd_action = sa_warn_and_skip, sd_warning_code = ''filesystem_boundary''\<rparr>
      else if sf_kind facts = sk_symbolic_link \<or> sf_kind facts = sk_junction
      then \<lparr>sd_action = sa_capture_as_symbolic_link, sd_warning_code = []\<rparr>
      else \<lparr>sd_action = sa_capture, sd_warning_code = []\<rparr>)"

datatype file_type = ft_regular | ft_directory | ft_symlink | ft_other

definition scan_entry_kind :: "file_type \<Rightarrow> ScannerPlatformMetadata \<Rightarrow> ScanEntryKind" where
  "scan_entry_kind status metadata =
     (case sp_reparse_kind metadata of
        rp_symbolic_link \<Rightarrow> sk_symbolic_link
      | rp_junction \<Rightarrow> sk_junction
      | rp_volume_mount_point \<Rightarrow> sk_volume_mount_point
      | rp_other \<Rightarrow> sk_unsupported_reparse_point
      | rp_none \<Rightarrow> if status = ft_symlink then sk_symbolic_link else sk_ordinary)"

definition warning_message :: "string \<Rightarrow> string" where
  "warning_message code =
     (if code = ''cloud_placeholder'' then ''cloud placeholder was skipped to avoid downloading content''
      else if code = ''volume_mount_point'' then ''Windows volume mount point was skipped''
      else if code = ''unsupported_reparse_point'' then ''unsupported Windows reparse point was skipped''
      else ''filesystem boundary was skipped'')"

definition path_to_utf8 :: "string \<Rightarrow> string option" where
  "path_to_utf8 path = (if is_valid_utf8 path then Some path else None)"

definition relative_parent :: "string \<Rightarrow> string" where
  "relative_parent path =
     (if CHR ''/'' \<in> set path then rev (tl (dropWhile (\<lambda>c. c \<noteq> CHR ''/'') (rev path))) else [])"

definition entry_name :: "string \<Rightarrow> string" where
  "entry_name path = name_of path"

section \<open>The source tree\<close>

text \<open>What the calls on one path return: \<^verbatim>\<open>symlink_status\<close>, the two \<^verbatim>\<open>lstat\<close> calls,
  \<^verbatim>\<open>read_symlink\<close>, opening it as a directory, the names found in it, and whether enumeration breaks
  off after the last of them.\<close>

datatype node =
  Node (nd_status: "string + file_type") (nd_scanner_lstat: "string + stat") (nd_lstat: "string + stat")
    (nd_link: "string + string") (nd_open_error: "string option")
    (nd_children: "(string \<times> node) list") (nd_broken: "string option")

record 's scan_env =
  sc_stop :: "('s, bool) proc"
  sc_on_entry :: "ScannedEntry \<Rightarrow> ('s, unit) proc"
  sc_on_warning :: "ScanWarning \<Rightarrow> ('s, unit) proc"
  sc_root_identity :: u64
  sc_rules :: IgnoreRules
  sc_options :: FileScannerOptions

definition scan_check_cancelled :: "('s, bool) proc \<Rightarrow> ('s, unit) proc" where
  "scan_check_cancelled stop =
     bindp stop (\<lambda>requested. guardp (\<not> requested) E_cancelled ''snapshot cancelled'')"

definition add_warning :: "(ScanWarning \<Rightarrow> ('s, unit) proc) \<Rightarrow> string \<Rightarrow> string \<Rightarrow> string \<Rightarrow> ('s, unit) proc" where
  "add_warning on_warning relative_path code message =
     on_warning \<lparr>sw_relative_path = relative_path, sw_code = code, sw_message = message\<rparr>"

definition scan_entry ::
  "string \<Rightarrow> string \<Rightarrow> node \<Rightarrow> file_type \<Rightarrow> bool \<Rightarrow> (ScanWarning \<Rightarrow> ('s, unit) proc) \<Rightarrow>
   ('s, ScannedEntry option) proc" where
  "scan_entry source_path relative_path nd status capture_as_symbolic_link on_warning =
     (let warn = (\<lambda>code message. seqp (add_warning on_warning relative_path code message) (ret None));
          capture = (\<lambda>type.
            case read_platform_file_metadata_no_follow (nd_lstat nd) of
              Inl e \<Rightarrow> (case e of Lv err \<Rightarrow> warn ''metadata_unavailable'' (what err) | _ \<Rightarrow> raise e)
            | Inr metadata \<Rightarrow>
                let done = (\<lambda>target. ret (Some \<lparr>se_source_path = source_path, se_relative_path = relative_path,
                      se_parent_path = relative_parent relative_path, se_name = entry_name relative_path,
                      se_type = type,
                      se_logical_size = (if type = regular_file then pm_logical_size metadata else 0),
                      se_modified_time_ns = pm_modified_time_ns metadata,
                      se_posix_mode = pm_posix_mode metadata, se_symlink_target = target\<rparr>)) in
                if type = symbolic_link then
                  (case nd_link nd of
                     Inl m \<Rightarrow> warn ''symlink_target_unavailable'' (''failed to read symbolic-link target: '' @ m)
                   | Inr target \<Rightarrow>
                       (case path_to_utf8 target of
                          None \<Rightarrow> warn ''unsupported_path_encoding''
                                    ''symbolic-link target is not valid UTF-8 and was skipped''
                        | Some text \<Rightarrow> done (Some text)))
                else done None)
      in if capture_as_symbolic_link \<or> status = ft_symlink then capture symbolic_link
         else if status = ft_regular then capture regular_file
         else if status = ft_directory then capture directory
         else warn ''unsupported_file_type'' ''special or unknown filesystem entry was skipped'')"

section \<open>Walking the tree\<close>

text \<open>One child of a directory, up to the decision whether to descend.\<close>

definition scan_child ::
  "'s scan_env \<Rightarrow> string \<Rightarrow> string \<Rightarrow> node \<Rightarrow> ('s, bool) proc" where
  "scan_child env source_path relative_native nd =
     (case path_to_utf8 relative_native of
        None \<Rightarrow> seqp (add_warning (sc_on_warning env) [] ''unsupported_path_encoding''
                        ''filesystem entry path is not valid UTF-8 and was skipped'') (ret False)
      | Some relative \<Rightarrow>
          (case nd_status nd of
             Inl m \<Rightarrow> seqp (add_warning (sc_on_warning env) relative ''filesystem_inspection_failed''
                              (''failed to inspect filesystem entry: '' @ m)) (ret False)
           | Inr status \<Rightarrow>
               (case read_scanner_platform_metadata_no_follow source_path (nd_scanner_lstat nd) of
                  Inl e \<Rightarrow> (case e of
                      Lv err \<Rightarrow> seqp (add_warning (sc_on_warning env) relative ''metadata_unavailable'' (what err)) (ret False)
                    | _ \<Rightarrow> raise e)
                | Inr platform \<Rightarrow>
                    let kind = scan_entry_kind status platform;
                        directory_like = (status = ft_directory \<or> kind = sk_junction \<or> kind = sk_volume_mount_point) in
                    if im_ignored (the (match_rules (sc_rules env) relative directory_like)) then ret False
                    else
                      let decision = decide_scan_entry
                            \<lparr>sf_kind = kind, sf_hidden = sp_hidden platform,
                             sf_cloud_placeholder = sp_cloud_placeholder platform,
                             sf_filesystem_boundary = (sp_filesystem_identity platform \<noteq> sc_root_identity env)\<rparr>
                            (sc_options env) in
                      if sd_action decision = sa_warn_and_skip then
                        seqp (add_warning (sc_on_warning env) relative (sd_warning_code decision)
                                (warning_message (sd_warning_code decision))) (ret False)
                      else if sd_action decision = sa_skip then ret False
                      else
                        bindp (scan_entry source_path relative nd status
                                 (sd_action decision = sa_capture_as_symbolic_link) (sc_on_warning env)) (\<lambda>entry.
                        case entry of
                          None \<Rightarrow> ret False
                        | Some e \<Rightarrow> seqp (sc_on_entry env e) (ret (se_type e = directory))))))"

text \<open>\<^verbatim>\<open>scan_directory\<close> and its loop over the enumeration.\<close>

fun scan_directory :: "'s scan_env \<Rightarrow> string \<Rightarrow> string \<Rightarrow> node \<Rightarrow> ('s, unit) proc"
  and scan_children :: "'s scan_env \<Rightarrow> string \<Rightarrow> string \<Rightarrow> (string \<times> node) list \<Rightarrow> string option \<Rightarrow> ('s, unit) proc"
where
  "scan_directory env source_directory relative_directory (Node status lstat1 lstat2 link open_error children broken) =
     seqp (scan_check_cancelled (sc_stop env))
     (case open_error of
        Some m \<Rightarrow>
          add_warning (sc_on_warning env)
            (case path_to_utf8 relative_directory of Some relative \<Rightarrow> relative | None \<Rightarrow> [])
            ''directory_enumeration_failed'' (''failed to enumerate directory: '' @ m)
      | None \<Rightarrow> scan_children env source_directory relative_directory children broken)"
| "scan_children env source_directory relative_directory [] broken = ret ()"
| "scan_children env source_directory relative_directory ((name, child) # children) broken =
     seqp (scan_check_cancelled (sc_stop env))
     (bindp (scan_child env (path_join source_directory name) (path_join relative_directory name) child)
       (\<lambda>descend.
        seqp (if descend
              then scan_directory env (path_join source_directory name) (path_join relative_directory name) child
              else ret ())
          (if children = [] then
             (case broken of
                None \<Rightarrow> ret ()
              | Some m \<Rightarrow>
                  add_warning (sc_on_warning env)
                    (case path_to_utf8 relative_directory of Some relative \<Rightarrow> relative | None \<Rightarrow> [])
                    ''directory_enumeration_failed'' (''failed while enumerating directory: '' @ m))
           else scan_children env source_directory relative_directory children broken)))"

section \<open>The entry points\<close>

record scan_request =
  sq_absolute :: "string \<Rightarrow> string + string"
  sq_tree :: "string \<Rightarrow> node"
  sq_ignore_file :: "string \<Rightarrow> ignore_file"

definition scan_streaming ::
  "scan_request \<Rightarrow> string \<Rightarrow> ('s, bool) proc \<Rightarrow> (ScannedEntry \<Rightarrow> ('s, unit) proc) option \<Rightarrow>
   (ScanWarning \<Rightarrow> ('s, unit) proc) option \<Rightarrow> FileScannerOptions \<Rightarrow> ('s, unit) proc" where
  "scan_streaming os source_root stop on_entry on_warning options =
     seqp (guardp (source_root \<noteq> []) E_invalid_argument ''source root path must not be empty'')
     (case (on_entry, on_warning) of
        (Some entry_callback, Some warning_callback) \<Rightarrow>
          seqp (scan_check_cancelled stop)
          (case sq_absolute os source_root of
             Inl m \<Rightarrow> raise_lv E_filesystem_error (''failed to make source path absolute: '' @ m)
           | Inr absolute \<Rightarrow>
               let normalized = lexically_normal absolute; root = sq_tree os normalized in
               (case nd_status root of
                  Inl m \<Rightarrow> raise_lv E_filesystem_error (''failed to inspect source root: '' @ m)
                | Inr root_status \<Rightarrow>
                    seqp (guardp (root_status = ft_directory) E_invalid_argument
                            ''source root must be a directory and not a symbolic link'')
                    (bindp (liftp (read_scanner_platform_metadata_no_follow normalized (nd_scanner_lstat root)))
                      (\<lambda>root_platform.
                     seqp (guardp (sp_reparse_kind root_platform = rp_none \<and> \<not> sp_cloud_placeholder root_platform)
                             E_invalid_argument ''source root must not be a reparse point or cloud placeholder'')
                     (bindp (liftp (load_rules (sq_ignore_file os) normalized (fo_ignore_file options)
                               (if scanner_paths_are_case_sensitive normalized then case_sensitive
                                else case_insensitive))) (\<lambda>rules.
                      bindp (scan_entry normalized [] root root_status False warning_callback) (\<lambda>entry.
                      case entry of
                        None \<Rightarrow> raise_lv E_filesystem_error ''failed to capture source-root metadata''
                      | Some e \<Rightarrow>
                          seqp (entry_callback e)
                            (scan_directory
                               \<lparr>sc_stop = stop, sc_on_entry = entry_callback, sc_on_warning = warning_callback,
                                sc_root_identity = sp_filesystem_identity root_platform, sc_rules = rules,
                                sc_options = options\<rparr> normalized [] root))))))))
      | _ \<Rightarrow> raise_lv E_invalid_argument ''streaming scan requires entry and warning callbacks'')"

record ScanResult =
  sr_entries :: "ScannedEntry list"
  sr_warnings :: "ScanWarning list"

definition push_entry :: "ScannedEntry \<Rightarrow> (ScanResult, unit) proc" where
  "push_entry e = modifyp (\<lambda>r. r\<lparr>sr_entries := sr_entries r @ [e]\<rparr>)"

definition push_warning :: "ScanWarning \<Rightarrow> (ScanResult, unit) proc" where
  "push_warning w = modifyp (\<lambda>r. r\<lparr>sr_warnings := sr_warnings r @ [w]\<rparr>)"

definition scan :: "scan_request \<Rightarrow> string \<Rightarrow> FileScannerOptions \<Rightarrow> exn + ScanResult" where
  "scan os source_root options =
     (case scan_streaming os source_root (ret False) (Some push_entry) (Some push_warning) options
             \<lparr>sr_entries = [], sr_warnings = []\<rparr> of
        (Inl e, _) \<Rightarrow> Inl e
      | (Inr _, result) \<Rightarrow>
          Inr \<lparr>sr_entries = sort_key se_relative_path (sr_entries result),
               sr_warnings = sort_key (\<lambda>w. (sw_relative_path w, sw_code w, sw_message w)) (sr_warnings result)\<rparr>)"

end
