(* ===== verification/Scan_Laws.thy ===== *)
theory Scan_Laws
  imports File_Scanner Restore_Checks
begin

text \<open>
  What a scan delivers. The callbacks receive a sequence of events that depends on the source tree
  only; the captured entries are exactly those that an admission policy written as a predicate admits
  along a chain of captured directories; and they form a snapshot that the restore engine accepts.
\<close>

unbundle bit_operations_syntax

section \<open>A scan as a sequence of events\<close>

lemma seqp_assoc: "seqp (seqp a b) c = seqp a (seqp b c)" "bindp (seqp a b) k = seqp a (bindp b k)"
  by (simp_all add: fun_eq_iff seqp_run bindp_run split: prod.split sum.split)

lemma seqp_ret [simp]: "seqp m (ret ()) = m"
  by (auto simp: fun_eq_iff seqp_run ret_def split: prod.split sum.split)

lemma iterp_append: "iterp f (xs @ ys) = seqp (iterp f xs) (iterp f ys)"
  by (induction xs) (simp_all add: seqp_assoc)

definition captured_entry ::
  "string \<Rightarrow> string \<Rightarrow> EntryType \<Rightarrow> PlatformFileMetadata \<Rightarrow> string option \<Rightarrow> ScannedEntry" where
  "captured_entry source relative type metadata target =
     \<lparr>se_source_path = source, se_relative_path = relative, se_parent_path = relative_parent relative,
      se_name = entry_name relative, se_type = type,
      se_logical_size = (if type = regular_file then pm_logical_size metadata else 0),
      se_modified_time_ns = pm_modified_time_ns metadata, se_posix_mode = pm_posix_mode metadata,
      se_symlink_target = target\<rparr>"

definition entry_found ::
  "string \<Rightarrow> string \<Rightarrow> node \<Rightarrow> file_type \<Rightarrow> bool \<Rightarrow> ScanWarning + ScannedEntry" where
  "entry_found source relative nd status link =
     (let warn = (\<lambda>code message. Inl \<lparr>sw_relative_path = relative, sw_code = code, sw_message = message\<rparr>);
          type = (if link \<or> status = ft_symlink then symbolic_link
                  else if status = ft_regular then regular_file else directory) in
      if \<not> link \<and> status = ft_other
      then warn ''unsupported_file_type'' ''special or unknown filesystem entry was skipped''
      else
        case read_platform_file_metadata_no_follow (nd_lstat nd) of
          Inl e \<Rightarrow> warn ''metadata_unavailable'' (what_of e)
        | Inr metadata \<Rightarrow>
            if type = symbolic_link then
              (case nd_link nd of
                 Inl m \<Rightarrow> warn ''symlink_target_unavailable'' (''failed to read symbolic-link target: '' @ m)
               | Inr target \<Rightarrow>
                   if is_valid_utf8 target
                   then Inr (captured_entry source relative type metadata (Some target))
                   else warn ''unsupported_path_encoding''
                          ''symbolic-link target is not valid UTF-8 and was skipped'')
            else Inr (captured_entry source relative type metadata None))"

lemma metadata_error_is_lv:
  "read_platform_file_metadata_no_follow l = Inl e \<Longrightarrow> \<exists>err. e = Lv err"
  by (auto simp: read_platform_file_metadata_no_follow_def nanoseconds_since_epoch_def bindE_def Let_def
      split: sum.splits if_splits)

lemma scanner_metadata_error_is_lv:
  "read_scanner_platform_metadata_no_follow p l = Inl e \<Longrightarrow> \<exists>err. e = Lv err"
  by (auto simp: read_scanner_platform_metadata_no_follow_def split: sum.splits)

lemma scan_entry_found:
  "scan_entry source relative nd status link on_warning =
     (case entry_found source relative nd status link of
        Inl w \<Rightarrow> seqp (on_warning w) (ret None) | Inr e \<Rightarrow> ret (Some e))"
proof (cases "read_platform_file_metadata_no_follow (nd_lstat nd)")
  case (Inl e)
  then obtain err where "e = Lv err" using metadata_error_is_lv by blast
  then show ?thesis
    using Inl by (cases status) (simp_all add: scan_entry_def entry_found_def add_warning_def Let_def)
next
  case (Inr md)
  then show ?thesis
    by (cases status; cases "nd_link nd"; cases link)
      (simp_all add: scan_entry_def entry_found_def add_warning_def captured_entry_def path_to_utf8_def Let_def)
qed

definition child_found :: "'s scan_env \<Rightarrow> string \<Rightarrow> string \<Rightarrow> node \<Rightarrow> (ScanWarning + ScannedEntry) option" where
  "child_found env source relative nd =
     (let warn = (\<lambda>path code message.
            Some (Inl \<lparr>sw_relative_path = path, sw_code = code, sw_message = message\<rparr>)) in
      if \<not> is_valid_utf8 relative
      then warn [] ''unsupported_path_encoding'' ''filesystem entry path is not valid UTF-8 and was skipped''
      else case nd_status nd of
        Inl m \<Rightarrow> warn relative ''filesystem_inspection_failed'' (''failed to inspect filesystem entry: '' @ m)
      | Inr status \<Rightarrow>
          (case nd_scanner_lstat nd of
             Inl m \<Rightarrow> warn relative ''metadata_unavailable''
                       (''failed to inspect scanner metadata without following symlinks: '' @ m)
           | Inr info \<Rightarrow>
               let link = (st_mode info AND 0xF000 = 0xA000 \<or> status = ft_symlink) in
               if im_ignored (the (match_rules (sc_rules env) relative (status = ft_directory))) then None
               else if \<not> fo_include_hidden (sc_options env) \<and> take 1 (name_of source) = ''.'' then None
               else if fo_one_file_system (sc_options env) \<and> st_dev info \<noteq> sc_root_identity env
               then warn relative ''filesystem_boundary'' ''filesystem boundary was skipped''
               else Some (entry_found source relative nd status link)))"

lemma scan_child_found:
  "scan_child env source relative nd =
     (case child_found env source relative nd of
        None \<Rightarrow> ret False
      | Some (Inl w) \<Rightarrow> seqp (sc_on_warning env w) (ret False)
      | Some (Inr e) \<Rightarrow> seqp (sc_on_entry env e) (ret (se_type e = directory)))"
proof (cases "is_valid_utf8 relative")
  case False
  then show ?thesis by (simp add: scan_child_def child_found_def path_to_utf8_def add_warning_def)
next
  case utf8: True
  show ?thesis
  proof (cases "nd_status nd")
    case (Inl m)
    then show ?thesis using utf8 by (simp add: scan_child_def child_found_def path_to_utf8_def add_warning_def)
  next
    case status: (Inr status)
    show ?thesis
    proof (cases "nd_scanner_lstat nd")
      case (Inl m)
      then show ?thesis
        using utf8 status by (simp add: scan_child_def child_found_def path_to_utf8_def add_warning_def
            read_scanner_platform_metadata_no_follow_def)
    next
      case (Inr info)
      let ?link = "st_mode info AND 0xF000 = 0xA000"
      define link where "link = (?link \<or> status = ft_symlink)"
      define platform where "platform = \<lparr>sp_filesystem_identity = st_dev info,
          sp_reparse_kind = (if ?link then rp_symbolic_link else rp_none),
          sp_hidden = (take 1 (name_of source) = ''.''), sp_cloud_placeholder = False\<rparr>"
      have platform: "read_scanner_platform_metadata_no_follow source (nd_scanner_lstat nd) = Inr platform"
        "sp_hidden platform \<longleftrightarrow> take 1 (name_of source) = ''.''" "\<not> sp_cloud_placeholder platform"
        "sp_filesystem_identity platform = st_dev info"
        unfolding platform_def by (simp_all add: read_scanner_platform_metadata_no_follow_def Inr)
      have kind: "scan_entry_kind status platform = (if link then sk_symbolic_link else sk_ordinary)"
        by (simp add: scan_entry_kind_def link_def platform_def)
      have directory: "status = ft_directory \<or> (if link then sk_symbolic_link else sk_ordinary) = sk_junction \<or>
          (if link then sk_symbolic_link else sk_ordinary) = sk_volume_mount_point \<longleftrightarrow> status = ft_directory"
        by simp
      have found: "child_found env source relative nd =
         (if im_ignored (the (match_rules (sc_rules env) relative (status = ft_directory))) then None
          else if \<not> fo_include_hidden (sc_options env) \<and> take 1 (name_of source) = ''.'' then None
          else if fo_one_file_system (sc_options env) \<and> st_dev info \<noteq> sc_root_identity env
          then Some (Inl \<lparr>sw_relative_path = relative, sw_code = ''filesystem_boundary'',
                           sw_message = ''filesystem boundary was skipped''\<rparr>)
          else Some (entry_found source relative nd status link))"
        using utf8 status Inr by (simp add: child_found_def link_def)
      show ?thesis
        unfolding found scan_child_def path_to_utf8_def if_P [OF utf8] option.case status sum.case platform(1) kind
          Let_def directory scan_entry_found add_warning_def decide_scan_entry_def warning_message_def
        by (cases link; cases "entry_found source relative nd status link") (simp_all add: platform seqp_assoc)
    qed
  qed
qed

fun directory_events :: "'s scan_env \<Rightarrow> string \<Rightarrow> string \<Rightarrow> node \<Rightarrow> (ScanWarning + ScannedEntry) list"
  and children_events ::
    "'s scan_env \<Rightarrow> string \<Rightarrow> string \<Rightarrow> (string \<times> node) list \<Rightarrow> string option \<Rightarrow> (ScanWarning + ScannedEntry) list"
where
  "directory_events env source relative (Node status lstat1 lstat2 link open_error children broken) =
     (case open_error of
        Some m \<Rightarrow> [Inl \<lparr>sw_relative_path = (if is_valid_utf8 relative then relative else []),
                        sw_code = ''directory_enumeration_failed'',
                        sw_message = ''failed to enumerate directory: '' @ m\<rparr>]
      | None \<Rightarrow> children_events env source relative children broken)"
| "children_events env source relative [] broken = []"
| "children_events env source relative ((name, child) # children) broken =
     (case child_found env (path_join source name) (path_join relative name) child of
        None \<Rightarrow> []
      | Some (Inl w) \<Rightarrow> [Inl w]
      | Some (Inr e) \<Rightarrow> Inr e #
          (if se_type e = directory
           then directory_events env (path_join source name) (path_join relative name) child else [])) @
     (if children = [] then
        (case broken of
           None \<Rightarrow> []
         | Some m \<Rightarrow> [Inl \<lparr>sw_relative_path = (if is_valid_utf8 relative then relative else []),
                           sw_code = ''directory_enumeration_failed'',
                           sw_message = ''failed while enumerating directory: '' @ m\<rparr>])
      else children_events env source relative children broken)"

definition deliver :: "'s scan_env \<Rightarrow> ScanWarning + ScannedEntry \<Rightarrow> ('s, unit) proc" where
  "deliver env event = (case event of Inl w \<Rightarrow> sc_on_warning env w | Inr e \<Rightarrow> sc_on_entry env e)"

lemma scan_directory_events:
  shows "sc_stop env = ret False \<Longrightarrow>
      scan_directory env source relative nd = iterp (deliver env) (directory_events env source relative nd)"
    and "sc_stop env = ret False \<Longrightarrow> scan_children env source relative children broken =
      iterp (deliver env) (children_events env source relative children broken)"
proof (induction env source relative nd and env source relative children broken
    rule: directory_events_children_events.induct)
  case (1 env source relative status lstat1 lstat2 link open_error children broken)
  then show ?case
    by (cases open_error) (simp_all add: scan_check_cancelled_def guardp_def deliver_def add_warning_def path_to_utf8_def)
next
  case (3 env source relative name child children broken)
  then show ?case
    by (cases "child_found env (path_join source name) (path_join relative name) child" rule: option.exhaust)
      (auto simp: scan_check_cancelled_def guardp_def deliver_def add_warning_def path_to_utf8_def scan_child_found
        seqp_assoc iterp_append split: sum.split option.split)
qed simp


section \<open>The admission policy\<close>

text \<open>When the scanner captures a path, and as what: the path is valid UTF-8, no ignore rule matches
  it, it is not a hidden name that was excluded nor on another file system that was excluded, its
  metadata can be read, and it is a regular file, a directory or a link with a target in valid UTF-8.\<close>

definition admits ::
  "IgnoreRules \<Rightarrow> FileScannerOptions \<Rightarrow> u64 \<Rightarrow> string \<Rightarrow> string \<Rightarrow> node \<Rightarrow> ScannedEntry \<Rightarrow> bool" where
  "admits rules options device source relative nd e \<longleftrightarrow>
     is_valid_utf8 relative \<and>
     (\<exists>status info metadata.
        nd_status nd = Inr status \<and> nd_scanner_lstat nd = Inr info \<and>
        read_platform_file_metadata_no_follow (nd_lstat nd) = Inr metadata \<and>
        \<not> im_ignored (the (match_rules rules relative (status = ft_directory))) \<and>
        (fo_include_hidden options \<or> take 1 (name_of source) \<noteq> ''.'') \<and>
        (fo_one_file_system options \<longrightarrow> st_dev info = device) \<and>
        (if st_mode info AND 0xF000 = 0xA000 \<or> status = ft_symlink
         then \<exists>target. nd_link nd = Inr target \<and> is_valid_utf8 target \<and>
                e = captured_entry source relative symbolic_link metadata (Some target)
         else (status = ft_regular \<and> e = captured_entry source relative regular_file metadata None) \<or>
              (status = ft_directory \<and> e = captured_entry source relative directory metadata None)))"

lemma entry_found_iff:
  "entry_found source relative nd status link = Inr e \<longleftrightarrow>
     (\<exists>metadata. read_platform_file_metadata_no_follow (nd_lstat nd) = Inr metadata \<and>
        (if link \<or> status = ft_symlink
         then \<exists>target. nd_link nd = Inr target \<and> is_valid_utf8 target \<and>
                e = captured_entry source relative symbolic_link metadata (Some target)
         else (status = ft_regular \<and> e = captured_entry source relative regular_file metadata None) \<or>
              (status = ft_directory \<and> e = captured_entry source relative directory metadata None)))"
  by (cases status; cases link) (auto simp: entry_found_def Let_def split: sum.split)

lemma child_found_admits:
  "child_found env source relative nd = Some (Inr e) \<longleftrightarrow>
     admits (sc_rules env) (sc_options env) (sc_root_identity env) source relative nd e"
proof (cases "nd_status nd"; cases "nd_scanner_lstat nd")
  fix status info assume "nd_status nd = Inr status" "nd_scanner_lstat nd = Inr info"
  then show ?thesis
    by (simp add: child_found_def admits_def entry_found_iff Let_def)
qed (simp_all add: child_found_def admits_def)

text \<open>The entries captured below a directory: a child of a directory that can be enumerated, or an
  entry below a child that is itself captured as a directory.\<close>

inductive captures ::
  "IgnoreRules \<Rightarrow> FileScannerOptions \<Rightarrow> u64 \<Rightarrow> string \<Rightarrow> string list \<Rightarrow> node \<Rightarrow> ScannedEntry \<Rightarrow> bool"
  for rules options device
where
  here: "nd_open_error nd = None \<Longrightarrow> (name, child) \<in> set (nd_children nd) \<Longrightarrow>
    admits rules options device (path_join source name) (join_slash (upper @ [name])) child e \<Longrightarrow>
    captures rules options device source upper nd e"
| deeper: "nd_open_error nd = None \<Longrightarrow> (name, child) \<in> set (nd_children nd) \<Longrightarrow>
    admits rules options device (path_join source name) (join_slash (upper @ [name])) child d \<Longrightarrow>
    se_type d = directory \<Longrightarrow>
    captures rules options device (path_join source name) (upper @ [name]) child e \<Longrightarrow>
    captures rules options device source upper nd e"

inductive_simps captures_iff: "captures rules options device source upper nd e"

text \<open>What directory enumeration guarantees: names without separators, never dot or dot-dot, each once.\<close>

fun named_tree :: "node \<Rightarrow> bool" and named_children :: "(string \<times> node) list \<Rightarrow> bool" where
  "named_tree (Node status lstat1 lstat2 link open_error children broken) \<longleftrightarrow>
     distinct (map fst children) \<and> named_children children"
| "named_children [] \<longleftrightarrow> True"
| "named_children ((name, child) # children) \<longleftrightarrow>
     proper_name name \<and> named_tree child \<and> named_children children"

lemma named_children_iff:
  "named_children children \<longleftrightarrow> (\<forall>(name, child) \<in> set children. proper_name name \<and> named_tree child)"
  by (induction children) auto

definition entries_in :: "(ScanWarning + ScannedEntry) list \<Rightarrow> ScannedEntry list" where
  "entries_in events = concat (map (case_sum (\<lambda>_. []) (\<lambda>e. [e])) events)"

definition warnings_in :: "(ScanWarning + ScannedEntry) list \<Rightarrow> ScanWarning list" where
  "warnings_in events = concat (map (case_sum (\<lambda>w. [w]) (\<lambda>_. [])) events)"

lemma entries_in_simps [simp]:
  "entries_in [] = []" "entries_in (Inl w # evs) = entries_in evs" "entries_in (Inr e # evs) = e # entries_in evs"
  "entries_in (evs @ evs') = entries_in evs @ entries_in evs'"
  by (simp_all add: entries_in_def)

lemma warnings_in_simps [simp]:
  "warnings_in [] = []" "warnings_in (Inl w # evs) = w # warnings_in evs" "warnings_in (Inr e # evs) = warnings_in evs"
  "warnings_in (evs @ evs') = warnings_in evs @ warnings_in evs'"
  by (simp_all add: warnings_in_def)

lemma join_slash_snoc: "ws \<noteq> [] \<Longrightarrow> join_slash (ws @ [n]) = join_slash ws @ CHR ''/'' # n"
  by (induction ws rule: join_slash.induct) (auto simp: neq_Nil_conv)

lemma join_slash_last: "ws \<noteq> [] \<Longrightarrow> last ws \<noteq> [] \<Longrightarrow> last (join_slash ws) = last (last ws) \<and> join_slash ws \<noteq> []"
proof (cases ws rule: rev_cases)
  case (snoc us u)
  then show "last ws \<noteq> [] \<Longrightarrow> ?thesis" by (cases "us = []") (simp_all add: join_slash_snoc)
qed simp

lemma path_join_snoc:
  assumes "list_all proper_name upper" and "proper_name n"
  shows "path_join (join_slash upper) n = join_slash (upper @ [n])"
proof (cases "upper = []")
  case True
  then show ?thesis by (simp add: path_join_def)
next
  case False
  have n: "\<not> is_absolute n" using assms(2) by (cases n) (auto simp: is_absolute_def proper_name_def)
  have "proper_name (last upper)" using False assms(1) by (simp add: list_all_iff)
  then have "last upper \<noteq> []" "CHR ''/'' \<notin> set (last upper)" by (simp_all add: proper_name_def)
  then have "join_slash upper \<noteq> []" "last (join_slash upper) \<noteq> CHR ''/''"
    using join_slash_last [OF False] last_in_set [of "last upper"] by (metis)+
  then show ?thesis using n False by (simp add: path_join_def join_slash_snoc)
qed

lemma entries_in_captures:
  shows "relative = join_slash upper \<Longrightarrow> list_all proper_name upper \<Longrightarrow> named_tree nd \<Longrightarrow>
      e \<in> set (entries_in (directory_events env source relative nd)) \<longleftrightarrow>
      captures (sc_rules env) (sc_options env) (sc_root_identity env) source upper nd e"
    and "relative = join_slash upper \<Longrightarrow> list_all proper_name upper \<Longrightarrow> named_children children \<Longrightarrow>
      e \<in> set (entries_in (children_events env source relative children broken)) \<longleftrightarrow>
      (\<exists>(name, child) \<in> set children. \<exists>d.
         admits (sc_rules env) (sc_options env) (sc_root_identity env) (path_join source name)
           (join_slash (upper @ [name])) child d \<and>
         (d = e \<or> se_type d = directory \<and>
           captures (sc_rules env) (sc_options env) (sc_root_identity env) (path_join source name) (upper @ [name]) child e))"
proof (induction env source relative nd and env source relative children broken arbitrary: upper and upper
    rule: directory_events_children_events.induct)
  case (1 env source relative status lstat1 lstat2 link open_error children broken)
  then show ?case
    by (cases open_error) (subst captures_iff; fastforce)+
next
  case (3 env source relative name child children broken)
  let ?admits = "admits (sc_rules env) (sc_options env) (sc_root_identity env) (path_join source name)
      (join_slash (upper @ [name])) child"
  let ?captures = "captures (sc_rules env) (sc_options env) (sc_root_identity env) (path_join source name)
      (upper @ [name]) child e"
  have proper: "list_all proper_name (upper @ [name])" "named_tree child" "named_children children"
    using 3 by auto
  have path: "path_join relative name = join_slash (upper @ [name])"
    using 3 path_join_snoc by auto
  have admits: "?admits d \<longleftrightarrow> child_found env (path_join source name) (path_join relative name) child = Some (Inr d)" for d
    by (simp add: child_found_admits path)
  have "e \<in> set (entries_in (case child_found env (path_join source name) (path_join relative name) child of
        None \<Rightarrow> []
      | Some (Inl w) \<Rightarrow> [Inl w]
      | Some (Inr e) \<Rightarrow> Inr e #
          (if se_type e = directory
           then directory_events env (path_join source name) (path_join relative name) child else []))) \<longleftrightarrow>
      (\<exists>d. ?admits d \<and> (d = e \<or> se_type d = directory \<and> ?captures))"
    unfolding admits using 3(1) [OF _ _ _ path proper(1,2)] by (auto split: option.split sum.split)
  moreover have "e \<in> set (entries_in (children_events env source relative children broken)) \<longleftrightarrow>
      (\<exists>(name, child) \<in> set children. \<exists>d.
         admits (sc_rules env) (sc_options env) (sc_root_identity env) (path_join source name)
           (join_slash (upper @ [name])) child d \<and>
         (d = e \<or> se_type d = directory \<and>
           captures (sc_rules env) (sc_options env) (sc_root_identity env) (path_join source name) (upper @ [name]) child e))"
    if "children \<noteq> []"
    using 3(2) [OF that 3(3,4) proper(3)] .
  ultimately show ?case by (cases "children = []") (auto split: option.split)
qed simp


section \<open>Paths of captured entries\<close>

lemma admits_path: "admits rules options device source relative nd e \<Longrightarrow>
    se_relative_path e = relative \<and> se_source_path e = source \<and> se_parent_path e = relative_parent relative \<and>
    se_name e = entry_name relative \<and> is_valid_utf8 relative"
proof -
  assume admitted: "admits rules options device source relative nd e"
  then obtain status and info :: stat and metadata where kind: "if st_mode info AND 0xF000 = 0xA000 \<or> status = ft_symlink
     then \<exists>target. nd_link nd = Inr target \<and> is_valid_utf8 target \<and>
                e = captured_entry source relative symbolic_link metadata (Some target)
     else (status = ft_regular \<and> e = captured_entry source relative regular_file metadata None) \<or>
          (status = ft_directory \<and> e = captured_entry source relative directory metadata None)"
    unfolding admits_def by blast
  then have "\<exists>type metadata target. e = captured_entry source relative type metadata target"
    by (cases "st_mode info AND 0xF000 = 0xA000 \<or> status = ft_symlink") (simp_all only: if_True if_False, blast+)
  moreover have "is_valid_utf8 relative" using admitted unfolding admits_def by (elim conjE)
  ultimately show ?thesis by (auto simp: captured_entry_def)
qed

lemma proper_names_slash: "list_all proper_name ws \<Longrightarrow> \<forall>w \<in> set ws. CHR ''/'' \<notin> set w"
  by (auto simp: list_all_iff proper_name_def)

lemma join_slash_empty: "list_all proper_name ws \<Longrightarrow> join_slash ws = [] \<longleftrightarrow> ws = []"
  by (auto simp: join_slash_Nil_iff proper_name_def)

lemma join_slash_inject:
  assumes us: "list_all proper_name us" and ws: "list_all proper_name ws"
  shows "join_slash us = join_slash ws \<longleftrightarrow> us = ws"
proof (cases "us = [] \<or> ws = []")
  case True
  then show ?thesis using join_slash_empty [OF us] join_slash_empty [OF ws] by auto
next
  case False
  then have "split_slash (join_slash us) = us" "split_slash (join_slash ws) = ws"
    using split_join proper_names_slash [OF us] proper_names_slash [OF ws] by blast+
  then show ?thesis by metis
qed

lemma relative_parent_snoc:
  "proper_name n \<Longrightarrow> ws \<noteq> [] \<Longrightarrow> relative_parent (join_slash (ws @ [n])) = join_slash ws"
proof -
  assume n: "proper_name n" and ws: "ws \<noteq> []"
  have "dropWhile (\<lambda>c. c \<noteq> CHR ''/'') (rev n @ CHR ''/'' # r) = CHR ''/'' # r" for r
    using n by (subst dropWhile_append2) (auto simp: proper_name_def)
  then show ?thesis by (simp add: relative_parent_def join_slash_snoc [OF ws])
qed

lemma relative_parent_name: "proper_name n \<Longrightarrow> relative_parent n = []"
  by (simp add: relative_parent_def proper_name_def)

lemma captures_path:
  "captures rules options device source upper nd e \<Longrightarrow> named_tree nd \<Longrightarrow> list_all proper_name upper \<Longrightarrow>
   \<exists>names. names \<noteq> [] \<and> list_all proper_name names \<and> se_relative_path e = join_slash (upper @ names) \<and>
     is_valid_utf8 (se_relative_path e) \<and> hd names \<in> fst ` set (nd_children nd)"
proof (induction rule: captures.induct)
  case (here nd name child source upper e)
  then have "proper_name name" by (cases nd) (auto simp: named_children_iff)
  then show ?case
    using here admits_path by (intro exI [of _ "[name]"]) (force simp: image_iff)
next
  case (deeper nd name child source upper d e)
  then have name: "proper_name name" "named_tree child" by (cases nd; auto simp: named_children_iff)+
  then obtain names where "names \<noteq> []" "list_all proper_name names"
    "se_relative_path e = join_slash ((upper @ [name]) @ names)" "is_valid_utf8 (se_relative_path e)"
    using deeper by auto
  then show ?case using name deeper(2) by (intro exI [of _ "name # names"]) (force simp: image_iff)
qed

lemma captures_parent:
  "captures rules options device source upper nd e \<Longrightarrow> named_tree nd \<Longrightarrow> list_all proper_name upper \<Longrightarrow>
   se_parent_path e = join_slash upper \<or>
   (\<exists>d. captures rules options device source upper nd d \<and> se_type d = directory \<and>
      se_relative_path d = se_parent_path e)"
proof (induction rule: captures.induct)
  case (here nd name child source upper e)
  then have "proper_name name" by (cases nd) (auto simp: named_children_iff)
  then have "relative_parent (join_slash (upper @ [name])) = join_slash upper"
    using relative_parent_snoc relative_parent_name by (cases "upper = []") auto
  then show ?case using admits_path [OF here(3)] by simp
next
  case (deeper nd name child source upper d e)
  then have name: "proper_name name" "named_tree child" by (cases nd; auto simp: named_children_iff)+
  then consider "se_parent_path e = join_slash (upper @ [name])"
    | d' where "captures rules options device (path_join source name) (upper @ [name]) child d'"
        "se_type d' = directory" "se_relative_path d' = se_parent_path e"
    using deeper by auto
  then show ?case
  proof cases
    case 1
    then show ?thesis using captures.here [OF deeper(1-3)] deeper(4) admits_path [OF deeper(3)] by metis
  next
    case 2
    then show ?thesis using captures.deeper [OF deeper(1-4)] by blast
  qed
qed

lemma child_entry_path:
  assumes "relative = join_slash upper" and "list_all proper_name upper" and "named_children children"
    and "e \<in> set (entries_in (children_events env source relative children broken))"
  obtains name c names where "(name, c) \<in> set children" "list_all proper_name (name # names)"
    "se_relative_path e = join_slash (upper @ name # names)"
proof -
  obtain name c d where c: "(name, c) \<in> set children"
    "admits (sc_rules env) (sc_options env) (sc_root_identity env) (path_join source name)
       (join_slash (upper @ [name])) c d"
    "d = e \<or> captures (sc_rules env) (sc_options env) (sc_root_identity env) (path_join source name)
       (upper @ [name]) c e"
    using assms(4) unfolding entries_in_captures(2) [OF assms(1-3)] by blast
  have name: "proper_name name" "named_tree c" "list_all proper_name (upper @ [name])"
    using c(1) assms(2,3) by (auto simp: named_children_iff)
  show thesis
  proof (cases "d = e")
    case True
    then show thesis using that [OF c(1), of "[]"] admits_path [OF c(2)] name by simp
  next
    case False
    then obtain names where "list_all proper_name names" "se_relative_path e = join_slash ((upper @ [name]) @ names)"
      using captures_path [OF _ name(2,3)] c(3) by blast
    then show thesis using that [OF c(1), of names] name by simp
  qed
qed

text \<open>The events of one child: the paths of its entries are those at and below it, each once.\<close>

lemma child_events_paths:
  assumes path: "path = join_slash (upper @ [name])" and proper: "list_all proper_name (upper @ [name])" "named_tree child"
    and below: "\<forall>e. child_found env src path child = Some (Inr e) \<longrightarrow> se_type e = directory \<longrightarrow>
      distinct (map se_relative_path (entries_in (directory_events env src path child)))"
  defines "events \<equiv> (case child_found env src path child of
        None \<Rightarrow> []
      | Some (Inl w) \<Rightarrow> [Inl w]
      | Some (Inr e) \<Rightarrow> Inr e # (if se_type e = directory then directory_events env src path child else []))"
  shows "distinct (map se_relative_path (entries_in events))"
    and "e \<in> set (entries_in events) \<Longrightarrow>
      \<exists>names. list_all proper_name names \<and> se_relative_path e = join_slash (upper @ name # names)"
proof -
  have found: "se_relative_path e = path" if "child_found env src path child = Some (Inr e)" for e
    using that admits_path unfolding child_found_admits by blast
  have inside: "\<exists>names. list_all proper_name names \<and> names \<noteq> [] \<and> se_relative_path e = join_slash (upper @ name # names)"
    if "e \<in> set (entries_in (directory_events env src path child))" for e
    using captures_path [OF _ proper(2,1)] entries_in_captures(1) [OF path proper] that by fastforce
  have "se_relative_path e \<noteq> path" if e: "e \<in> set (entries_in (directory_events env src path child))" for e
  proof -
    obtain names where "list_all proper_name names" "names \<noteq> []" "se_relative_path e = join_slash (upper @ name # names)"
      using inside [OF e] by blast
    then show ?thesis using proper(1) path join_slash_inject [of "upper @ name # names" "upper @ [name]"] by auto
  qed
  then have "se_relative_path e \<notin> se_relative_path ` set (entries_in (directory_events env src path child))"
    if "child_found env src path child = Some (Inr e)" for e
    unfolding found [OF that] image_iff by metis
  then show "distinct (map se_relative_path (entries_in events))"
    using below by (simp add: events_def split: option.split sum.split)
  assume "e \<in> set (entries_in events)"
  then have "se_relative_path e = path \<or> e \<in> set (entries_in (directory_events env src path child))"
    using found by (auto simp: events_def split: option.splits sum.splits if_splits)
  then show "\<exists>names. list_all proper_name names \<and> se_relative_path e = join_slash (upper @ name # names)"
    using inside [of e] path by (auto intro: exI [of _ "[]"])
qed

lemma events_distinct:
  shows "relative = join_slash upper \<Longrightarrow> list_all proper_name upper \<Longrightarrow> named_tree nd \<Longrightarrow>
      distinct (map se_relative_path (entries_in (directory_events env source relative nd)))"
    and "relative = join_slash upper \<Longrightarrow> list_all proper_name upper \<Longrightarrow> named_children children \<Longrightarrow>
      distinct (map fst children) \<Longrightarrow>
      distinct (map se_relative_path (entries_in (children_events env source relative children broken)))"
proof (induction env source relative nd and env source relative children broken arbitrary: upper and upper
    rule: directory_events_children_events.induct)
  case (1 env source relative status lstat1 lstat2 link open_error children broken)
  then show ?case by (cases open_error) auto
next
  case (3 env source relative name child children broken)
  have proper: "list_all proper_name (upper @ [name])" "named_tree child" "named_children children"
    using 3 by auto
  have path: "path_join relative name = join_slash (upper @ [name])"
    using 3 path_join_snoc by auto
  let ?head = "case child_found env (path_join source name) (path_join relative name) child of
        None \<Rightarrow> []
      | Some (Inl w) \<Rightarrow> [Inl w]
      | Some (Inr e) \<Rightarrow> Inr e #
          (if se_type e = directory
           then directory_events env (path_join source name) (path_join relative name) child else [])"
  let ?tail = "children_events env source relative children broken"
  have below: "\<forall>e. child_found env (path_join source name) (path_join relative name) child = Some (Inr e) \<longrightarrow>
      se_type e = directory \<longrightarrow> distinct (map se_relative_path
        (entries_in (directory_events env (path_join source name) (path_join relative name) child)))"
    using 3(1) [OF _ refl _ path proper(1,2)] by blast
  have "distinct (map se_relative_path (entries_in ?head))"
    by (rule child_events_paths(1) [OF path proper(1,2) below])
  moreover have "distinct (map se_relative_path (entries_in ?tail))" if "children \<noteq> []"
    using 3(2) [OF that 3(3,4) proper(3)] 3(6) by simp
  moreover have "se_relative_path e \<noteq> se_relative_path e'"
    if e: "e \<in> set (entries_in ?head)" and e': "e' \<in> set (entries_in ?tail)" for e e'
  proof -
    obtain names where names: "list_all proper_name names" "se_relative_path e = join_slash (upper @ name # names)"
      using child_events_paths(2) [OF path proper(1,2) below e] by blast
    obtain other c names' where other: "(other, c) \<in> set children" "list_all proper_name (other # names')"
      "se_relative_path e' = join_slash (upper @ other # names')"
      by (rule child_entry_path [OF 3(3,4) proper(3) e'])
    then have "other \<noteq> name" using 3(6) by (auto simp: image_iff)
    then show ?thesis
      using names other join_slash_inject [of "upper @ name # names" "upper @ other # names'"] proper(1) by auto
  qed
  ultimately show ?case by (auto split: option.split)
qed simp


section \<open>What a scan returns\<close>

definition recorder :: "u64 \<Rightarrow> IgnoreRules \<Rightarrow> FileScannerOptions \<Rightarrow> ScanResult scan_env" where
  "recorder device rules options =
     \<lparr>sc_stop = ret False, sc_on_entry = push_entry, sc_on_warning = push_warning,
      sc_root_identity = device, sc_rules = rules, sc_options = options\<rparr>"

lemma recorder_simps [simp]:
  "sc_stop (recorder device rules options) = ret False" "sc_rules (recorder device rules options) = rules"
  "sc_options (recorder device rules options) = options" "sc_root_identity (recorder device rules options) = device"
  by (simp_all add: recorder_def)

lemma record_events:
  "iterp (deliver (recorder device rules options)) events r =
     (Inr (), \<lparr>sr_entries = sr_entries r @ entries_in events, sr_warnings = sr_warnings r @ warnings_in events\<rparr>)"
proof (induction events arbitrary: r)
  case (Cons event events)
  have "deliver (recorder device rules options) event r =
      (Inr (), \<lparr>sr_entries = sr_entries r @ entries_in [event], sr_warnings = sr_warnings r @ warnings_in [event]\<rparr>)"
    by (cases event) (simp_all add: deliver_def recorder_def push_entry_def push_warning_def modifyp_def)
  then show ?case using Cons.IH by (cases event) (simp_all add: seqp_run)
qed (simp add: ret_def)

text \<open>The parts of a scan that returned: the tree of the normalized root, its device, the rules, and
  the entry of the root itself.\<close>

definition scan_parts ::
  "scan_request \<Rightarrow> string \<Rightarrow> FileScannerOptions \<Rightarrow> string \<Rightarrow> u64 \<Rightarrow> IgnoreRules \<Rightarrow> ScannedEntry \<Rightarrow> bool" where
  "scan_parts os source_root options base device rules root_entry \<longleftrightarrow>
     (\<exists>absolute info metadata.
        sq_absolute os source_root = Inr absolute \<and> base = lexically_normal absolute \<and>
        nd_status (sq_tree os base) = Inr ft_directory \<and>
        nd_scanner_lstat (sq_tree os base) = Inr info \<and> device = st_dev info \<and>
        load_rules (sq_ignore_file os) base (fo_ignore_file options) case_sensitive = Inr rules \<and>
        read_platform_file_metadata_no_follow (nd_lstat (sq_tree os base)) = Inr metadata \<and>
        root_entry = captured_entry base [] directory metadata None)"

lemma scan_returns:
  assumes "scan os source_root options = Inr result"
  obtains base device rules root_entry events
  where "scan_parts os source_root options base device rules root_entry"
    and "events = directory_events (recorder device rules options) base [] (sq_tree os base)"
    and "sr_entries result = sort_key se_relative_path (root_entry # entries_in events)"
    and "set (sr_warnings result) = set (warnings_in events)"
proof -
  obtain r where r: "scan_streaming os source_root (ret False) (Some push_entry) (Some push_warning) options
        \<lparr>sr_entries = [], sr_warnings = []\<rparr> = (Inr (), r)"
    and result: "result = \<lparr>sr_entries = sort_key se_relative_path (sr_entries r),
        sr_warnings = sort_key (\<lambda>w. (sw_relative_path w, sw_code w, sw_message w)) (sr_warnings r)\<rparr>"
    using assms by (auto simp: scan_def split: prod.splits sum.splits)
  obtain absolute where absolute: "sq_absolute os source_root = Inr absolute"
    using r by (cases "sq_absolute os source_root")
      (auto simp: scan_streaming_def scan_check_cancelled_def guardp_def raise_lv_def raise_def split: if_splits)
  define base where "base = lexically_normal absolute"
  define root where "root = sq_tree os base"
  have status: "nd_status root = Inr ft_directory"
    using r by (cases "nd_status root")
      (auto simp: scan_streaming_def scan_check_cancelled_def guardp_def raise_lv_def raise_def absolute Let_def
        base_def [symmetric] root_def [symmetric] split: if_splits)
  obtain info where info: "nd_scanner_lstat root = Inr info"
    using r by (cases "nd_scanner_lstat root")
      (auto simp: scan_streaming_def scan_check_cancelled_def guardp_def raise_lv_def raise_def absolute Let_def
        base_def [symmetric] root_def [symmetric] status bindp_run liftp_def
        read_scanner_platform_metadata_no_follow_def split: if_splits)
  obtain rules where rules: "load_rules (sq_ignore_file os) base (fo_ignore_file options) case_sensitive = Inr rules"
    using r by (cases "load_rules (sq_ignore_file os) base (fo_ignore_file options) case_sensitive")
      (auto simp: scan_streaming_def scan_check_cancelled_def guardp_def raise_lv_def raise_def absolute Let_def
        base_def [symmetric] root_def [symmetric] status bindp_run liftp_def info scanner_paths_are_case_sensitive_def
        read_scanner_platform_metadata_no_follow_def split: if_splits)
  obtain metadata where metadata: "read_platform_file_metadata_no_follow (nd_lstat root) = Inr metadata"
    using r by (cases "read_platform_file_metadata_no_follow (nd_lstat root)")
      (auto simp: scan_streaming_def scan_check_cancelled_def guardp_def raise_lv_def raise_def absolute Let_def
        base_def [symmetric] root_def [symmetric] status bindp_run liftp_def info scanner_paths_are_case_sensitive_def
        rules scan_entry_found entry_found_def seqp_run ret_def push_warning_def modifyp_def
        read_scanner_platform_metadata_no_follow_def split: if_splits)
  let ?root_entry = "captured_entry base [] directory metadata None"
  let ?env = "recorder (st_dev info) rules options"
  let ?events = "directory_events ?env base [] root"
  have "scan_directory ?env base [] root = iterp (deliver ?env) ?events"
    by (rule scan_directory_events(1)) simp
  then have entries: "r = \<lparr>sr_entries = ?root_entry # entries_in ?events, sr_warnings = warnings_in ?events\<rparr>"
    using r by (auto simp: scan_streaming_def scan_check_cancelled_def guardp_def raise_lv_def raise_def absolute Let_def
        base_def [symmetric] root_def [symmetric] status bindp_run liftp_def info scanner_paths_are_case_sensitive_def
        rules scan_entry_found entry_found_def metadata seqp_run ret_def push_entry_def modifyp_def record_events
        recorder_def [symmetric] read_scanner_platform_metadata_no_follow_def split: if_splits)
  have "scan_parts os source_root options base (st_dev info) rules ?root_entry"
    using absolute base_def status info rules metadata unfolding scan_parts_def root_def by blast
  then show thesis
    by (rule that [OF _ refl]) (simp_all add: result entries root_def)
qed

lemma scan_captures:
  assumes "scan os source_root options = Inr result" and names: "\<And>p. named_tree (sq_tree os p)"
  obtains base device rules root_entry where "scan_parts os source_root options base device rules root_entry"
    and "set (sr_entries result) = insert root_entry (Collect (captures rules options device base [] (sq_tree os base)))"
    and "distinct (map se_relative_path (sr_entries result))" and "sorted (map se_relative_path (sr_entries result))"
proof -
  obtain base device rules root_entry events where parts: "scan_parts os source_root options base device rules root_entry"
    and events: "events = directory_events (recorder device rules options) base [] (sq_tree os base)"
    and entries: "sr_entries result = sort_key se_relative_path (root_entry # entries_in events)"
    by (rule scan_returns [OF assms(1)])
  have captured: "e \<in> set (entries_in events) \<longleftrightarrow> captures rules options device base [] (sq_tree os base) e" for e
    unfolding events by (subst entries_in_captures(1) [of _ "[]"]) (simp_all add: names)
  have root: "se_relative_path root_entry = []" using parts by (auto simp: scan_parts_def captured_entry_def)
  have "se_relative_path e \<noteq> []" if "e \<in> set (entries_in events)" for e
    using captures_path [of rules options device base "[]" "sq_tree os base" e] that captured names join_slash_empty
    by (metis append_Nil list.pred_inject(1))
  moreover have "distinct (map se_relative_path (entries_in events))"
    unfolding events by (rule events_distinct(1) [of _ "[]"]) (simp_all add: names)
  ultimately have "distinct (map se_relative_path (root_entry # entries_in events))"
    using root by force
  then have "distinct (map se_relative_path (sr_entries result))"
    unfolding entries distinct_map set_sort distinct_sort .
  moreover have "set (sr_entries result) = insert root_entry (Collect (captures rules options device base [] (sq_tree os base)))"
    using captured by (simp only: entries set_sort list.set) blast
  moreover have "sorted (map se_relative_path (sr_entries result))"
    unfolding entries by (rule sorted_sort_key)
  ultimately show thesis using that parts by blast
qed

text \<open>What \<^verbatim>\<open>validate_entries\<close> asks for, in terms of paths and types.\<close>

lemma filter_one: "distinct xs \<Longrightarrow> length (filter (\<lambda>y. y = x) xs) = (if x \<in> set xs then 1 else 0)"
  by (induction xs) auto

lemma validate_entries_accepts:
  assumes "distinct (map ei_relative_path stored)" and "[] \<in> set (map ei_relative_path stored)"
    and "\<And>path type. (path, type) \<in> set (map (\<lambda>e. (ei_relative_path e, ei_type e)) stored) \<Longrightarrow>
      if path = [] then type = directory else is_safe_stored_path path"
  shows "validate_entries stored = Inr ()"
proof -
  have "length (filter (\<lambda>e. ei_relative_path e = []) stored) = 1"
    using filter_one [OF assms(1), of "[]"] assms(2) by (simp add: filter_map comp_def)
  moreover have "\<forall>e \<in> set stored. if ei_relative_path e = [] then ei_type e = directory
      else is_safe_stored_path (ei_relative_path e)"
    by (intro ballI assms(3)) (simp add: rev_image_eqI)
  ultimately show ?thesis
    by (simp add: validate_entries_def bindE_Inr_iff count_roots_Inr)
qed

text \<open>
  [C10] A scan is exact: when \<^verbatim>\<open>scan\<close> returns, its entries are the root and exactly those
  entries that the admission policy admits along a chain of captured directories. In particular
  nothing is captured below an ignored, hidden, foreign or unreadable directory, nothing below a
  symbolic link, and nothing that the policy admits is missed.
\<close>

theorem scan_exact:
  assumes "scan os source_root options = Inr result"
    and names: "\<And>p. named_tree (sq_tree os p)"
  shows "\<exists>base device rules root_entry.
    scan_parts os source_root options base device rules root_entry \<and>
    (\<forall>e. e \<in> set (sr_entries result) \<longleftrightarrow>
       e = root_entry \<or> captures rules options device base [] (sq_tree os base) e)"
  by (rule scan_captures [OF assms]) blast

text \<open>
  [C9] A scan can be restored: the entries of a scan are sorted by path and no path occurs twice; the
  parent of every entry but the root is a captured directory; and a snapshot that records these paths
  and types passes the check with which a restore starts, so every path stays below the destination.
\<close>

theorem scan_restorable:
  assumes "scan os source_root options = Inr result"
    and names: "\<And>p. named_tree (sq_tree os p)"
  shows "distinct (map se_relative_path (sr_entries result)) \<and>
    sorted (map se_relative_path (sr_entries result)) \<and>
    (\<forall>e \<in> set (sr_entries result). se_relative_path e \<noteq> [] \<longrightarrow>
       (\<exists>d \<in> set (sr_entries result). se_type d = directory \<and> se_relative_path d = se_parent_path e)) \<and>
    (\<forall>stored. map (\<lambda>e. (ei_relative_path e, ei_type e)) stored =
         map (\<lambda>e. (se_relative_path e, se_type e)) (sr_entries result) \<longrightarrow>
       validate_entries stored = Inr ())"
proof -
  obtain base device rules root_entry where parts: "scan_parts os source_root options base device rules root_entry"
    and set: "set (sr_entries result) = insert root_entry (Collect (captures rules options device base [] (sq_tree os base)))"
    and distinct: "distinct (map se_relative_path (sr_entries result))"
    and sorted: "sorted (map se_relative_path (sr_entries result))"
    by (rule scan_captures [OF assms])
  have root: "se_relative_path root_entry = []" "se_type root_entry = directory"
    using parts by (auto simp: scan_parts_def captured_entry_def)
  have safe: "is_safe_stored_path (se_relative_path e)" if captured: "captures rules options device base [] (sq_tree os base) e" for e
  proof -
    obtain cs where "proper_components cs" "se_relative_path e = join_slash cs" "is_valid_utf8 (se_relative_path e)"
      using captures_path [OF captured names] by (auto simp: proper_components_def)
    then show ?thesis using proper_path_safe proper_join(1,3) by metis
  qed
  have parents: "\<exists>d \<in> set (sr_entries result). se_type d = directory \<and> se_relative_path d = se_parent_path e"
    if "e \<in> set (sr_entries result)" "se_relative_path e \<noteq> []" for e
    using that captures_parent [of rules options device base "[]" "sq_tree os base" e] root
    unfolding set by (force simp: names)
  have "validate_entries stored = Inr ()"
    if stored: "map (\<lambda>e. (ei_relative_path e, ei_type e)) stored =
         map (\<lambda>e. (se_relative_path e, se_type e)) (sr_entries result)" for stored
  proof (rule validate_entries_accepts)
    have "map ei_relative_path stored = map se_relative_path (sr_entries result)"
      using arg_cong [OF stored, of "map fst"] by (simp add: comp_def)
    then show "distinct (map ei_relative_path stored)" "[] \<in> set (map ei_relative_path stored)"
      using distinct root(1) set by (auto simp: image_iff)
    fix path type assume "(path, type) \<in> set (map (\<lambda>e. (ei_relative_path e, ei_type e)) stored)"
    then obtain e where "path = se_relative_path e" "type = se_type e" "e \<in> set (sr_entries result)"
      unfolding stored by auto
    moreover have "\<not> is_safe_stored_path []" by (simp add: is_safe_stored_path_def)
    ultimately show "if path = [] then type = directory else is_safe_stored_path path"
      using root safe [of e] unfolding set by (cases "e = root_entry") auto
  qed
  then show ?thesis using distinct sorted parents by blast
qed

subsection \<open>A small tree\<close>

text \<open>A root with a file, an ignored file, a link, a directory with a file, and a device node.\<close>

definition demo_stat :: "u32 \<Rightarrow> int \<Rightarrow> stat" where
  "demo_stat mode len = \<lparr>st_size = len, st_mtim = (5, 6), st_ctim = (7, 8), st_dev = 1, st_ino = 2, st_mode = mode\<rparr>"

definition demo_node :: "file_type \<Rightarrow> u32 \<Rightarrow> int \<Rightarrow> (string \<times> node) list \<Rightarrow> node" where
  "demo_node type mode len children =
     Node (Inr type) (Inr (demo_stat mode len)) (Inr (demo_stat mode len)) (Inr ''target'') None children None"

definition demo_tree :: node where
  "demo_tree = demo_node ft_directory 0x41ED 0
     [(''d'', demo_node ft_directory 0x41ED 0 [(''f'', demo_node ft_regular 0x81A4 3 [])]),
      (''x'', demo_node ft_regular 0x81A4 4 []), (''l'', demo_node ft_symlink 0xA1FF 6 []),
      (''p'', demo_node ft_other 0x11A4 0 [])]"

definition demo_scan_request :: scan_request where
  "demo_scan_request = \<lparr>sq_absolute = (\<lambda>p. Inr p), sq_tree = (\<lambda>p. demo_tree), sq_ignore_file = (\<lambda>p. Contents ''x'')\<rparr>"

definition demo_options :: FileScannerOptions where
  "demo_options = \<lparr>fo_include_hidden = True, fo_one_file_system = False, fo_ignore_file = None\<rparr>"

lemma demo_scan:
  "(case scan demo_scan_request ''/s'' demo_options of
      Inr r \<Rightarrow> map (\<lambda>e. (se_relative_path e, se_type e)) (sr_entries r) =
        [([], directory), (''d'', directory), (''d/f'', regular_file), (''l'', symbolic_link)]
    | Inl _ \<Rightarrow> False)"
  by code_simp

lemma demo_named: "named_tree (sq_tree demo_scan_request p)"
  by (simp add: demo_scan_request_def demo_tree_def demo_node_def proper_name_def)

theorem scan_exact_witness:
  "\<exists>result base device rules root_entry e.
     scan demo_scan_request ''/s'' demo_options = Inr result \<and> e \<in> set (sr_entries result) \<and>
     se_relative_path e = ''d/f'' \<and> captures rules demo_options device base [] demo_tree e"
proof -
  obtain result where result: "scan demo_scan_request ''/s'' demo_options = Inr result"
    "map (\<lambda>e. (se_relative_path e, se_type e)) (sr_entries result) =
        [([], directory), (''d'', directory), (''d/f'', regular_file), (''l'', symbolic_link)]"
    using demo_scan by (auto split: sum.splits)
  obtain base device rules root_entry where
    parts: "scan_parts demo_scan_request ''/s'' demo_options base device rules root_entry" and
    exact: "\<forall>e. e \<in> set (sr_entries result) \<longleftrightarrow>
       e = root_entry \<or> captures rules demo_options device base [] (sq_tree demo_scan_request base) e"
    using scan_exact [OF result(1) demo_named] by blast
  have "(''d/f'', regular_file) \<in> set (map (\<lambda>e. (se_relative_path e, se_type e)) (sr_entries result))"
    unfolding result(2) by simp
  then obtain e where e: "e \<in> set (sr_entries result)" "se_relative_path e = ''d/f''" by auto
  moreover have "se_relative_path root_entry = []" using parts by (auto simp: scan_parts_def captured_entry_def)
  ultimately have "captures rules demo_options device base [] demo_tree e"
    using exact by (auto simp: demo_scan_request_def)
  then show ?thesis using result(1) e by blast
qed

theorem scan_restorable_witness:
  "\<exists>result. scan demo_scan_request ''/s'' demo_options = Inr result \<and> length (sr_entries result) = 4 \<and>
     distinct (map se_relative_path (sr_entries result)) \<and>
     (\<forall>e \<in> set (sr_entries result). se_relative_path e \<noteq> [] \<longrightarrow>
       (\<exists>d \<in> set (sr_entries result). se_type d = directory \<and> se_relative_path d = se_parent_path e))"
proof -
  obtain result where result: "scan demo_scan_request ''/s'' demo_options = Inr result"
    "map (\<lambda>e. (se_relative_path e, se_type e)) (sr_entries result) =
        [([], directory), (''d'', directory), (''d/f'', regular_file), (''l'', symbolic_link)]"
    using demo_scan by (auto split: sum.splits)
  have "length (sr_entries result) = 4" using arg_cong [OF result(2), of length] by simp
  then show ?thesis using result(1) scan_restorable [OF result(1) demo_named] by blast
qed

end
