(* ===== verification/Progress.thy ===== *)
theory Progress
  imports Restore_Engine
begin

text \<open>
  The progress aggregator of a snapshot (\<^verbatim>\<open>class ProgressAggregator\<close> in
  \<^verbatim>\<open>src/core/snapshot_engine.cpp\<close>). The scanner, the workers and the main thread update counters
  and flags; one thread turns changes into callbacks and thins them out. Every operation is one step
  on the shared state: the counters are atomic, the flags are guarded by a mutex, and the list of
  recent emissions is only used by one thread at a time.
\<close>

section \<open>State\<close>

record Emission =
  em_time :: int
  em_required :: bool

text \<open>Beside the members of the class: the readings of the steady clock in nanoseconds, the number of
  readings so far, and the callbacks made so far.\<close>

record aggregator =
  ag_callback :: "(ProgressEvent \<Rightarrow> exn + unit) option"
  ag_clock :: "nat \<Rightarrow> int"
  ag_readings :: nat
  ag_discovered_entries :: u64
  ag_discovered_bytes :: u64
  ag_processed_entries :: u64
  ag_processed_bytes :: u64
  ag_new_chunks :: u64
  ag_reused_chunks :: u64
  ag_current_path :: string
  ag_dirty :: bool
  ag_finished :: bool
  ag_cancelled :: bool
  ag_scan_complete :: bool
  ag_scan_completion_pending :: bool
  ag_writing_phase_emitted :: bool
  ag_emissions :: "Emission list"
  ag_calls :: "(Emission \<times> ProgressEvent) list"

definition new_aggregator :: "(ProgressEvent \<Rightarrow> exn + unit) option \<Rightarrow> (nat \<Rightarrow> int) \<Rightarrow> aggregator" where
  "new_aggregator callback clock =
     \<lparr>ag_callback = callback, ag_clock = clock, ag_readings = 0, ag_discovered_entries = 0,
      ag_discovered_bytes = 0, ag_processed_entries = 0, ag_processed_bytes = 0, ag_new_chunks = 0,
      ag_reused_chunks = 0, ag_current_path = [], ag_dirty = False, ag_finished = False,
      ag_cancelled = False, ag_scan_complete = False, ag_scan_completion_pending = False,
      ag_writing_phase_emitted = False, ag_emissions = [], ag_calls = []\<rparr>"

section \<open>Counters\<close>

text \<open>The compare-and-exchange loop: \<open>observed\<close> lists the values that failed exchanges have loaded,
  because another thread changed the counter or spuriously; the last exchange succeeds.\<close>

fun add_atomic :: "u64 list \<Rightarrow> string \<Rightarrow> u64 \<Rightarrow> u64 \<Rightarrow> exn + u64" where
  "add_atomic observed name current value =
     (if current > u64_max - value then throw_lv E_internal_error (name @ '' counter overflow'')
      else case observed of
             [] \<Rightarrow> Inr (current + value)
           | reloaded # later \<Rightarrow> add_atomic later name reloaded value)"

interpretation atomic: checked_adder "add_atomic [] name" for name
  by unfold_locales (simp_all add: u64_guard_iff del: Word.of_int_uint)

text \<open>However often the exchange fails, the counter ends at the exact sum of the value it held at the
  exchange that succeeded and the increment.\<close>

lemma add_atomic_exact:
  "add_atomic observed name current value = Inr result \<Longrightarrow>
   unat result = unat (last (current # observed)) + unat value"
proof (induction observed arbitrary: current)
  case Nil
  then show ?case using atomic.add_returns by (metis last_ConsL)
qed (auto split: if_splits)

definition count_up :: "(aggregator \<Rightarrow> u64) \<Rightarrow> ((u64 \<Rightarrow> u64) \<Rightarrow> aggregator \<Rightarrow> aggregator) \<Rightarrow> string \<Rightarrow> u64 \<Rightarrow>
  (aggregator, unit) proc" where
  "count_up counter update name value =
     bindp (gets counter) (\<lambda>current.
     bindp (liftp (add_atomic [] name current value)) (\<lambda>sum. modifyp (update (\<lambda>_. sum))))"

definition notify :: "string \<Rightarrow> (aggregator, unit) proc" where
  "notify current_path = modifyp (\<lambda>a. a\<lparr>ag_current_path := current_path, ag_dirty := True\<rparr>)"

definition record_discovered :: "ScannedEntry \<Rightarrow> (aggregator, unit) proc" where
  "record_discovered entry =
     seqp (count_up ag_discovered_entries ag_discovered_entries_update ''discovered entries'' 1)
     (seqp (count_up ag_discovered_bytes ag_discovered_bytes_update ''discovered bytes'' (se_logical_size entry))
       (notify (se_source_path entry)))"

definition record_processed :: "ScannedEntry \<Rightarrow> u64 \<Rightarrow> u64 \<Rightarrow> (aggregator, unit) proc" where
  "record_processed entry new_chunks reused_chunks =
     seqp (count_up ag_processed_entries ag_processed_entries_update ''processed entries'' 1)
     (seqp (count_up ag_processed_bytes ag_processed_bytes_update ''processed bytes'' (se_logical_size entry))
     (seqp (count_up ag_new_chunks ag_new_chunks_update ''new chunks'' new_chunks)
     (seqp (count_up ag_reused_chunks ag_reused_chunks_update ''reused chunks'' reused_chunks)
       (notify (se_source_path entry)))))"

definition mark_scan_complete :: "string \<Rightarrow> (aggregator, unit) proc" where
  "mark_scan_complete current_path =
     modifyp (\<lambda>a. a\<lparr>ag_scan_complete := True, ag_scan_completion_pending := True,
       ag_current_path := current_path, ag_dirty := True\<rparr>)"

definition finish :: "(aggregator, unit) proc" where
  "finish = modifyp (\<lambda>a. a\<lparr>ag_finished := True\<rparr>)"

definition cancel :: "(aggregator, unit) proc" where
  "cancel = modifyp (\<lambda>a. a\<lparr>ag_cancelled := True\<rparr>)"

section \<open>Callbacks\<close>

definition progress_event :: "OperationPhase \<Rightarrow> string \<Rightarrow> aggregator \<Rightarrow> ProgressEvent" where
  "progress_event phase current_path a =
     \<lparr>pe_phase = phase, pe_current_path = current_path,
      pe_discovered_entries = ag_discovered_entries a, pe_processed_entries = ag_processed_entries a,
      pe_processed_bytes = ag_processed_bytes a,
      pe_total_entries = (if ag_scan_complete a then Some (ag_discovered_entries a) else None),
      pe_total_bytes = (if ag_scan_complete a then Some (ag_discovered_bytes a) else None),
      pe_new_chunks = ag_new_chunks a, pe_reused_chunks = ag_reused_chunks a, pe_message = []\<rparr>"

abbreviation one_second :: int where "one_second \<equiv> 1000000000"

definition expire :: "int \<Rightarrow> Emission list \<Rightarrow> Emission list" where
  "expire now = dropWhile (\<lambda>e. now \<ge> em_time e \<and> now - em_time e \<ge> one_second)"

definition call_progress :: "Emission \<Rightarrow> ProgressEvent \<Rightarrow> (ProgressEvent \<Rightarrow> exn + unit) \<Rightarrow> (aggregator, unit) proc" where
  "call_progress emission event callback =
     seqp (modifyp (\<lambda>a. a\<lparr>ag_calls := ag_calls a @ [(emission, event)]\<rparr>)) (liftp (callback event))"

definition emit :: "OperationPhase \<Rightarrow> string \<Rightarrow> bool \<Rightarrow> (aggregator, unit) proc" where
  "emit phase current_path required =
     bindp (gets ag_callback) (\<lambda>callback.
     case callback of
       None \<Rightarrow> ret ()
     | Some call \<Rightarrow>
         bindp (gets (\<lambda>a. ag_clock a (ag_readings a))) (\<lambda>now.
         seqp (modifyp (\<lambda>a. a\<lparr>ag_readings := Suc (ag_readings a), ag_emissions := expire now (ag_emissions a)\<rparr>))
         (bindp (gets ag_emissions) (\<lambda>emissions.
          let ordinary_count = length (filter (\<lambda>e. \<not> em_required e) emissions) in
          if length emissions \<ge> 10 \<or> \<not> required \<and> ordinary_count \<ge> 4 then ret ()
          else
            let emission = \<lparr>em_time = now, em_required = required\<rparr> in
            seqp (modifyp (\<lambda>a. a\<lparr>ag_emissions := ag_emissions a @ [emission]\<rparr>))
            (bindp (gets (progress_event phase current_path)) (\<lambda>event. call_progress emission event call))))))"

definition emit_required :: "OperationPhase \<Rightarrow> string \<Rightarrow> (aggregator, unit) proc" where
  "emit_required phase current_path = emit phase current_path True"

text \<open>One turn of the loop of \<^verbatim>\<open>run\<close>: it waits, leaves, or reports the change it has taken.\<close>

datatype turn = Waits | Leaves | Reported

definition report_change :: "string \<Rightarrow> bool \<Rightarrow> (aggregator, unit) proc" where
  "report_change current_path scan_completion =
     bindp (gets (\<lambda>a. (ag_processed_entries a \<noteq> 0, ag_writing_phase_emitted a))) (\<lambda>(has_processed, emitted).
     let phase = (if has_processed then ph_writing_metadata else ph_scanning) in
     if scan_completion then
       seqp (emit_required phase current_path)
         (if has_processed then modifyp (\<lambda>a. a\<lparr>ag_writing_phase_emitted := True\<rparr>) else ret ())
     else if has_processed \<and> \<not> emitted then
       seqp (emit_required ph_writing_metadata current_path)
         (modifyp (\<lambda>a. a\<lparr>ag_writing_phase_emitted := True\<rparr>))
     else emit phase current_path False)"

definition run_turn :: "(aggregator, turn) proc" where
  "run_turn =
     bindp (gets (\<lambda>a. a)) (\<lambda>a.
     if \<not> (ag_dirty a \<or> ag_finished a \<or> ag_cancelled a) then ret Waits
     else if ag_cancelled a then ret Leaves
     else if \<not> ag_dirty a then ret Leaves
     else
       seqp (modifyp (\<lambda>a. a\<lparr>ag_scan_completion_pending := False, ag_dirty := False\<rparr>))
       (seqp (report_change (ag_current_path a) (ag_scan_completion_pending a)) (ret Reported)))"

section \<open>The rate of callbacks\<close>

text \<open>What the threads of a snapshot do to the aggregator, in any order.\<close>

datatype progress_action =
    Discovered ScannedEntry | Processed ScannedEntry u64 u64 | Scan_complete string | Finish | Cancel
  | Required OperationPhase string | Turn

fun act :: "progress_action \<Rightarrow> (aggregator, unit) proc" where
  "act (Discovered e) = record_discovered e"
| "act (Processed e new reused) = record_processed e new reused"
| "act (Scan_complete p) = mark_scan_complete p"
| "act Finish = finish"
| "act Cancel = cancel"
| "act (Required phase p) = emit_required phase p"
| "act Turn = seqp run_turn (ret ())"

text \<open>An action that throws leaves the state as the exception found it.\<close>

definition acts :: "progress_action list \<Rightarrow> aggregator \<Rightarrow> aggregator" where
  "acts actions a = fold (\<lambda>x a. snd (act x a)) actions a"

definition call_times :: "aggregator \<Rightarrow> Emission list" where
  "call_times a = map fst (ag_calls a)"

definition within :: "int \<Rightarrow> Emission \<Rightarrow> bool" where
  "within start e \<longleftrightarrow> start \<le> em_time e \<and> em_time e < start + one_second"

definition recent :: "int \<Rightarrow> Emission \<Rightarrow> bool" where
  "recent now e \<longleftrightarrow> now - em_time e < one_second"

text \<open>At every call, the calls of the second before it, itself included, are at most ten and at most
  four ordinary ones.\<close>

fun thinned :: "Emission list \<Rightarrow> bool" where
  "thinned calls = (\<forall>k < length calls.
     length (filter (recent (em_time (calls ! k))) (take (Suc k) calls)) \<le> 10 \<and>
     length (filter (\<lambda>e. recent (em_time (calls ! k)) e \<and> \<not> em_required e) (take (Suc k) calls)) \<le> 4)"

definition paced :: "aggregator \<Rightarrow> bool" where
  "paced a \<longleftrightarrow> mono (ag_clock a) \<and> thinned (call_times a) \<and> sorted (map em_time (call_times a)) \<and>
     (\<forall>e \<in> set (call_times a). em_time e \<le> ag_clock a (ag_readings a)) \<and>
     (\<exists>old. call_times a = old @ ag_emissions a \<and>
        (\<forall>e \<in> set old. ag_clock a (ag_readings a) - em_time e \<ge> one_second)) \<and>
     length (filter (\<lambda>e. \<not> em_required e) (ag_emissions a)) \<le> 4"

lemma emit_run:
  "emit phase path required a =
     (case ag_callback a of
        None \<Rightarrow> (Inr (), a)
      | Some call \<Rightarrow>
          let now = ag_clock a (ag_readings a); es = expire now (ag_emissions a);
              emission = \<lparr>em_time = now, em_required = required\<rparr>;
              event = progress_event phase path a in
          if length es \<ge> 10 \<or> \<not> required \<and> length (filter (\<lambda>e. \<not> em_required e) es) \<ge> 4
          then (Inr (), a\<lparr>ag_readings := Suc (ag_readings a), ag_emissions := es\<rparr>)
          else (call event, a\<lparr>ag_readings := Suc (ag_readings a), ag_emissions := es @ [emission],
                              ag_calls := ag_calls a @ [(emission, event)]\<rparr>))"
proof -
  have "progress_event phase path (a\<lparr>ag_readings := n, ag_emissions := es\<rparr>) = progress_event phase path a" for n es
    by (simp add: progress_event_def)
  then show ?thesis
    by (cases "ag_callback a") (simp_all add: emit_def call_progress_def run_simps)
qed

lemma length_filter_mono: "(\<And>x. x \<in> set xs \<Longrightarrow> P x \<Longrightarrow> Q x) \<Longrightarrow> length (filter P xs) \<le> length (filter Q xs)"
proof (induction xs)
  case (Cons x xs)
  then have "length (filter P xs) \<le> length (filter Q xs)" by simp
  then show ?case using Cons.prems [of x] by auto
qed simp

lemma thinned_snoc:
  "thinned (calls @ [e]) \<longleftrightarrow> thinned calls \<and>
     length (filter (recent (em_time e)) (calls @ [e])) \<le> 10 \<and>
     length (filter (\<lambda>x. recent (em_time e) x \<and> \<not> em_required x) (calls @ [e])) \<le> 4"
  (is "?snoc \<longleftrightarrow> thinned calls \<and> ?last")
proof -
  have "?snoc \<longleftrightarrow> (\<forall>k < length calls.
     length (filter (recent (em_time ((calls @ [e]) ! k))) (take (Suc k) (calls @ [e]))) \<le> 10 \<and>
     length (filter (\<lambda>x. recent (em_time ((calls @ [e]) ! k)) x \<and> \<not> em_required x) (take (Suc k) (calls @ [e]))) \<le> 4) \<and>
     ?last"
    unfolding thinned.simps length_append_singleton All_less_Suc nth_append_length
    by (simp only: take_all length_append_singleton order.refl) blast
  also have "\<dots> \<longleftrightarrow> thinned calls \<and> ?last"
    unfolding thinned.simps by (intro conj_cong refl all_cong) (simp_all add: nth_append)
  finally show ?thesis .
qed

lemma thinned_window:
  "thinned calls \<Longrightarrow> length (filter (within start) calls) \<le> 10 \<and>
   length (filter (\<lambda>e. within start e \<and> \<not> em_required e) calls) \<le> 4"
proof (induction calls rule: rev_induct)
  case (snoc e calls)
  show ?case
  proof (cases "within start e")
    case True
    then have "within start x \<Longrightarrow> recent (em_time e) x" for x by (auto simp: within_def recent_def)
    then have "length (filter (within start) (calls @ [e])) \<le> length (filter (recent (em_time e)) (calls @ [e]))"
      "length (filter (\<lambda>x. within start x \<and> \<not> em_required x) (calls @ [e])) \<le>
       length (filter (\<lambda>x. recent (em_time e) x \<and> \<not> em_required x) (calls @ [e]))"
      by (intro length_filter_mono; blast)+
    then show ?thesis using snoc.prems unfolding thinned_snoc by linarith
  next
    case False
    then show ?thesis using snoc unfolding thinned_snoc by simp
  qed
qed simp

lemma paced_new: "mono clock \<Longrightarrow> paced (new_aggregator callback clock)"
  by (simp add: paced_def new_aggregator_def call_times_def)

lemma expire_append: "\<exists>gone. es = gone @ expire now es \<and> (\<forall>e \<in> set gone. now - em_time e \<ge> one_second)"
  unfolding expire_def by (rule exI, rule conjI, rule takeWhile_dropWhile_id [symmetric]) (auto dest: set_takeWhileD)

lemma expire_recent:
  "sorted (map em_time es) \<Longrightarrow> e \<in> set (expire now es) \<Longrightarrow> recent now e"
  unfolding expire_def recent_def
  by (induction es) (fastforce split: if_splits)+

lemma paced_emit:
  assumes paced: "paced a" and callback: "ag_callback a = Some call"
  defines "now \<equiv> ag_clock a (ag_readings a)"
  obtains old where "call_times a = old @ expire now (ag_emissions a)"
    and "\<forall>e \<in> set old. now - em_time e \<ge> one_second"
    and "length (filter (\<lambda>e. \<not> em_required e) (expire now (ag_emissions a))) \<le> 4"
proof -
  obtain old where old: "call_times a = old @ ag_emissions a" "\<forall>e \<in> set old. now - em_time e \<ge> one_second"
    using paced unfolding paced_def now_def by blast
  obtain gone where gone: "ag_emissions a = gone @ expire now (ag_emissions a)"
    "\<forall>e \<in> set gone. now - em_time e \<ge> one_second"
    using expire_append by blast
  have "length (filter (\<lambda>e. \<not> em_required e) (ag_emissions a)) \<le> 4" using paced unfolding paced_def by blast
  moreover have "filter (\<lambda>e. \<not> em_required e) (ag_emissions a) = filter (\<lambda>e. \<not> em_required e) gone @
      filter (\<lambda>e. \<not> em_required e) (expire now (ag_emissions a))"
    using gone(1) by (metis filter_append)
  ultimately have "length (filter (\<lambda>e. \<not> em_required e) (expire now (ag_emissions a))) \<le> 4" by simp
  moreover have "call_times a = (old @ gone) @ expire now (ag_emissions a)" using old(1) gone(1) by simp
  ultimately show thesis using that [of "old @ gone"] old(2) gone(2) by auto
qed

lemma emit_keeps_paced: "paced a \<Longrightarrow> paced (snd (emit phase path required a))"
proof -
  assume paced: "paced a"
  show ?thesis
  proof (cases "ag_callback a")
    case None
    then show ?thesis using paced by (simp add: emit_run)
  next
    case (Some call)
    define now where "now = ag_clock a (ag_readings a)"
    define es where "es = expire now (ag_emissions a)"
    obtain old where old: "call_times a = old @ es" "\<forall>e \<in> set old. now - em_time e \<ge> one_second"
      "length (filter (\<lambda>e. \<not> em_required e) es) \<le> 4"
      using paced_emit [OF paced Some] unfolding now_def es_def by blast
    have base: "mono (ag_clock a)" "thinned (call_times a)" "sorted (map em_time (call_times a))"
      "\<forall>e \<in> set (call_times a). em_time e \<le> now"
      using paced unfolding paced_def now_def by blast+
    have next_reading: "now \<le> ag_clock a (Suc (ag_readings a))"
      using base(1) unfolding now_def by (simp add: monoD)
    have old': "\<forall>e \<in> set old. ag_clock a (Suc (ag_readings a)) - em_time e \<ge> one_second"
      using old(2) next_reading by fastforce
    let ?drop = "length es \<ge> 10 \<or> \<not> required \<and> length (filter (\<lambda>e. \<not> em_required e) es) \<ge> 4"
    show ?thesis
    proof (cases ?drop)
      case True
      then have "snd (emit phase path required a) = a\<lparr>ag_readings := Suc (ag_readings a), ag_emissions := es\<rparr>"
        by (simp add: emit_run Some Let_def now_def [symmetric] es_def [symmetric])
      then show ?thesis
        using base old old' next_reading unfolding paced_def call_times_def by (auto intro: order_trans)
    next
      case False
      let ?e = "\<lparr>em_time = now, em_required = required\<rparr>"
      let ?a = "snd (emit phase path required a)"
      have a: "?a = a\<lparr>ag_readings := Suc (ag_readings a), ag_emissions := es @ [?e],
          ag_calls := ag_calls a @ [(?e, progress_event phase path a)]\<rparr>"
        using False by (simp add: emit_run Some Let_def now_def [symmetric] es_def [symmetric])
      have times: "call_times ?a = call_times a @ [?e]" by (simp add: a call_times_def)
      have "filter (recent now) old = []" using old(2) by (auto simp: filter_empty_conv recent_def)
      then have "length (filter (recent now) (call_times a @ [?e])) \<le> Suc (length es)"
        "length (filter (\<lambda>x. recent now x \<and> \<not> em_required x) (call_times a @ [?e])) \<le>
          length (filter (\<lambda>e. \<not> em_required e) es) + (if required then 0 else 1)"
        using length_filter_mono [of es "\<lambda>x. recent now x \<and> \<not> em_required x" "\<lambda>e. \<not> em_required e"]
          le_SucI [OF length_filter_le [of "recent now" es]]
        by (auto simp: old(1) filter_empty_conv)
      then have "thinned (call_times ?a)"
        using False old(3) base(2) unfolding times thinned_snoc by (auto split: if_splits)
      moreover have "sorted (map em_time (call_times ?a))"
        using base(3,4) unfolding times by (simp add: sorted_append)
      moreover have "call_times ?a = old @ ag_emissions ?a" by (simp add: old(1) a call_times_def [of "_\<lparr>ag_calls := _\<rparr>"] call_times_def [symmetric])
      ultimately show ?thesis
        using base(1,4) old(3) old' next_reading False unfolding paced_def times
        by (auto simp: a intro: order_trans)
    qed
  qed
qed

text \<open>The other operations touch neither the clock nor the emissions.\<close>

lemma paced_cong:
  "ag_clock b = ag_clock a \<Longrightarrow> ag_readings b = ag_readings a \<Longrightarrow> ag_emissions b = ag_emissions a \<Longrightarrow>
   ag_calls b = ag_calls a \<Longrightarrow> paced b = paced a"
  by (simp add: paced_def call_times_def)

lemma keeps_paced_modifyp [keeps_intros]:
  "(\<And>a. ag_clock (f a) = ag_clock a \<and> ag_readings (f a) = ag_readings a \<and>
     ag_emissions (f a) = ag_emissions a \<and> ag_calls (f a) = ag_calls a) \<Longrightarrow> keeps paced (modifyp f)"
  using paced_cong by (intro keeps_modifyp) blast

lemma keeps_paced_emit [keeps_intros]: "keeps paced (emit phase path required)"
  using emit_keeps_paced by (simp add: keeps_def)

lemma act_keeps_paced: "keeps paced (act x)"
  by (cases x) (auto simp: record_discovered_def record_processed_def count_up_def notify_def mark_scan_complete_def
      finish_def cancel_def emit_required_def run_turn_def report_change_def Let_def
      intro!: keeps_intros split: prod.splits)

lemma acts_paced: "mono clock \<Longrightarrow> paced (acts actions (new_aggregator callback clock))"
proof -
  assume "mono clock"
  have "paced a \<Longrightarrow> paced (acts actions a)" for a
    by (induction actions arbitrary: a) (use act_keeps_paced in \<open>simp_all add: acts_def keeps_def\<close>)
  then show ?thesis using paced_new [OF \<open>mono clock\<close>] by blast
qed

text \<open>
  [C36] Callbacks are thinned out but never the important ones: whatever the threads of a snapshot do
  and in whatever order, every window of one second contains at most ten callbacks and at most four
  ordinary ones; and a required callback is dropped only when the second before it already contains
  six required ones, as many as a whole snapshot asks for.
\<close>

theorem progress_rate_limited:
  assumes "mono clock" and "a = acts actions (new_aggregator callback clock)"
  shows "length (filter (within start) (call_times a)) \<le> 10 \<and>
    length (filter (\<lambda>e. within start e \<and> \<not> em_required e) (call_times a)) \<le> 4 \<and>
    (ag_callback a \<noteq> None \<and>
     length (filter (\<lambda>e. em_required e \<and> recent (ag_clock a (ag_readings a)) e) (call_times a)) < 6 \<longrightarrow>
     ag_calls (snd (emit_required phase path a)) =
       ag_calls a @ [(\<lparr>em_time = ag_clock a (ag_readings a), em_required = True\<rparr>, progress_event phase path a)])"
proof (intro conjI impI)
  have paced: "paced a" unfolding assms(2) by (rule acts_paced [OF assms(1)])
  then have "thinned (call_times a)" unfolding paced_def by blast
  then show "length (filter (within start) (call_times a)) \<le> 10"
    "length (filter (\<lambda>e. within start e \<and> \<not> em_required e) (call_times a)) \<le> 4"
    using thinned_window by blast+
  assume few: "ag_callback a \<noteq> None \<and>
     length (filter (\<lambda>e. em_required e \<and> recent (ag_clock a (ag_readings a)) e) (call_times a)) < 6"
  then obtain call where call: "ag_callback a = Some call" by blast
  define now where "now = ag_clock a (ag_readings a)"
  define es where "es = expire now (ag_emissions a)"
  obtain old where old: "call_times a = old @ es" "length (filter (\<lambda>e. \<not> em_required e) es) \<le> 4"
    using paced_emit [OF paced call] unfolding now_def es_def by blast
  have "sorted (map em_time (ag_emissions a))"
    using paced unfolding paced_def by (metis map_append sorted_append)
  then have "filter (\<lambda>e. em_required e \<and> recent now e) es = filter em_required es"
    using expire_recent unfolding es_def by (metis (mono_tags, lifting) filter_cong)
  then have "length (filter em_required es) \<le> 5"
    using few unfolding now_def [symmetric] old(1) by simp
  then have "length es < 10"
    using old(2) sum_length_filter_compl [of em_required es] by simp
  then show "ag_calls (snd (emit_required phase path a)) =
       ag_calls a @ [(\<lparr>em_time = ag_clock a (ag_readings a), em_required = True\<rparr>, progress_event phase path a)]"
    by (simp add: emit_required_def emit_run call Let_def now_def [symmetric] es_def [symmetric])
qed

text \<open>Twelve changes reported in a burst: ten callbacks.\<close>

theorem progress_rate_limited_witness:
  "length (filter (within 0) (call_times (acts (concat (replicate 12 [Scan_complete ''p'', Turn]))
     (new_aggregator (Some (\<lambda>_. Inr ())) int)))) \<le> 10 \<and> length (call_times
     (acts (concat (replicate 12 [Scan_complete ''p'', Turn])) (new_aggregator (Some (\<lambda>_. Inr ())) int))) = 10"
proof
  show "length (filter (within 0) (call_times (acts (concat (replicate 12 [Scan_complete ''p'', Turn]))
     (new_aggregator (Some (\<lambda>_. Inr ())) int)))) \<le> 10"
    by (rule progress_rate_limited [OF _ refl, THEN conjunct1]) (simp add: mono_def)
  show "length (call_times (acts (concat (replicate 12 [Scan_complete ''p'', Turn]))
     (new_aggregator (Some (\<lambda>_. Inr ())) int))) = 10"
    by code_simp
qed

end
