(* ===== verification/Snapshot_Worker.thy ===== *)
theory Snapshot_Worker
  imports Progress Chunker File_Scanner
begin

text \<open>
  What a worker thread of \<^verbatim>\<open>SnapshotEngine::create_snapshot\<close>
  (\<^verbatim>\<open>src/core/snapshot_engine.cpp\<close>) does with one job: a regular file is read in chunks, every
  chunk is stored, and its reference is appended to a temporary spool file; a file that changes while
  it is read is read once more or becomes a warning. The test hooks of the engine are absent.
\<close>

section \<open>Counters\<close>

definition add_bytes :: "string \<Rightarrow> ByteCount \<Rightarrow> ByteCount \<Rightarrow> exn + ByteCount" where
  "add_bytes counter total_bytes value =
     (if total_bytes > u64_max - value then throw_lv E_internal_error (counter @ '' counter overflow'')
      else Inr (total_bytes + value))"

interpretation byte_counter: checked_adder "add_bytes counter" for counter
  by unfold_locales (simp_all add: add_bytes_def u64_guard_iff)

definition checked_sequence :: "u64 \<Rightarrow> exn + int" where
  "checked_sequence sequence =
     (if sequence > word_of_int int64_max then throw_lv E_internal_error ''file has too many chunks''
      else Inr (uint sequence))"

definition saturating_add :: "size_t \<Rightarrow> size_t \<Rightarrow> size_t" where
  "saturating_add total_size value = (if value > u64_max - total_size then u64_max else total_size + value)"

lemma saturating_add_unat: "unat (saturating_add a b) = min (unat a + unat b) (2 ^ 64 - 1)"
proof (cases "2 ^ 64 \<le> unat b + unat a")
  case True
  then have "saturating_add a b = u64_max" by (simp add: saturating_add_def u64_guard_iff)
  then show ?thesis using True by (simp add: unat_word_ariths)
next
  case False
  then have "saturating_add a b = a + b" by (simp add: saturating_add_def u64_guard_iff)
  then show ?thesis using False by (simp add: unat_word_ariths)
qed

section \<open>The spool of chunk references\<close>

record ChunkReferenceRecord =
  crr_hash_hex :: string
  crr_raw_offset :: ByteCount
  crr_sequence_number :: int
  crr_raw_size :: ByteCount
  crr_stored_size :: ByteCount
  crr_newly_stored :: u8

text \<open>The object representation that \<^verbatim>\<open>std::as_bytes\<close> exposes and \<^verbatim>\<open>read\<close> fills. The record is
  trivially copyable and its size is asserted to be 104 bytes, so its members, the seven reserved bytes
  included, follow one another in their order without padding; integers are little-endian.\<close>

fun le_digits :: "nat \<Rightarrow> nat \<Rightarrow> bytes" where
  "le_digits 0 n = []"
| "le_digits (Suc k) n = word_of_nat (n mod 256) # le_digits k (n div 256)"

fun le_value :: "bytes \<Rightarrow> nat" where
  "le_value [] = 0"
| "le_value (b # bs) = unat b + 256 * le_value bs"

definition le64 :: "u64 \<Rightarrow> bytes" where
  "le64 w = le_digits 8 (unat w)"

definition of_le64 :: "bytes \<Rightarrow> u64" where
  "of_le64 bs = word_of_nat (le_value bs)"

definition record_bytes :: "ChunkReferenceRecord \<Rightarrow> bytes" where
  "record_bytes r =
     map (\<lambda>c. word_of_nat (of_char c)) (crr_hash_hex r) @ le64 (crr_raw_offset r) @
     le64 (word_of_int (crr_sequence_number r)) @ le64 (crr_raw_size r) @ le64 (crr_stored_size r) @
     [crr_newly_stored r] @ replicate 7 0"

definition record_of_bytes :: "bytes \<Rightarrow> ChunkReferenceRecord" where
  "record_of_bytes bs =
     \<lparr>crr_hash_hex = map (\<lambda>b. char_of (unat b)) (take 64 bs),
      crr_raw_offset = of_le64 (take 8 (drop 64 bs)),
      crr_sequence_number = sint (of_le64 (take 8 (drop 72 bs))),
      crr_raw_size = of_le64 (take 8 (drop 80 bs)),
      crr_stored_size = of_le64 (take 8 (drop 88 bs)),
      crr_newly_stored = bs ! 96\<rparr>"

definition spool_call :: "string \<Rightarrow> (fs \<Rightarrow> 'a option) \<Rightarrow> (fs, 'a) proc" where
  "spool_call message op f =
     (let g = interfere f in
      case (fs_faults f (fs_tick f), op g) of
        (None, Some a) \<Rightarrow> (Inr a, g)
      | _ \<Rightarrow> (throw_lv E_filesystem_error message, g))"

definition spool_append :: "string \<Rightarrow> StoredObject \<Rightarrow> ByteCount \<Rightarrow> int \<Rightarrow> (fs, unit) proc" where
  "spool_append spool object raw_offset sequence_number =
     seqp (guardp (length (so_hash_hex object) = 64) E_internal_error
             ''stored object has an invalid chunk-reference hash'')
       (write_loop spool (record_bytes
          \<lparr>crr_hash_hex = so_hash_hex object, crr_raw_offset = raw_offset,
           crr_sequence_number = sequence_number, crr_raw_size = so_raw_size object,
           crr_stored_size = so_stored_size object,
           crr_newly_stored = (if so_newly_stored object then 1 else 0)\<rparr>))"

definition rewind_for_reading :: "string \<Rightarrow> (fs, unit) proc" where
  "rewind_for_reading spool =
     spool_call ''failed to open temporary chunk-reference spool'' (\<lambda>f. map_option (\<lambda>_. ()) (files f spool))"

text \<open>The reader stands at a byte offset of the spool.\<close>

definition spool_read :: "string \<Rightarrow> nat \<Rightarrow> (fs, ChunkReferenceRecord) proc" where
  "spool_read spool position =
     spool_call ''failed to read temporary chunk-reference spool'' (\<lambda>f.
       case files f spool of
         None \<Rightarrow> None
       | Some content \<Rightarrow>
           let got_bytes = take 104 (drop position content) in
           if length got_bytes \<noteq> 104 then None else Some (record_of_bytes got_bytes))"

section \<open>Jobs and results\<close>

type_synonym FileJob = "ScannedEntry + ScanWarning"

record ProcessedEntry =
  pr_value :: "ScannedEntry + ScanWarning"
  pr_chunk_references :: "string option"
  pr_file_hash_hex :: string
  pr_chunk_count :: u64
  pr_new_chunk_count :: u64

text \<open>\<open>base\<close> is \<^verbatim>\<open>sizeof(ProcessedEntry)\<close>; a path character is one byte.\<close>

definition processed_entry_size :: "size_t \<Rightarrow> ProcessedEntry \<Rightarrow> size_t" where
  "processed_entry_size base result =
     (let len = (\<lambda>text. word_of_nat (length text));
          parts = (case pr_value result of
             Inl entry \<Rightarrow> [len (se_source_path entry), len (se_relative_path entry), len (se_parent_path entry),
                 len (se_name entry)] @ (case se_symlink_target entry of None \<Rightarrow> [] | Some t \<Rightarrow> [len t])
           | Inr warning \<Rightarrow> [len (sw_relative_path warning), len (sw_code warning), len (sw_message warning)])
      in foldl saturating_add base (parts @ [len (pr_file_hash_hex result)]))"

section \<open>Reading one file\<close>

text \<open>The store, the stop token as the thread polls it, and the variables that the chunk callback
  captures. The hasher is represented by the bytes it has been given.\<close>

record worker =
  wk_store :: ostore
  wk_stop :: "nat \<Rightarrow> bool"
  wk_polls :: nat
  wk_bytes_read :: ByteCount
  wk_sequence :: u64
  wk_new_chunk_count :: u64
  wk_hashed :: bytes
  wk_callback_error :: "exn option"

text \<open>The source tree as the attempts to read a file find it: metadata before and after, and the stream
  that opening the file gives.\<close>

record worker_env =
  we_config :: os_config
  we_retry_unstable_files :: bool
  we_before :: "string \<Rightarrow> nat \<Rightarrow> string + stat"
  we_open :: "string \<Rightarrow> nat \<Rightarrow> istream option"
  we_after :: "string \<Rightarrow> nat \<Rightarrow> string + stat"
  we_spool_names :: "string list"

definition in_store :: "(ostore, 'a) proc \<Rightarrow> (worker, 'a) proc" where
  "in_store m w = (case m (wk_store w) of (r, s) \<Rightarrow> (r, w\<lparr>wk_store := s\<rparr>))"

definition poll :: "(worker, bool) proc" where
  "poll w = (Inr (wk_stop w (wk_polls w)), w\<lparr>wk_polls := Suc (wk_polls w)\<rparr>)"

definition worker_check_cancelled :: "(worker, unit) proc" where
  "worker_check_cancelled = bindp poll (\<lambda>stop. guardp (\<not> stop) E_cancelled ''snapshot cancelled'')"

definition store_chunk :: "worker_env \<Rightarrow> string \<Rightarrow> ByteCount \<Rightarrow> bytes \<Rightarrow> (worker, unit) proc" where
  "store_chunk env spool raw_offset raw_bytes =
     seqp (modifyp (\<lambda>w. w\<lparr>wk_hashed := wk_hashed w @ raw_bytes\<rparr>))
     (seqp worker_check_cancelled
     (bindp poll (\<lambda>stop.
      bindp (in_store (store (we_config env) raw_bytes stop)) (\<lambda>object.
      bindp (gets wk_bytes_read) (\<lambda>bytes_read.
      bindp (liftp (add_bytes ''file bytes read'' bytes_read (so_raw_size object))) (\<lambda>sum.
      seqp (modifyp (\<lambda>w. w\<lparr>wk_bytes_read := sum\<rparr>))
      (bindp (gets wk_sequence) (\<lambda>sequence.
       bindp (liftp (checked_sequence sequence)) (\<lambda>sequence_number.
       seqp (in_store (os_disk (spool_append spool object raw_offset sequence_number)))
         (modifyp (\<lambda>w. w\<lparr>wk_new_chunk_count := wk_new_chunk_count w + (if so_newly_stored object then 1 else 0),
                          wk_sequence := wk_sequence w + 1\<rparr>)))))))))))"

definition on_chunk :: "worker_env \<Rightarrow> string \<Rightarrow> ByteCount \<Rightarrow> bytes \<Rightarrow> (worker, unit) proc" where
  "on_chunk env spool raw_offset raw_bytes =
     handle (store_chunk env spool raw_offset raw_bytes)
       (\<lambda>e. seqp (modifyp (\<lambda>w. w\<lparr>wk_callback_error := Some e\<rparr>)) (raise e))"

definition read_attempt :: "worker_env \<Rightarrow> ScannedEntry \<Rightarrow> nat \<Rightarrow> string \<Rightarrow> (worker, ProcessedEntry) proc" where
  "read_attempt env original attempt spool =
     (let path = se_source_path original in
      seqp worker_check_cancelled
      (bindp (liftp (read_platform_file_metadata_no_follow (we_before env path attempt))) (\<lambda>before.
       seqp (for_each_chunk (oc_maximum_chunk_size (we_config env)) (we_open env path attempt)
               (\<lambda>w. wk_stop w (wk_polls w)) (Some (on_chunk env spool)))
       (bindp (liftp (read_platform_file_metadata_no_follow (we_after env path attempt))) (\<lambda>after.
        bindp (gets (\<lambda>w. w)) (\<lambda>w.
        seqp (guardp (wk_bytes_read w = pm_logical_size before \<and> same_stable_identity before after)
                E_source_changed ''source file changed while reading'')
          (ret \<lparr>pr_value = Inl (original\<lparr>se_logical_size := pm_logical_size before,
                    se_modified_time_ns := pm_modified_time_ns before, se_posix_mode := pm_posix_mode before\<rparr>),
                pr_chunk_references = Some spool,
                pr_file_hash_hex = hash_raw (oc_blake3 (we_config env)) (wk_hashed w),
                pr_chunk_count = wk_sequence w, pr_new_chunk_count = wk_new_chunk_count w\<rparr>)))))))"

definition new_attempt :: "(worker, unit) proc" where
  "new_attempt = modifyp (\<lambda>w. w\<lparr>wk_bytes_read := 0, wk_sequence := 0, wk_new_chunk_count := 0, wk_hashed := [],
     wk_callback_error := None\<rparr>)"

definition drop_spool :: "string \<Rightarrow> (worker, unit) proc" where
  "drop_spool spool =
     modifyp (\<lambda>w. w\<lparr>wk_store := (wk_store w)\<lparr>os_fs := drop_temporary spool (os_fs (wk_store w))\<rparr>\<rparr>)"

text \<open>The handler around an attempt: an exception of the callback and everything that is not a
  problem of the source file leave the worker; a source problem is retried or becomes a warning.\<close>

definition unreadable :: "ScannedEntry \<Rightarrow> bool \<Rightarrow> exn \<Rightarrow> (worker, ProcessedEntry option) proc" where
  "unreadable original again e =
     (case e of
        Lv err \<Rightarrow>
          bindp (gets wk_callback_error) (\<lambda>callback_error.
          case callback_error of
            Some cause \<Rightarrow> raise cause
          | None \<Rightarrow>
              if error_code err \<noteq> E_filesystem_error \<and> error_code err \<noteq> E_source_changed then raise e
              else if again then ret None
              else ret (Some \<lparr>pr_value = Inr \<lparr>sw_relative_path = se_relative_path original,
                      sw_code = (if error_code err = E_source_changed then ''source_changed'' else ''source_unavailable''),
                      sw_message = what err\<rparr>,
                    pr_chunk_references = None, pr_file_hash_hex = [], pr_chunk_count = 0, pr_new_chunk_count = 0\<rparr>))
      | _ \<Rightarrow> raise e)"

text \<open>One turn of the attempt loop; the spool is removed unless the attempt succeeds.\<close>

definition attempt_file :: "worker_env \<Rightarrow> ScannedEntry \<Rightarrow> nat \<Rightarrow> bool \<Rightarrow> (worker, ProcessedEntry option) proc" where
  "attempt_file env original attempt again =
     seqp new_attempt
     (bindp (in_store (os_disk (create_temporary
               (map (\<lambda>n. ''temporary/objects/'' @ n) (we_spool_names env)) 100))) (\<lambda>spool.
      handle (bindp (read_attempt env original attempt spool) (\<lambda>output. ret (Some output)))
        (\<lambda>e w. case unreadable original again e w of (r, w') \<Rightarrow> (case drop_spool spool w' of (_, w'') \<Rightarrow> (r, w'')))))"

fun attempts :: "worker_env \<Rightarrow> ScannedEntry \<Rightarrow> nat \<Rightarrow> nat \<Rightarrow> (worker, ProcessedEntry) proc" where
  "attempts env original attempt 0 =
     ret \<lparr>pr_value = Inl original, pr_chunk_references = None, pr_file_hash_hex = [], pr_chunk_count = 0,
          pr_new_chunk_count = 0\<rparr>"
| "attempts env original attempt (Suc remaining) =
     bindp (attempt_file env original attempt (remaining \<noteq> 0)) (\<lambda>output.
       case output of Some result \<Rightarrow> ret result | None \<Rightarrow> attempts env original (Suc attempt) remaining)"

definition process_job :: "worker_env \<Rightarrow> FileJob \<Rightarrow> (worker, ProcessedEntry) proc" where
  "process_job env job =
     (let unchanged = \<lparr>pr_value = job, pr_chunk_references = None, pr_file_hash_hex = [], pr_chunk_count = 0,
            pr_new_chunk_count = 0\<rparr> in
      case job of
        Inl entry \<Rightarrow>
          if se_type entry = regular_file
          then attempts env entry 0 (if we_retry_unstable_files env then 2 else 1)
          else ret unchanged
      | Inr warning \<Rightarrow> ret unchanged)"

end
