(* ===== verification/Worker_Laws.thy ===== *)
theory Worker_Laws
  imports Snapshot_Worker
begin

text \<open>
  What a worker hands to the writer: the records of a spool are read back as they were written; a
  temporary file is safe from everything that other temporary files and the object store go through;
  and a file that was captured is described by its chunk references, each of which names a durable
  object with the contents of that chunk.
\<close>

section \<open>Records\<close>

lemma length_le_digits [simp]: "length (le_digits k n) = k"
  by (induction k arbitrary: n) auto

lemma le_value_digits: "le_value (le_digits k n) = n mod 256 ^ k"
proof (induction k arbitrary: n)
  case (Suc k)
  have "unat (word_of_nat (n mod 256) :: u8) = n mod 256"
    by (simp add: unat_of_nat take_bit_eq_mod)
  then show ?case using Suc by (simp add: mod_mult2_eq)
qed simp

lemma le64_round_trip: "of_le64 (le64 w) = w"
proof -
  have "unat w < 256 ^ 8" using unsigned_less [of w] by simp
  then show ?thesis by (simp add: of_le64_def le64_def le_value_digits)
qed

lemma length_le64 [simp]: "length (le64 w) = 8"
  by (simp add: le64_def)

definition well_sized :: "ChunkReferenceRecord \<Rightarrow> bool" where
  "well_sized r \<longleftrightarrow> length (crr_hash_hex r) = 64 \<and> 0 \<le> crr_sequence_number r \<and> crr_sequence_number r \<le> int64_max"

lemma length_record_bytes: "well_sized r \<Longrightarrow> length (record_bytes r) = 104"
  by (simp add: record_bytes_def well_sized_def)

lemma byte_char: "char_of (unat (word_of_nat (of_char c) :: u8)) = c"
  by (simp add: unat_of_nat take_bit_eq_mod)

lemma sequence_round_trip: "0 \<le> n \<Longrightarrow> n \<le> int64_max \<Longrightarrow> sint (word_of_int n :: u64) = n"
  by (simp add: signed_of_int signed_take_bit_int_eq_self)

lemma record_round_trip:
  assumes "well_sized r"
  shows "record_of_bytes (record_bytes r) = r"
proof -
  have "bytes64 @ a @ b @ c @ d @ e = record_bytes r \<Longrightarrow> length bytes64 = 64 \<Longrightarrow> length a = 8 \<Longrightarrow>
      length b = 8 \<Longrightarrow> length c = 8 \<Longrightarrow> length d = 8 \<Longrightarrow> e \<noteq> [] \<Longrightarrow>
      record_of_bytes (record_bytes r) = \<lparr>crr_hash_hex = map (\<lambda>b. char_of (unat b)) bytes64,
        crr_raw_offset = of_le64 a, crr_sequence_number = sint (of_le64 b), crr_raw_size = of_le64 c,
        crr_stored_size = of_le64 d, crr_newly_stored = hd e\<rparr>" for bytes64 a b c d e
    by (drule sym) (simp add: record_of_bytes_def nth_append hd_conv_nth)
  then show "record_of_bytes (record_bytes r) = r"
    using assms by (simp add: well_sized_def record_bytes_def le64_round_trip sequence_round_trip comp_def byte_char)
qed

section \<open>Temporary files are left alone\<close>

text \<open>Whatever happens to other paths, the file at \<open>p\<close> keeps its contents.\<close>

definition holds :: "string \<Rightarrow> bytes \<Rightarrow> fs \<Rightarrow> bool" where
  "holds p c f \<longleftrightarrow> files f p = Some c"

lemma holds_interfere [simp]: "holds p c f \<Longrightarrow> holds p c (interfere f)"
  by (auto simp: holds_def interfere_def Let_def path_taken_def split: option.split prod.split)

lemma holds_syscall:
  "(\<And>g a h. holds p c g \<Longrightarrow> op g = Inr (a, h) \<Longrightarrow> holds p c h) \<Longrightarrow> keeps (holds p c) (syscall code message op)"
  by (rule keepsI) (auto simp: syscall_def Let_def split: option.splits sum.splits dest: holds_interfere)

lemma holds_queries [keeps_intros]:
  "keeps (holds p c) (ensure_directory q)" "keeps (holds p c) (regular_file_size q)"
  "keeps (holds p c) (read_exact q n)" "keeps (holds p c) (flush_containing_directory q)"
  "keeps (holds p c) (sync_existing_regular_file q)" "keeps (holds p c) (temporary_sync q)"
  unfolding ensure_directory_def regular_file_size_def read_exact_def flush_containing_directory_def
    sync_existing_regular_file_def temporary_sync_def
  by (rule holds_syscall; auto simp: holds_def bindE_Inr_iff split: if_splits option.splits)+

lemma holds_create_temporary [keeps_intros]: "keeps (holds p c) (create_temporary candidates n)"
proof (induction candidates n rule: create_temporary.induct)
  case (3 candidate candidates attempts)
  have "keeps (holds p c) (syscall E_filesystem_error ''failed to create restore temporary file: '' (\<lambda>f.
      if path_taken f candidate then Inr (False, f) else Inr (True, f\<lparr>files := (files f)(candidate \<mapsto> [])\<rparr>)))"
    by (rule holds_syscall) (auto simp: holds_def path_taken_def split: if_splits)
  then show ?case using 3 by (auto intro!: keeps_intros)
qed (auto intro!: keeps_intros)

lemma create_temporary_made:
  "create_temporary candidates n f = (Inr t, g) \<Longrightarrow> t \<in> set candidates \<and> holds t [] g"
proof (induction candidates n arbitrary: f rule: create_temporary.induct)
  case (3 candidate candidates attempts)
  then show ?case
    by (auto simp: bindp_def syscall_def Let_def holds_def ret_def split: prod.splits sum.splits option.splits if_splits)
qed (simp_all add: raise_lv_def raise_def)

lemma create_temporary_fresh:
  "create_temporary candidates n f = (Inr t, g) \<Longrightarrow> holds p c f \<Longrightarrow> t \<noteq> p"
proof (induction candidates n arbitrary: f rule: create_temporary.induct)
  case (3 candidate candidates attempts)
  let ?attempt = "syscall E_filesystem_error ''failed to create restore temporary file: '' (\<lambda>f.
      if path_taken f candidate then Inr (False, f) else Inr (True, f\<lparr>files := (files f)(candidate \<mapsto> [])\<rparr>))"
  obtain created h where tried: "?attempt f = (Inr created, h)"
    and rest: "(if created then ret candidate else create_temporary candidates attempts) h = (Inr t, g)"
    using 3(2) by (auto simp: bindp_def split: prod.splits sum.splits)
  have h: "if created then candidate \<noteq> p else holds p c h"
    using tried holds_interfere [OF 3(3)]
    by (auto simp: syscall_def Let_def holds_def path_taken_def split: option.splits if_splits)
  show ?case
  proof (cases created)
    case True
    then show ?thesis using rest h by (simp add: ret_def)
  next
    case False
    then show ?thesis using 3(1) [OF False] rest h by auto
  qed
qed (simp_all add: raise_lv_def raise_def)

lemma holds_write_loop [keeps_intros]: "q \<noteq> p \<Longrightarrow> keeps (holds p c) (write_loop q bs)"
  by (rule keepsI) (auto simp: holds_def writes_to_def same_but_def dest!: write_loop_writes_to)

lemma holds_publish [keeps_intros]:
  "q \<noteq> p \<Longrightarrow> final \<noteq> p \<Longrightarrow> keeps (holds p c) (publish q final replace)"
  unfolding publish_def
  by (rule holds_syscall) (auto simp: holds_def rename_path_def split: if_splits)

lemma holds_drop_temporary: "q \<noteq> p \<Longrightarrow> holds p c (drop_temporary q f) = holds p c f"
  by (simp add: holds_def drop_temporary_def)

definition store_holds :: "string \<Rightarrow> bytes \<Rightarrow> ostore \<Rightarrow> bool" where
  "store_holds p c s \<longleftrightarrow> holds p c (os_fs s)"

lemma store_holds_disk [keeps_intros]: "keeps (holds p c) m \<Longrightarrow> keeps (store_holds p c) (os_disk m)"
  by (rule keepsI) (auto simp: store_holds_def os_disk_def dest: keepsD split: prod.splits)

lemma store_holds_lift [keeps_intros]: "keeps (store_holds p c) (os_meta n)" "keeps (store_holds p c) (remember obj)"
  by (auto simp: keeps_def store_holds_def os_meta_def remember_def modifyp_def Let_def split: prod.split)

lemma store_holds_temporary:
  assumes "\<And>t. t \<noteq> p \<Longrightarrow> keeps (store_holds p c) (body t)"
  shows "keeps (store_holds p c) (with_temporary cfg dir body)"
proof (rule keepsI)
  fix s r s'
  let ?create = "create_temporary (map (\<lambda>n. dir @ ''/'' @ n) (oc_temporary_names cfg)) 100"
  assume s: "store_holds p c s" and run: "with_temporary cfg dir body s = (r, s')"
  obtain x f where create: "?create (os_fs s) = (x, f)" by fastforce
  have f: "holds p c f" using keepsD [OF holds_create_temporary _ create] s by (simp add: store_holds_def)
  show "store_holds p c s'"
  proof (cases x)
    case (Inl e)
    then show ?thesis using run create f by (auto simp: with_temporary_def bindp_def os_disk_def store_holds_def)
  next
    case (Inr t)
    have t: "t \<noteq> p" using create_temporary_fresh [of _ _ _ t f p c] create s Inr by (simp add: store_holds_def)
    obtain y s1 where body: "body t (s\<lparr>os_fs := f\<rparr>) = (y, s1)" by fastforce
    then have "store_holds p c s1" using keepsD [OF assms [OF t] _ body] f by (simp add: store_holds_def)
    moreover have "s' = s1\<lparr>os_fs := drop_temporary t (os_fs s1)\<rparr>"
      using run create Inr body by (simp add: with_temporary_def bindp_def os_disk_def)
    ultimately show ?thesis using t by (simp add: store_holds_def holds_drop_temporary)
  qed
qed

lemma store_holds_search [keeps_intros]:
  "keeps (store_holds p c) (require_reusable cfg known h q n)" "keeps (store_holds p c) (read_verified cfg h q n m)"
  unfolding require_reusable_def read_verified_def Let_def by (intro keeps_intros)+

lemma store_holds_find [keeps_intros]:
  "keeps (store_holds p c) (find_existing cfg h q n)" "keeps (store_holds p c) (find_existing_file cfg h q n)"
  unfolding find_existing_def find_existing_file_def Let_def by (intro keeps_intros)+

lemma store_holds_ensure_metadata [keeps_intros]: "keeps (store_holds p c) (ensure_metadata cfg obj)"
  unfolding ensure_metadata_def by (intro keeps_intros)

lemma store_keeps_temporary: "temporary_path p \<Longrightarrow> keeps (store_holds p c) (store cfg raw stop)"
  unfolding store_def write_object_def publish_object_def Let_def
  by (intro keeps_intros store_holds_temporary) auto

section \<open>Reading to the end\<close>

text \<open>Whatever interrupts it, a chunk loop that returns has delivered the whole stream.\<close>

lemma chunk_loop_returns:
  assumes "0 < unat mx"
  shows "chunk_loop mx stop cb inp (word_of_nat off) s = (Inr u, s') \<Longrightarrow> off < 2 ^ 64 \<Longrightarrow>
    off + length (rest inp) < 2 ^ 64 \<and> run_chunks cb (split_chunks (unat mx) off (rest inp)) s = (Inr u, s')"
proof (induction "length (rest inp)" arbitrary: inp off s rule: less_induct)
  case less
  let ?n = "unat mx" and ?c = "take (unat mx) (rest inp)"
  obtain r inp' where read: "stream_read inp ?n = (r, inp')" by fastforce
  have ok: "\<not> bad r" "\<not> (failed r \<and> \<not> eof r)"
    using less.prems(1) read by (subst (asm) chunk_loop.simps, auto split: if_splits)+
  then have r: "got r = ?c" "eof r \<longleftrightarrow> length (rest inp) < ?n" "rest inp' = drop ?n (rest inp)"
    using read by (auto simp: stream_read_def split: option.splits if_splits)
  show ?case
  proof (cases "rest inp = []")
    case True
    then show ?thesis
      using less.prems read r assms by (subst (asm) chunk_loop.simps) (auto split: if_splits)
  next
    case False
    then have c: "?c \<noteq> []" using assms by simp
    have guard: "\<not> (word_of_nat off > u64_max - (word_of_nat (length ?c) :: u64))"
      using less.prems(1) read r ok c by (subst (asm) chunk_loop.simps) (auto split: if_splits)
    have len: "length ?c < 2 ^ 64" using u64_unat_less [of mx] by simp
    then have sum: "off + length ?c < 2 ^ 64"
      using guard less.prems(2) by (simp only: u64_guard_iff) (simp add: u64_unat_of_nat)
    obtain v s1 where cb: "cb (word_of_nat off) ?c s = (Inr v, s1)"
      using less.prems(1) read r ok c guard
      by (subst (asm) chunk_loop.simps) (auto split: if_splits prod.splits sum.splits)
    show ?thesis
    proof (cases "length (rest inp) < ?n")
      case True
      then have "s' = s1"
        using less.prems(1) read r ok c guard cb by (subst (asm) chunk_loop.simps) (auto split: if_splits)
      then show ?thesis
        using True False assms sum cb by (simp add: split_chunks.simps [of ?n off])
    next
      case long: False
      have "chunk_loop mx stop cb inp' (word_of_nat (off + ?n)) s1 = (Inr u, s')"
        using less.prems(1) read r ok c guard cb long
        by (subst (asm) chunk_loop.simps) (auto simp: min_def split: if_splits)
      then have "off + ?n + length (rest inp') < 2 ^ 64 \<and>
          run_chunks cb (split_chunks ?n (off + ?n) (rest inp')) s1 = (Inr u, s')"
        by (rule less.hyps [rotated]) (use long False assms sum r in \<open>auto simp: min_def split: if_splits\<close>)
      then show ?thesis using long False assms cb r by (simp add: split_chunks.simps [of ?n off])
    qed
  qed
qed

section \<open>Describing a file\<close>

lemma bindp_InrE:
  assumes "bindp m k s = (Inr b, t)" obtains a u where "m s = (Inr a, u)" "k a u = (Inr b, t)"
  using assms by (auto simp: bindp_def split: prod.splits sum.splits)

lemma seqp_InrE:
  assumes "seqp m n s = (Inr b, t)" obtains a u where "m s = (Inr a, u)" "n u = (Inr b, t)"
  using assms unfolding seqp_def by (rule bindp_InrE)

lemma liftp_Inr: "liftp r s = (Inr a, t) \<longleftrightarrow> r = Inr a \<and> t = s"
  by (auto simp: liftp_def)

lemma gets_Inr: "gets f s = (r, t) \<longleftrightarrow> r = Inr (f s) \<and> t = s"
  by (auto simp: gets_def)

lemma modifyp_Inr: "modifyp f s = (r, t) \<longleftrightarrow> r = Inr () \<and> t = f s"
  by (auto simp: modifyp_def)

lemma guardp_Inr: "guardp b c m s = (Inr u, t) \<longleftrightarrow> b \<and> t = s"
  by (simp add: guardp_def ret_def raise_lv_def raise_def) auto

lemma ret_Inr: "ret a s = (r, t) \<longleftrightarrow> r = Inr a \<and> t = s"
  by (auto simp: ret_def)

lemmas Inr_simps = liftp_Inr gets_Inr modifyp_Inr guardp_Inr ret_Inr

text \<open>The record a worker writes, and the object the writer makes of it.\<close>

definition reference :: "StoredObject \<Rightarrow> ByteCount \<Rightarrow> int \<Rightarrow> ChunkReferenceRecord" where
  "reference object raw_offset sequence_number =
     \<lparr>crr_hash_hex = so_hash_hex object, crr_raw_offset = raw_offset, crr_sequence_number = sequence_number,
      crr_raw_size = so_raw_size object, crr_stored_size = so_stored_size object,
      crr_newly_stored = (if so_newly_stored object then 1 else 0)\<rparr>"

section \<open>The spool\<close>

lemma take_drop_concat:
  assumes "\<forall>x \<in> set xs. length x = n"
  shows "take n (drop (n * i) (concat xs)) = (if i < length xs then xs ! i else [])"
  using assms
proof (induction xs arbitrary: i)
  case (Cons x xs)
  then show ?case by (cases i) auto
qed simp

lemma spool_append_content:
  assumes "spool_append spool obj off n f = (Inr (), f')"
  shows "length (so_hash_hex obj) = 64"
    and "files f' spool = map_option (\<lambda>c. c @ record_bytes (reference obj off n)) (files f spool)"
  using assms write_loop_content [of spool "record_bytes (reference obj off n)" f "()" f']
  by (auto simp: spool_append_def guardp_Inr reference_def elim!: seqp_InrE)

lemma spool_appends_content:
  "iterp (\<lambda>(obj, off, n). spool_append spool obj off n) xs f = (Inr (), f') \<Longrightarrow> files f spool = Some content \<Longrightarrow>
   files f' spool = Some (content @ concat (map (\<lambda>(obj, off, n). record_bytes (reference obj off n)) xs)) \<and>
   (\<forall>(obj, off, n) \<in> set xs. length (so_hash_hex obj) = 64)"
proof (induction xs arbitrary: f content)
  case (Cons x xs)
  obtain obj off n where x: "x = (obj, off, n)" by (cases x)
  obtain g where one: "spool_append spool obj off n f = (Inr (), g)"
    and more: "iterp (\<lambda>(obj, off, n). spool_append spool obj off n) xs g = (Inr (), f')"
    using Cons.prems(1) by (auto simp: x elim!: seqp_InrE)
  show ?case
    using Cons.IH [OF more] spool_append_content [OF one] Cons.prems(2) by (simp add: x)
qed (simp add: ret_def)

text \<open>
  [C35] The spool loses nothing and invents nothing. After a worker has appended references to a new spool,
  whatever short writes and interruptions happened on the way, the writer that reads on the same file gets the
  \<open>i\<close>-th reference back with every field unchanged, for every \<open>i\<close> below their number, unless the call itself
  fails; and a read behind the last reference raises.
\<close>

theorem spool_round_trip:
  assumes "files f spool = Some []"
    and "iterp (\<lambda>(obj, off, n). spool_append spool obj off n) xs f = (Inr (), f')"
    and "\<forall>(obj, off, n) \<in> set xs. 0 \<le> n \<and> n \<le> int64_max"
    and "files g spool = files f' spool"
  shows "fst (spool_read spool (104 * i) g) =
    (if fs_faults g (fs_tick g) = None \<and> i < length xs
     then Inr (case xs ! i of (obj, off, n) \<Rightarrow> reference obj off n)
     else throw_lv E_filesystem_error ''failed to read temporary chunk-reference spool'')"
proof -
  let ?records = "map (\<lambda>(obj, off, n). reference obj off n) xs"
  have whole: "\<forall>r \<in> set ?records. well_sized r"
    using spool_appends_content [OF assms(2,1)] assms(3) by (fastforce simp: well_sized_def reference_def)
  have "holds spool (concat (map record_bytes ?records)) g"
    using spool_appends_content [OF assms(2,1)] assms(4) by (simp add: holds_def comp_def case_prod_unfold)
  then have content: "files (interfere g) spool = Some (concat (map record_bytes ?records))"
    using holds_interfere unfolding holds_def by blast
  have "take 104 (drop (104 * i) (concat (map record_bytes ?records))) =
      (if i < length xs then record_bytes (?records ! i) else [])"
    using take_drop_concat [of "map record_bytes ?records" 104 i] whole length_record_bytes by simp
  then show ?thesis
    using content whole length_record_bytes record_round_trip
    by (auto simp: spool_read_def spool_call_def Let_def case_prod_unfold split: option.splits)
qed

definition referenced_object :: "ChunkReferenceRecord \<Rightarrow> StoredObject" where
  "referenced_object r =
     \<lparr>so_hash_hex = crr_hash_hex r, so_relative_path = derived_path (crr_hash_hex r),
      so_raw_size = crr_raw_size r, so_stored_size = crr_stored_size r, so_newly_stored = (crr_newly_stored r \<noteq> 0)\<rparr>"

lemma referenced_reference: "good_object cfg f obj \<Longrightarrow> referenced_object (reference obj off n) = obj"
  by (cases obj) (simp add: referenced_object_def reference_def good_object_def Let_def)

text \<open>References that describe chunks: one for each chunk, numbered without a gap, at its offset, with
  its length and its identifier, and naming a durable object with these contents.\<close>

fun described :: "os_config \<Rightarrow> fs \<Rightarrow> nat \<Rightarrow> (nat \<times> bytes) list \<Rightarrow> ChunkReferenceRecord list \<Rightarrow> bool" where
  "described cfg f n [] rs \<longleftrightarrow> rs = []"
| "described cfg f n ((off, c) # cs) rs \<longleftrightarrow>
     (case rs of [] \<Rightarrow> False
      | r # rs' \<Rightarrow> well_sized r \<and> crr_hash_hex r = hash_raw (oc_blake3 cfg) c \<and>
          crr_raw_offset r = word_of_nat off \<and> crr_sequence_number r = int n \<and>
          unat (crr_raw_size r) = length c \<and> good_object cfg f (referenced_object r) \<and>
          described cfg f (Suc n) cs rs')"

lemma described_extends: "described cfg f n cs rs \<Longrightarrow> fs_extends f f' \<Longrightarrow> described cfg f' n cs rs"
  by (induction cfg f n cs rs rule: described.induct) (auto split: list.splits intro: good_object_extends)

lemma described_append:
  "described cfg f n (cs @ cs') (rs @ rs') \<longleftrightarrow> described cfg f n cs rs \<and> described cfg f (n + length cs) cs' rs'"
  if "length cs = length rs"
  using that by (induction cs rs arbitrary: n rule: list_induct2) (auto split: prod.splits)

lemma described_length: "described cfg f n cs rs \<Longrightarrow> length rs = length cs"
  by (induction cfg f n cs rs rule: described.induct) (auto split: list.splits)

lemma checked_sequence_Inr:
  assumes "checked_sequence n = Inr k"
  shows "k = int (unat n)" and "0 \<le> k" and "k \<le> int64_max" and "unat (n + 1) = Suc (unat n)"
proof -
  have le: "n \<le> 9223372036854775807" and k: "k = uint n"
    using assms by (auto simp: checked_sequence_def not_less split: if_splits)
  have "uint n \<le> int64_max" using le by (simp add: word_le_def)
  moreover have "unat n \<le> 9223372036854775807" using le by (simp add: word_le_nat_alt)
  ultimately show "k = int (unat n)" "0 \<le> k" "k \<le> int64_max" "unat (n + 1) = Suc (unat n)"
    by (simp_all add: k unat_word_ariths)
qed

lemma in_store_Inr: "in_store m w = (Inr a, w') \<longleftrightarrow> (\<exists>s. m (wk_store w) = (Inr a, s) \<and> w' = w\<lparr>wk_store := s\<rparr>)"
  by (auto simp: in_store_def split: prod.splits)

lemma os_disk_Inr: "os_disk m s = (Inr a, s') \<longleftrightarrow> (\<exists>f. m (os_fs s) = (Inr a, f) \<and> s' = s\<lparr>os_fs := f\<rparr>)"
  by (auto simp: os_disk_def split: prod.splits)

lemma poll_Inr: "poll w = (r, w') \<longleftrightarrow> r = Inr (wk_stop w (wk_polls w)) \<and> w' = w\<lparr>wk_polls := Suc (wk_polls w)\<rparr>"
  by (auto simp: poll_def)

lemma worker_check_Inr:
  "worker_check_cancelled w = (Inr u, w') \<Longrightarrow> w' = w\<lparr>wk_polls := Suc (wk_polls w)\<rparr>"
  by (auto simp: worker_check_cancelled_def poll_Inr Inr_simps elim!: bindp_InrE)

lemma store_Inr:
  assumes "config_ok cfg" and "store_inv cfg s" and "store cfg raw stop s = (Inr obj, s')"
  shows "reaches cfg s s'" and "good_object cfg (os_fs s') obj" and "so_hash_hex obj = hash_raw (oc_blake3 cfg) raw"
    and "unat (so_raw_size obj) = length raw"
proof -
  have "reaches cfg s s' \<and> stored_as cfg (hash_raw (oc_blake3 cfg) raw) (word_of_nat (length raw)) obj s'"
    using store_triple [OF assms(1), of raw stop s] assms(2,3) by (simp add: triple_def wp_def)
  moreover have "length raw \<le> unat (oc_maximum_chunk_size cfg)"
    using assms(3) unfolding store_def by (elim seqp_InrE) (simp add: guardp_Inr)
  then have "unat (word_of_nat (length raw) :: u64) = length raw"
    using u64_unat_less [of "oc_maximum_chunk_size cfg"] by (intro u64_unat_of_nat) simp
  ultimately show "reaches cfg s s'" "good_object cfg (os_fs s') obj" "so_hash_hex obj = hash_raw (oc_blake3 cfg) raw"
    "unat (so_raw_size obj) = length raw"
    by (auto simp: stored_as_def)
qed

lemma store_chunk_Inr:
  assumes cfg: "config_ok (we_config env)" and inv: "store_inv (we_config env) (wk_store w)"
    and spool: "store_holds spool content (wk_store w)" "temporary_path spool"
    and run: "store_chunk env spool off raw w = (Inr u, w')"
  obtains r where "described (we_config env) (os_fs (wk_store w')) (unat (wk_sequence w)) [(unat off, raw)] [r]"
    and "store_holds spool (content @ record_bytes r) (wk_store w')"
    and "reaches (we_config env) (wk_store w) (wk_store w')"
    and "wk_hashed w' = wk_hashed w @ raw" and "unat (wk_bytes_read w') = unat (wk_bytes_read w) + length raw"
    and "unat (wk_sequence w') = Suc (unat (wk_sequence w))"
    and "wk_new_chunk_count w' = wk_new_chunk_count w + (if crr_newly_stored r = 0 then 0 else 1)"
    and "wk_callback_error w' = wk_callback_error w"
proof -
  let ?cfg = "we_config env"
  obtain polls stop obj s1 sum n s2 where
    store: "store ?cfg raw stop (wk_store w) = (Inr obj, s1)" and
    sum: "add_bytes ''file bytes read'' (wk_bytes_read w) (so_raw_size obj) = Inr sum" and
    n: "checked_sequence (wk_sequence w) = Inr n" and
    append: "os_disk (spool_append spool obj off n) s1 = (Inr (), s2)" and
    w': "w' = w\<lparr>wk_hashed := wk_hashed w @ raw, wk_polls := polls, wk_bytes_read := sum, wk_store := s2,
      wk_new_chunk_count := wk_new_chunk_count w + (if so_newly_stored obj then 1 else 0),
      wk_sequence := wk_sequence w + 1\<rparr>"
    using run unfolding store_chunk_def
    by (elim seqp_InrE bindp_InrE) (auto simp: Inr_simps poll_Inr in_store_Inr dest!: worker_check_Inr)
  obtain f where length: "length (so_hash_hex obj) = 64" and
    appended: "write_loop spool (record_bytes (reference obj off n)) (os_fs s1) = (Inr (), f)" and s2: "s2 = s1\<lparr>os_fs := f\<rparr>"
    using append by (auto simp: os_disk_Inr spool_append_def guardp_Inr reference_def elim!: seqp_InrE)
  note stored = store_Inr [OF cfg inv store]
  have s1: "store_holds spool content s1"
    by (rule keepsD [OF store_keeps_temporary [OF spool(2)] spool(1) store])
  have r2: "reaches ?cfg s1 s2"
    unfolding s2 using stored(1) evolvingD [OF write_loop_evolving [OF spool(2)] _ appended]
    by (intro reaches_disk) (auto simp: reaches_def store_inv_def)
  have good: "good_object ?cfg (os_fs s2) obj"
    using good_object_extends [OF stored(2)] r2 by (simp add: reaches_def)
  note seq = checked_sequence_Inr [OF n]
  show thesis
  proof (rule that [of "reference obj off n"])
    show "described ?cfg (os_fs (wk_store w')) (unat (wk_sequence w)) [(unat off, raw)] [reference obj off n]"
      using stored(3,4) good seq length
      by (simp add: w' referenced_reference [OF good] well_sized_def) (simp add: reference_def)
    show "store_holds spool (content @ record_bytes (reference obj off n)) (wk_store w')"
      using write_loop_content [OF appended] s1 by (simp add: w' s2 store_holds_def holds_def)
    show "reaches ?cfg (wk_store w) (wk_store w')" using reaches_trans [OF stored(1) r2] by (simp add: w')
    show "unat (wk_bytes_read w') = unat (wk_bytes_read w) + length raw"
      using byte_counter.add_returns [OF sum] stored(4) by (simp add: w')
    show "unat (wk_sequence w') = Suc (unat (wk_sequence w))" using seq(4) by (simp add: w')
    show "wk_new_chunk_count w' = wk_new_chunk_count w + (if crr_newly_stored (reference obj off n) = 0 then 0 else 1)"
      by (simp add: w' reference_def)
  qed (simp_all add: w')
qed

lemma on_chunk_Inr: "on_chunk env spool off raw w = (Inr u, w') \<Longrightarrow> store_chunk env spool off raw w = (Inr u, w')"
  by (auto simp: on_chunk_def handle_def seqp_def bindp_def modifyp_def raise_def split: prod.splits sum.splits)

definition newly_stored :: "ChunkReferenceRecord list \<Rightarrow> nat" where
  "newly_stored rs = length (filter (\<lambda>r. crr_newly_stored r \<noteq> 0) rs)"

lemma run_callback_described:
  assumes cfg: "config_ok (we_config env)" and spool: "temporary_path spool"
  shows "run_chunks (on_chunk env spool) cs w = (Inr u, w') \<Longrightarrow>
    store_inv (we_config env) (wk_store w) \<Longrightarrow> store_holds spool content (wk_store w) \<Longrightarrow>
    \<forall>(off, c) \<in> set cs. off < 2 ^ 64 \<Longrightarrow>
    \<exists>rs. described (we_config env) (os_fs (wk_store w')) (unat (wk_sequence w)) cs rs \<and>
      store_holds spool (content @ concat (map record_bytes rs)) (wk_store w') \<and>
      reaches (we_config env) (wk_store w) (wk_store w') \<and>
      wk_hashed w' = wk_hashed w @ concat (map snd cs) \<and>
      unat (wk_bytes_read w') = unat (wk_bytes_read w) + length (concat (map snd cs)) \<and>
      unat (wk_sequence w') = unat (wk_sequence w) + length cs \<and>
      wk_new_chunk_count w' = wk_new_chunk_count w + word_of_nat (newly_stored rs)"
proof (induction cs arbitrary: w content)
  case Nil
  then show ?case by (intro exI [of _ "[]"]) (simp add: newly_stored_def reaches_refl)
next
  case (Cons oc cs)
  obtain off c where oc: "oc = (off, c)" by fastforce
  obtain v w1 where cb: "on_chunk env spool (word_of_nat off) c w = (Inr v, w1)"
    and rest: "run_chunks (on_chunk env spool) cs w1 = (Inr u, w')"
    using Cons.prems(1) by (auto simp: oc split: prod.splits sum.splits)
  have off: "unat (word_of_nat off :: u64) = off" using Cons.prems(4) oc by (intro u64_unat_of_nat) simp
  obtain r where r: "described (we_config env) (os_fs (wk_store w1)) (unat (wk_sequence w)) [(off, c)] [r]"
    "store_holds spool (content @ record_bytes r) (wk_store w1)"
    "reaches (we_config env) (wk_store w) (wk_store w1)"
    "wk_hashed w1 = wk_hashed w @ c" "unat (wk_bytes_read w1) = unat (wk_bytes_read w) + length c"
    "unat (wk_sequence w1) = Suc (unat (wk_sequence w))"
    "wk_new_chunk_count w1 = wk_new_chunk_count w + (if crr_newly_stored r = 0 then 0 else 1)"
    using store_chunk_Inr [OF cfg Cons.prems(2,3) spool on_chunk_Inr [OF cb]] unfolding off by blast
  have "store_inv (we_config env) (wk_store w1)" using r(3) by (simp add: reaches_def)
  then obtain rs where rs: "described (we_config env) (os_fs (wk_store w')) (unat (wk_sequence w1)) cs rs"
      "store_holds spool ((content @ record_bytes r) @ concat (map record_bytes rs)) (wk_store w')"
      "reaches (we_config env) (wk_store w1) (wk_store w')"
      "wk_hashed w' = wk_hashed w1 @ concat (map snd cs)"
      "unat (wk_bytes_read w') = unat (wk_bytes_read w1) + length (concat (map snd cs))"
      "unat (wk_sequence w') = unat (wk_sequence w1) + length cs"
      "wk_new_chunk_count w' = wk_new_chunk_count w1 + word_of_nat (newly_stored rs)"
    using Cons.IH [OF rest _ r(2)] Cons.prems(4) by auto
  have "described (we_config env) (os_fs (wk_store w')) (unat (wk_sequence w)) [(off, c)] [r]"
    by (rule described_extends [OF r(1)]) (use rs(3) in \<open>simp add: reaches_def\<close>)
  then show ?case
    using r rs reaches_trans [OF r(3) rs(3)] by (intro exI [of _ "r # rs"]) (simp add: oc newly_stored_def)
qed

subsection \<open>Every exit keeps the store\<close>

definition advances :: "os_config \<Rightarrow> ostore \<Rightarrow> worker \<Rightarrow> bool" where
  "advances cfg s0 w \<longleftrightarrow> reaches cfg s0 (wk_store w)"

lemma advances_store: "(\<And>s. triple cfg m (\<lambda>_ _. True) s) \<Longrightarrow> keeps (advances cfg s0) (in_store m)"
proof (rule keepsI)
  fix w r w' assume m: "\<And>s. triple cfg m (\<lambda>_ _. True) s" and w: "advances cfg s0 w" and run: "in_store m w = (r, w')"
  obtain x s where x: "m (wk_store w) = (x, s)" by fastforce
  have "reaches cfg (wk_store w) s"
    using m [of "wk_store w"] w x by (cases x) (auto simp: triple_def wp_def advances_def reaches_def)
  then show "advances cfg s0 w'"
    using run x w reaches_trans by (auto simp: in_store_def advances_def)
qed

lemma advances_disk: "evolving m \<Longrightarrow> keeps (advances cfg s0) (in_store (os_disk m))"
  by (rule advances_store, rule triple_disk) auto

lemma advances_modifyp [keeps_intros]: "(\<And>w. wk_store (f w) = wk_store w) \<Longrightarrow> keeps (advances cfg s0) (modifyp f)"
  by (intro keeps_modifyp) (simp add: advances_def)

lemma advances_poll [keeps_intros]: "keeps (advances cfg s0) poll" "keeps (advances cfg s0) worker_check_cancelled"
proof -
  show "keeps (advances cfg s0) poll" by (simp add: keeps_def poll_def advances_def)
  then show "keeps (advances cfg s0) worker_check_cancelled"
    unfolding worker_check_cancelled_def by (intro keeps_intros)
qed

lemma triple_forget: "triple cfg m Q s \<Longrightarrow> triple cfg m (\<lambda>_ _. True) s"
  unfolding triple_def by (auto elim: wp_mono)

lemma spool_append_evolving: "temporary_path spool \<Longrightarrow> evolving (spool_append spool obj off n)"
  unfolding spool_append_def guardp_def
  by (simp add: evolving_raise_lv write_loop_evolving)

lemma advances_chunk [keeps_intros]:
  assumes "config_ok (we_config env)" and "temporary_path spool"
  shows "keeps (advances (we_config env) s0) (on_chunk env spool off raw)"
  unfolding on_chunk_def store_chunk_def
  by (intro keeps_intros advances_disk spool_append_evolving assms(2)
      advances_store triple_forget [OF store_triple [OF assms(1)]]) simp_all

lemma keeps_chunk_loop: "(\<And>off c. keeps I (cb off c)) \<Longrightarrow> keeps I (chunk_loop mx stop cb inp off)"
proof (rule keepsI)
  fix s r s'
  assume cb: "\<And>off c. keeps I (cb off c)" and "I s" "chunk_loop mx stop cb inp off s = (r, s')"
  then show "I s'"
  proof (induction mx stop cb inp off s rule: chunk_loop.induct)
    case (1 mx stop cb inp off s)
    obtain x inp' where read: "stream_read inp (unat mx) = (x, inp')" by fastforce
    obtain y t where y: "cb off (got x) s = (y, t)" by fastforce
    have t: "I t" by (rule keepsD [OF 1(2) 1(3) y])
    show ?case
    proof (cases "\<exists>u. y = Inr u \<and> chunk_loop mx stop cb inp' (off + word_of_nat (length (got x))) t = (r, s') \<and>
        \<not> stop s \<and> \<not> (bad x \<or> failed x \<and> \<not> eof x) \<and> got x \<noteq> [] \<and>
        \<not> (off > u64_max - word_of_nat (length (got x))) \<and> \<not> eof x")
      case True
      then show ?thesis using 1(1) [OF _ read [symmetric] refl _ _ refl] 1(2) t y by metis
    next
      case False
      then have "s' = s \<or> s' = t"
        using 1(4) read y by (subst (asm) chunk_loop.simps) (auto simp: Let_def split: if_splits sum.splits)
      then show ?thesis using 1(3) t by blast
    qed
  qed
qed

lemma keeps_for_each_chunk [keeps_intros]:
  "(\<And>off c. keeps I (cb off c)) \<Longrightarrow> keeps I (for_each_chunk mx source stop (Some cb))"
proof (rule keepsI)
  fix s r s' assume "\<And>off c. keeps I (cb off c)" "I s" "for_each_chunk mx source stop (Some cb) s = (r, s')"
  then show "I s'"
    using keepsD [OF keeps_chunk_loop [of I cb mx stop "the source" 0]]
    by (auto simp: for_each_chunk_def split: if_splits option.splits)
qed

lemma advances_read_attempt:
  assumes "config_ok (we_config env)" and "temporary_path spool"
  shows "keeps (advances (we_config env) s0) (read_attempt env original attempt spool)"
  unfolding read_attempt_def Let_def by (intro keeps_intros advances_chunk assms)

lemma spool_is_temporary:
  "list_all temporary_path (map (\<lambda>n. ''temporary/objects/'' @ n) names)"
  by (simp add: list_all_iff temporary_path_def)

text \<open>A spool that was created is new, empty, below the temporary tree, and gone after a failure.\<close>

lemma create_spool:
  assumes "store_inv cfg s"
    and "os_disk (create_temporary (map (\<lambda>n. ''temporary/objects/'' @ n) names) 100) s = (Inr spool, s')"
  shows "reaches cfg s s'" and "temporary_path spool" and "store_holds spool [] s'"
proof -
  let ?create = "create_temporary (map (\<lambda>n. ''temporary/objects/'' @ n) names) 100"
  obtain f where run: "?create (os_fs s) = (Inr spool, f)" and s': "s' = s\<lparr>os_fs := f\<rparr>"
    using assms(2) by (auto simp: os_disk_Inr)
  show "reaches cfg s s'"
    unfolding s' using evolvingD [OF create_temporary_evolving [OF spool_is_temporary] _ run] assms(1)
    by (intro reaches_disk) (auto simp: store_inv_def)
  have "spool \<in> set (map (\<lambda>n. ''temporary/objects/'' @ n) names) \<and> holds spool [] f"
    by (rule create_temporary_made [OF run])
  then show "temporary_path spool" "store_holds spool [] s'"
    using spool_is_temporary [of names] by (auto simp: list_all_iff s' store_holds_def)
qed

lemma advances_drop_spool: "temporary_path spool \<Longrightarrow> keeps (advances cfg s0) (drop_spool spool)"
  unfolding drop_spool_def
proof (rule keeps_modifyp)
  fix w assume spool: "temporary_path spool" and w: "advances cfg s0 w"
  then have inv: "store_inv cfg (wk_store w)" by (simp add: advances_def reaches_def)
  then have "fs_ok (drop_temporary spool (os_fs (wk_store w))) \<and>
      fs_extends (os_fs (wk_store w)) (drop_temporary spool (os_fs (wk_store w)))"
    using drop_temporary_evolves [OF spool] by (simp add: store_inv_def)
  then show "advances cfg s0 (w\<lparr>wk_store := (wk_store w)\<lparr>os_fs := drop_temporary spool (os_fs (wk_store w))\<rparr>\<rparr>)"
    using reaches_trans [OF w [unfolded advances_def] reaches_disk [OF inv]] by (simp add: advances_def)
qed

lemma unreadable_keeps: "keeps I (unreadable original again e)"
  unfolding unreadable_def by (auto intro!: keeps_intros split: exn.split)

text \<open>The captured output of one attempt.\<close>

definition describes :: "worker_env \<Rightarrow> ScannedEntry \<Rightarrow> ProcessedEntry \<Rightarrow> fs \<Rightarrow> bool" where
  "describes env entry output f \<longleftrightarrow>
     (\<exists>attempt inp before after spool references.
        we_open env (se_source_path entry) attempt = Some inp \<and>
        read_platform_file_metadata_no_follow (we_before env (se_source_path entry) attempt) = Inr before \<and>
        read_platform_file_metadata_no_follow (we_after env (se_source_path entry) attempt) = Inr after \<and>
        same_stable_identity before after \<and> unat (pm_logical_size before) = length (rest inp) \<and>
        pr_value output = Inl (entry\<lparr>se_logical_size := pm_logical_size before,
          se_modified_time_ns := pm_modified_time_ns before, se_posix_mode := pm_posix_mode before\<rparr>) \<and>
        pr_file_hash_hex output = hash_raw (oc_blake3 (we_config env)) (rest inp) \<and>
        pr_chunk_references output = Some spool \<and>
        files f spool = Some (concat (map record_bytes references)) \<and>
        unat (pr_chunk_count output) = length references \<and>
        pr_new_chunk_count output = word_of_nat (newly_stored references) \<and>
        described (we_config env) f 0
          (split_chunks (unat (oc_maximum_chunk_size (we_config env))) 0 (rest inp)) references)"

lemma split_chunks_offset: "(off, c) \<in> set (split_chunks n k bs) \<Longrightarrow> off < k + length bs"
proof (induction n k bs rule: split_chunks.induct)
  case (1 n k bs)
  show ?case
  proof (cases "n = 0 \<or> bs = []")
    case False
    then have "(off, c) = (k, take n bs) \<or> (off, c) \<in> set (split_chunks n (k + n) (drop n bs))"
      using 1(2) by (simp add: split_chunks.simps [of n k bs])
    then show ?thesis
    proof
      assume "(off, c) \<in> set (split_chunks n (k + n) (drop n bs))"
      then have "drop n bs \<noteq> []" "off < k + n + length (drop n bs)"
        using 1(1) [OF False] by (auto simp del: drop_eq_Nil)
      then show ?thesis by auto
    qed (use False in simp)
  qed (use 1(2) in \<open>simp add: split_chunks.simps\<close>)
qed

lemma config_chunk_size: "config_ok cfg \<Longrightarrow> 0 < unat (oc_maximum_chunk_size cfg)"
  by (auto simp: config_ok_def checked_maximum_chunk_size_def unat_gt_0 split: if_splits)

lemma read_attempt_describes:
  assumes cfg: "config_ok (we_config env)" and inv: "store_inv (we_config env) (wk_store w)"
    and spool: "temporary_path spool" "store_holds spool [] (wk_store w)"
    and start: "wk_bytes_read w = 0" "wk_sequence w = 0" "wk_new_chunk_count w = 0" "wk_hashed w = []"
    and run: "read_attempt env entry attempt spool w = (Inr output, w')"
  shows "describes env entry output (os_fs (wk_store w'))"
proof -
  let ?cfg = "we_config env" and ?path = "se_source_path entry"
  let ?mx = "oc_maximum_chunk_size ?cfg"
  obtain before after w1 where
    before: "read_platform_file_metadata_no_follow (we_before env ?path attempt) = Inr before" and
    after: "read_platform_file_metadata_no_follow (we_after env ?path attempt) = Inr after" and
    loop: "for_each_chunk ?mx (we_open env ?path attempt) (\<lambda>w. wk_stop w (wk_polls w))
      (Some (on_chunk env spool)) (w\<lparr>wk_polls := Suc (wk_polls w)\<rparr>) = (Inr (), w1)" and
    stable: "wk_bytes_read w1 = pm_logical_size before" "same_stable_identity before after" and
    out: "output = \<lparr>pr_value = Inl (entry\<lparr>se_logical_size := pm_logical_size before,
          se_modified_time_ns := pm_modified_time_ns before, se_posix_mode := pm_posix_mode before\<rparr>),
        pr_chunk_references = Some spool, pr_file_hash_hex = hash_raw (oc_blake3 ?cfg) (wk_hashed w1),
        pr_chunk_count = wk_sequence w1, pr_new_chunk_count = wk_new_chunk_count w1\<rparr>" and w': "w' = w1"
    using run unfolding read_attempt_def Let_def
    by (elim seqp_InrE bindp_InrE) (auto simp: Inr_simps dest!: worker_check_Inr)
  obtain inp where inp: "we_open env ?path attempt = Some inp"
    and chunks: "chunk_loop ?mx (\<lambda>w. wk_stop w (wk_polls w)) (on_chunk env spool) inp 0
      (w\<lparr>wk_polls := Suc (wk_polls w)\<rparr>) = (Inr (), w1)"
    using loop by (auto simp: for_each_chunk_def split: if_splits option.splits)
  have n: "0 < unat ?mx" by (rule config_chunk_size [OF cfg])
  have start0: "chunk_loop ?mx (\<lambda>w. wk_stop w (wk_polls w)) (on_chunk env spool) inp (word_of_nat 0)
      (w\<lparr>wk_polls := Suc (wk_polls w)\<rparr>) = (Inr (), w1)" using chunks by simp
  have read: "length (rest inp) < 2 ^ 64" "run_chunks (on_chunk env spool) (split_chunks (unat ?mx) 0 (rest inp))
      (w\<lparr>wk_polls := Suc (wk_polls w)\<rparr>) = (Inr (), w1)"
    using chunk_loop_returns [OF n start0] by simp_all
  have "\<forall>(off, c) \<in> set (split_chunks (unat ?mx) 0 (rest inp)). off < 2 ^ 64"
    using split_chunks_offset read(1) by fastforce
  then obtain rs where "described ?cfg (os_fs (wk_store w1)) 0 (split_chunks (unat ?mx) 0 (rest inp)) rs"
      "store_holds spool (concat (map record_bytes rs)) (wk_store w1)" "wk_hashed w1 = rest inp"
      "unat (wk_bytes_read w1) = length (rest inp)"
      "unat (wk_sequence w1) = length (split_chunks (unat ?mx) 0 (rest inp))"
      "wk_new_chunk_count w1 = word_of_nat (newly_stored rs)"
    using run_callback_described [OF cfg spool(1) read(2), of "[]"] inv spool(2) start split_chunks_concat [OF n]
    by auto
  then show ?thesis
    unfolding describes_def using inp before after stable out w' described_length
    by (intro exI conjI) (auto simp: store_holds_def holds_def)
qed

lemma attempt_file_laws:
  assumes cfg: "config_ok (we_config env)" and inv: "store_inv (we_config env) (wk_store w)"
    and run: "attempt_file env entry attempt again w = (r, w')"
  shows "reaches (we_config env) (wk_store w) (wk_store w')"
    and "r = Inr (Some output) \<Longrightarrow> describes env entry output (os_fs (wk_store w')) \<or> (\<exists>warning. pr_value output = Inr warning)"
proof -
  let ?cfg = "we_config env"
  let ?w = "w\<lparr>wk_bytes_read := 0, wk_sequence := 0, wk_new_chunk_count := 0, wk_hashed := [], wk_callback_error := None\<rparr>"
  let ?create = "os_disk (create_temporary (map (\<lambda>n. ''temporary/objects/'' @ n) (we_spool_names env)) 100)"
  obtain x s where create: "?create (wk_store w) = (x, s)" by fastforce
  have "reaches ?cfg (wk_store w) (wk_store w') \<and>
    (r = Inr (Some output) \<longrightarrow> describes env entry output (os_fs (wk_store w')) \<or> (\<exists>warning. pr_value output = Inr warning))"
  proof (cases x)
    case (Inl e)
    then have "r = Inl e" "wk_store w' = s"
      using run create by (auto simp: attempt_file_def new_attempt_def seqp_def bindp_def modifyp_def in_store_def)
    moreover have "reaches ?cfg (wk_store w) s"
      using keepsD [OF advances_disk [OF create_temporary_evolving [OF spool_is_temporary [of "we_spool_names env"]],
          of ?cfg "wk_store w" 100], of w "Inl e" "w\<lparr>wk_store := s\<rparr>"] create Inl inv
      by (simp add: in_store_def advances_def reaches_refl)
    ultimately show ?thesis by simp
  next
    case (Inr spool)
    note made = create_spool [OF inv create [unfolded Inr]]
    let ?w1 = "?w\<lparr>wk_store := s\<rparr>"
    have s: "store_inv ?cfg s" using made(1) by (simp add: reaches_def)
    obtain y w2 where y: "read_attempt env entry attempt spool ?w1 = (y, w2)" by fastforce
    have w2: "advances ?cfg (wk_store w) w2"
      by (rule keepsD [OF advances_read_attempt [OF cfg made(2)] _ y]) (simp add: advances_def made(1))
    show ?thesis
    proof (cases y)
      case yr: (Inr result)
      then have "r = Inr (Some result)" "w' = w2"
        using run create Inr y
        by (simp_all add: attempt_file_def new_attempt_def seqp_def bindp_def modifyp_def in_store_def handle_def ret_def)
      moreover have "describes env entry result (os_fs (wk_store w2))"
        using read_attempt_describes [OF cfg _ made(2) _ _ _ _ _ y [unfolded yr]] s made(3) by simp
      ultimately show ?thesis using w2 by (auto simp: advances_def)
    next
      case (Inl e)
      obtain z w3 where z: "unreadable entry again e w2 = (z, w3)" by fastforce
      have w3: "advances ?cfg (wk_store w) w3" by (rule keepsD [OF unreadable_keeps [where I = "advances ?cfg (wk_store w)"] w2 z])
      have r: "r = z" "w' = snd (drop_spool spool w3)"
        using run create Inr y Inl z
        by (simp_all add: attempt_file_def new_attempt_def seqp_def bindp_def modifyp_def in_store_def handle_def ret_def
            split: prod.splits)
      have "advances ?cfg (wk_store w) w'"
        using advances_drop_spool [OF made(2), of ?cfg "wk_store w"] w3 unfolding r(2) keeps_def by blast
      moreover have "\<exists>warning. pr_value output = Inr warning" if "z = Inr (Some output)"
        using z that by (auto simp: unreadable_def bindp_def gets_def ret_def raise_def
            split: exn.splits option.splits if_splits)
      ultimately show ?thesis using r(1) by (simp add: advances_def)
    qed
  qed
  then show "reaches ?cfg (wk_store w) (wk_store w')"
    "r = Inr (Some output) \<Longrightarrow> describes env entry output (os_fs (wk_store w')) \<or> (\<exists>warning. pr_value output = Inr warning)"
    by blast+
qed

lemma attempts_laws:
  assumes cfg: "config_ok (we_config env)"
  shows "store_inv (we_config env) (wk_store w) \<Longrightarrow> attempts env entry attempt n w = (r, w') \<Longrightarrow>
    reaches (we_config env) (wk_store w) (wk_store w') \<and>
    (\<forall>output. r = Inr output \<longrightarrow> 0 < n \<longrightarrow>
       describes env entry output (os_fs (wk_store w')) \<or> (\<exists>warning. pr_value output = Inr warning))"
proof (induction n arbitrary: attempt w)
  case 0
  then show ?case by (auto simp: ret_def reaches_refl)
next
  case (Suc n)
  obtain x w1 where x: "attempt_file env entry attempt (n \<noteq> 0) w = (x, w1)" by fastforce
  note laws = attempt_file_laws [OF cfg Suc.prems(1) x]
  have inv: "store_inv (we_config env) (wk_store w1)" using laws(1) by (simp add: reaches_def)
  show ?case
  proof (cases "x = Inr None")
    case True
    then have rest: "attempts env entry (Suc attempt) n w1 = (r, w')"
      using Suc.prems(2) x by (simp add: bindp_def)
    have "0 < n"
    proof (rule ccontr)
      assume "\<not> 0 < n"
      then have again: "attempt_file env entry attempt False w = (Inr None, w1)" using x True by simp
      then show False
        by (auto simp: attempt_file_def seqp_def bindp_def handle_def new_attempt_def modifyp_def in_store_def
            unreadable_def gets_def ret_def raise_def split: prod.splits sum.splits exn.splits option.splits if_splits)
    qed
    then show ?thesis using Suc.IH [OF inv rest] reaches_trans [OF laws(1)] by blast
  next
    case False
    then have "w' = w1 \<and> (\<forall>output. r = Inr output \<longrightarrow> x = Inr (Some output))"
      using Suc.prems(2) x by (auto simp: bindp_def ret_def split: sum.splits option.splits)
    then show ?thesis using laws by blast
  qed
qed

text \<open>
  [C6] What a worker captures is what the file held: when the job of a regular file ends with an
  entry, some attempt read the whole file while its size, times and identity stayed the same; the entry
  carries that size and time, the hash is the hash of exactly those bytes, and the spool holds one
  reference per chunk, numbered and placed without a gap, each naming a durable object whose contents
  verify against that chunk. On every exit all registered objects are still good and nothing stored was
  lost.
\<close>

theorem captured_file_described:
  assumes "config_ok (we_config env)" and "store_inv (we_config env) (wk_store w)"
    and "process_job env job w = (r, w')"
  shows "store_inv (we_config env) (wk_store w') \<and> fs_extends (os_fs (wk_store w)) (os_fs (wk_store w')) \<and>
    (\<forall>entry output entry'. job = Inl entry \<and> se_type entry = regular_file \<and> r = Inr output \<and>
       pr_value output = Inl entry' \<longrightarrow> describes env entry output (os_fs (wk_store w')))"
proof (cases "\<exists>entry. job = Inl entry \<and> se_type entry = regular_file")
  case True
  then obtain entry where job: "job = Inl entry" "se_type entry = regular_file" by blast
  then have "attempts env entry 0 (if we_retry_unstable_files env then 2 else 1) w = (r, w')"
    using assms(3) by (simp add: process_job_def)
  note laws = attempts_laws [OF assms(1,2) this]
  have "describes env entry result (os_fs (wk_store w'))"
    if "r = Inr result" "pr_value result = Inl entry'" for result entry'
    using laws that by (auto split: if_splits)
  then show ?thesis using laws job by (auto simp: reaches_def)
next
  case False
  then have "w' = w" using assms(3) by (auto simp: process_job_def Let_def ret_def split: sum.splits if_splits)
  then show ?thesis using False assms(2) by auto
qed

subsection \<open>Reading a small file\<close>

text \<open>A file of three bytes whose only chunk is already stored and known.\<close>

abbreviation demo_chunk_hash :: string where "demo_chunk_hash \<equiv> hash_raw demo_blake3 [1, 2, 3]"

definition demo_known :: StoredObject where
  "demo_known = \<lparr>so_hash_hex = demo_chunk_hash, so_relative_path = derived_path demo_chunk_hash, so_raw_size = 3,
     so_stored_size = 4, so_newly_stored = False\<rparr>"

definition demo_known_fs :: fs where
  "demo_known_fs = demo_fs\<lparr>files := [derived_path demo_chunk_hash \<mapsto> [0, 1, 2, 3]],
     dirs := (\<lambda>p. p \<in> {[], ''objects'', ''temporary'', shard_dir demo_chunk_hash}),
     durable_data := (\<lambda>p. p = derived_path demo_chunk_hash),
     durable_name := (\<lambda>p. p \<in> {[], ''objects'', ''temporary'', shard_dir demo_chunk_hash, derived_path demo_chunk_hash})\<rparr>"

definition demo_worker_env :: worker_env where
  "demo_worker_env = \<lparr>we_config = demo_config\<lparr>oc_metadata := False\<rparr>, we_retry_unstable_files = True,
     we_before = (\<lambda>p n. Inr \<lparr>st_size = 3, st_mtim = (5, 6), st_ctim = (7, 8), st_dev = 1, st_ino = 2, st_mode = 0x81A4\<rparr>),
     we_open = (\<lambda>p n. Some \<lparr>rest = [1, 2, 3], fault_after = None\<rparr>),
     we_after = (\<lambda>p n. Inr \<lparr>st_size = 3, st_mtim = (5, 6), st_ctim = (7, 8), st_dev = 1, st_ino = 2, st_mode = 0x81A4\<rparr>),
     we_spool_names = [''s'']\<rparr>"

definition demo_worker :: worker where
  "demo_worker = \<lparr>wk_store = \<lparr>os_fs = demo_known_fs, os_conn = quiet empty_tables, os_known = [(demo_chunk_hash, demo_known)]\<rparr>,
     wk_stop = (\<lambda>_. False), wk_polls = 0, wk_bytes_read = 0, wk_sequence = 0,
     wk_new_chunk_count = 0, wk_hashed = [], wk_callback_error = None\<rparr>"

definition demo_scanned :: ScannedEntry where
  "demo_scanned = \<lparr>se_source_path = ''/s/f'', se_relative_path = ''f'', se_parent_path = [], se_name = ''f'',
     se_type = regular_file, se_logical_size = 0, se_modified_time_ns = 0, se_posix_mode = 0, se_symlink_target = None\<rparr>"

lemma demo_chunk_hash_valid: "is_lowercase_blake3_hex demo_chunk_hash" "length demo_chunk_hash = 64"
proof -
  show valid: "is_lowercase_blake3_hex demo_chunk_hash"
    using hash_raw_valid demo_config_ok by (simp add: config_ok_def demo_config_def)
  then show "length demo_chunk_hash = 64" by (simp add: is_lowercase_blake3_hex_def)
qed

lemma demo_worker_paths: "derived_path demo_chunk_hash \<notin> {[], ''objects'', ''temporary'', shard_dir demo_chunk_hash, ''temporary/objects/s''}"
  "''temporary/objects/s'' \<notin> {[], ''objects'', ''temporary'', shard_dir demo_chunk_hash}"
  by (auto simp: derived_path_def shard_dir_def)

lemma demo_worker_ok: "config_ok (we_config demo_worker_env)" "store_inv (we_config demo_worker_env) (wk_store demo_worker)"
proof -
  show "config_ok (we_config demo_worker_env)"
    using demo_config_ok by (simp add: demo_worker_env_def config_ok_def)
  have "good_object (we_config demo_worker_env) demo_known_fs demo_known"
    using demo_chunk_hash_valid
    by (simp add: good_object_def demo_known_def demo_known_fs_def demo_worker_env_def Let_def content_ok_def
        demo_config_def demo_zstd_def codec_decompress_def compression_bound_def stored_size_ok_def
        zstd_error_def)
  moreover have "fs_ok demo_known_fs"
    using demo_worker_paths derived_path_parent [OF demo_chunk_hash_valid(1)]
    by (auto simp: fs_ok_def demo_known_fs_def demo_fs_def path_taken_def split: if_splits)
  ultimately show "store_inv (we_config demo_worker_env) (wk_store demo_worker)"
    by (simp add: store_inv_def known_good_def on_db_def rows_good_def demo_worker_def empty_tables_ok demo_known_def)
      (simp add: empty_tables_def)
qed

lemma write_loop_whole:
  assumes "bs \<noteq> []" and "length bs \<le> 65536" and "fs_writes f = []"
  shows "write_loop p bs f = (Inr (), f\<lparr>files := (files f)(p := map_option (\<lambda>c. c @ bs) (files f p)),
    durable_data := (durable_data f)(p := False)\<rparr>)"
proof -
  have "write_call p bs f = (Inr [], f\<lparr>files := (files f)(p := map_option (\<lambda>c. c @ bs) (files f p)),
      durable_data := (durable_data f)(p := False)\<rparr>)"
    using assms by (simp add: write_call_def Let_def)
  then show ?thesis using assms(1) by (subst write_loop.simps) (simp add: write_loop.simps)
qed

lemma demo_store_known:
  assumes "map_of (os_known s) demo_chunk_hash = Some demo_known" and "files (os_fs s) (derived_path demo_chunk_hash) = Some [0, 1, 2, 3]"
    and "fs_quiet (os_fs s)"
  shows "store (we_config demo_worker_env) [1, 2, 3] False s = (Inr demo_known, s\<lparr>os_fs := (os_fs s)\<lparr>fs_tick := Suc (fs_tick (os_fs s))\<rparr>\<rparr>)"
  using assms
  by (simp add: store_def find_existing_def require_reusable_def regular_file_size_def syscall_quiet os_disk_def
      demo_worker_env_def demo_config_def Let_def run_simps stored_size_ok_def path_taken_def demo_known_def)

definition demo_spooled :: worker where
  "demo_spooled = demo_worker\<lparr>wk_store := (wk_store demo_worker)\<lparr>os_fs := demo_known_fs\<lparr>
     files := (files demo_known_fs)(''temporary/objects/s'' \<mapsto> []), fs_tick := 1\<rparr>\<rparr>\<rparr>"

lemma demo_create:
  "os_disk (create_temporary (map (\<lambda>n. ''temporary/objects/'' @ n) (we_spool_names demo_worker_env)) 100)
     (wk_store demo_worker) = (Inr ''temporary/objects/s'', wk_store demo_spooled)"
  using demo_worker_paths not_sym [of "derived_path demo_chunk_hash" "''temporary/objects/s''"]
  by (simp add: os_disk_def demo_worker_env_def demo_worker_def demo_known_fs_def demo_fs_def path_taken_def
      create_temporary.simps(3) [where attempts = 99, simplified] bindp_def ret_def syscall_def interfere_def Let_def
      demo_spooled_def)

lemma demo_chunk:
  "\<exists>w. store_chunk demo_worker_env ''temporary/objects/s'' 0 [1, 2, 3] (demo_spooled\<lparr>wk_polls := n\<rparr>) = (Inr (), w) \<and>
     wk_bytes_read w = 3 \<and> wk_sequence w = 1"
proof -
  have spool: "derived_path demo_chunk_hash \<noteq> ''temporary/objects/s''" using demo_worker_paths by simp
  have s: "map_of (os_known (wk_store demo_spooled)) demo_chunk_hash = Some demo_known"
    "files (os_fs (wk_store demo_spooled)) (derived_path demo_chunk_hash) = Some [0, 1, 2, 3]"
    "fs_quiet (os_fs (wk_store demo_spooled))" "fs_writes (os_fs (wk_store demo_spooled)) = []"
    using spool by (auto simp: demo_spooled_def demo_worker_def demo_known_fs_def demo_fs_def fs_quiet_def)
  let ?s = "(wk_store demo_spooled)\<lparr>os_fs := (os_fs (wk_store demo_spooled))\<lparr>fs_tick := Suc (fs_tick (os_fs (wk_store demo_spooled)))\<rparr>\<rparr>"
  have stop: "wk_stop demo_spooled m = False" for m by (simp add: demo_spooled_def demo_worker_def)
  have counters: "wk_bytes_read demo_spooled = 0" "wk_sequence demo_spooled = 0" "wk_stop demo_spooled = (\<lambda>_. False)"
    by (simp_all add: demo_spooled_def demo_worker_def)
  have "length (record_bytes r) \<noteq> 0" for r by (simp add: record_bytes_def)
  then have ne: "record_bytes r \<noteq> []" for r by fastforce
  have len: "length (record_bytes (reference demo_known 0 0)) \<le> 65536"
    using demo_chunk_hash_valid(2) by (subst length_record_bytes) (simp_all add: well_sized_def reference_def demo_known_def)
  have "\<exists>f. spool_append ''temporary/objects/s'' demo_known 0 0 (os_fs ?s) = (Inr (), f)"
    using demo_chunk_hash_valid(2) write_loop_whole [OF ne len, of "os_fs ?s"] s(4)
    by (simp add: spool_append_def guardp_def reference_def) (simp add: demo_known_def)
  then obtain f where append: "spool_append ''temporary/objects/s'' demo_known 0 0 (os_fs ?s) = (Inr (), f)" by blast
  show ?thesis
    using demo_store_known [OF s(1-3)] append counters
    by (simp add: store_chunk_def worker_check_cancelled_def poll_def in_store_def run_simps os_disk_def
        add_bytes_def checked_sequence_def demo_known_def)
qed

lemma demo_job:
  "\<exists>result entry. fst (process_job demo_worker_env (Inl demo_scanned) demo_worker) = Inr result \<and>
     pr_chunk_count result = 1 \<and> pr_value result = Inl entry"
proof -
  obtain w where chunk: "store_chunk demo_worker_env ''temporary/objects/s'' 0 [1, 2, 3]
      (demo_spooled\<lparr>wk_polls := Suc (wk_polls demo_spooled)\<rparr>) = (Inr (), w)" "wk_bytes_read w = 3" "wk_sequence w = 1"
    using demo_chunk by blast
  have stop: "wk_stop demo_spooled = (\<lambda>_. False)" by (simp add: demo_spooled_def demo_worker_def)
  have loop: "for_each_chunk 4194304 (Some \<lparr>rest = [1, 2, 3], fault_after = None\<rparr>) (\<lambda>w. wk_stop w (wk_polls w))
      (Some (on_chunk demo_worker_env ''temporary/objects/s''))
      (demo_spooled\<lparr>wk_polls := Suc (wk_polls demo_spooled)\<rparr>) = (Inr (), w)"
    using chunk stop
    by (simp add: for_each_chunk_def chunk_loop.simps stream_read_def on_chunk_def handle_def)
  have "fst (read_attempt demo_worker_env demo_scanned 0 ''temporary/objects/s'' demo_spooled) =
      Inr \<lparr>pr_value = Inl (demo_scanned\<lparr>se_logical_size := 3, se_modified_time_ns := 5000000006, se_posix_mode := 0x81A4\<rparr>),
        pr_chunk_references = Some ''temporary/objects/s'', pr_file_hash_hex = hash_raw demo_blake3 (wk_hashed w),
        pr_chunk_count = 1, pr_new_chunk_count = wk_new_chunk_count w\<rparr>"
    using loop stop chunk(2,3)
    by (simp add: read_attempt_def worker_check_cancelled_def poll_def run_simps demo_worker_env_def demo_config_def
        read_platform_file_metadata_no_follow_def nanoseconds_since_epoch_def trunc_div_def same_stable_identity_def)
  then obtain w' where attempt: "read_attempt demo_worker_env demo_scanned 0 ''temporary/objects/s'' demo_spooled =
      (Inr \<lparr>pr_value = Inl (demo_scanned\<lparr>se_logical_size := 3, se_modified_time_ns := 5000000006, se_posix_mode := 0x81A4\<rparr>),
        pr_chunk_references = Some ''temporary/objects/s'', pr_file_hash_hex = hash_raw demo_blake3 (wk_hashed w),
        pr_chunk_count = 1, pr_new_chunk_count = wk_new_chunk_count w\<rparr>, w')"
    by (metis prod.collapse)
  have reset: "demo_worker\<lparr>wk_bytes_read := 0, wk_sequence := 0, wk_new_chunk_count := 0, wk_hashed := [],
      wk_callback_error := None\<rparr> = demo_worker" "demo_worker\<lparr>wk_store := wk_store demo_spooled\<rparr> = demo_spooled"
    by (simp_all add: demo_worker_def demo_spooled_def)
  have "attempt_file demo_worker_env demo_scanned 0 again demo_worker = (Inr (Some \<lparr>pr_value = Inl
        (demo_scanned\<lparr>se_logical_size := 3, se_modified_time_ns := 5000000006, se_posix_mode := 0x81A4\<rparr>),
        pr_chunk_references = Some ''temporary/objects/s'', pr_file_hash_hex = hash_raw demo_blake3 (wk_hashed w),
        pr_chunk_count = 1, pr_new_chunk_count = wk_new_chunk_count w\<rparr>), w')" for again
    using demo_create attempt reset
    by (simp add: attempt_file_def new_attempt_def in_store_def run_simps)
  then show ?thesis
    by (simp add: process_job_def demo_scanned_def demo_worker_env_def numeral_2_eq_2 bindp_def ret_def)
qed

theorem captured_file_described_witness:
  "\<exists>result w. process_job demo_worker_env (Inl demo_scanned) demo_worker = (Inr result, w) \<and> pr_chunk_count result = 1 \<and>
     describes demo_worker_env demo_scanned result (os_fs (wk_store w))"
proof -
  obtain result entry where job: "fst (process_job demo_worker_env (Inl demo_scanned) demo_worker) = Inr result"
    "pr_chunk_count result = 1" "pr_value result = Inl entry" using demo_job by blast
  then obtain w where run: "process_job demo_worker_env (Inl demo_scanned) demo_worker = (Inr result, w)"
    by (metis prod.collapse)
  have "se_type demo_scanned = regular_file" by (simp add: demo_scanned_def)
  then show ?thesis using captured_file_described [OF demo_worker_ok run] run job by blast
qed

definition demo_references :: "(StoredObject \<times> ByteCount \<times> int) list" where
  "demo_references = [(demo_known, 0, 0), (demo_known, 3, 1)]"

lemma demo_appended:
  assumes "fs_writes f = []" and "files f p = Some c"
  shows "\<exists>g. spool_append p demo_known off n f = (Inr (), g) \<and> fs_writes g = [] \<and> (\<exists>c'. files g p = Some c')"
proof -
  let ?bs = "record_bytes (reference demo_known off n)"
  have "?bs \<noteq> []" "length ?bs \<le> 65536"
    using demo_chunk_hash_valid(2) by (simp_all add: record_bytes_def reference_def demo_known_def)
  from write_loop_whole [OF this assms(1), of p] show ?thesis
    using demo_chunk_hash_valid(2) assms
    by (simp add: spool_append_def guardp_def reference_def demo_known_def run_simps)
qed

theorem spool_round_trip_witness:
  "\<exists>g. fst (spool_read ''temporary/objects/s'' 104 g) = Inr (reference demo_known 3 1) \<and>
     fst (spool_read ''temporary/objects/s'' 208 g) =
       throw_lv E_filesystem_error ''failed to read temporary chunk-reference spool''"
proof -
  let ?p = "''temporary/objects/s''" and ?f = "os_fs (wk_store demo_spooled)"
  have start: "files ?f ?p = Some []" "fs_writes ?f = []"
    by (simp_all add: demo_spooled_def demo_known_fs_def demo_fs_def)
  obtain g1 where one: "spool_append ?p demo_known 0 0 ?f = (Inr (), g1)" "fs_writes g1 = []" "\<exists>c. files g1 ?p = Some c"
    using demo_appended [OF start(2,1)] by blast
  obtain g2 where two: "spool_append ?p demo_known 3 1 g1 = (Inr (), g2)" using demo_appended one(2,3) by blast
  have run: "iterp (\<lambda>(obj, off, n). spool_append ?p obj off n) demo_references ?f = (Inr (), g2)"
    by (simp add: demo_references_def seqp_def bindp_def ret_def one(1) two)
  let ?g = "g2\<lparr>fs_faults := (\<lambda>_. None)\<rparr>"
  note read = spool_round_trip [OF start(1) run, of ?g]
  have "fst (spool_read ?p (104 * 1) ?g) = Inr (reference demo_known 3 1)"
    by (subst read) (simp_all add: demo_references_def)
  moreover have "fst (spool_read ?p (104 * 2) ?g) =
      throw_lv E_filesystem_error ''failed to read temporary chunk-reference spool''"
    by (subst read) (simp_all add: demo_references_def)
  ultimately show ?thesis by simp blast
qed

end
