(* ===== verification/Snapshot_Engine.thy ===== *)
theory Snapshot_Engine
  imports Pipeline_Laws Scan_Laws Worker_Laws Recovery
begin

text \<open>
  \<^verbatim>\<open>SnapshotEngine::create_snapshot\<close> (\<^verbatim>\<open>src/core/snapshot_engine.cpp\<close>) as a whole: the
  checks of the source, recovery below the writer lock, the pending snapshot, the procedures that the
  threads of the pipeline run, publication, and the handlers that mark a failed snapshot. Test hooks
  are absent. The thread that reports progress is modelled by itself in \<open>Progress\<close>; here a callback of
  it that throws is an interruption of the pipeline.
\<close>

section \<open>The source\<close>

definition normalized_source ::
  "(string \<Rightarrow> string + string) \<Rightarrow> (string \<Rightarrow> string + file_type) \<Rightarrow> string \<Rightarrow> exn + string" where
  "normalized_source absolute symlink_status source =
     (if source = [] then throw_lv E_invalid_argument ''source root path must not be empty''
      else case absolute source of
        Inl m \<Rightarrow> throw_lv E_filesystem_error (''failed to make source path absolute: '' @ m)
      | Inr full \<Rightarrow>
          let normalized = lexically_normal full in
          (case symlink_status normalized of
             Inl m \<Rightarrow> throw_lv E_filesystem_error (''failed to inspect source root: '' @ m)
           | Inr status \<Rightarrow>
               if status \<noteq> ft_directory
               then throw_lv E_invalid_argument ''source root must be a directory and not a symbolic link''
               else Inr normalized))"

definition canonical_path :: "(string \<Rightarrow> string + string) \<Rightarrow> string \<Rightarrow> exn + string" where
  "canonical_path canonical path =
     (case canonical path of
        Inl m \<Rightarrow> throw_lv E_filesystem_error (''failed to canonicalize path: '' @ m)
      | Inr resolved \<Rightarrow> Inr resolved)"

definition validate_containment :: "(string \<Rightarrow> string + string) \<Rightarrow> string \<Rightarrow> string \<Rightarrow> exn + unit" where
  "validate_containment canonical source repository_root =
     bindE (canonical_path canonical source) (\<lambda>canonical_source.
     bindE (canonical_path canonical repository_root) (\<lambda>canonical_repository.
     if platform_path_is_component_prefix canonical_repository canonical_source
     then throw_lv E_invalid_argument ''source root must not be inside the repository''
     else if platform_path_is_component_prefix canonical_source canonical_repository
     then throw_lv E_invalid_argument ''repository must not be inside the source root''
     else Inr ()))"

definition default_worker_count :: "u32 \<Rightarrow> u32" where
  "default_worker_count hardware_concurrency =
     (let count = (if hardware_concurrency = 0 then 4 else hardware_concurrency) in max 1 (min count 16))"

definition resolved_worker_count :: "u32 \<Rightarrow> size_t \<Rightarrow> u32" where
  "resolved_worker_count hardware_concurrency requested =
     (if requested = 0 then default_worker_count hardware_concurrency
      else ucast (max 1 (min requested 16)))"

section \<open>State\<close>

record SnapshotOptions =
  op_message :: string
  op_worker_count :: size_t
  op_retry_unstable_files :: bool
  op_force_rehash :: bool
  op_include_hidden :: bool
  op_one_file_system :: bool
  op_ignore_file :: "string option"

record SnapshotResult =
  rs_snapshot_id :: SnapshotId
  rs_file_count :: u64
  rs_directory_count :: u64
  rs_logical_bytes :: ByteCount
  rs_new_stored_bytes :: ByteCount
  rs_new_chunks :: u64
  rs_reused_chunks :: u64
  rs_skipped_entries :: "SkippedEntry list"

text \<open>What the threads share: the repository and its files, the caches of the object stores (that of the
  writer first, then those of the workers), the token of the pipeline and the token of the caller as
  they are polled, the clock, the progress aggregator, and the variables of the writer.\<close>

record engine =
  eg_repository :: repository
  eg_fs :: fs
  eg_caches :: "nat \<Rightarrow> (string \<times> StoredObject) list"
  eg_stop :: "nat \<Rightarrow> bool"
  eg_polls :: nat
  eg_cancel :: "nat \<Rightarrow> bool"
  eg_cancel_polls :: nat
  eg_clock :: "nat \<Rightarrow> int"
  eg_readings :: nat
  eg_progress :: aggregator
  eg_totals :: SnapshotTotals
  eg_skipped :: "SkippedEntry list"
  eg_batch_record_count :: size_t
  eg_batch_logical_bytes :: ByteCount
  eg_batch_has_records :: bool

text \<open>The surroundings: what the system calls on the source and the repository root return, the outcome of
  taking the writer lock, the source tree as it is scanned and read, and the limits of the engine.\<close>

record engine_env =
  ee_config :: os_config
  ee_repository_root :: string
  ee_absolute :: "string \<Rightarrow> string + string"
  ee_symlink_status :: "string \<Rightarrow> string + file_type"
  ee_canonical :: "string \<Rightarrow> string + string"
  ee_lock :: "exn + unit"
  ee_now :: "SnapshotId \<Rightarrow> int"
  ee_hardware_concurrency :: u32
  ee_scan :: scan_request
  ee_before :: "string \<Rightarrow> nat \<Rightarrow> string + stat"
  ee_open :: "string \<Rightarrow> nat \<Rightarrow> istream option"
  ee_after :: "string \<Rightarrow> nat \<Rightarrow> string + stat"
  ee_spool_names :: "string list"
  ee_result_base :: size_t
  ee_batch_entry_limit :: size_t
  ee_batch_logical_byte_limit :: ByteCount
  ee_job_queue_capacity :: size_t
  ee_result_queue_capacity :: size_t
  ee_result_queue_byte_capacity :: size_t
  ee_choices :: "choice list"

definition in_repo :: "(repository, 'a) proc \<Rightarrow> (engine, 'a) proc" where
  "in_repo m e = (case m (eg_repository e) of (r, x) \<Rightarrow> (r, e\<lparr>eg_repository := x\<rparr>))"

abbreviation in_metadata :: "(conn, 'a) proc \<Rightarrow> (engine, 'a) proc" where
  "in_metadata m \<equiv> in_repo (in_conn m)"

definition in_progress :: "(aggregator, 'a) proc \<Rightarrow> (engine, 'a) proc" where
  "in_progress m e = (case m (eg_progress e) of (r, a) \<Rightarrow> (r, e\<lparr>eg_progress := a\<rparr>))"

text \<open>An object store of its own: the files and the connection are shared, the cache is not.\<close>

definition store_view :: "nat \<Rightarrow> engine \<Rightarrow> ostore" where
  "store_view k e = \<lparr>os_fs = eg_fs e, os_conn = r_conn (eg_repository e), os_known = eg_caches e k\<rparr>"

definition put_store :: "nat \<Rightarrow> ostore \<Rightarrow> engine \<Rightarrow> engine" where
  "put_store k s e = e\<lparr>eg_fs := os_fs s, eg_repository := (eg_repository e)\<lparr>r_conn := os_conn s\<rparr>,
     eg_caches := (eg_caches e)(k := os_known s)\<rparr>"

definition in_objects :: "nat \<Rightarrow> (ostore, 'a) proc \<Rightarrow> (engine, 'a) proc" where
  "in_objects k m e = (case m (store_view k e) of (r, s) \<Rightarrow> (r, put_store k s e))"

definition in_disk :: "(fs, 'a) proc \<Rightarrow> (engine, 'a) proc" where
  "in_disk m e = (case m (eg_fs e) of (r, f) \<Rightarrow> (r, e\<lparr>eg_fs := f\<rparr>))"

definition check_pipeline :: "(engine, unit) proc" where
  "check_pipeline e =
     (if eg_stop e (eg_polls e) then throw_lv E_cancelled ''snapshot cancelled'' else Inr (),
      e\<lparr>eg_polls := Suc (eg_polls e)\<rparr>)"

definition check_caller :: "(engine, unit) proc" where
  "check_caller e =
     (if eg_cancel e (eg_cancel_polls e) then throw_lv E_cancelled ''snapshot cancelled'' else Inr (),
      e\<lparr>eg_cancel_polls := Suc (eg_cancel_polls e)\<rparr>)"

definition now_ns :: "(engine, int) proc" where
  "now_ns e = (Inr (eg_clock e (eg_readings e)), e\<lparr>eg_readings := Suc (eg_readings e)\<rparr>)"

section \<open>What the scanner and the workers do\<close>

definition discover :: "FileJob \<Rightarrow> (engine, unit) proc" where
  "discover job = (case job of Inl entry \<Rightarrow> in_progress (record_discovered entry) | Inr warning \<Rightarrow> ret ())"

definition worker_environment :: "engine_env \<Rightarrow> SnapshotOptions \<Rightarrow> worker_env" where
  "worker_environment env options =
     \<lparr>we_config = (ee_config env)\<lparr>oc_metadata := False\<rparr>, we_retry_unstable_files = op_retry_unstable_files options,
      we_before = ee_before env, we_open = ee_open env, we_after = ee_after env, we_spool_names = ee_spool_names env\<rparr>"

definition as_worker :: "nat \<Rightarrow> (worker, 'a) proc \<Rightarrow> (engine, 'a) proc" where
  "as_worker i m e =
     (case m \<lparr>wk_store = store_view (Suc i) e, wk_stop = eg_stop e, wk_polls = eg_polls e, wk_bytes_read = 0,
              wk_sequence = 0, wk_new_chunk_count = 0, wk_hashed = [], wk_callback_error = None\<rparr> of
        (r, w) \<Rightarrow> (r, (put_store (Suc i) (wk_store w) e)\<lparr>eg_polls := wk_polls w\<rparr>))"

definition work_on :: "engine_env \<Rightarrow> SnapshotOptions \<Rightarrow> nat \<Rightarrow> FileJob \<Rightarrow> (engine, ProcessedEntry) proc" where
  "work_on env options i job =
     bindp (as_worker i (process_job (worker_environment env options) job)) (\<lambda>result.
     seqp (case pr_value result of
             Inl completed \<Rightarrow> in_progress (record_processed completed (pr_new_chunk_count result)
                                (pr_chunk_count result - pr_new_chunk_count result))
           | Inr warning \<Rightarrow> ret ())
       (ret result))"

section \<open>What the writer does\<close>

definition begin_batch :: "(engine, unit) proc" where
  "begin_batch =
     seqp (in_metadata begin_transaction)
       (modifyp (\<lambda>e. e\<lparr>eg_batch_record_count := 0, eg_batch_logical_bytes := 0, eg_batch_has_records := False\<rparr>))"

definition commit_batch :: "(engine, unit) proc" where
  "commit_batch =
     bindp (gets eg_batch_has_records) (\<lambda>has_records.
     if \<not> has_records then ret ()
     else
       seqp check_pipeline
       (seqp (in_metadata (hit before_metadata_batch_commit))
       (seqp (in_metadata commit) begin_batch)))"

definition count_chunk :: "StoredObject \<Rightarrow> (engine, unit) proc" where
  "count_chunk object =
     bindp (gets eg_totals) (\<lambda>totals.
     if so_newly_stored object then
       seqp (modifyp (\<lambda>e. e\<lparr>eg_totals := totals\<lparr>st_new_chunk_count := st_new_chunk_count totals + 1\<rparr>\<rparr>))
       (bindp (liftp (add_bytes ''new stored size'' (st_new_stored_size totals) (so_stored_size object))) (\<lambda>sum.
        modifyp (\<lambda>e. e\<lparr>eg_totals := (eg_totals e)\<lparr>st_new_stored_size := sum\<rparr>\<rparr>)))
     else modifyp (\<lambda>e. e\<lparr>eg_totals := totals\<lparr>st_reused_chunk_count := st_reused_chunk_count totals + 1\<rparr>\<rparr>))"

text \<open>One turn of the loop over the spooled references of a file.\<close>

definition record_reference :: "engine_env \<Rightarrow> int \<Rightarrow> ChunkReferenceRecord \<Rightarrow> (engine, unit) proc" where
  "record_reference env entry_id chunk =
     bindp (liftp (object_relative_path (crr_hash_hex chunk))) (\<lambda>relative_path.
      let object = \<lparr>so_hash_hex = crr_hash_hex chunk, so_relative_path = relative_path,
            so_raw_size = crr_raw_size chunk, so_stored_size = crr_stored_size chunk,
            so_newly_stored = (crr_newly_stored chunk \<noteq> 0)\<rparr> in
      seqp (in_objects 0 (ensure_metadata ((ee_config env)\<lparr>oc_metadata := True\<rparr>) object))
      (seqp (in_metadata (insert_entry_chunk entry_id (crr_sequence_number chunk) (so_hash_hex object)
               (crr_raw_offset chunk) (so_raw_size object)))
        (count_chunk object)))"

definition write_reference :: "engine_env \<Rightarrow> int \<Rightarrow> string \<Rightarrow> nat \<Rightarrow> (engine, unit) proc" where
  "write_reference env entry_id spool index =
     seqp check_pipeline
     (bindp (in_disk (spool_read spool (104 * index))) (\<lambda>chunk. record_reference env entry_id chunk))"

definition record_references :: "engine_env \<Rightarrow> int \<Rightarrow> string \<Rightarrow> ProcessedEntry \<Rightarrow> (engine, unit) proc" where
  "record_references env entry_id spool result =
     seqp (in_disk (rewind_for_reading spool))
     (seqp (iterp (write_reference env entry_id spool) [0..<unat (pr_chunk_count result)])
       (in_metadata (set_regular_file_hash entry_id (pr_file_hash_hex result))))"

definition write_regular_file :: "engine_env \<Rightarrow> int \<Rightarrow> ScannedEntry \<Rightarrow> ProcessedEntry \<Rightarrow> (engine, unit) proc" where
  "write_regular_file env entry_id entry result =
     bindp (gets eg_totals) (\<lambda>totals.
     seqp (modifyp (\<lambda>e. e\<lparr>eg_totals := totals\<lparr>st_file_count := st_file_count totals + 1\<rparr>\<rparr>))
     (bindp (liftp (add_bytes ''logical size'' (st_logical_size totals) (se_logical_size entry))) (\<lambda>sum.
      seqp (modifyp (\<lambda>e. e\<lparr>eg_totals := (eg_totals e)\<lparr>st_logical_size := sum\<rparr>\<rparr>))
      (case pr_chunk_references result of
         None \<Rightarrow> raise_lv E_internal_error ''regular file result is missing its chunk spool''
       | Some spool \<Rightarrow> record_references env entry_id spool result))))"

text \<open>The \<^verbatim>\<open>switch\<close> on the type of an entry, and the counters of the open batch.\<close>

definition record_kind :: "engine_env \<Rightarrow> int \<Rightarrow> ScannedEntry \<Rightarrow> ProcessedEntry \<Rightarrow> (engine, unit) proc" where
  "record_kind env entry_id entry result =
     (case se_type entry of
        directory \<Rightarrow> modifyp (\<lambda>e. e\<lparr>eg_totals := (eg_totals e)\<lparr>st_directory_count := st_directory_count (eg_totals e) + 1\<rparr>\<rparr>)
      | symbolic_link \<Rightarrow> modifyp (\<lambda>e. e\<lparr>eg_totals := (eg_totals e)\<lparr>st_symlink_count := st_symlink_count (eg_totals e) + 1\<rparr>\<rparr>)
      | regular_file \<Rightarrow> write_regular_file env entry_id entry result)"

definition count_record :: "ScannedEntry \<Rightarrow> (engine, unit) proc" where
  "count_record entry =
     bindp (gets eg_batch_logical_bytes) (\<lambda>bytes.
     seqp (modifyp (\<lambda>e. e\<lparr>eg_batch_record_count := eg_batch_record_count e + 1\<rparr>))
     (bindp (liftp (add_bytes ''metadata batch logical size'' bytes (se_logical_size entry))) (\<lambda>sum.
       modifyp (\<lambda>e. e\<lparr>eg_batch_logical_bytes := sum, eg_batch_has_records := True\<rparr>))))"

definition write_entry :: "engine_env \<Rightarrow> SnapshotId \<Rightarrow> ScannedEntry \<Rightarrow> ProcessedEntry \<Rightarrow> (engine, unit) proc" where
  "write_entry env snapshot_id entry result =
     seqp check_pipeline
     (bindp (in_metadata (insert_entry snapshot_id entry)) (\<lambda>entry_id.
      seqp (record_kind env entry_id entry result) (count_record entry)))"

definition write_warning :: "SnapshotId \<Rightarrow> ScanWarning \<Rightarrow> (engine, unit) proc" where
  "write_warning snapshot_id warning =
     seqp (in_metadata (insert_warning snapshot_id (sw_relative_path warning) (sw_code warning) (sw_message warning)))
       (modifyp (\<lambda>e. e\<lparr>eg_skipped := eg_skipped e @ [\<lparr>sk_relative_path = sw_relative_path warning, sk_reason = sw_message warning\<rparr>],
          eg_batch_record_count := eg_batch_record_count e + 1, eg_batch_has_records := True\<rparr>))"

text \<open>The spool of a result is removed when the result goes out of scope.\<close>

definition dispose :: "ProcessedEntry \<Rightarrow> engine \<Rightarrow> engine" where
  "dispose result e =
     (case pr_chunk_references result of None \<Rightarrow> e | Some spool \<Rightarrow> e\<lparr>eg_fs := drop_temporary spool (eg_fs e)\<rparr>)"

definition write_result :: "engine_env \<Rightarrow> SnapshotId \<Rightarrow> ProcessedEntry \<Rightarrow> (engine, unit) proc" where
  "write_result env snapshot_id result e =
     (case seqp (case pr_value result of
                   Inr warning \<Rightarrow> write_warning snapshot_id warning
                 | Inl entry \<Rightarrow> write_entry env snapshot_id entry result)
             (bindp (gets (\<lambda>e. ee_batch_entry_limit env \<le> eg_batch_record_count e \<or>
                              ee_batch_logical_byte_limit env \<le> eg_batch_logical_bytes e)) (\<lambda>full.
              if full then commit_batch else ret ())) e of
        (r, e') \<Rightarrow> (r, dispose result e'))"

definition flush_batch :: "(engine, unit) proc" where
  "flush_batch = seqp commit_batch (in_metadata rollback)"

definition engine_code :: "engine_env \<Rightarrow> SnapshotOptions \<Rightarrow> string \<Rightarrow> SnapshotId \<Rightarrow> (engine, FileJob, ProcessedEntry) code" where
  "engine_code env options source snapshot_id =
     \<lparr>cd_discover = discover, cd_scanned = in_progress (mark_scan_complete source),
      cd_work = work_on env options, cd_begin = begin_batch, cd_write = write_result env snapshot_id,
      cd_flush = flush_batch, cd_abandon = in_metadata rollback, cd_cancel = in_progress cancel\<rparr>"

section \<open>A snapshot\<close>

text \<open>The callbacks of the scan, and how it ends.\<close>

definition scanner_options :: "SnapshotOptions \<Rightarrow> FileScannerOptions" where
  "scanner_options options =
     \<lparr>fo_include_hidden = op_include_hidden options, fo_one_file_system = op_one_file_system options,
      fo_ignore_file = op_ignore_file options\<rparr>"

definition scan_jobs :: "scan_request \<Rightarrow> string \<Rightarrow> FileScannerOptions \<Rightarrow> FileJob list \<times> exn option" where
  "scan_jobs os source options =
     (case scan_streaming os source (ret False) (Some (\<lambda>entry. modifyp (\<lambda>jobs. jobs @ [Inl entry])))
             (Some (\<lambda>warning. modifyp (\<lambda>jobs. jobs @ [Inr warning]))) options [] of
        (Inl e, jobs) \<Rightarrow> (jobs, Some e)
      | (Inr _, jobs) \<Rightarrow> (jobs, None))"

definition mark_incomplete_best_effort ::
  "SnapshotId \<Rightarrow> SnapshotStatus \<Rightarrow> string \<Rightarrow> size_t \<Rightarrow> (engine, unit) proc" where
  "mark_incomplete_best_effort snapshot_id status message limit =
     handle
       (bindp now_ns (\<lambda>at_ns.
        seqp (in_metadata (mark_snapshot_incomplete snapshot_id status message at_ns))
          (in_metadata (clean_incomplete_snapshot snapshot_id limit))))
       (\<lambda>_. ret ())"

text \<open>The threads run and are joined, the results that were never written are destroyed, and the first error
  is rethrown.\<close>

definition join_threads ::
  "engine_env \<Rightarrow> SnapshotOptions \<Rightarrow> string \<Rightarrow> SnapshotId \<Rightarrow> FileJob queue \<Rightarrow> ProcessedEntry queue \<Rightarrow> (engine, unit) proc" where
  "join_threads env options source snapshot_id jobs processed e =
     (let (todo, ending) = scan_jobs (ee_scan env) source (scanner_options options);
          worker_count = unat (resolved_worker_count (ee_hardware_concurrency env) (op_worker_count options));
          p = run_threads (engine_code env options source snapshot_id) (ee_choices env)
                (start_pipeline e todo ending worker_count jobs processed);
          left = fold dispose (filter (\<lambda>r. r \<notin> set (pp_written p)) (map snd (pp_done p))) (pp_shared p)
      in seqp (in_progress finish)
           (case pp_error p of None \<Rightarrow> ret () | Some first_error \<Rightarrow> raise first_error) left)"

text \<open>If the caller has cancelled before the threads are started, none is.\<close>

definition run_pipeline :: "engine_env \<Rightarrow> SnapshotOptions \<Rightarrow> string \<Rightarrow> SnapshotId \<Rightarrow> (engine, unit) proc" where
  "run_pipeline env options source snapshot_id =
     bindp (liftp (new_queue (ee_job_queue_capacity env))) (\<lambda>jobs.
     bindp (liftp (new_byte_queue (ee_result_queue_capacity env) (ee_result_queue_byte_capacity env)
              (Some (processed_entry_size (ee_result_base env))))) (\<lambda>processed.
     seqp (handle check_caller (\<lambda>e. seqp (in_progress cancel) (seqp (in_progress finish) (raise e))))
       (join_threads env options source snapshot_id jobs processed)))"

text \<open>The scope of the transaction that publishes.\<close>

definition publication :: "(engine, unit) proc \<Rightarrow> (engine, unit) proc" where
  "publication body =
     seqp (in_metadata begin_transaction)
       (handle (seqp body (in_metadata commit)) (\<lambda>e. seqp (in_metadata rollback) (raise e)))"

definition publish_snapshot :: "engine_env \<Rightarrow> string \<Rightarrow> SnapshotId \<Rightarrow> int \<Rightarrow> (engine, unit) proc" where
  "publish_snapshot env source snapshot_id started_at_ns =
     seqp check_caller
     (bindp now_ns (\<lambda>ended.
      seqp (modifyp (\<lambda>e. e\<lparr>eg_totals := (eg_totals e)\<lparr>st_duration_ms := trunc_div (ended - started_at_ns) 1000000\<rparr>\<rparr>))
      (seqp (in_progress (emit_required ph_finalizing source))
      (seqp check_caller
        (publication
          (seqp (in_metadata (hit before_snapshot_publish))
          (bindp (gets eg_totals) (\<lambda>totals.
           bindp now_ns (\<lambda>completed. in_metadata (mark_snapshot_complete snapshot_id totals completed))))))))))"

definition snapshot_body :: "engine_env \<Rightarrow> SnapshotOptions \<Rightarrow> string \<Rightarrow> SnapshotId \<Rightarrow> int \<Rightarrow> (engine, unit) proc" where
  "snapshot_body env options source snapshot_id started_at_ns =
     seqp check_caller
     (seqp (in_progress (emit_required ph_scanning source))
     (seqp check_caller
     (seqp (run_pipeline env options source snapshot_id)
       (publish_snapshot env source snapshot_id started_at_ns))))"

text \<open>The handlers of the body.\<close>

definition snapshot_failed :: "engine_env \<Rightarrow> SnapshotId \<Rightarrow> exn \<Rightarrow> (engine, unit) proc" where
  "snapshot_failed env snapshot_id e =
     (let mark = (\<lambda>status message. mark_incomplete_best_effort snapshot_id status message (ee_batch_entry_limit env)) in
      case e of
        Lv err \<Rightarrow> seqp (mark (if error_code err = E_cancelled then S_cancelled else S_failed) (what err)) (raise e)
      | StdException m \<Rightarrow> seqp (mark S_failed m) (raise_lv E_internal_error (''snapshot failed: '' @ m))
      | UnknownException \<Rightarrow> seqp (mark S_failed ''unknown snapshot failure'')
            (raise_lv E_internal_error ''snapshot failed: unknown snapshot failure''))"

text \<open>Recovery removes entries below \<^verbatim>\<open>temporary/\<close>: the files that the rest of the operation finds there are
  those that the tree still lists.\<close>

fun tt_listed :: "temp_tree \<Rightarrow> string list \<Rightarrow> bool" where
  "tt_listed t [] = True"
| "tt_listed t (n # below) =
     (case map_of (tt_children t) n of
        None \<Rightarrow> False
      | Some T_other \<Rightarrow> True
      | Some (T_dir ns) \<Rightarrow> below = [] \<or> hd below \<in> set ns)"

definition after_recovery :: "temp_tree \<Rightarrow> fs \<Rightarrow> fs" where
  "after_recovery t f =
     (let gone = (\<lambda>p. temporary_path p \<and> \<not> tt_listed t (split_slash (drop 10 p))) in
      f\<lparr>files := (\<lambda>p. if gone p then None else files f p), dirs := (\<lambda>p. dirs f p \<and> \<not> gone p),
        others := (\<lambda>p. if gone p then None else others f p),
        durable_data := (\<lambda>p. durable_data f p \<and> \<not> gone p), durable_name := (\<lambda>p. durable_name f p \<and> \<not> gone p)\<rparr>)"

definition recover :: "engine_env \<Rightarrow> (engine, unit) proc" where
  "recover env e =
     (case in_repo (recover_after_writer_lock (ee_now env)) e of
        (r, e') \<Rightarrow> (r, e'\<lparr>eg_fs := after_recovery (r_temporary (eg_repository e')) (eg_fs e')\<rparr>))"

definition fresh_totals :: SnapshotTotals where
  "fresh_totals = \<lparr>st_file_count = 0, st_directory_count = 0, st_symlink_count = 0, st_logical_size = 0,
     st_new_stored_size = 0, st_new_chunk_count = 0, st_reused_chunk_count = 0, st_duration_ms = 0\<rparr>"

definition create_snapshot :: "engine_env \<Rightarrow> string \<Rightarrow> SnapshotOptions \<Rightarrow> (engine, SnapshotResult) proc" where
  "create_snapshot env source_root options =
     bindp (gets (\<lambda>e. r_mode (eg_repository e))) (\<lambda>mode.
     seqp (guardp (mode = read_write) E_invalid_argument ''snapshots require a read-write repository'')
     (seqp check_caller
     (bindp (liftp (normalized_source (ee_absolute env) (ee_symlink_status env) source_root)) (\<lambda>source.
      seqp (liftp (validate_containment (ee_canonical env) source (ee_repository_root env)))
      (seqp (modifyp (\<lambda>e. e\<lparr>eg_totals := fresh_totals, eg_skipped := [], eg_caches := (\<lambda>_. [])\<rparr>))
      (seqp (in_progress (emit_required ph_preparing source))
      (seqp (liftp (ee_lock env))
      (seqp (recover env)
      (bindp now_ns (\<lambda>started_at_ns.
       bindp (in_metadata (create_pending_snapshot source (op_message options) started_at_ns)) (\<lambda>snapshot_id.
       seqp (handle (snapshot_body env options source snapshot_id started_at_ns) (snapshot_failed env snapshot_id))
       (bindp (gets (\<lambda>e. (eg_totals e, eg_skipped e))) (\<lambda>(totals, skipped).
        seqp (handle (in_progress (emit_required ph_complete source)) (\<lambda>_. ret ()))
          (ret \<lparr>rs_snapshot_id = snapshot_id, rs_file_count = st_file_count totals,
                rs_directory_count = st_directory_count totals, rs_logical_bytes = st_logical_size totals,
                rs_new_stored_bytes = st_new_stored_size totals, rs_new_chunks = st_new_chunk_count totals,
                rs_reused_chunks = st_reused_chunk_count totals, rs_skipped_entries = skipped\<rparr>))))))))))))))"

end
