(* ===== verification/Pipeline_Contract.thy ===== *)
theory Pipeline_Contract
  imports Pipeline_Laws
begin

text \<open>
  The contract between the snapshot pipeline and the procedures that its threads run. The procedures see
  the shared state only; the results under way, which a worker has made and the writer has not yet taken
  up, are the pipeline's. If every procedure keeps its part of the contract, so does every interleaving.
\<close>

datatype phase = Not_begun | Batch_open | Flushed

fun writer_phase :: "'r writer \<Rightarrow> phase" where
  "writer_phase Starting = Not_begun"
| "writer_phase Popping = Batch_open"
| "writer_phase (Writing result) = Batch_open"
| "writer_phase Writer_left = Flushed"

definition under_way :: "('s, 'j, 'r) pipeline \<Rightarrow> 'r multiset" where
  "under_way p = sum_list (map worker_result (pp_workers p)) + mset (contents (pp_processed p)) +
     writer_result (pp_writer p)"

text \<open>\<open>running phase written results\<close> holds of the shared state while nothing has failed, \<open>sound results\<close>
  always.\<close>

locale pipeline_contract =
  fixes code :: "('s, 'j, 'r) code"
    and running :: "phase \<Rightarrow> 'r list \<Rightarrow> 'r multiset \<Rightarrow> 's \<Rightarrow> bool"
    and sound :: "'r multiset \<Rightarrow> 's \<Rightarrow> bool"
    and worked :: "'j \<Rightarrow> 'r \<Rightarrow> bool"
  assumes running_sound: "running ph ws M s \<Longrightarrow> sound M s"
    and sound_fewer: "sound (add_mset r M) s \<Longrightarrow> sound M s"
    and discover_keeps: "keeps (sound M) (cd_discover code j)" "keeps (running ph ws M) (cd_discover code j)"
    and scanned_keeps: "keeps (sound M) (cd_scanned code)" "keeps (running ph ws M) (cd_scanned code)"
    and cancel_keeps: "keeps (sound M) (cd_cancel code)"
    and abandon_keeps: "keeps (sound M) (cd_abandon code)"
    and work_sound: "sound M s \<Longrightarrow> wp (cd_work code i j) (\<lambda>r. sound (add_mset r M)) (\<lambda>_. sound M) s"
    and work_running: "running ph ws M s \<Longrightarrow> cd_work code i j s = (Inr r, s') \<Longrightarrow> running ph ws (add_mset r M) s'"
    and work_worked: "sound M s \<Longrightarrow> cd_work code i j s = (Inr r, s') \<Longrightarrow> worked j r"
    and begin_sound: "keeps (sound M) (cd_begin code)"
    and begin_running: "running Not_begun ws M s \<Longrightarrow> cd_begin code s = (Inr u, s') \<Longrightarrow> running Batch_open ws M s'"
    and write_sound: "sound (add_mset r M) s \<Longrightarrow> sound M (snd (cd_write code r s))"
    and write_running: "running Batch_open ws (add_mset r M) s \<Longrightarrow> cd_write code r s = (Inr u, s') \<Longrightarrow>
      running Batch_open (ws @ [r]) M s'"
    and flush_sound: "keeps (sound M) (cd_flush code)"
    and flush_running: "running Batch_open ws M s \<Longrightarrow> cd_flush code s = (Inr u, s') \<Longrightarrow> running Flushed ws M s'"
begin

definition contract_kept :: "('s, 'j, 'r) pipeline \<Rightarrow> bool" where
  "contract_kept p \<longleftrightarrow> sound (under_way p) (pp_shared p) \<and> (\<forall>(j, r) \<in> set (pp_done p). worked j r) \<and>
     (\<not> pp_stop p \<longrightarrow> running (writer_phase (pp_writer p)) (pp_written p) (under_way p) (pp_shared p))"

lemma kept_stopped:
  "pp_stop p \<Longrightarrow> sound (under_way p) (pp_shared p) \<Longrightarrow> \<forall>(j, r) \<in> set (pp_done p). worked j r \<Longrightarrow> contract_kept p"
  by (simp add: contract_kept_def)

lemma sound_shutdown:
  "sound (under_way q) (pp_shared q) \<Longrightarrow> sound (under_way (shutdown code e q)) (pp_shared (shutdown code e q))"
  using cancel_keeps [of "under_way q"] by (simp add: under_way_def shutdown_def keeps_def)

lemma sound_subset:
  assumes "sound N s" and "M \<subseteq># N"
  shows "sound M s"
proof -
  have "sound (M + D) s \<Longrightarrow> sound M s" for D
    by (induction D) (auto dest: sound_fewer)
  then show ?thesis using assms by (metis subset_mset.add_diff_inverse)
qed

end

lemma under_way_simps [simp]:
  "under_way (p\<lparr>pp_shared := s\<rparr>) = under_way p" "under_way (p\<lparr>pp_scanner := sc\<rparr>) = under_way p"
  "under_way (p\<lparr>pp_jobs := q\<rparr>) = under_way p" "under_way (scanner_leaves p) = under_way p"
  "under_way (shutdown code e p) = under_way p"
  by (simp_all add: under_way_def scanner_leaves_def)

lemma under_way_leaves:
  assumes "i < length (pp_workers p)"
  shows "under_way p = worker_result (pp_workers p ! i) + under_way (worker_leaves i p)"
proof -
  have "sum_list (map worker_result (pp_workers p)) =
      sum_list (map worker_result ((pp_workers p)[i := Worker_left])) + worker_result (pp_workers p ! i)"
    using sum_list_map_update [OF assms, of worker_result Worker_left] by simp
  then show ?thesis by (simp add: under_way_def worker_leaves_def)
qed

lemma under_way_writer_leaves: "under_way p = writer_result (pp_writer p) + under_way (writer_leaves p)"
  by (simp add: under_way_def writer_leaves_def)

context pipeline_contract
begin

lemma scanner_step_kept:
  assumes kept: "contract_kept p" and "scanner_step code p = Some p'"
  shows "contract_kept p'"
  using assms(2)
proof (cases rule: scanner_step_cases)
  case (fails s e)
  have "sound (under_way p) s"
    using fails(3) kept discover_keeps(1) scanned_keeps(1) by (auto simp: contract_kept_def keeps_def)
  then have "sound (under_way (scanner_leaves (p\<lparr>pp_shared := s\<rparr>))) (pp_shared (scanner_leaves (p\<lparr>pp_shared := s\<rparr>)))"
    by (simp add: scanner_leaves_def)
  from sound_shutdown [OF this] show ?thesis
    unfolding fails(2) using kept by (intro kept_stopped) (simp_all add: contract_kept_def scanner_leaves_def)
next
  case (ends s)
  have "s = snd (cd_scanned code (pp_shared p))" using ends(2) by simp
  then show ?thesis
    using kept scanned_keeps unfolding ends(3) contract_kept_def keeps_def by (simp add: scanner_leaves_def)
next
  case (discovers s job todo ending)
  have "s = snd (cd_discover code job (pp_shared p))" using discovers(2) by simp
  then show ?thesis using kept discover_keeps unfolding discovers(3) contract_kept_def keeps_def by simp
next
  case (offers jobs job todo ending)
  then show ?thesis using kept by (simp add: contract_kept_def)
qed

lemma worker_step_kept:
  assumes kept: "contract_kept p" and "consistent p" and "worker_step code i p = Some p'"
  shows "contract_kept p'"
  using assms(3)
proof (cases rule: worker_step_cases)
  case drains
  have "under_way (worker_leaves i p) = under_way p"
    using under_way_leaves [OF drains(1)] drains(2) by simp
  then show ?thesis using kept drains(3) by (simp add: contract_kept_def) (simp add: worker_leaves_def)
next
  case (takes job jobs)
  have "under_way p' = under_way p"
    using sum_list_map_update [OF takes(1), of worker_result "Working job"] takes(2,4) by (simp add: under_way_def)
  then show ?thesis using kept takes(4) by (simp add: contract_kept_def)
next
  case (works job result s)
  have more: "under_way p' = add_mset result (under_way p)"
    using sum_list_map_update [OF works(1), of worker_result "Giving result"] works(2,4) by (simp add: under_way_def)
  have "sound (under_way p') s"
    using work_sound [of "under_way p" "pp_shared p" i job] kept works(3) more by (simp add: contract_kept_def wp_def)
  moreover have "worked job result" using work_worked [OF _ works(3), of "under_way p"] kept by (simp add: contract_kept_def)
  moreover have "running ph ws (under_way p') s" if "running ph ws (under_way p) (pp_shared p)" for ph ws
    using work_running [OF that works(3)] more by simp
  ultimately show ?thesis using kept works(4) by (simp add: contract_kept_def)
next
  case (gives result processed)
  have "contents processed = contents (pp_processed p) @ [result]"
    using push_Returned_open [OF gives(3)] assms(2) by (simp add: consistent_def)
  moreover have "sum_list (map worker_result (pp_workers p)) =
      add_mset result (sum_list (map worker_result ((pp_workers p)[i := Taking])))"
    using sum_list_map_update [OF gives(1), of worker_result Taking] gives(2) by simp
  ultimately have "under_way p' = under_way p" using gives(4) by (simp add: under_way_def)
  then show ?thesis using kept gives(4) by (simp add: contract_kept_def)
next
  case (fails s e)
  let ?q = "shutdown code e (p\<lparr>pp_shared := s\<rparr>)"
  have "sound (under_way p) s"
  proof (cases "s = pp_shared p")
    case True
    then show ?thesis using kept by (simp add: contract_kept_def)
  next
    case False
    then obtain job where s: "s = snd (cd_work code i job (pp_shared p))" using fails(4) by blast
    show ?thesis
      using work_sound [of "under_way p" "pp_shared p" i job] kept sound_fewer
      by (auto simp: wp_def s contract_kept_def split: prod.splits sum.splits)
  qed
  then have "sound (under_way (p\<lparr>pp_shared := s\<rparr>)) (pp_shared (p\<lparr>pp_shared := s\<rparr>))" by simp
  from sound_shutdown [OF this] have "sound (under_way ?q) (pp_shared ?q)" .
  moreover have "under_way (worker_leaves i ?q) \<subseteq># under_way ?q"
    using under_way_leaves [of i ?q] fails(1) by simp
  ultimately have "sound (under_way (worker_leaves i ?q)) (pp_shared ?q)" using sound_subset by blast
  then show ?thesis
    unfolding fails(3) using kept by (intro kept_stopped) (simp_all add: worker_leaves_def contract_kept_def)
qed

lemma writer_leaves_kept:
  assumes "sound (under_way q) (pp_shared q)" and "pp_stop q" and "\<forall>(j, r) \<in> set (pp_done q). worked j r"
  shows "contract_kept (writer_leaves q)"
proof (rule kept_stopped)
  have "under_way (writer_leaves q) \<subseteq># under_way q" using under_way_writer_leaves [of q] by simp
  then have "sound (under_way (writer_leaves q)) (pp_shared q)" using assms(1) sound_subset by blast
  then show "sound (under_way (writer_leaves q)) (pp_shared (writer_leaves q))" by (simp add: writer_leaves_def)
qed (simp_all add: writer_leaves_def assms(2,3))

lemma writer_fails_kept:
  assumes "sound (under_way (writer_leaves p)) s" and "\<forall>(j, r) \<in> set (pp_done p). worked j r"
  shows "contract_kept (writer_fails code e (p\<lparr>pp_shared := s\<rparr>))"
proof (rule kept_stopped)
  let ?q = "writer_fails code e (p\<lparr>pp_shared := s\<rparr>)"
  show "pp_stop ?q" by (simp add: writer_fails_def writer_leaves_def)
  show "\<forall>(j, r) \<in> set (pp_done ?q). worked j r" using assms(2) by (simp add: writer_fails_def writer_leaves_def)
  have "under_way ?q = under_way (writer_leaves p)"
    by (simp add: writer_fails_def writer_leaves_def under_way_def)
  moreover have "pp_shared ?q = snd (cd_cancel code (snd (cd_abandon code s)))"
    by (simp add: writer_fails_def writer_leaves_def shutdown_def)
  ultimately show "sound (under_way ?q) (pp_shared ?q)"
    using assms(1) abandon_keeps cancel_keeps by (simp add: keeps_def)
qed

lemma writer_step_kept:
  assumes kept: "contract_kept p" and "consistent p" and "writer_step code p = Some p'"
  shows "contract_kept p'"
  using assms(3)
proof (cases rule: writer_step_cases)
  case (begins s)
  have "s = snd (cd_begin code (pp_shared p))" using begins(2) by simp
  then have "sound (under_way p) s" using kept begin_sound by (simp add: contract_kept_def keeps_def)
  moreover have "running Batch_open (pp_written p) (under_way p) s" if "\<not> pp_stop p"
    using begin_running [OF _ begins(2)] kept that begins(1) by (simp add: contract_kept_def)
  moreover have "under_way p' = under_way p" using begins(1,3) by (simp add: under_way_def)
  ultimately show ?thesis using kept begins(3) by (simp add: contract_kept_def)
next
  case (pops result processed)
  have "contents (pp_processed p) = result # contents processed"
    using pop_Returned_Some [OF pops(2)] assms(2) by (simp add: consistent_def)
  then have "under_way p' = under_way p" using pops(1,3) by (simp add: under_way_def)
  then show ?thesis using kept pops(1,3) by (simp add: contract_kept_def)
next
  case (writes result s)
  have one: "under_way p = add_mset result (under_way p')" using writes(1,3) by (simp add: under_way_def)
  have "s = snd (cd_write code result (pp_shared p))" using writes(2) by simp
  then have "sound (under_way p') s" using kept write_sound one by (simp add: contract_kept_def)
  moreover have "running Batch_open (pp_written p @ [result]) (under_way p') s" if "\<not> pp_stop p"
    using write_running [OF _ writes(2)] kept that writes(1) one by (simp add: contract_kept_def)
  ultimately show ?thesis using kept writes(3) by (simp add: contract_kept_def)
next
  case (finishes s)
  have "s = snd (cd_flush code (pp_shared p))" using finishes(2) by simp
  then have "sound (under_way p) s" using kept flush_sound by (simp add: contract_kept_def keeps_def)
  moreover have "running Flushed (pp_written p) (under_way p) s"
    using flush_running [OF _ finishes(2)] kept finishes(1,3) by (simp add: contract_kept_def)
  moreover have "under_way p' = under_way p" using finishes(1,6) by (simp add: under_way_def writer_leaves_def)
  ultimately show ?thesis using kept finishes(6) by (simp add: contract_kept_def) (simp add: writer_leaves_def)
next
  case stops
  then show ?thesis
    using kept abandon_keeps writer_leaves_kept [of "p\<lparr>pp_shared := snd (cd_abandon code (pp_shared p))\<rparr>"]
    by (simp add: contract_kept_def keeps_def)
next
  case (fails_early s e)
  have "sound (under_way (p\<lparr>pp_shared := s\<rparr>)) (pp_shared (p\<lparr>pp_shared := s\<rparr>))"
    using kept begin_sound fails_early(3) by (simp add: contract_kept_def keeps_def)
  from sound_shutdown [OF this] show ?thesis
    unfolding fails_early(2) using kept by (intro writer_leaves_kept) (simp_all add: contract_kept_def)
next
  case (fails_flush s e)
  have "sound (under_way p) s" using kept flush_sound fails_flush(3) by (simp add: contract_kept_def keeps_def)
  moreover have "under_way p = under_way (writer_leaves p)" using under_way_writer_leaves [of p] fails_flush(1) by simp
  ultimately show ?thesis unfolding fails_flush(2) using writer_fails_kept kept by (simp add: contract_kept_def)
next
  case (fails_write s e result)
  have "under_way p = add_mset result (under_way (writer_leaves p))"
    using under_way_writer_leaves [of p] fails_write(1) by simp
  then have "sound (under_way (writer_leaves p)) s"
    using kept write_sound fails_write(3) by (simp add: contract_kept_def)
  then show ?thesis unfolding fails_write(2) using writer_fails_kept kept by (simp add: contract_kept_def)
qed

lemma pipeline_step_kept:
  assumes kept: "contract_kept p" and "consistent p" and "pipeline_step code c p = Some p'"
  shows "contract_kept p'"
proof (cases c)
  case (Interrupt e)
  then have "p' = shutdown code e p" using assms(3) by (simp split: if_splits)
  then show ?thesis using sound_shutdown kept kept_stopped by (simp add: contract_kept_def)
next
  case Scanner
  then show ?thesis using scanner_step_kept [OF kept] assms(3) by simp
next
  case (Worker i)
  then show ?thesis using worker_step_kept [OF kept assms(2)] assms(3) by simp
next
  case Writer
  then show ?thesis using writer_step_kept [OF kept assms(2)] assms(3) by simp
qed

lemma run_kept: "pipeline_run code p0 n p \<Longrightarrow> pipeline_ok p0 \<Longrightarrow> contract_kept p0 \<Longrightarrow> contract_kept p"
proof (induction rule: pipeline_run.induct)
  case (one_more n p c p')
  have "pipeline_ok p" by (rule pipeline_run_ok [OF one_more.hyps(1) one_more.prems(1)])
  then have "consistent p" by (simp add: pipeline_ok_def)
  then show ?case using pipeline_step_kept [OF _ _ one_more.hyps(2)] one_more.IH one_more.prems by blast
qed

end

end
