(* ===== verification/Engine_Workers.thy ===== *)
theory Engine_Workers
  imports Snapshot_Engine Pipeline_Contract
begin

text \<open>
  What the workers of a snapshot leave alone, and what they deliver: the spools of other results keep
  their contents, the database sees nothing but failure points, and a result answers its job.
\<close>

section \<open>Frames\<close>

lemma config_metadata [simp]:
  "good_object (cfg\<lparr>oc_metadata := b\<rparr>) = good_object cfg" "rows_good (cfg\<lparr>oc_metadata := b\<rparr>) = rows_good cfg"
  "store_inv (cfg\<lparr>oc_metadata := b\<rparr>) = store_inv cfg" "reaches (cfg\<lparr>oc_metadata := b\<rparr>) = reaches cfg"
  "config_ok (cfg\<lparr>oc_metadata := b\<rparr>) = config_ok cfg"
proof -
  have "content_ok (cfg\<lparr>oc_metadata := b\<rparr>) = content_ok cfg" "stored_size_ok (cfg\<lparr>oc_metadata := b\<rparr>) = stored_size_ok cfg"
    by (simp_all add: fun_eq_iff content_ok_def stored_size_ok_def)
  then show good: "good_object (cfg\<lparr>oc_metadata := b\<rparr>) = good_object cfg"
    by (simp add: fun_eq_iff good_object_def)
  then show rows: "rows_good (cfg\<lparr>oc_metadata := b\<rparr>) = rows_good cfg" by (simp add: fun_eq_iff rows_good_def)
  show inv: "store_inv (cfg\<lparr>oc_metadata := b\<rparr>) = store_inv cfg"
    by (simp add: fun_eq_iff store_inv_def known_good_def good rows)
  show "reaches (cfg\<lparr>oc_metadata := b\<rparr>) = reaches cfg" by (simp add: fun_eq_iff reaches_def inv)
  show "config_ok (cfg\<lparr>oc_metadata := b\<rparr>) = config_ok cfg" by (simp add: config_ok_def)
qed

definition worker_holds :: "string \<Rightarrow> bytes \<Rightarrow> worker \<Rightarrow> bool" where
  "worker_holds p c w \<longleftrightarrow> store_holds p c (wk_store w)"

lemma worker_holds_store: "keeps (store_holds p c) m \<Longrightarrow> keeps (worker_holds p c) (in_store m)"
  by (rule keepsI) (auto simp: worker_holds_def in_store_def dest: keepsD split: prod.splits)

lemma worker_holds_modifyp [keeps_intros]:
  "(\<And>w. wk_store (f w) = wk_store w) \<Longrightarrow> keeps (worker_holds p c) (modifyp f)"
  by (intro keeps_modifyp) (simp add: worker_holds_def)

lemma worker_holds_poll [keeps_intros]: "keeps (worker_holds p c) poll" "keeps (worker_holds p c) worker_check_cancelled"
proof -
  show "keeps (worker_holds p c) poll" by (simp add: keeps_def poll_def worker_holds_def)
  then show "keeps (worker_holds p c) worker_check_cancelled" unfolding worker_check_cancelled_def by (intro keeps_intros)
qed

lemma worker_holds_attempt:
  assumes "temporary_path p" and "spool \<noteq> p"
  shows "keeps (worker_holds p c) (read_attempt env original attempt spool)"
  unfolding read_attempt_def Let_def on_chunk_def store_chunk_def spool_append_def
  by (intro keeps_intros worker_holds_store store_keeps_temporary assms) simp_all

text \<open>The connection: a worker only passes failure points, so whatever does not depend on the number of
  calls made so far stays.\<close>

definition unticked :: "(conn \<Rightarrow> bool) \<Rightarrow> bool" where
  "unticked P \<longleftrightarrow> (\<forall>c. P c \<longrightarrow> P (next_tick c))"

lemma unticked_on_db [simp]: "unticked (on_db I)"
  by (simp add: unticked_def)

lemma unticked_hit: "unticked P \<Longrightarrow> keeps P (hit p)"
  by (auto simp: keeps_def hit_def unticked_def split: option.split)

definition store_conn :: "(conn \<Rightarrow> bool) \<Rightarrow> ostore \<Rightarrow> bool" where
  "store_conn P s \<longleftrightarrow> P (os_conn s)"

lemma store_conn_disk [keeps_intros]: "keeps (store_conn P) (os_disk m)" "keeps (store_conn P) (remember obj)"
  by (auto simp: keeps_def store_conn_def os_disk_def remember_def modifyp_def Let_def split: prod.split)

lemma store_conn_meta [keeps_intros]: "keeps P m \<Longrightarrow> keeps (store_conn P) (os_meta m)"
  by (rule keepsI) (auto simp: store_conn_def os_meta_def dest: keepsD split: prod.splits)

lemma store_conn_temporary [keeps_intros]:
  assumes "\<And>t. keeps (store_conn P) (body t)"
  shows "keeps (store_conn P) (with_temporary cfg dir body)"
  unfolding with_temporary_def
proof (intro keeps_intros keepsI)
  fix t s r s'
  assume "store_conn P s" and "(case body t s of (r, s') \<Rightarrow> (r, s'\<lparr>os_fs := drop_temporary t (os_fs s')\<rparr>)) = (r, s')"
  then show "store_conn P s'"
    using assms [of t] by (auto simp: store_conn_def dest: keepsD split: prod.splits)
qed

lemma store_conn_search [keeps_intros]:
  "keeps (store_conn P) (require_reusable cfg known h q n)" "keeps (store_conn P) (read_verified cfg h q n m)"
  "keeps (store_conn P) (find_existing_file cfg h q n)"
  unfolding require_reusable_def read_verified_def find_existing_file_def Let_def by (intro keeps_intros)+

lemma store_conn_store:
  assumes "unticked P" and "\<not> oc_metadata cfg"
  shows "keeps (store_conn P) (store cfg raw stop)"
  unfolding store_def write_object_def publish_object_def find_existing_def Let_def
  using assms(2) by (simp, intro keeps_intros unticked_hit assms(1))

definition worker_conn :: "(conn \<Rightarrow> bool) \<Rightarrow> worker \<Rightarrow> bool" where
  "worker_conn P w \<longleftrightarrow> store_conn P (wk_store w)"

lemma worker_conn_store: "keeps (store_conn P) m \<Longrightarrow> keeps (worker_conn P) (in_store m)"
  by (rule keepsI) (auto simp: worker_conn_def in_store_def dest: keepsD split: prod.splits)

lemma worker_conn_modifyp [keeps_intros]:
  "(\<And>w. store_conn P (wk_store w) \<Longrightarrow> store_conn P (wk_store (f w))) \<Longrightarrow> keeps (worker_conn P) (modifyp f)"
  by (intro keeps_modifyp) (simp add: worker_conn_def)

lemma worker_conn_poll [keeps_intros]: "keeps (worker_conn P) poll" "keeps (worker_conn P) worker_check_cancelled"
proof -
  show "keeps (worker_conn P) poll" by (simp add: keeps_def poll_def worker_conn_def)
  then show "keeps (worker_conn P) worker_check_cancelled" unfolding worker_check_cancelled_def by (intro keeps_intros)
qed

lemma worker_conn_attempt:
  assumes "unticked P" and "\<not> oc_metadata (we_config env)"
  shows "keeps (worker_conn P) (read_attempt env original attempt spool)"
  unfolding read_attempt_def Let_def on_chunk_def store_chunk_def
  by (intro keeps_intros worker_conn_store store_conn_store assms) simp_all

lemma worker_conn_file:
  assumes "unticked P" and "\<not> oc_metadata (we_config env)"
  shows "keeps (worker_conn P) (attempt_file env entry attempt again)"
proof -
  have drop: "keeps (worker_conn P) (drop_spool spool)" for spool
    unfolding drop_spool_def by (intro keeps_intros) (simp add: store_conn_def)
  have "keeps (worker_conn P) (\<lambda>w. case unreadable entry again e w of (r, w') \<Rightarrow>
      (case drop_spool spool w' of (_, w'') \<Rightarrow> (r, w'')))" for e spool
    by (rule keepsI) (auto split: prod.splits dest: keepsD [OF unreadable_keeps] keepsD [OF drop])
  then show ?thesis
    unfolding attempt_file_def new_attempt_def
    by (intro keeps_intros worker_conn_store worker_conn_attempt assms) simp_all
qed

lemma worker_conn_job:
  assumes "unticked P" and "\<not> oc_metadata (we_config env)"
  shows "keeps (worker_conn P) (process_job env job)"
proof -
  have "keeps (worker_conn P) (attempts env entry attempt n)" for entry attempt n
    by (induction n arbitrary: attempt) (auto intro!: keeps_intros worker_conn_file assms split: option.split)
  then show ?thesis unfolding process_job_def Let_def by (auto intro!: keeps_intros split: sum.split simp del: attempts.simps)
qed

section \<open>Results\<close>

text \<open>How a result answers a job: a warning and everything but a regular file pass through; of a regular
  file the worker has read a stable state, or it reports why it could not.\<close>

definition answers :: "worker_env \<Rightarrow> FileJob \<Rightarrow> ProcessedEntry \<Rightarrow> bool" where
  "answers env job result \<longleftrightarrow>
     (case job of
        Inr warning \<Rightarrow> pr_value result = job \<and> pr_chunk_references result = None
      | Inl entry \<Rightarrow>
          if se_type entry \<noteq> regular_file then pr_value result = job \<and> pr_chunk_references result = None
          else (\<exists>attempt inp before.
                  we_open env (se_source_path entry) attempt = Some inp \<and>
                  read_platform_file_metadata_no_follow (we_before env (se_source_path entry) attempt) = Inr before \<and>
                  unat (pm_logical_size before) = length (rest inp) \<and>
                  pr_value result = Inl (entry\<lparr>se_logical_size := pm_logical_size before,
                    se_modified_time_ns := pm_modified_time_ns before, se_posix_mode := pm_posix_mode before\<rparr>) \<and>
                  pr_file_hash_hex result = hash_raw (oc_blake3 (we_config env)) (rest inp)) \<or>
               (\<exists>warning. pr_value result = Inr warning \<and> sw_relative_path warning = se_relative_path entry \<and>
                  pr_chunk_references result = None))"

lemma describes_answers:
  "describes env entry result f \<Longrightarrow> se_type entry = regular_file \<Longrightarrow> answers env (Inl entry) result"
  unfolding describes_def answers_def by auto

definition in_temporary_tree :: "ProcessedEntry \<Rightarrow> bool" where
  "in_temporary_tree result \<longleftrightarrow> (\<forall>spool. pr_chunk_references result = Some spool \<longrightarrow> temporary_path spool)"

text \<open>One attempt, next to any other temporary file.\<close>

lemma unreadable_Inr:
  "unreadable entry again e w = (Inr (Some result), w') \<Longrightarrow>
   \<exists>warning. pr_value result = Inr warning \<and> sw_relative_path warning = se_relative_path entry \<and>
     pr_chunk_references result = None"
  by (auto simp: unreadable_def bindp_def gets_def ret_def raise_def split: exn.splits option.splits if_splits)

lemma read_attempt_spool:
  "read_attempt env entry attempt spool w = (Inr result, w') \<Longrightarrow> pr_chunk_references result = Some spool"
  unfolding read_attempt_def Let_def by (elim seqp_InrE bindp_InrE) (auto simp: Inr_simps)

lemma attempt_file_frame:
  assumes run: "attempt_file env entry attempt again w = (r, w')"
  shows "temporary_path p \<Longrightarrow> worker_holds p c w \<Longrightarrow>
      worker_holds p c w' \<and> (\<forall>result. r = Inr (Some result) \<longrightarrow> pr_chunk_references result \<noteq> Some p)"
    and "r = Inr (Some result) \<Longrightarrow> in_temporary_tree result"
    and "r = Inr (Some result) \<Longrightarrow> pr_value result = Inr warning \<Longrightarrow>
      sw_relative_path warning = se_relative_path entry \<and> pr_chunk_references result = None"
proof -
  let ?w = "w\<lparr>wk_bytes_read := 0, wk_sequence := 0, wk_new_chunk_count := 0, wk_hashed := [], wk_callback_error := None\<rparr>"
  let ?names = "map (\<lambda>n. ''temporary/objects/'' @ n) (we_spool_names env)"
  obtain x f where create: "create_temporary ?names 100 (os_fs (wk_store w)) = (x, f)" by fastforce
  let ?w1 = "?w\<lparr>wk_store := (wk_store w)\<lparr>os_fs := f\<rparr>\<rparr>"
  have frame: "worker_holds p c ?w1" if "worker_holds p c w"
    using keepsD [OF holds_create_temporary _ create] that by (simp add: worker_holds_def store_holds_def)
  have "(temporary_path p \<longrightarrow> worker_holds p c w \<longrightarrow>
      worker_holds p c w' \<and> (\<forall>result. r = Inr (Some result) \<longrightarrow> pr_chunk_references result \<noteq> Some p)) \<and>
    (r = Inr (Some result) \<longrightarrow> in_temporary_tree result \<and>
      (pr_value result = Inr warning \<longrightarrow> sw_relative_path warning = se_relative_path entry \<and> pr_chunk_references result = None))"
  proof (cases x)
    case (Inl e)
    then have "r = Inl e" "w' = ?w1"
      using run create
      by (auto simp: attempt_file_def new_attempt_def seqp_def bindp_def modifyp_def in_store_def os_disk_def)
    then show ?thesis using frame by simp
  next
    case (Inr spool)
    have made: "temporary_path spool"
      using create_temporary_made [OF create [unfolded Inr]] spool_is_temporary [of "we_spool_names env"]
      by (auto simp: list_all_iff)
    have other: "spool \<noteq> p" if "worker_holds p c w"
      using create_temporary_fresh [OF create [unfolded Inr]] that by (auto simp: worker_holds_def store_holds_def)
    obtain y w2 where y: "read_attempt env entry attempt spool ?w1 = (y, w2)" by fastforce
    have w2: "worker_holds p c w2" if "temporary_path p" "worker_holds p c w"
      using keepsD [OF worker_holds_attempt [OF that(1) other [OF that(2)]] frame [OF that(2)] y] .
    show ?thesis
    proof (cases y)
      case yr: (Inr made_result)
      then have "r = Inr (Some made_result)" "w' = w2"
        using run create Inr y
        by (simp_all add: attempt_file_def new_attempt_def seqp_def bindp_def modifyp_def in_store_def os_disk_def handle_def ret_def)
      moreover have "pr_chunk_references made_result = Some spool" "\<exists>e. pr_value made_result = Inl e"
        using read_attempt_spool [OF y [unfolded yr]] y [unfolded yr] unfolding read_attempt_def Let_def
        by (auto elim!: seqp_InrE bindp_InrE simp: Inr_simps)
      ultimately show ?thesis using w2 other made by (auto simp: in_temporary_tree_def)
    next
      case (Inl e)
      obtain z w3 where z: "unreadable entry again e w2 = (z, w3)" by fastforce
      have r: "r = z" "w' = snd (drop_spool spool w3)"
        using run create Inr y Inl z
        by (simp_all add: attempt_file_def new_attempt_def seqp_def bindp_def modifyp_def in_store_def os_disk_def handle_def
            ret_def split: prod.splits)
      have "worker_holds p c w'" if "temporary_path p" "worker_holds p c w"
        using keepsD [OF unreadable_keeps [where I = "worker_holds p c"] w2 [OF that] z] other [OF that(2)]
        by (simp add: r(2) drop_spool_def modifyp_def worker_holds_def store_holds_def holds_drop_temporary)
      moreover have "\<exists>warning. pr_value result = Inr warning \<and> sw_relative_path warning = se_relative_path entry \<and>
          pr_chunk_references result = None" if "r = Inr (Some result)" for result
        using unreadable_Inr z r(1) that by blast
      ultimately show ?thesis by (fastforce simp: in_temporary_tree_def)
    qed
  qed
  then show "temporary_path p \<Longrightarrow> worker_holds p c w \<Longrightarrow>
      worker_holds p c w' \<and> (\<forall>result. r = Inr (Some result) \<longrightarrow> pr_chunk_references result \<noteq> Some p)"
    "r = Inr (Some result) \<Longrightarrow> in_temporary_tree result"
    "r = Inr (Some result) \<Longrightarrow> pr_value result = Inr warning \<Longrightarrow>
      sw_relative_path warning = se_relative_path entry \<and> pr_chunk_references result = None"
    by blast+
qed

lemma attempts_frame:
  "attempts env entry attempt n w = (r, w') \<Longrightarrow> temporary_path p \<Longrightarrow> worker_holds p c w \<Longrightarrow>
   worker_holds p c w' \<and> (\<forall>result. r = Inr result \<longrightarrow> pr_chunk_references result \<noteq> Some p)"
proof (induction n arbitrary: attempt w)
  case (Suc n)
  obtain x w1 where x: "attempt_file env entry attempt (n \<noteq> 0) w = (x, w1)" by fastforce
  note frame = attempt_file_frame(1) [OF x Suc.prems(2,3)]
  show ?case
  proof (cases "x = Inr None")
    case True
    then have "attempts env entry (Suc attempt) n w1 = (r, w')" using Suc.prems(1) x by (simp add: bindp_def)
    then show ?thesis using Suc.IH Suc.prems(2) frame by blast
  next
    case False
    then have "w' = w1 \<and> (\<forall>result. r = Inr result \<longrightarrow> x = Inr (Some result))"
      using Suc.prems(1) x by (auto simp: bindp_def ret_def split: sum.splits option.splits)
    then show ?thesis using frame by blast
  qed
qed (auto simp: ret_def)

lemma attempts_result:
  "attempts env entry attempt n w = (Inr result, w') \<Longrightarrow> in_temporary_tree result \<and>
   (\<forall>warning. pr_value result = Inr warning \<longrightarrow>
      sw_relative_path warning = se_relative_path entry \<and> pr_chunk_references result = None)"
proof (induction n arbitrary: attempt w)
  case (Suc n)
  obtain x w1 where x: "attempt_file env entry attempt (n \<noteq> 0) w = (x, w1)" by fastforce
  show ?case
  proof (cases "x = Inr None")
    case True
    then have "attempts env entry (Suc attempt) n w1 = (Inr result, w')" using Suc.prems(1) x by (simp add: bindp_def)
    then show ?thesis using Suc.IH by blast
  next
    case False
    then have "x = Inr (Some result)"
      using Suc.prems(1) x by (auto simp: bindp_def ret_def split: sum.splits option.splits)
    then show ?thesis using attempt_file_frame(2,3) [OF x] by blast
  qed
qed (auto simp: ret_def in_temporary_tree_def)

text \<open>What the writer relies on when it takes up a result.\<close>

definition spooled :: "worker_env \<Rightarrow> fs \<Rightarrow> ProcessedEntry \<Rightarrow> bool" where
  "spooled env f result \<longleftrightarrow>
     (case pr_value result of
        Inr warning \<Rightarrow> pr_chunk_references result = None
      | Inl entry \<Rightarrow>
          if se_type entry = regular_file
          then (\<exists>scanned. describes env scanned result f) \<and> in_temporary_tree result
          else pr_chunk_references result = None)"

lemma spooled_temporary: "spooled env f result \<Longrightarrow> pr_chunk_references result = Some p \<Longrightarrow> temporary_path p"
  by (auto simp: spooled_def in_temporary_tree_def split: sum.splits if_splits)

lemma process_job_laws:
  assumes "config_ok (we_config env)" and "store_inv (we_config env) (wk_store w)"
    and "process_job env job w = (r, w')"
  shows "reaches (we_config env) (wk_store w) (wk_store w')"
    and "r = Inr result \<Longrightarrow> answers env job result \<and> spooled env (os_fs (wk_store w')) result"
proof -
  have "reaches (we_config env) (wk_store w) (wk_store w') \<and>
    (r = Inr result \<longrightarrow> answers env job result \<and> spooled env (os_fs (wk_store w')) result)"
  proof (cases "\<exists>entry. job = Inl entry \<and> se_type entry = regular_file")
    case True
    then obtain entry where job: "job = Inl entry" "se_type entry = regular_file" by blast
    define n :: nat where "n = (if we_retry_unstable_files env then 2 else 1)"
    have run: "attempts env entry 0 n w = (r, w')" using assms(3) job by (simp add: process_job_def n_def)
    note laws = attempts_laws [OF assms(1,2) run]
    have "answers env job result \<and> spooled env (os_fs (wk_store w')) result" if r: "r = Inr result"
    proof (cases "pr_value result")
      case (Inl entry')
      then have d: "describes env entry result (os_fs (wk_store w'))" using laws r by (simp add: n_def)
      then have "se_type entry' = regular_file" using Inl job(2) by (auto simp: describes_def)
      then show ?thesis
        using d describes_answers [OF d job(2)] attempts_result [OF run [unfolded r]] Inl job(1) by (auto simp: spooled_def)
    next
      case (Inr warning)
      then show ?thesis using attempts_result [OF run [unfolded r]] job by (simp add: spooled_def answers_def)
    qed
    then show ?thesis using laws by blast
  next
    case False
    then have "w' = w" "r = Inr \<lparr>pr_value = job, pr_chunk_references = None, pr_file_hash_hex = [], pr_chunk_count = 0,
        pr_new_chunk_count = 0\<rparr>"
      using assms(3) by (auto simp: process_job_def Let_def ret_def split: sum.splits if_splits)
    then show ?thesis
      using False assms(2) by (auto simp: answers_def spooled_def reaches_refl split: sum.splits)
  qed
  then show "reaches (we_config env) (wk_store w) (wk_store w')"
    "r = Inr result \<Longrightarrow> answers env job result \<and> spooled env (os_fs (wk_store w')) result" by blast+
qed

lemma process_job_frame:
  assumes "process_job env job w = (r, w')" and "temporary_path p" and "worker_holds p c w"
  shows "worker_holds p c w' \<and> (\<forall>result. r = Inr result \<longrightarrow> pr_chunk_references result \<noteq> Some p)"
proof (cases "\<exists>entry. job = Inl entry \<and> se_type entry = regular_file")
  case True
  then obtain entry where job: "job = Inl entry" "se_type entry = regular_file" by blast
  have "attempts env entry 0 (if we_retry_unstable_files env then 2 else 1) w = (r, w')"
    using assms(1) job by (simp add: process_job_def)
  from attempts_frame [OF this assms(2,3)] show ?thesis .
next
  case False
  then show ?thesis using assms by (auto simp: process_job_def Let_def ret_def split: sum.splits if_splits)
qed

text \<open>A result stays as it is while its own spool does and nothing stored is lost.\<close>

lemma spooled_stable:
  assumes "spooled env f result" and "fs_extends f f'"
    and "\<And>p c. pr_chunk_references result = Some p \<Longrightarrow> holds p c f \<Longrightarrow> holds p c f'"
  shows "spooled env f' result"
proof -
  have "describes env entry result f'" if "describes env entry result f" for entry
  proof -
    from that obtain attempt inp before after spool references where
      d: "we_open env (se_source_path entry) attempt = Some inp"
        "read_platform_file_metadata_no_follow (we_before env (se_source_path entry) attempt) = Inr before"
        "read_platform_file_metadata_no_follow (we_after env (se_source_path entry) attempt) = Inr after"
        "same_stable_identity before after \<and> unat (pm_logical_size before) = length (rest inp)"
        "pr_value result = Inl (entry\<lparr>se_logical_size := pm_logical_size before,
          se_modified_time_ns := pm_modified_time_ns before, se_posix_mode := pm_posix_mode before\<rparr>)"
        "pr_file_hash_hex result = hash_raw (oc_blake3 (we_config env)) (rest inp)"
        "pr_chunk_references result = Some spool" "files f spool = Some (concat (map record_bytes references))"
        "unat (pr_chunk_count result) = length references" "pr_new_chunk_count result = word_of_nat (newly_stored references)"
        "described (we_config env) f 0 (split_chunks (unat (oc_maximum_chunk_size (we_config env))) 0 (rest inp)) references"
      unfolding describes_def by blast
    have "files f' spool = Some (concat (map record_bytes references))"
      using assms(3) [OF d(7)] d(8) by (simp add: holds_def)
    then show ?thesis unfolding describes_def using d described_extends [OF d(11) assms(2)] by blast
  qed
  then show ?thesis using assms(1) by (auto simp: spooled_def split: sum.splits if_splits)
qed

end
