(* ===== verification/Engine_Tables.thy ===== *)
theory Engine_Tables
  imports Snapshot_Engine
begin

text \<open>
  What the metadata operations of a snapshot keep of the tables: the snapshots that were complete when
  the operation began stay as they are, no other snapshot becomes complete before it is published, and
  every chunk row names a good object.
\<close>

section \<open>Snapshots that are spared\<close>

definition spared :: "tables \<Rightarrow> tables \<Rightarrow> bool" where
  "spared t0 t \<longleftrightarrow> schema_ok t \<and>
     (\<forall>s. snapshot_has_status t0 s [''complete''] \<longrightarrow> frozen s (published_view s t0) t) \<and>
     (\<forall>s. snapshot_has_status t s [''complete''] \<longrightarrow> snapshot_has_status t0 s [''complete''])"

lemma spared_refl: "schema_ok t \<Longrightarrow> spared t t"
  by (simp add: spared_def frozen_def)

lemma spared_schema: "spared t0 t \<Longrightarrow> schema_ok t"
  by (simp add: spared_def)

lemma sparedI:
  assumes "spared t0 t" and "schema_ok t'"
    and "\<And>s. snapshot_has_status t0 s [''complete''] \<Longrightarrow> frozen s (published_view s t0) t \<Longrightarrow> frozen s (published_view s t0) t'"
    and "\<And>s. snapshot_has_status t' s [''complete''] \<Longrightarrow> snapshot_has_status t s [''complete'']"
  shows "spared t0 t'"
  using assms unfolding spared_def by blast

lemma same_snapshots_status: "snapshots t' = snapshots t \<Longrightarrow> snapshot_has_status t' s sts = snapshot_has_status t s sts"
  by (simp add: snapshot_has_status_def)

lemma complete_after_retirement:
  assumes "t_update_snapshots p f t = Inr (x, t')" and "\<And>s. sn_id (f s) = sn_id s"
    and "\<And>s. p t s \<Longrightarrow> (sn_status s, sn_status (f s)) \<in> retirement"
    and "snapshot_has_status t' s [''complete'']"
  shows "snapshot_has_status t s [''complete'']"
proof -
  have rows: "snapshots t' = update_rows (p t) f (snapshots t)"
    using assms(1) by (auto simp: t_update_snapshots_def Let_def split: if_splits)
  from assms(4) obtain r where "r \<in> set (snapshots t')" "sn_id r = s" "sn_status r = ''complete''"
    by (auto simp: snapshot_has_status_def list_ex_iff)
  then obtain r0 where r0: "r0 \<in> set (snapshots t)" "r = (if p t r0 then f r0 else r0)"
    using rows by (auto simp: update_rows_def)
  then have "\<not> p t r0" using assms(3) [of r0] \<open>sn_status r = ''complete''\<close> by (auto simp: retirement_def)
  then show ?thesis
    using r0 \<open>sn_id r = s\<close> \<open>sn_status r = ''complete''\<close> by (auto simp: snapshot_has_status_def list_ex_iff)
qed

lemma deletions_status:
  "t_delete_entry_batch i n t = Inr (k, t') \<Longrightarrow> snapshots t' = snapshots t"
  "t_delete_warning_batch i n t = Inr (k, t') \<Longrightarrow> snapshots t' = snapshots t"
  "t_delete_snapshot i t = Inr (x, t') \<Longrightarrow> set (snapshots t') \<subseteq> set (snapshots t)"
  by (auto simp: t_delete_entry_batch_def t_delete_warning_batch_def t_delete_snapshot_def t_remove_entries_def
      Let_def constraint_failed_def split: if_splits)

lemma fewer_snapshots_status:
  "set (snapshots t') \<subseteq> set (snapshots t) \<Longrightarrow> snapshot_has_status t' s sts \<Longrightarrow> snapshot_has_status t s sts"
  by (auto simp: snapshot_has_status_def list_ex_iff)

interpretation spared: maintenance_invariant "spared t0" for t0
proof unfold_locales
  fix t p f x t'
  assume t: "spared t0 t" and upd: "t_update_snapshots p f t = Inr (x, t')" "\<And>s. sn_id (f s) = sn_id s"
    "\<And>s. p t s \<Longrightarrow> (sn_status s, sn_status (f s)) \<in> retirement"
  show "spared t0 t'"
  proof (rule sparedI [OF t])
    show "schema_ok t'" by (rule schema.retire_law [OF spared_schema [OF t] upd])
    show "frozen s (published_view s t0) t'" if "frozen s (published_view s t0) t" for s
      by (rule frozen.retire_law [OF that upd])
  qed (rule complete_after_retirement [OF upd])
next
  fix t i n k t' sts
  assume t: "spared t0 t" and del: "t_delete_entry_batch i n t = Inr (k, t')"
    and found: "status_rows sts i t \<noteq> []" "''complete'' \<notin> set sts"
  show "spared t0 t'"
  proof (rule sparedI [OF t])
    show "schema_ok t'" by (rule schema.entry_batch_law [OF spared_schema [OF t] del found])
    show "frozen s (published_view s t0) t'" if "frozen s (published_view s t0) t" for s
      by (rule frozen.entry_batch_law [OF that del found])
  qed (simp add: same_snapshots_status [OF deletions_status(1) [OF del]])
next
  fix t i n k t' sts
  assume t: "spared t0 t" and del: "t_delete_warning_batch i n t = Inr (k, t')"
    and found: "status_rows sts i t \<noteq> []" "''complete'' \<notin> set sts"
  show "spared t0 t'"
  proof (rule sparedI [OF t])
    show "schema_ok t'" by (rule schema.warning_batch_law [OF spared_schema [OF t] del found])
    show "frozen s (published_view s t0) t'" if "frozen s (published_view s t0) t" for s
      by (rule frozen.warning_batch_law [OF that del found])
  qed (simp add: same_snapshots_status [OF deletions_status(2) [OF del]])
next
  fix t i x t'
  assume t: "spared t0 t" and del: "t_delete_snapshot i t = Inr (x, t')"
  show "spared t0 t'"
  proof (rule sparedI [OF t])
    show "schema_ok t'" by (rule schema.delete_snapshot_law [OF spared_schema [OF t] del])
    show "frozen s (published_view s t0) t'" if "frozen s (published_view s t0) t" for s
      by (rule frozen.delete_snapshot_law [OF that del])
  qed (rule fewer_snapshots_status [OF deletions_status(3) [OF del]])
qed

text \<open>Identifiers that are given out are new.\<close>

definition foreign :: "tables \<Rightarrow> int \<Rightarrow> bool" where
  "foreign t0 j \<longleftrightarrow> (\<forall>s. snapshot_has_status t0 s [''complete''] \<longrightarrow> j \<notin> entry_ids t0 s)"

lemma view_ids: "view_entry_ids (published_view s t) = entry_ids t s"
  by (simp add: view_entry_ids_def published_view_def entry_ids_def)

lemma spared_insert_snapshot:
  assumes t: "spared t0 t" and ins: "t_insert_snapshot a b d t = Inr (x, t')"
  shows "spared t0 t' \<and> (\<forall>i \<in> set x. \<not> snapshot_has_status t0 i [''complete''])"
proof
  have new: "x = [snapshot_seq t + 1]" "\<exists>r. snapshots t' = snapshots t @ [r] \<and> sn_status r = ''pending''"
    using ins by (auto simp: t_insert_snapshot_def Let_def constraint_failed_def split: if_splits)
  show "spared t0 t'"
  proof (rule sparedI [OF t])
    show "schema_ok t'" by (rule schema.insert_snapshot_law [OF spared_schema [OF t] ins])
    show "frozen s (published_view s t0) t'" if "frozen s (published_view s t0) t" for s
      by (rule frozen.insert_snapshot_law [OF that ins])
  qed (use new(2) in \<open>auto simp: snapshot_has_status_def list_ex_iff\<close>)
  show "\<forall>i \<in> set x. \<not> snapshot_has_status t0 i [''complete'']"
  proof
    fix i assume i: "i \<in> set x"
    show "\<not> snapshot_has_status t0 i [''complete'']"
    proof
      assume "snapshot_has_status t0 i [''complete'']"
      then have "snapshot_has_status t i [''complete'']" using t by (simp add: spared_def frozen_def)
      then have "i \<le> snapshot_seq t"
        using spared_schema [OF t] by (auto simp: snapshot_has_status_def list_ex_iff schema_defs)
      then show False using i new(1) by simp
    qed
  qed
qed

lemma spared_insert_entry:
  assumes t: "spared t0 t" and i: "\<not> snapshot_has_status t0 i [''complete'']" and ins: "t_insert_entry i e n t = Inr (x, t')"
  shows "spared t0 t' \<and> (\<forall>j \<in> set x. foreign t0 j)"
proof
  have new: "x = [entry_seq t + 1]" "snapshots t' = snapshots t"
    using ins by (auto simp: t_insert_entry_def Let_def constraint_failed_def split: if_splits)
  show "spared t0 t'"
  proof (rule sparedI [OF t])
    show "schema_ok t'" by (rule schema.insert_entry_law [OF spared_schema [OF t] ins]) simp
    show "frozen s (published_view s t0) t'"
      if "frozen s (published_view s t0) t" "snapshot_has_status t0 s [''complete'']" for s
      by (rule frozen.insert_entry_law [OF that(1) ins]) (use i that(2) in auto)
  qed (simp add: same_snapshots_status [OF new(2)])
  show "\<forall>j \<in> set x. foreign t0 j"
    unfolding foreign_def
  proof (intro ballI allI impI)
    fix j s assume j: "j \<in> set x" and s: "snapshot_has_status t0 s [''complete'']"
    have "entry_ids t s = entry_ids t0 s"
      using frozen_entry_ids [of s "published_view s t0" t] t s by (simp add: spared_def view_ids)
    moreover have "\<forall>k \<in> entry_ids t s. k \<le> entry_seq t"
      using spared_schema [OF t] by (auto simp: entry_ids_def entries_of_def schema_defs)
    ultimately show "j \<notin> entry_ids t0 s" using j new(1) by auto
  qed
qed

lemma spared_insert_warning:
  assumes t: "spared t0 t" and i: "\<not> snapshot_has_status t0 i [''complete'']" and ins: "t_insert_warning i p c m t = Inr (u, t')"
  shows "spared t0 t'"
proof (rule sparedI [OF t])
  show "schema_ok t'" by (rule schema.insert_warning_law [OF spared_schema [OF t] ins]) simp
  show "frozen s (published_view s t0) t'"
    if "frozen s (published_view s t0) t" "snapshot_has_status t0 s [''complete'']" for s
    by (rule frozen.insert_warning_law [OF that(1) ins]) (use i that(2) in auto)
qed (use ins in \<open>auto simp: t_insert_warning_def Let_def constraint_failed_def snapshot_has_status_def split: if_splits\<close>)

lemma spared_insert_entry_chunk:
  assumes t: "spared t0 t" and j: "foreign t0 j" and ins: "t_insert_entry_chunk j sq h off len t = Inr (u, t')"
  shows "spared t0 t'"
proof (rule sparedI [OF t])
  show "schema_ok t'" by (rule schema.insert_entry_chunk_law [OF spared_schema [OF t] ins]) simp
  show "frozen s (published_view s t0) t'"
    if "frozen s (published_view s t0) t" "snapshot_has_status t0 s [''complete'']" for s
    by (rule frozen.insert_entry_chunk_law [OF that(1) ins]) (use j that(2) in \<open>simp add: foreign_def view_ids\<close>)
qed (use ins in \<open>auto simp: t_insert_entry_chunk_def constraint_failed_def snapshot_has_status_def split: if_splits\<close>)

lemma spared_set_hash:
  assumes t: "spared t0 t" and set: "t_set_file_hash j h t = Inr (x, t')" and h: "is_lowercase_blake3_hex h"
  shows "spared t0 t'"
proof (rule sparedI [OF t])
  show "schema_ok t'" by (rule schema.set_hash_law [OF spared_schema [OF t] set h])
  show "frozen s (published_view s t0) t'" if "frozen s (published_view s t0) t" for s
    by (rule frozen.set_hash_law [OF that set h])
qed (use set in \<open>auto simp: t_set_file_hash_def Let_def snapshot_has_status_def\<close>)

lemma spared_insert_chunk:
  assumes t: "spared t0 t" and ins: "t_insert_chunk h rs ss pa cr t = Inr (u, t')"
  shows "spared t0 t'"
proof (rule sparedI [OF t])
  show "schema_ok t'" by (rule schema.insert_chunk_law [OF spared_schema [OF t] ins])
  show "frozen s (published_view s t0) t'" if "frozen s (published_view s t0) t" for s
    by (rule frozen.insert_chunk_law [OF that ins])
qed (use ins in \<open>auto simp: t_insert_chunk_def constraint_failed_def snapshot_has_status_def split: if_splits\<close>)

section \<open>Tables whose chunks are good\<close>

definition tables_ok :: "os_config \<Rightarrow> tables \<Rightarrow> fs \<Rightarrow> tables \<Rightarrow> bool" where
  "tables_ok cfg t0 f t \<longleftrightarrow> spared t0 t \<and> rows_good cfg f t"

lemma rows_good_fewer: "rows_good cfg f t \<Longrightarrow> schema_ok t' \<Longrightarrow> set (chunks t') \<subseteq> set (chunks t) \<Longrightarrow> rows_good cfg f t'"
  by (auto simp: rows_good_def)

lemma tables_okI:
  "tables_ok cfg t0 f t \<Longrightarrow> spared t0 t' \<Longrightarrow> set (chunks t') \<subseteq> set (chunks t) \<Longrightarrow> tables_ok cfg t0 f t'"
  using rows_good_fewer spared_schema unfolding tables_ok_def by blast

lemma maintenance_chunks:
  "t_update_snapshots p g t = Inr (x, t') \<Longrightarrow> set (chunks t') \<subseteq> set (chunks t)"
  "t_delete_entry_batch i n t = Inr (k, t') \<Longrightarrow> set (chunks t') \<subseteq> set (chunks t)"
  "t_delete_warning_batch i n t = Inr (k, t') \<Longrightarrow> set (chunks t') \<subseteq> set (chunks t)"
  "t_delete_snapshot i t = Inr (x, t') \<Longrightarrow> set (chunks t') \<subseteq> set (chunks t)"
  by (auto simp: t_update_snapshots_def t_delete_entry_batch_def t_delete_warning_batch_def t_delete_snapshot_def
      t_remove_entries_def Let_def constraint_failed_def split: if_splits)

lemma recording_chunks:
  "t_insert_snapshot a b d t = Inr (x, t') \<Longrightarrow> set (chunks t') \<subseteq> set (chunks t)"
  "t_insert_entry i e n t = Inr (x, t') \<Longrightarrow> set (chunks t') \<subseteq> set (chunks t)"
  "t_set_file_hash j h t = Inr (x, t') \<Longrightarrow> set (chunks t') \<subseteq> set (chunks t)"
  "t_insert_entry_chunk j sq h off len t = Inr (u, t') \<Longrightarrow> set (chunks t') \<subseteq> set (chunks t)"
  "t_insert_warning i p c m t = Inr (u, t') \<Longrightarrow> set (chunks t') \<subseteq> set (chunks t)"
  by (auto simp: t_insert_snapshot_def t_insert_entry_def t_set_file_hash_def t_insert_entry_chunk_def
      t_insert_warning_def Let_def constraint_failed_def split: if_splits)

interpretation good_tables: maintenance_invariant "tables_ok cfg t0 f" for cfg t0 f
proof unfold_locales
  fix t p g x t'
  assume t: "tables_ok cfg t0 f t" and upd: "t_update_snapshots p g t = Inr (x, t')" "\<And>s. sn_id (g s) = sn_id s"
    "\<And>s. p t s \<Longrightarrow> (sn_status s, sn_status (g s)) \<in> retirement"
  have "spared t0 t" using t by (simp add: tables_ok_def)
  then have "spared t0 t'" by (rule spared.retire_law [OF _ upd])
  then show "tables_ok cfg t0 f t'" by (rule tables_okI [OF t _ maintenance_chunks(1) [OF upd(1)]])
next
  fix t i n k t' sts
  assume t: "tables_ok cfg t0 f t" and del: "t_delete_entry_batch i n t = Inr (k, t')"
    and found: "status_rows sts i t \<noteq> []" "''complete'' \<notin> set sts"
  have "spared t0 t" using t by (simp add: tables_ok_def)
  then have "spared t0 t'" by (rule spared.entry_batch_law [OF _ del found])
  then show "tables_ok cfg t0 f t'" by (rule tables_okI [OF t _ maintenance_chunks(2) [OF del]])
next
  fix t i n k t' sts
  assume t: "tables_ok cfg t0 f t" and del: "t_delete_warning_batch i n t = Inr (k, t')"
    and found: "status_rows sts i t \<noteq> []" "''complete'' \<notin> set sts"
  have "spared t0 t" using t by (simp add: tables_ok_def)
  then have "spared t0 t'" by (rule spared.warning_batch_law [OF _ del found])
  then show "tables_ok cfg t0 f t'" by (rule tables_okI [OF t _ maintenance_chunks(3) [OF del]])
next
  fix t i x t'
  assume t: "tables_ok cfg t0 f t" and del: "t_delete_snapshot i t = Inr (x, t')"
  have "spared t0 t" using t by (simp add: tables_ok_def)
  then have "spared t0 t'" by (rule spared.delete_snapshot_law [OF _ del])
  then show "tables_ok cfg t0 f t'" by (rule tables_okI [OF t _ maintenance_chunks(4) [OF del]])
qed

section \<open>Procedures that yield a fact\<close>

text \<open>\<open>gives I G m\<close>: \<open>m\<close> keeps \<open>I\<close> on every exit, and a value it returns satisfies \<open>G\<close>.\<close>

definition gives :: "('s \<Rightarrow> bool) \<Rightarrow> ('a \<Rightarrow> bool) \<Rightarrow> ('s, 'a) proc \<Rightarrow> bool" where
  "gives I G m \<longleftrightarrow> (\<forall>s r s'. I s \<longrightarrow> m s = (r, s') \<longrightarrow> I s' \<and> (\<forall>a. r = Inr a \<longrightarrow> G a))"

lemma givesD: "gives I G m \<Longrightarrow> I s \<Longrightarrow> m s = (r, s') \<Longrightarrow> I s' \<and> (\<forall>a. r = Inr a \<longrightarrow> G a)"
  by (simp add: gives_def)

lemma keeps_gives: "keeps I m \<longleftrightarrow> gives I (\<lambda>_. True) m"
  by (simp add: keeps_def gives_def) (metis prod.collapse snd_conv)

lemma gives_bindp:
  assumes m: "gives I G m" and k: "\<And>a. G a \<Longrightarrow> gives I H (k a)"
  shows "gives I H (bindp m k)"
  unfolding gives_def
proof (intro allI impI)
  fix s r s' assume s: "I s" and run: "bindp m k s = (r, s')"
  obtain x u where x: "m s = (x, u)" by fastforce
  note u = givesD [OF m s x]
  show "I s' \<and> (\<forall>a. r = Inr a \<longrightarrow> H a)"
  proof (cases x)
    case (Inl e)
    then show ?thesis using run x u by (auto simp: bindp_def)
  next
    case (Inr a)
    then have "k a u = (r, s')" using run x by (simp add: bindp_def)
    then show ?thesis using givesD [OF k] u Inr by blast
  qed
qed

lemma gives_seqp: "keeps I m \<Longrightarrow> gives I G n \<Longrightarrow> gives I G (seqp m n)"
  unfolding seqp_def keeps_gives by (rule gives_bindp)

lemma keeps_bindp_gives: "gives I G m \<Longrightarrow> (\<And>a. G a \<Longrightarrow> keeps I (k a)) \<Longrightarrow> keeps I (bindp m k)"
  unfolding keeps_gives by (rule gives_bindp)

lemma gives_liftp: "(\<And>a. r = Inr a \<Longrightarrow> G a) \<Longrightarrow> gives I G (liftp r)"
  by (auto simp: gives_def liftp_def)

lemma gives_sql:
  "(\<And>t a t'. I t \<Longrightarrow> f t = Inr (a, t') \<Longrightarrow> I t' \<and> G a) \<Longrightarrow> gives (on_db I) G (sql f)"
  by (auto simp: gives_def sql_def on_db_def committed_def split: option.splits sum.splits prod.splits)

lemma single_row_in: "single_row code m m' rows = Inr a \<Longrightarrow> a \<in> set rows"
  by (auto simp: single_row_def split: list.splits)

lemma create_pending_gives:
  "gives (on_db (tables_ok cfg t0 f)) (\<lambda>i. \<not> snapshot_has_status t0 i [''complete'']) (create_pending_snapshot root msg at_ns)"
  unfolding create_pending_snapshot_def
proof (intro gives_seqp gives_bindp [where G = "\<lambda>rows. \<forall>i \<in> set rows. \<not> snapshot_has_status t0 i [''complete'']"]
    gives_sql keeps_intros)
  fix t x t'
  assume t: "tables_ok cfg t0 f t" and ins: "t_insert_snapshot at_ns root msg t = Inr (x, t')"
  have "spared t0 t" using t by (simp add: tables_ok_def)
  from spared_insert_snapshot [OF this ins] show "tables_ok cfg t0 f t' \<and> (\<forall>i \<in> set x. \<not> snapshot_has_status t0 i [''complete''])"
    using tables_okI [OF t _ recording_chunks(1) [OF ins]] by blast
qed (auto intro!: gives_liftp dest: single_row_in)

lemma insert_entry_gives:
  assumes "\<not> snapshot_has_status t0 i [''complete'']"
  shows "gives (on_db (tables_ok cfg t0 f)) (foreign t0) (insert_entry i e)"
  unfolding insert_entry_def
proof (intro gives_seqp gives_bindp [where G = "\<lambda>rows. \<forall>j \<in> set rows. foreign t0 j"] gives_bindp [where G = "\<lambda>_. True"]
    gives_sql keeps_intros)
  fix n t x t'
  assume t: "tables_ok cfg t0 f t" and ins: "t_insert_entry i e n t = Inr (x, t')"
  have "spared t0 t" using t by (simp add: tables_ok_def)
  from spared_insert_entry [OF this assms ins] show "tables_ok cfg t0 f t' \<and> (\<forall>j \<in> set x. foreign t0 j)"
    using tables_okI [OF t _ recording_chunks(2) [OF ins]] by blast
qed (auto intro!: gives_liftp dest: single_row_in)

lemma tables_ok_recording:
  assumes "tables_ok cfg t0 f t"
  shows "\<not> snapshot_has_status t0 i [''complete''] \<Longrightarrow> t_insert_warning i p c m t = Inr (u, t') \<Longrightarrow> tables_ok cfg t0 f t'"
    and "foreign t0 j \<Longrightarrow> t_insert_entry_chunk j sq h off len t = Inr (u, t') \<Longrightarrow> tables_ok cfg t0 f t'"
    and "t_set_file_hash j h t = Inr (x, t') \<Longrightarrow> is_lowercase_blake3_hex h \<Longrightarrow> tables_ok cfg t0 f t'"
proof -
  have t: "spared t0 t" using assms by (simp add: tables_ok_def)
  show "tables_ok cfg t0 f t'" if "\<not> snapshot_has_status t0 i [''complete'']" "t_insert_warning i p c m t = Inr (u, t')"
    by (rule tables_okI [OF assms spared_insert_warning [OF t that] recording_chunks(5) [OF that(2)]])
  show "tables_ok cfg t0 f t'" if "foreign t0 j" "t_insert_entry_chunk j sq h off len t = Inr (u, t')"
    by (rule tables_okI [OF assms spared_insert_entry_chunk [OF t that] recording_chunks(4) [OF that(2)]])
  show "tables_ok cfg t0 f t'" if "t_set_file_hash j h t = Inr (x, t')" "is_lowercase_blake3_hex h"
    by (rule tables_okI [OF assms spared_set_hash [OF t that] recording_chunks(3) [OF that(1)]])
qed

lemma insert_warning_keeps_tables:
  "\<not> snapshot_has_status t0 i [''complete''] \<Longrightarrow> keeps (on_db (tables_ok cfg t0 f)) (insert_warning i p c m)"
  unfolding insert_warning_def by (intro keeps_intros keeps_sql) (erule (2) tables_ok_recording(1))

lemma insert_entry_chunk_keeps_tables:
  "foreign t0 j \<Longrightarrow> keeps (on_db (tables_ok cfg t0 f)) (insert_entry_chunk j sq h off len)"
  unfolding insert_entry_chunk_def by (intro keeps_intros keeps_sql) (erule (2) tables_ok_recording(2))

lemma set_regular_file_hash_keeps_tables: "keeps (on_db (tables_ok cfg t0 f)) (set_regular_file_hash j h)"
proof (cases "is_lowercase_blake3_hex h")
  case True
  then show ?thesis
    unfolding set_regular_file_hash_def by (intro keeps_intros keeps_sql) (erule (2) tables_ok_recording(3))
qed (simp add: set_regular_file_hash_def guardp_def keeps_raise_lv)

lemma ensure_chunk_spares: "keeps (on_db (spared t0)) (ensure_chunk ch)"
  unfolding ensure_chunk_def by (intro keeps_intros keeps_sql) (erule (1) spared_insert_chunk)

end
