(* ===== verification/Engine_Safety.thy ===== *)
theory Engine_Safety
  imports Engine_Workers Engine_Tables
begin

text \<open>
  The procedures that the threads of a snapshot run keep their part of the contract of the pipeline: the
  objects and the tables stay good, complete snapshots are spared, and the results under way keep their
  spools.
\<close>

section \<open>The shared state\<close>

definition caches_good :: "os_config \<Rightarrow> fs \<Rightarrow> (nat \<Rightarrow> (string \<times> StoredObject) list) \<Rightarrow> bool" where
  "caches_good cfg f caches \<longleftrightarrow> (\<forall>k. \<forall>(h, x) \<in> set (caches k). so_hash_hex x = h \<and> good_object cfg f x)"

lemma caches_good_extends: "caches_good cfg f caches \<Longrightarrow> fs_extends f f' \<Longrightarrow> caches_good cfg f' caches"
  using good_object_extends unfolding caches_good_def by fast

definition engine_ok :: "os_config \<Rightarrow> tables \<Rightarrow> engine \<Rightarrow> bool" where
  "engine_ok cfg t0 e \<longleftrightarrow> fs_ok (eg_fs e) \<and>
     caches_good cfg (eg_fs e) (eg_caches e) \<and>
     on_db (tables_ok cfg t0 (eg_fs e)) (r_conn (eg_repository e))"

definition spools_kept :: "worker_env \<Rightarrow> ProcessedEntry multiset \<Rightarrow> fs \<Rightarrow> bool" where
  "spools_kept wenv M f \<longleftrightarrow> (\<forall>r \<in># M. spooled wenv f r) \<and>
     (\<forall>p. count (image_mset pr_chunk_references M) (Some p) \<le> 1)"

definition sound_engine :: "os_config \<Rightarrow> worker_env \<Rightarrow> tables \<Rightarrow> ProcessedEntry multiset \<Rightarrow> engine \<Rightarrow> bool" where
  "sound_engine cfg wenv t0 M e \<longleftrightarrow> engine_ok cfg t0 e \<and> spools_kept wenv M (eg_fs e)"

lemma tables_ok_extends: "tables_ok cfg t0 f t \<Longrightarrow> fs_extends f f' \<Longrightarrow> tables_ok cfg t0 f' t"
  using rows_good_extends by (auto simp: tables_ok_def)

lemma engine_ok_extends:
  assumes "engine_ok cfg t0 e" and "fs_ok f" and "fs_extends (eg_fs e) f"
  shows "engine_ok cfg t0 (e\<lparr>eg_fs := f\<rparr>)"
  using assms tables_ok_extends [OF _ assms(3)] caches_good_extends [OF _ assms(3)]
  by (simp add: engine_ok_def on_db_def)

lemma spools_kept_stable:
  assumes "spools_kept wenv M f" and "fs_extends f f'"
    and "\<And>p c. temporary_path p \<Longrightarrow> Some p \<in># image_mset pr_chunk_references M \<Longrightarrow> holds p c f \<Longrightarrow> holds p c f'"
  shows "spools_kept wenv M f'"
proof -
  have "spooled wenv f' r" if r: "r \<in># M" for r
  proof (rule spooled_stable [OF _ assms(2)])
    show s: "spooled wenv f r" using assms(1) r by (simp add: spools_kept_def)
    show "holds p c f'" if "pr_chunk_references r = Some p" "holds p c f" for p c
      using assms(3) [OF spooled_temporary [OF s that(1)] _ that(2)] r that(1) by force
  qed
  then show ?thesis using assms(1) by (simp add: spools_kept_def)
qed

lemma spools_kept_fewer: "spools_kept wenv (add_mset r M) f \<Longrightarrow> spools_kept wenv M f"
proof -
  assume kept: "spools_kept wenv (add_mset r M) f"
  have "count (image_mset pr_chunk_references M) x \<le> count (image_mset pr_chunk_references (add_mset r M)) x" for x
    by simp
  then have "count (image_mset pr_chunk_references M) (Some p) \<le> 1" for p
    using kept unfolding spools_kept_def by (meson le_trans)
  then show ?thesis using kept by (simp add: spools_kept_def)
qed

section \<open>Operations on parts of the state\<close>

lemma sound_fields [simp]:
  "sound_engine cfg wenv t0 M (e\<lparr>eg_totals := x\<rparr>) = sound_engine cfg wenv t0 M e"
  "sound_engine cfg wenv t0 M (e\<lparr>eg_skipped := y\<rparr>) = sound_engine cfg wenv t0 M e"
  "sound_engine cfg wenv t0 M (e\<lparr>eg_batch_record_count := n\<rparr>) = sound_engine cfg wenv t0 M e"
  "sound_engine cfg wenv t0 M (e\<lparr>eg_batch_logical_bytes := n\<rparr>) = sound_engine cfg wenv t0 M e"
  "sound_engine cfg wenv t0 M (e\<lparr>eg_batch_has_records := b\<rparr>) = sound_engine cfg wenv t0 M e"
  by (simp_all add: sound_engine_def engine_ok_def)

lemma sound_metadata_gives:
  assumes "\<And>f. gives (on_db (tables_ok cfg t0 f)) G m"
  shows "gives (sound_engine cfg wenv t0 M) G (in_metadata m)"
  unfolding gives_def
proof (intro allI impI)
  fix e r e' assume e: "sound_engine cfg wenv t0 M e" and run: "in_metadata m e = (r, e')"
  obtain x c where x: "m (r_conn (eg_repository e)) = (x, c)" by fastforce
  have "on_db (tables_ok cfg t0 (eg_fs e)) c \<and> (\<forall>a. x = Inr a \<longrightarrow> G a)"
    using givesD [OF assms _ x, of "eg_fs e"] e by (simp add: sound_engine_def engine_ok_def)
  then show "sound_engine cfg wenv t0 M e' \<and> (\<forall>a. r = Inr a \<longrightarrow> G a)"
    using run x e by (auto simp: in_repo_def in_conn_def sound_engine_def engine_ok_def)
qed

lemma sound_metadata:
  "(\<And>f. keeps (on_db (tables_ok cfg t0 f)) m) \<Longrightarrow> keeps (sound_engine cfg wenv t0 M) (in_metadata m)"
  unfolding keeps_gives by (rule sound_metadata_gives)

lemma sound_aside [keeps_intros]:
  "keeps (sound_engine cfg wenv t0 M) (in_progress m)" "keeps (sound_engine cfg wenv t0 M) check_pipeline"
  "keeps (sound_engine cfg wenv t0 M) check_caller" "keeps (sound_engine cfg wenv t0 M) now_ns"
  by (auto simp: keeps_def in_progress_def check_pipeline_def check_caller_def now_ns_def sound_engine_def
      engine_ok_def split: prod.split)

lemma sound_interfere:
  assumes "sound_engine cfg wenv t0 M e"
  shows "sound_engine cfg wenv t0 M (e\<lparr>eg_fs := interfere (eg_fs e)\<rparr>)"
proof -
  have f: "fs_ok (interfere (eg_fs e))" "fs_extends (eg_fs e) (interfere (eg_fs e))"
    using interfere_evolves [of "eg_fs e"] assms by (simp_all add: sound_engine_def engine_ok_def)
  have "engine_ok cfg t0 (e\<lparr>eg_fs := interfere (eg_fs e)\<rparr>)"
    using engine_ok_extends [OF _ f] assms by (simp add: sound_engine_def)
  moreover have "spools_kept wenv M (interfere (eg_fs e))"
    by (rule spools_kept_stable [OF _ f(2)]) (use assms in \<open>simp_all add: sound_engine_def\<close>)
  ultimately show ?thesis by (simp add: sound_engine_def)
qed

lemma spool_call_interferes: "snd (spool_call message op f) = interfere f"
  by (simp add: spool_call_def Let_def split: option.split)

lemma sound_spool_call [keeps_intros]: "keeps (sound_engine cfg wenv t0 M) (in_disk (spool_call message op))"
proof (rule keepsI)
  fix e r e' assume e: "sound_engine cfg wenv t0 M e" and run: "in_disk (spool_call message op) e = (r, e')"
  have "e' = e\<lparr>eg_fs := interfere (eg_fs e)\<rparr>"
    using run spool_call_interferes [of message op "eg_fs e"] by (auto simp: in_disk_def split: prod.splits)
  then show "sound_engine cfg wenv t0 M e'" using sound_interfere [OF e] by simp
qed

section \<open>Objects and workers\<close>

lemma engine_ok_view: "engine_ok cfg t0 e \<Longrightarrow> store_inv cfg (store_view k e)"
  by (auto simp: engine_ok_def store_inv_def store_view_def known_good_def caches_good_def on_db_def tables_ok_def)

lemma engine_ok_put:
  assumes e: "engine_ok cfg t0 e" and s: "reaches cfg (store_view k e) s" and spare: "on_db (spared t0) (os_conn s)"
  shows "engine_ok cfg t0 (put_store k s e)"
proof -
  have f: "fs_extends (eg_fs e) (os_fs s)" "fs_ok (os_fs s)" "on_db (rows_good cfg (os_fs s)) (os_conn s)"
    "known_good cfg s"
    using s by (simp_all add: reaches_def store_inv_def store_view_def)
  have "caches_good cfg (os_fs s) (eg_caches e)" using e caches_good_extends [OF _ f(1)] by (simp add: engine_ok_def)
  then have "caches_good cfg (os_fs s) ((eg_caches e)(k := os_known s))"
    using f(4) by (simp add: caches_good_def known_good_def)
  then show ?thesis using f spare by (simp add: engine_ok_def put_store_def on_db_def tables_ok_def)
qed

lemma sound_ensure_metadata:
  assumes e: "sound_engine cfg wenv t0 M e" and good: "good_object cfg (eg_fs e) obj"
    and run: "in_objects 0 (ensure_metadata (cfg\<lparr>oc_metadata := b\<rparr>) obj) e = (r, e')"
  shows "sound_engine cfg wenv t0 M e'"
proof -
  let ?m = "ensure_metadata (cfg\<lparr>oc_metadata := b\<rparr>) obj"
  have ok: "engine_ok cfg t0 e" using e by (simp add: sound_engine_def)
  obtain x s where x: "?m (store_view 0 e) = (x, s)" by fastforce
  have "triple (cfg\<lparr>oc_metadata := b\<rparr>) ?m (\<lambda>_ _. True) (store_view 0 e)"
    by (rule ensure_metadata_triple) (simp add: good store_view_def)
  then have reach: "reaches cfg (store_view 0 e) s"
    using engine_ok_view [OF ok] x by (cases x) (simp_all add: triple_def wp_def)
  have spare: "keeps (store_conn (on_db (spared t0))) ?m"
    unfolding ensure_metadata_def by (intro keeps_intros ensure_chunk_spares)
  have "on_db (spared t0) (os_conn s)"
    using keepsD [OF spare _ x] ok by (simp add: store_conn_def store_view_def engine_ok_def on_db_def tables_ok_def)
  then have "engine_ok cfg t0 (put_store 0 s e)" by (rule engine_ok_put [OF ok reach])
  moreover have "spools_kept wenv M (os_fs s)"
  proof (rule spools_kept_stable)
    show "spools_kept wenv M (eg_fs e)" using e by (simp add: sound_engine_def)
    show "fs_extends (eg_fs e) (os_fs s)" using reach by (simp add: reaches_def store_view_def)
    show "holds p c (os_fs s)" if "holds p c (eg_fs e)" for p c
      using keepsD [OF store_holds_ensure_metadata _ x] that by (simp add: store_holds_def store_view_def)
  qed
  ultimately show ?thesis using run x by (simp add: in_objects_def sound_engine_def) (auto simp: put_store_def)
qed

lemma sound_work:
  assumes cfg: "config_ok cfg" and wenv: "we_config wenv = cfg\<lparr>oc_metadata := False\<rparr>"
    and e: "sound_engine cfg wenv t0 M e" and run: "as_worker i (process_job wenv job) e = (r, e')"
  shows "sound_engine cfg wenv t0 M e'"
    and "r = Inr result \<Longrightarrow> answers wenv job result \<and> in_temporary_tree result \<and>
      sound_engine cfg wenv t0 (add_mset result M) e'"
proof -
  let ?w = "\<lparr>wk_store = store_view (Suc i) e, wk_stop = eg_stop e, wk_polls = eg_polls e, wk_bytes_read = 0,
      wk_sequence = 0, wk_new_chunk_count = 0, wk_hashed = [], wk_callback_error = None\<rparr>"
  obtain w where w: "process_job wenv job ?w = (r, w)" and e': "e' = (put_store (Suc i) (wk_store w) e)\<lparr>eg_polls := wk_polls w\<rparr>"
    using run by (auto simp: as_worker_def split: prod.splits)
  have ok: "engine_ok cfg t0 e" using e by (simp add: sound_engine_def)
  have laws: "reaches cfg (store_view (Suc i) e) (wk_store w)"
    "r = Inr result \<Longrightarrow> answers wenv job result \<and> spooled wenv (os_fs (wk_store w)) result"
    using process_job_laws [OF _ _ w] cfg engine_ok_view [OF ok] by (simp_all add: wenv)
  have "on_db (spared t0) (os_conn (wk_store w))"
    using keepsD [OF worker_conn_job [where P = "on_db (spared t0)"] _ w] ok
    by (simp add: worker_conn_def store_conn_def store_view_def wenv engine_ok_def on_db_def tables_ok_def)
  from engine_ok_put [OF ok laws(1) this] have ok': "engine_ok cfg t0 e'" by (simp add: e' engine_ok_def)
  have fs: "eg_fs e' = os_fs (wk_store w)" by (simp add: e' put_store_def)
  have frame: "holds p c (eg_fs e') \<and> (\<forall>result. r = Inr result \<longrightarrow> pr_chunk_references result \<noteq> Some p)"
    if "temporary_path p" "holds p c (eg_fs e)" for p c
    using process_job_frame [OF w that(1), of c] that(2) by (simp add: worker_holds_def store_holds_def store_view_def fs)
  have kept: "spools_kept wenv M (eg_fs e)" using e by (simp add: sound_engine_def)
  have spools: "spools_kept wenv M (eg_fs e')"
    by (rule spools_kept_stable [OF kept]) (use laws(1) frame in \<open>auto simp: reaches_def store_view_def fs\<close>)
  then show "sound_engine cfg wenv t0 M e'" using ok' by (simp add: sound_engine_def)
  assume r: "r = Inr result"
  have fresh: "Some p \<notin># image_mset pr_chunk_references M" if p: "pr_chunk_references result = Some p" for p
  proof
    assume "Some p \<in># image_mset pr_chunk_references M"
    then obtain x where x: "x \<in># M" "pr_chunk_references x = Some p" by auto
    then have s: "spooled wenv (eg_fs e) x" using kept by (simp add: spools_kept_def)
    then obtain c where "holds p c (eg_fs e)"
      using x(2) by (auto simp: spooled_def describes_def holds_def split: sum.splits if_splits)
    then show False using frame [OF spooled_temporary [OF s x(2)]] r p by blast
  qed
  have "spools_kept wenv (add_mset result M) (eg_fs e')"
    using spools laws(2) [OF r] fresh [unfolded not_in_iff] by (auto simp: spools_kept_def fs)
  then show "answers wenv job result \<and> in_temporary_tree result \<and> sound_engine cfg wenv t0 (add_mset result M) e'"
    using ok' laws(2) [OF r] spooled_temporary by (auto simp: sound_engine_def in_temporary_tree_def)
qed

section \<open>The writer\<close>

text \<open>What a spool gives back.\<close>

lemma described_good:
  "described cfg f n cs rs \<Longrightarrow> x \<in> set rs \<Longrightarrow> well_sized x \<and> good_object cfg f (referenced_object x)"
  by (induction cfg f n cs rs rule: described.induct) (auto split: list.splits)

lemma record_block:
  "(\<And>x. x \<in> set rs \<Longrightarrow> well_sized x) \<Longrightarrow> k < length rs \<Longrightarrow>
   take 104 (drop (104 * k) (concat (map record_bytes rs))) = record_bytes (rs ! k)"
proof (induction rs arbitrary: k)
  case (Cons x rs)
  have x: "length (record_bytes x) = 104" using Cons.prems(1) length_record_bytes by simp
  show ?case
  proof (cases k)
    case 0
    then show ?thesis using x by simp
  next
    case (Suc j)
    then have "drop (104 * k) (concat (map record_bytes (x # rs))) = drop (104 * j) (concat (map record_bytes rs))"
      using x by simp
    then show ?thesis using Cons.IH [of j] Cons.prems Suc by simp
  qed
qed simp

lemma well_sized_round_trip: "well_sized x \<Longrightarrow> record_of_bytes (record_bytes x) = x"
proof -
  assume "well_sized x"
  then have x: "length (crr_hash_hex x) = 64" "0 \<le> crr_sequence_number x" "crr_sequence_number x \<le> int64_max"
    by (simp_all add: well_sized_def)
  have "length bytes64 = 64 \<Longrightarrow> length a = 8 \<Longrightarrow> length b = 8 \<Longrightarrow> length c = 8 \<Longrightarrow> length d = 8 \<Longrightarrow> e \<noteq> [] \<Longrightarrow>
      record_of_bytes (bytes64 @ a @ b @ c @ d @ e) =
      \<lparr>crr_hash_hex = map (\<lambda>b. char_of (unat b)) bytes64, crr_raw_offset = of_le64 a,
       crr_sequence_number = sint (of_le64 b), crr_raw_size = of_le64 c, crr_stored_size = of_le64 d,
       crr_newly_stored = hd e\<rparr>" for bytes64 a b c d e
    by (simp add: record_of_bytes_def nth_append hd_conv_nth)
  then show ?thesis using x by (simp add: record_bytes_def le64_round_trip sequence_round_trip comp_def byte_char)
qed

lemma spool_read_good:
  assumes s: "spooled wenv f r" and spool: "pr_chunk_references r = Some spool" and k: "k < unat (pr_chunk_count r)"
    and read: "spool_read spool (104 * k) f = (Inr x, f')"
  shows "good_object (we_config wenv) f (referenced_object x)"
proof -
  obtain scanned where "describes wenv scanned r f"
    using s spool by (auto simp: spooled_def split: sum.splits if_splits)
  then obtain rs cs where rs: "files f spool = Some (concat (map record_bytes rs))" "length rs = unat (pr_chunk_count r)"
    "described (we_config wenv) f 0 cs rs"
    using spool unfolding describes_def by auto
  note good = described_good [OF rs(3)]
  have "files (interfere f) spool = Some (concat (map record_bytes rs))"
    using holds_interfere [of spool _ f] rs(1) by (simp add: holds_def)
  then have "x = record_of_bytes (take 104 (drop (104 * k) (concat (map record_bytes rs))))"
    using read by (auto simp: spool_read_def spool_call_def Let_def split: option.splits if_splits)
  then have "x = rs ! k" using record_block [of rs k] good k rs(2) by (simp add: well_sized_round_trip)
  then show ?thesis using good k rs(2) by simp
qed

lemma referenced_fields [simp]:
  "so_hash_hex (referenced_object x) = crr_hash_hex x" "so_raw_size (referenced_object x) = crr_raw_size x"
  by (simp_all add: referenced_object_def)

lemma record_reference_sound:
  assumes e: "sound_engine (ee_config env) wenv t0 M e" and j: "foreign t0 j"
    and good: "good_object (ee_config env) (eg_fs e) (referenced_object chunk)"
    and run: "record_reference env j chunk e = (res, e')"
  shows "sound_engine (ee_config env) wenv t0 M e'"
proof (cases "object_relative_path (crr_hash_hex chunk)")
  case (Inl err)
  then show ?thesis using run e by (simp add: record_reference_def bindp_def liftp_def)
next
  case (Inr relative_path)
  let ?I = "sound_engine (ee_config env) wenv t0 M" and ?obj = "referenced_object chunk"
  have "relative_path = derived_path (crr_hash_hex chunk)"
    using Inr by (auto simp: object_relative_path_def bindE_Inr_iff)
  then have obj: "\<lparr>so_hash_hex = crr_hash_hex chunk, so_relative_path = relative_path, so_raw_size = crr_raw_size chunk,
      so_stored_size = crr_stored_size chunk, so_newly_stored = (crr_newly_stored chunk \<noteq> 0)\<rparr> = ?obj"
    by (simp add: referenced_object_def)
  let ?after = "seqp (in_metadata (insert_entry_chunk j (crr_sequence_number chunk) (so_hash_hex ?obj) (crr_raw_offset chunk)
      (so_raw_size ?obj))) (count_chunk ?obj)"
  have after: "keeps ?I ?after"
    unfolding count_chunk_def by (intro keeps_intros sound_metadata insert_entry_chunk_keeps_tables j) simp_all
  obtain z e1 where z: "in_objects 0 (ensure_metadata ((ee_config env)\<lparr>oc_metadata := True\<rparr>) ?obj) e = (z, e1)"
    by fastforce
  have e1: "?I e1" by (rule sound_ensure_metadata [OF e good z])
  show ?thesis
  proof (cases z)
    case zl: (Inl err)
    then show ?thesis using run Inr obj z e1 by (simp add: record_reference_def bindp_def liftp_def seqp_def Let_def)
  next
    case zr: (Inr u)
    then have "?after e1 = (res, e')"
      using run Inr obj z by (simp add: record_reference_def bindp_def liftp_def seqp_def Let_def)
    then show ?thesis by (rule keepsD [OF after e1])
  qed
qed

lemma sound_write_reference:
  assumes wenv: "we_config wenv = (ee_config env)\<lparr>oc_metadata := False\<rparr>"
    and r: "r \<in># M" "pr_chunk_references r = Some spool" "k < unat (pr_chunk_count r)" and j: "foreign t0 j"
  shows "keeps (sound_engine (ee_config env) wenv t0 M) (write_reference env j spool k)"
proof -
  let ?I = "sound_engine (ee_config env) wenv t0 M" and ?read = "in_disk (spool_read spool (104 * k))"
  have "keeps ?I (bindp ?read (record_reference env j))"
  proof (rule keepsI)
    fix e res e' assume e: "?I e" and run: "bindp ?read (record_reference env j) e = (res, e')"
    obtain y f where y: "spool_read spool (104 * k) (eg_fs e) = (y, f)" by fastforce
    moreover have "snd (spool_read spool (104 * k) (eg_fs e)) = interfere (eg_fs e)"
      by (simp add: spool_read_def spool_call_interferes)
    ultimately have f: "f = interfere (eg_fs e)" by simp
    let ?e1 = "e\<lparr>eg_fs := f\<rparr>"
    have e1: "?I ?e1" using sound_interfere [OF e] f by simp
    show "?I e'"
    proof (cases y)
      case (Inl err)
      then show ?thesis using run y e1 by (simp add: bindp_def in_disk_def)
    next
      case (Inr chunk)
      have "good_object (ee_config env) (eg_fs e) (referenced_object chunk)"
        using spool_read_good [OF _ r(2,3) y [unfolded Inr], of wenv] e r(1) by (simp add: sound_engine_def spools_kept_def wenv)
      moreover have "fs_extends (eg_fs e) f" using interfere_evolves e f by (simp add: sound_engine_def engine_ok_def)
      ultimately have good: "good_object (ee_config env) (eg_fs ?e1) (referenced_object chunk)"
        using good_object_extends by simp
      have "record_reference env j chunk ?e1 = (res, e')" using run y Inr by (simp add: bindp_def in_disk_def)
      then show ?thesis by (rule record_reference_sound [OF e1 j good])
    qed
  qed
  then show ?thesis unfolding write_reference_def by (intro keeps_seqp sound_aside)
qed

lemma sound_iterp: "(\<And>k. k \<in> set ks \<Longrightarrow> keeps I (g k)) \<Longrightarrow> keeps I (iterp g ks)"
  by (induction ks) (auto intro!: keeps_intros)

lemma sound_begin_batch [keeps_intros]: "keeps (sound_engine cfg wenv t0 M) begin_batch"
  unfolding begin_batch_def by (intro keeps_intros sound_metadata) simp_all

lemma sound_commit_batch [keeps_intros]: "keeps (sound_engine cfg wenv t0 M) commit_batch"
  unfolding commit_batch_def by (intro keeps_intros sound_metadata)

lemma sound_flush_batch: "keeps (sound_engine cfg wenv t0 M) flush_batch"
  unfolding flush_batch_def by (intro keeps_intros sound_metadata)

lemma sound_record_references:
  assumes "we_config wenv = (ee_config env)\<lparr>oc_metadata := False\<rparr>" and "r \<in># M" and "foreign t0 j"
    and "pr_chunk_references r = Some spool"
  shows "keeps (sound_engine (ee_config env) wenv t0 M) (record_references env j spool r)"
proof -
  have "keeps (sound_engine (ee_config env) wenv t0 M)
      (iterp (write_reference env j spool) [0..<unat (pr_chunk_count r)])"
    by (intro sound_iterp sound_write_reference [OF assms(1,2,4)] assms(3)) simp
  then show ?thesis
    unfolding record_references_def rewind_for_reading_def
    by (intro keeps_seqp sound_spool_call sound_metadata set_regular_file_hash_keeps_tables)
qed

lemma sound_record_kind:
  assumes "we_config wenv = (ee_config env)\<lparr>oc_metadata := False\<rparr>" and "r \<in># M" and "foreign t0 j"
  shows "keeps (sound_engine (ee_config env) wenv t0 M) (record_kind env j entry r)"
proof -
  have "keeps (sound_engine (ee_config env) wenv t0 M) (case pr_chunk_references r of
      None \<Rightarrow> raise_lv E_internal_error ''regular file result is missing its chunk spool''
    | Some spool \<Rightarrow> record_references env j spool r)"
    using sound_record_references [OF assms] by (auto intro!: keeps_intros split: option.split)
  then have "keeps (sound_engine (ee_config env) wenv t0 M) (write_regular_file env j entry r)"
    unfolding write_regular_file_def by (intro keeps_bindp keeps_seqp keeps_gets keeps_liftp keeps_modifyp) simp_all
  then show ?thesis unfolding record_kind_def by (cases "se_type entry") (auto intro!: keeps_intros)
qed

lemma sound_count_record: "keeps (sound_engine cfg wenv t0 M) (count_record entry)"
  unfolding count_record_def by (intro keeps_intros) simp_all

lemma sound_write_entry:
  assumes "we_config wenv = (ee_config env)\<lparr>oc_metadata := False\<rparr>" and "r \<in># M"
    and "\<not> snapshot_has_status t0 sid [''complete'']"
  shows "keeps (sound_engine (ee_config env) wenv t0 M) (write_entry env sid entry r)"
  unfolding write_entry_def
  by (intro keeps_seqp sound_aside keeps_bindp_gives [where G = "foreign t0"] sound_metadata_gives
      insert_entry_gives sound_record_kind sound_count_record assms)

lemma sound_write_warning:
  "\<not> snapshot_has_status t0 sid [''complete''] \<Longrightarrow> keeps (sound_engine cfg wenv t0 M) (write_warning sid warning)"
  unfolding write_warning_def by (intro keeps_intros sound_metadata insert_warning_keeps_tables) simp_all

lemma sound_dispose:
  assumes "sound_engine cfg wenv t0 (add_mset r M) e"
  shows "sound_engine cfg wenv t0 M (dispose r e)"
proof (cases "pr_chunk_references r")
  case None
  then show ?thesis using assms spools_kept_fewer by (auto simp: dispose_def sound_engine_def)
next
  case (Some spool)
  have kept: "spools_kept wenv (add_mset r M) (eg_fs e)" and ok: "engine_ok cfg t0 e"
    using assms by (simp_all add: sound_engine_def)
  have "spooled wenv (eg_fs e) r" using kept by (simp add: spools_kept_def)
  then have temporary: "temporary_path spool" using spooled_temporary Some by blast
  have f: "fs_ok (drop_temporary spool (eg_fs e))" "fs_extends (eg_fs e) (drop_temporary spool (eg_fs e))"
    using drop_temporary_evolves [OF temporary] ok by (simp_all add: engine_ok_def)
  have "count (image_mset pr_chunk_references (add_mset r M)) (Some spool) \<le> 1"
    using kept by (simp only: spools_kept_def)
  then have "count (image_mset pr_chunk_references M) (Some spool) = 0" using Some by simp
  then have other: "spool \<noteq> p" if "Some p \<in># image_mset pr_chunk_references M" for p
    using that by (metis not_in_iff)
  have "spools_kept wenv M (drop_temporary spool (eg_fs e))"
    by (rule spools_kept_stable [OF spools_kept_fewer [OF kept] f(2)]) (use other in \<open>auto simp: holds_drop_temporary\<close>)
  then show ?thesis using engine_ok_extends [OF ok f] Some by (simp add: dispose_def sound_engine_def)
qed

lemma sound_write_result:
  assumes "we_config wenv = (ee_config env)\<lparr>oc_metadata := False\<rparr>" and "\<not> snapshot_has_status t0 sid [''complete'']"
    and e: "sound_engine (ee_config env) wenv t0 (add_mset r M) e"
  shows "sound_engine (ee_config env) wenv t0 M (snd (write_result env sid r e))"
proof -
  let ?body = "seqp (case pr_value r of Inr warning \<Rightarrow> write_warning sid warning | Inl entry \<Rightarrow> write_entry env sid entry r)
      (bindp (gets (\<lambda>e. ee_batch_entry_limit env \<le> eg_batch_record_count e \<or>
                        ee_batch_logical_byte_limit env \<le> eg_batch_logical_bytes e)) (\<lambda>full.
        if full then commit_batch else ret ()))"
  have "keeps (sound_engine (ee_config env) wenv t0 (add_mset r M)) ?body"
    by (intro keeps_intros) (auto intro!: sound_write_entry sound_write_warning keeps_intros assms(1,2) split: sum.split)
  moreover obtain x e' where run: "?body e = (x, e')" by fastforce
  ultimately have "sound_engine (ee_config env) wenv t0 (add_mset r M) e'" using e keepsD by fast
  then have "sound_engine (ee_config env) wenv t0 M (dispose r e')" by (rule sound_dispose)
  then show ?thesis using run by (simp add: write_result_def)
qed

section \<open>The contract of the pipeline\<close>

definition engine_sound ::
  "engine_env \<Rightarrow> SnapshotOptions \<Rightarrow> tables \<Rightarrow> SnapshotId \<Rightarrow> ProcessedEntry multiset \<Rightarrow> engine \<Rightarrow> bool" where
  "engine_sound env options t0 sid M e \<longleftrightarrow> config_ok (ee_config env) \<and> \<not> snapshot_has_status t0 sid [''complete''] \<and>
     sound_engine (ee_config env) (worker_environment env options) t0 M e"

definition job_answered :: "engine_env \<Rightarrow> SnapshotOptions \<Rightarrow> FileJob \<Rightarrow> ProcessedEntry \<Rightarrow> bool" where
  "job_answered env options job result \<longleftrightarrow>
     answers (worker_environment env options) job result \<and> in_temporary_tree result"

lemma worker_config: "we_config (worker_environment env options) = (ee_config env)\<lparr>oc_metadata := False\<rparr>"
  by (simp add: worker_environment_def)

lemma engine_sound_keeps:
  "keeps (sound_engine (ee_config env) (worker_environment env options) t0 M) m \<Longrightarrow> keeps (engine_sound env options t0 sid M) m"
  by (simp add: keeps_def engine_sound_def)

lemma work_on_sound:
  assumes e: "engine_sound env options t0 sid M e" and run: "work_on env options i job e = (r, e')"
  shows "case r of Inr result \<Rightarrow> job_answered env options job result \<and> engine_sound env options t0 sid (add_mset result M) e'
    | Inl _ \<Rightarrow> engine_sound env options t0 sid M e'"
proof -
  let ?I = "sound_engine (ee_config env) (worker_environment env options) t0"
  obtain x e1 where x: "as_worker i (process_job (worker_environment env options) job) e = (x, e1)" by fastforce
  have cfg: "config_ok (ee_config env)" and sid: "\<not> snapshot_has_status t0 sid [''complete'']" and e0: "?I M e"
    using e by (simp_all add: engine_sound_def)
  note work = sound_work [OF cfg worker_config e0 x]
  show ?thesis
  proof (cases x)
    case (Inl err)
    then show ?thesis using run x work(1) cfg sid by (auto simp: work_on_def bindp_def engine_sound_def)
  next
    case (Inr result)
    let ?report = "case pr_value result of
        Inl completed \<Rightarrow> in_progress (record_processed completed (pr_new_chunk_count result)
          (pr_chunk_count result - pr_new_chunk_count result)) | Inr warning \<Rightarrow> ret ()"
    have keep: "keeps (?I N) (seqp ?report (ret result))" for N
      by (intro keeps_seqp) (auto intro!: keeps_intros split: sum.split)
    have tail: "seqp ?report (ret result) e1 = (r, e')" using run x Inr by (simp add: work_on_def bindp_def)
    have "?I M e'" "?I (add_mset result M) e'"
      using keepsD [OF keep _ tail] work(1) work(2) [OF Inr] by blast+
    moreover have "r = Inr result" if "r = Inr a" for a
      using tail that by (auto simp: seqp_def bindp_def ret_def split: prod.splits sum.splits)
    ultimately show ?thesis
      using work(2) [OF Inr] cfg sid by (auto simp: engine_sound_def job_answered_def split: sum.split)
  qed
qed

lemma engine_code_sound:
  "keeps (engine_sound env options t0 sid M) (cd_discover (engine_code env options source sid) j)"
  "keeps (engine_sound env options t0 sid M) (cd_scanned (engine_code env options source sid))"
  "keeps (engine_sound env options t0 sid M) (cd_cancel (engine_code env options source sid))"
  "keeps (engine_sound env options t0 sid M) (cd_abandon (engine_code env options source sid))"
  "keeps (engine_sound env options t0 sid M) (cd_begin (engine_code env options source sid))"
  "keeps (engine_sound env options t0 sid M) (cd_flush (engine_code env options source sid))"
  by (auto simp: engine_code_def discover_def split: sum.split
      intro!: engine_sound_keeps keeps_intros sound_metadata sound_flush_batch)

lemma engine_write_sound:
  "engine_sound env options t0 sid (add_mset r M) s \<Longrightarrow>
   engine_sound env options t0 sid M (snd (cd_write (engine_code env options source sid) r s))"
  using sound_write_result [OF worker_config] by (simp add: engine_code_def engine_sound_def)

lemma engine_sound_fewer: "engine_sound env options t0 sid (add_mset r M) s \<Longrightarrow> engine_sound env options t0 sid M s"
  using spools_kept_fewer by (auto simp: engine_sound_def sound_engine_def)

text \<open>While nothing fails the contract asks for no more than what always holds.\<close>

interpretation engine_contract: pipeline_contract "engine_code env options source sid"
  "\<lambda>phase written. engine_sound env options t0 sid" "engine_sound env options t0 sid" "job_answered env options"
  for env options source sid t0
proof unfold_locales
  fix M s i j
  assume "engine_sound env options t0 sid M s"
  then show "wp (cd_work (engine_code env options source sid) i j)
      (\<lambda>r. engine_sound env options t0 sid (add_mset r M)) (\<lambda>_. engine_sound env options t0 sid M) s"
    using work_on_sound by (fastforce simp: wp_def engine_code_def split: prod.split sum.split)
next
  fix M s i j r s'
  assume "engine_sound env options t0 sid M s" "cd_work (engine_code env options source sid) i j s = (Inr r, s')"
  then show "engine_sound env options t0 sid (add_mset r M) s'" "job_answered env options j r"
    using work_on_sound [of env options t0 sid M s i j "Inr r" s'] by (simp_all add: engine_code_def)
next
  fix M s u s'
  assume "engine_sound env options t0 sid M s" "cd_begin (engine_code env options source sid) s = (Inr u, s')"
  then show "engine_sound env options t0 sid M s'" using keepsD [OF engine_code_sound(5)] by fast
next
  fix M s u s'
  assume "engine_sound env options t0 sid M s" "cd_flush (engine_code env options source sid) s = (Inr u, s')"
  then show "engine_sound env options t0 sid M s'" using keepsD [OF engine_code_sound(6)] by fast
next
  fix r M s u s'
  assume "engine_sound env options t0 sid (add_mset r M) s" "cd_write (engine_code env options source sid) r s = (Inr u, s')"
  then show "engine_sound env options t0 sid M s'" using engine_write_sound by (metis snd_conv)
qed (assumption | rule engine_code_sound | erule engine_sound_fewer engine_write_sound)+

end
