(* ===== verification/Engine_Snapshot.thy ===== *)
theory Engine_Snapshot
  imports Engine_Safety Publication
begin

text \<open>
  A whole call of \<^verbatim>\<open>create_snapshot\<close>: whatever fails, and however the threads interleave, complete
  snapshots and stored objects are untouched, and a new complete snapshot appears exactly when the call
  returns.
\<close>

section \<open>The number of workers\<close>

lemma default_worker_count_bounds: "1 \<le> default_worker_count h \<and> default_worker_count h \<le> 16"
  by (simp add: default_worker_count_def Let_def max_def min_def)

lemma resolved_worker_count_bounds: "1 \<le> unat (resolved_worker_count h n) \<and> unat (resolved_worker_count h n) \<le> 16"
proof (cases "n = 0")
  case True
  have "unat (1 :: u32) \<le> unat (default_worker_count h)" "unat (default_worker_count h) \<le> unat (16 :: u32)"
    using default_worker_count_bounds [of h] by (simp_all only: word_le_nat_alt)
  then show ?thesis using True by (simp add: resolved_worker_count_def)
next
  case False
  let ?m = "max 1 (min n 16)"
  have m: "unat (1 :: size_t) \<le> unat ?m" "unat ?m \<le> unat (16 :: size_t)"
    by (simp_all only: word_le_nat_alt [symmetric]) auto
  then have "unat (ucast ?m :: u32) = unat ?m" by (simp add: unsigned_ucast_eq take_bit_nat_eq_self_iff)
  then show ?thesis using False m by (simp add: resolved_worker_count_def)
qed

section \<open>The pipeline of a snapshot\<close>

lemma engine_ok_fields [simp]:
  "engine_ok cfg t0 (e\<lparr>eg_progress := a\<rparr>) = engine_ok cfg t0 e"
  "engine_ok cfg t0 (e\<lparr>eg_totals := x\<rparr>) = engine_ok cfg t0 e"
  "engine_ok cfg t0 (e\<lparr>eg_cancel_polls := n\<rparr>) = engine_ok cfg t0 e"
  "engine_ok cfg t0 (e\<lparr>eg_readings := n\<rparr>) = engine_ok cfg t0 e"
  by (simp_all add: engine_ok_def)

lemma engine_ok_sound: "sound_engine cfg wenv t0 {#} e \<longleftrightarrow> engine_ok cfg t0 e"
  by (simp add: sound_engine_def spools_kept_def)

lemma sound_ok: "sound_engine cfg wenv t0 M e \<Longrightarrow> engine_ok cfg t0 e"
  by (simp add: sound_engine_def)

lemma keeps_ok: "(\<And>wenv. keeps (sound_engine cfg wenv t0 {#}) m) \<Longrightarrow> keeps (engine_ok cfg t0) m"
  using engine_ok_sound by (simp add: keeps_def)

lemma ok_aside [keeps_intros]:
  "keeps (engine_ok cfg t0) (in_progress m)" "keeps (engine_ok cfg t0) check_caller" "keeps (engine_ok cfg t0) now_ns"
  by (rule keeps_ok, rule sound_aside)+

lemma dispose_ok: "in_temporary_tree r \<Longrightarrow> engine_ok cfg t0 e \<Longrightarrow> engine_ok cfg t0 (dispose r e)"
proof (cases "pr_chunk_references r")
  case (Some spool)
  assume r: "in_temporary_tree r" and e: "engine_ok cfg t0 e"
  have "temporary_path spool" using r Some by (simp add: in_temporary_tree_def)
  from drop_temporary_evolves [OF this] show ?thesis
    using engine_ok_extends [OF e] e Some by (simp add: dispose_def engine_ok_def [of cfg t0 e])
qed (simp add: dispose_def)

lemma disposes_ok:
  "(\<And>r. r \<in> set rs \<Longrightarrow> in_temporary_tree r) \<Longrightarrow> engine_ok cfg t0 e \<Longrightarrow> engine_ok cfg t0 (fold dispose rs e)"
  by (induction rs arbitrary: e) (auto intro: dispose_ok)

lemma threads_ok:
  assumes cfg: "config_ok (ee_config env)" and sid: "\<not> snapshot_has_status t0 sid [''complete'']"
    and e: "engine_ok (ee_config env) t0 e" and queues: "new_queue n = Inr jobs" "new_byte_queue k b sz = Inr processed"
    and workers: "0 < w"
    and p: "p = run_threads (engine_code env options source sid) choices (start_pipeline e todo ending w jobs processed)"
  shows "engine_ok (ee_config env) t0 (pp_shared p) \<and> (\<forall>(j, r) \<in> set (pp_done p). job_answered env options j r)"
proof -
  let ?code = "engine_code env options source sid" and ?p0 = "start_pipeline e todo ending w jobs processed"
  note start = new_queues_start [OF queues workers, of e todo ending]
  have ok: "pipeline_ok ?p0" using start by blast
  have "under_way ?p0 = {#}" using start by (simp add: under_way_def start_pipeline_def contents_def)
  moreover have "engine_sound env options t0 sid {#} e" using cfg sid e by (simp add: engine_sound_def engine_ok_sound)
  ultimately have "engine_contract.contract_kept env options t0 sid ?p0"
    unfolding engine_contract.contract_kept_def by (simp add: start_pipeline_def)
  moreover obtain m where "pipeline_run ?code ?p0 m p" using run_threads_joins [OF ok] p by blast
  ultimately have "engine_contract.contract_kept env options t0 sid p"
    using engine_contract.run_kept ok by blast
  then show ?thesis
    unfolding engine_contract.contract_kept_def by (auto simp: engine_sound_def dest: sound_ok)
qed

lemma join_threads_ok:
  assumes "config_ok (ee_config env)" and "\<not> snapshot_has_status t0 sid [''complete'']"
    and q: "new_queue n = Inr jobs" "new_byte_queue k b sz = Inr processed"
  shows "keeps (engine_ok (ee_config env) t0) (join_threads env options source sid jobs processed)"
proof (rule keepsI)
  let ?I = "engine_ok (ee_config env) t0"
  let ?w = "unat (resolved_worker_count (ee_hardware_concurrency env) (op_worker_count options))"
  fix e res e' assume e: "?I e" and run: "join_threads env options source sid jobs processed e = (res, e')"
  have w: "0 < ?w" using resolved_worker_count_bounds [of "ee_hardware_concurrency env" "op_worker_count options"] by simp
  obtain todo ending where scan: "scan_jobs (ee_scan env) source (scanner_options options) = (todo, ending)" by fastforce
  define p where "p = run_threads (engine_code env options source sid) (ee_choices env)
      (start_pipeline e todo ending ?w jobs processed)"
  let ?left = "fold dispose (filter (\<lambda>r. r \<notin> set (pp_written p)) (map snd (pp_done p))) (pp_shared p)"
  let ?rethrow = "seqp (in_progress finish) (case pp_error p of None \<Rightarrow> ret () | Some first_error \<Rightarrow> raise first_error)"
  have p: "?I (pp_shared p)" "\<forall>(j, r) \<in> set (pp_done p). job_answered env options j r"
    using threads_ok [OF assms(1,2) e q w p_def] by blast+
  have left: "?I ?left" by (rule disposes_ok [OF _ p(1)]) (use p(2) in \<open>auto simp: job_answered_def\<close>)
  have keep: "keeps ?I ?rethrow" by (intro keeps_seqp ok_aside) (auto intro!: keeps_intros split: option.split)
  have "?rethrow ?left = (res, e')" using run by (simp add: join_threads_def scan p_def [symmetric])
  then show "?I e'" by (rule keepsD [OF keep left])
qed

lemma run_pipeline_ok:
  assumes "config_ok (ee_config env)" and "\<not> snapshot_has_status t0 sid [''complete'']"
  shows "keeps (engine_ok (ee_config env) t0) (run_pipeline env options source sid)"
  unfolding run_pipeline_def
proof (rule keeps_bindp_gives [OF gives_liftp [where G = "\<lambda>jobs. new_queue (ee_job_queue_capacity env) = Inr jobs"]])
  fix jobs :: "FileJob queue" assume jobs: "new_queue (ee_job_queue_capacity env) = Inr jobs"
  let ?new = "new_byte_queue (ee_result_queue_capacity env) (ee_result_queue_byte_capacity env)
      (Some (processed_entry_size (ee_result_base env)))"
  show "keeps (engine_ok (ee_config env) t0) (bindp (liftp ?new) (\<lambda>processed.
      seqp (handle check_caller (\<lambda>e. seqp (in_progress cancel) (seqp (in_progress finish) (raise e))))
        (join_threads env options source sid jobs processed)))"
    by (rule keeps_bindp_gives [OF gives_liftp [where G = "\<lambda>processed. ?new = Inr processed"]])
      (auto intro!: keeps_seqp keeps_handle ok_aside keeps_raise join_threads_ok [OF assms jobs])
qed simp

section \<open>Recovery\<close>

lemma after_recovery_evolves: "fs_ok f \<Longrightarrow> fs_ok (after_recovery t f) \<and> fs_extends f (after_recovery t f)"
  using temporary_parent by (auto simp: after_recovery_def Let_def fs_ok_def fs_extends_def path_taken_def)

lemma recover_ok: "keeps (engine_ok cfg t0) (recover env)"
proof (rule keepsI)
  fix e r e' assume e: "engine_ok cfg t0 e" and run: "recover env e = (r, e')"
  let ?J = "on_conn (on_db (tables_ok cfg t0 (eg_fs e)))"
  obtain x rep where x: "recover_after_writer_lock (ee_now env) (eg_repository e) = (x, rep)" by fastforce
  have "?J rep" using keepsD [OF good_tables.recover_after_writer_lock_keeps _ x] e by (simp add: engine_ok_def on_conn_def)
  then have "engine_ok cfg t0 (e\<lparr>eg_repository := rep\<rparr>)" using e by (simp add: engine_ok_def on_conn_def)
  from engine_ok_extends [OF this, of "after_recovery (r_temporary rep) (eg_fs e)"] show "engine_ok cfg t0 e'"
    using after_recovery_evolves [of "eg_fs e"] e run x by (auto simp: recover_def in_repo_def engine_ok_def)
qed

section \<open>Publication\<close>

text \<open>While an abandoned transaction cannot be rolled back, only the committed tables are known.\<close>

definition stage :: "(tables \<Rightarrow> bool) \<Rightarrow> conn \<Rightarrow> bool" where
  "stage I c \<longleftrightarrow> on_db I c \<or> (\<exists>t. saved c = Some t \<and> I t)"

lemma stage_committed: "stage I c \<Longrightarrow> I (committed c)"
  by (auto simp: stage_def on_db_def committed_def)

lemma keeps_stage:
  assumes "keeps (on_db I) m" and "\<And>t. keeps (\<lambda>c. saved c = Some t) m"
  shows "keeps (stage I) m"
proof (rule keepsI)
  fix c r c' assume "stage I c" and run: "m c = (r, c')"
  then show "stage I c'"
    using keepsD [OF assms(1) _ run] keepsD [OF assms(2) _ run] unfolding stage_def by blast
qed

lemma keeps_open_transaction: "keeps (\<lambda>c. saved c = Some t) (transaction body)"
  by (auto simp: keeps_def transaction_def seqp_def bindp_def begin_transaction_def split: option.splits)

lemma clean_incomplete_open: "keeps (\<lambda>c. saved c = Some t) (clean_incomplete_snapshot i n)"
  unfolding clean_incomplete_snapshot_def
  by (intro keeps_intros entry_drain.loop_keeps warning_drain.loop_keeps)
    (simp_all add: batch_round_def keeps_open_transaction)

lemma mark_incomplete_open: "keeps (\<lambda>c. saved c = Some t) (mark_snapshot_incomplete i st m at_ns)"
  unfolding mark_snapshot_incomplete_def bind_texts_def by (intro keeps_intros)

text \<open>How the body of a snapshot ends: it has published, or nothing of it is visible.\<close>

definition announced :: "os_config \<Rightarrow> tables \<Rightarrow> SnapshotId \<Rightarrow> engine \<Rightarrow> bool" where
  "announced cfg t0 sid e \<longleftrightarrow>
     (let t = db (r_conn (eg_repository e)) in
      saved (r_conn (eg_repository e)) = None \<and> \<not> snapshot_has_status t0 sid [''complete''] \<and> rows_good cfg (eg_fs e) t \<and>
      (\<forall>s. snapshot_has_status t0 s [''complete''] \<longrightarrow> frozen s (published_view s t0) t) \<and>
      (\<forall>s. snapshot_has_status t s [''complete''] \<longleftrightarrow> snapshot_has_status t0 s [''complete''] \<or> s = sid))"

definition unseen :: "os_config \<Rightarrow> tables \<Rightarrow> engine \<Rightarrow> bool" where
  "unseen cfg t0 e \<longleftrightarrow> stage (tables_ok cfg t0 (eg_fs e)) (r_conn (eg_repository e))"

lemma engine_ok_unseen: "engine_ok cfg t0 e \<Longrightarrow> unseen cfg t0 e"
  by (simp add: engine_ok_def unseen_def stage_def)

lemma published_status:
  assumes "publishes sid totals at_ns t t'"
  shows "snapshot_has_status t' s [''complete''] \<longleftrightarrow> snapshot_has_status t s [''complete''] \<or> s = sid"
proof -
  have t': "snapshots t' = update_rows (\<lambda>s. sn_id s = sid) (published_row t totals at_ns) (snapshots t)"
    and pending: "snapshot_has_status t sid [''pending'']"
    using assms by (simp_all add: publishes_def)
  have marked: "snapshot_has_status t' (sn_id r) [''complete'']"
    if "r \<in> set (snapshots t)" "sn_id r = sid \<or> sn_status r = ''complete''" for r
    unfolding snapshot_has_status_def list_ex_iff t' update_rows_def set_map
    by (rule bexI [OF _ imageI [OF that(1)]]) (use that(2) in \<open>auto simp: published_row_def\<close>)
  show ?thesis
  proof
    show "snapshot_has_status t s [''complete''] \<or> s = sid" if "snapshot_has_status t' s [''complete'']"
      using that by (auto simp: snapshot_has_status_def list_ex_iff t' update_rows_def published_row_def split: if_splits)
    show "snapshot_has_status t' s [''complete'']" if "snapshot_has_status t s [''complete''] \<or> s = sid"
      using that pending marked by (auto simp: snapshot_has_status_def [of t] list_ex_iff)
  qed
qed

lemma publishes_spares:
  assumes t: "tables_ok cfg t0 f t" and pub: "publishes sid totals at_ns t t'"
  shows "rows_good cfg f t' \<and> (\<forall>s. snapshot_has_status t0 s [''complete''] \<longrightarrow> frozen s (published_view s t0) t')"
proof -
  let ?p = "\<lambda>(_ :: tables) s. sn_id s = sid \<and> sn_status s = ''pending''" and ?f = "published_row t totals at_ns"
  have ok: "schema_ok t" using t spared_schema by (auto simp: tables_ok_def)
  obtain r where r: "r \<in> set (snapshots t)" "sn_id r = sid" "sn_status r = ''pending''"
    using pub by (auto simp: publishes_def snapshot_has_status_def list_ex_iff)
  have "?p t s \<longleftrightarrow> sn_id s = sid" if "s \<in> set (snapshots t)" for s
    using snapshot_table.same_key [OF ok that r(1)] r(2,3) by auto
  then have "update_rows (?p t) ?f (snapshots t) = update_rows (\<lambda>s. sn_id s = sid) ?f (snapshots t)"
    by (intro update_rows_cong) simp_all
  then have upd: "t_update_snapshots ?p ?f t = Inr (map sn_id (filter (?p t) (snapshots t)), t')"
    using pub by (simp add: t_update_snapshots_def publishes_def)
  have hashed: "\<not> has_unhashed_file t sid" using pub by (simp add: publishes_def)
  have "frozen s (published_view s t0) t'" if "frozen s (published_view s t0) t" for s
    by (rule frozen.update_law [OF that upd]) (auto simp: published_row_def lifecycle_def hashed)
  moreover have "schema_ok t'"
    by (rule schema.update_law [OF ok upd]) (auto simp: published_row_def lifecycle_def hashed)
  ultimately show ?thesis
    using t rows_good_fewer [of cfg f t t'] maintenance_chunks(1) [OF upd] by (auto simp: tables_ok_def spared_def)
qed

lemma wp_in_metadata:
  "wp (in_metadata m) Q E e =
     wp m (\<lambda>a c. Q a (e\<lparr>eg_repository := (eg_repository e)\<lparr>r_conn := c\<rparr>\<rparr>))
       (\<lambda>x c. E x (e\<lparr>eg_repository := (eg_repository e)\<lparr>r_conn := c\<rparr>\<rparr>)) (r_conn (eg_repository e))"
  by (simp add: wp_def in_repo_def in_conn_def split: prod.split sum.split)

text \<open>Within the transaction the tables to which a rollback leads are remembered.\<close>

definition in_publication :: "os_config \<Rightarrow> tables \<Rightarrow> tables \<Rightarrow> engine \<Rightarrow> bool" where
  "in_publication cfg t0 t e \<longleftrightarrow> tables_ok cfg t0 (eg_fs e) t \<and> saved (r_conn (eg_repository e)) = Some t"

lemma publication_outcome:
  assumes e: "engine_ok cfg t0 e"
    and body: "\<And>t e. in_publication cfg t0 t e \<Longrightarrow> db (r_conn (eg_repository e)) = t \<Longrightarrow>
      wp body (\<lambda>_ e. in_publication cfg t0 t e \<and> P t (db (r_conn (eg_repository e))))
        (\<lambda>_. in_publication cfg t0 t) e"
  shows "wp (publication body)
    (\<lambda>_ e. saved (r_conn (eg_repository e)) = None \<and>
       (\<exists>t. tables_ok cfg t0 (eg_fs e) t \<and> P t (db (r_conn (eg_repository e)))))
    (\<lambda>_. unseen cfg t0) e"
proof -
  let ?Q = "\<lambda>_ e. saved (r_conn (eg_repository e)) = None \<and>
       (\<exists>t. tables_ok cfg t0 (eg_fs e) t \<and> P t (db (r_conn (eg_repository e))))"
  have undone: "wp (seqp (in_metadata rollback) (raise x)) ?Q (\<lambda>_. unseen cfg t0) e" if "in_publication cfg t0 t e" for x t e
    using that by (simp add: wp_simps wp_in_metadata) (auto simp: wp_def rollback_def in_publication_def unseen_def
      stage_def on_db_def committed_def split: option.split)
  have ends: "wp (in_metadata commit) ?Q (\<lambda>_. in_publication cfg t0 t) e"
    if "in_publication cfg t0 t e" "P t (db (r_conn (eg_repository e)))" for t e
    using that unfolding wp_in_metadata by (auto simp: wp_def commit_def in_publication_def split: option.split)
  have opened: "wp (handle (seqp body (in_metadata commit)) (\<lambda>x. seqp (in_metadata rollback) (raise x))) ?Q (\<lambda>_. unseen cfg t0) e"
    if "in_publication cfg t0 t e" "db (r_conn (eg_repository e)) = t" for t e
    unfolding wp_handle wp_seqp [of body]
    by (rule wp_mono [OF body [OF that]]) (auto intro: undone wp_mono [OF ends])
  show ?thesis
    using e unfolding publication_def wp_seqp wp_in_metadata
    by (auto simp: wp_def [of begin_transaction] begin_transaction_def engine_ok_def on_db_def committed_def
        in_publication_def unseen_def stage_def intro!: opened split: option.split)
qed

lemma publish_body:
  assumes e: "in_publication cfg t0 t e" and t: "db (r_conn (eg_repository e)) = t"
  shows "wp (seqp (in_metadata (hit before_snapshot_publish))
      (bindp (gets eg_totals) (\<lambda>totals. bindp now_ns (\<lambda>completed. in_metadata (mark_snapshot_complete sid totals completed)))))
    (\<lambda>_ e. in_publication cfg t0 t e \<and> (\<exists>totals at_ns. publishes sid totals at_ns t (db (r_conn (eg_repository e)))))
    (\<lambda>_. in_publication cfg t0 t) e"
proof -
  have marks: "wp (mark_snapshot_complete sid totals at_ns)
      (\<lambda>_ c'. saved c' = Some t \<and> publishes sid totals at_ns t (db c')) (\<lambda>_ c'. saved c' = Some t) c"
    if "saved c = Some t" "db c = t" for totals at_ns c
  proof (rule wp_mono)
    have "keeps (\<lambda>c. saved c = Some t) (mark_snapshot_complete sid totals at_ns)"
      unfolding mark_snapshot_complete_def case_prod_unfold by (intro keeps_intros)
    then have "wp (mark_snapshot_complete sid totals at_ns) (\<lambda>_ c'. saved c' = Some t) (\<lambda>_ c'. saved c' = Some t) c"
      using that(1) by (simp add: keeps_wp)
    moreover have "schema_ok (db c)" using e that(2) by (simp add: in_publication_def tables_ok_def spared_def)
    ultimately show "wp (mark_snapshot_complete sid totals at_ns) (\<lambda>_ c'. saved c' = Some t \<and> publishes sid totals at_ns (db c) (db c'))
        (\<lambda>_ c'. saved c' = Some t \<and> db c' = db c) c"
      unfolding wp_conj using mark_snapshot_complete_wp by blast
  qed (simp_all add: that(2))
  have now: "wp now_ns Q E e = Q (eg_clock e (eg_readings e)) (e\<lparr>eg_readings := Suc (eg_readings e)\<rparr>)" for Q E e
    by (simp add: wp_def now_ns_def)
  show ?thesis
    using e t unfolding wp_seqp wp_bindp wp_gets now wp_in_metadata
    by (simp add: wp_def [of "hit _"] hit_def split: option.split)
      (auto simp: in_publication_def intro!: wp_mono [OF marks])
qed

lemma publish_snapshot_outcome:
  assumes e: "engine_ok cfg t0 e" and new: "\<not> snapshot_has_status t0 sid [''complete'']"
  shows "wp (publish_snapshot env source sid started) (\<lambda>_. announced cfg t0 sid) (\<lambda>_. unseen cfg t0) e"
  unfolding publish_snapshot_def
proof (intro wp_seqp_keeps [where I = "engine_ok cfg t0"] wp_bindp_keeps [where I = "engine_ok cfg t0"] ok_aside keeps_modifyp e)
  fix e assume e: "engine_ok cfg t0 e"
  show "wp (publication (seqp (in_metadata (hit before_snapshot_publish)) (bindp (gets eg_totals) (\<lambda>totals.
      bindp now_ns (\<lambda>completed. in_metadata (mark_snapshot_complete sid totals completed))))))
    (\<lambda>_. announced cfg t0 sid) (\<lambda>_. unseen cfg t0) e"
  proof (rule wp_mono [OF publication_outcome [OF e publish_body]])
    fix e :: engine
    let ?t' = "db (r_conn (eg_repository e))"
    assume "saved (r_conn (eg_repository e)) = None \<and>
      (\<exists>t. tables_ok cfg t0 (eg_fs e) t \<and> (\<exists>totals at_ns. publishes sid totals at_ns t ?t'))"
    then obtain t totals at_ns where t: "tables_ok cfg t0 (eg_fs e) t" "publishes sid totals at_ns t ?t'"
      and s: "saved (r_conn (eg_repository e)) = None" by blast
    have "snapshot_has_status t s [''complete''] \<longleftrightarrow> snapshot_has_status t0 s [''complete'']" for s
      using t(1) by (auto simp: tables_ok_def spared_def frozen_def)
    then show "announced cfg t0 sid e"
      using publishes_spares [OF t] published_status [OF t(2)] s new by (simp add: announced_def)
  qed
qed (auto intro: engine_ok_unseen)

lemma snapshot_body_outcome:
  assumes "config_ok (ee_config env)" and "\<not> snapshot_has_status t0 sid [''complete'']"
    and e: "engine_ok (ee_config env) t0 e"
  shows "wp (snapshot_body env options source sid started) (\<lambda>_. announced (ee_config env) t0 sid)
    (\<lambda>_. unseen (ee_config env) t0) e"
  unfolding snapshot_body_def
  by (intro wp_seqp_keeps [where I = "engine_ok (ee_config env) t0"] ok_aside run_pipeline_ok assms(1,2)
      publish_snapshot_outcome e) (auto intro: engine_ok_unseen)

section \<open>A failed snapshot\<close>

lemma unseen_aside: "keeps (unseen cfg t0) now_ns"
  by (simp add: keeps_def now_ns_def unseen_def)

lemma unseen_metadata: "(\<And>f. keeps (stage (tables_ok cfg t0 f)) m) \<Longrightarrow> keeps (unseen cfg t0) (in_metadata m)"
proof (rule keepsI)
  fix e r e' assume m: "\<And>f. keeps (stage (tables_ok cfg t0 f)) m" and e: "unseen cfg t0 e" and run: "in_metadata m e = (r, e')"
  obtain x c where x: "m (r_conn (eg_repository e)) = (x, c)" by fastforce
  show "unseen cfg t0 e'" using keepsD [OF m _ x] e run x by (auto simp: in_repo_def in_conn_def unseen_def)
qed

lemma snapshot_failed_unseen: "keeps (unseen cfg t0) (snapshot_failed env sid x)"
proof -
  have "keeps (unseen cfg t0) (mark_incomplete_best_effort sid st m n)" for st m n
    unfolding mark_incomplete_best_effort_def
    by (intro keeps_handle keeps_bindp keeps_seqp keeps_ret unseen_aside unseen_metadata keeps_stage
        mark_incomplete_open clean_incomplete_open good_tables.mark_snapshot_incomplete_keeps
        good_tables.clean_incomplete_snapshot_keeps)
  then show ?thesis
    by (cases x) (simp_all add: snapshot_failed_def Let_def keeps_seqp keeps_raise keeps_raise_lv)
qed

lemma raises_after: "wp (seqp m (raise x)) (\<lambda>_ _. False) (\<lambda>_ _. True) e"
  by (simp add: wp_def seqp_def bindp_def raise_def split: prod.split sum.split)

lemma snapshot_failed_raises: "wp (snapshot_failed env sid x) (\<lambda>_ _. False) (\<lambda>_ _. True) e"
  by (cases x) (simp_all only: snapshot_failed_def Let_def exn.case raise_lv_def raises_after)

section \<open>The whole operation\<close>

lemma handled_outcome:
  assumes "config_ok (ee_config env)" and "\<not> snapshot_has_status t0 sid [''complete'']"
    and "engine_ok (ee_config env) t0 e"
  shows "wp (handle (snapshot_body env options source sid started) (snapshot_failed env sid))
    (\<lambda>_. announced (ee_config env) t0 sid) (\<lambda>_. unseen (ee_config env) t0) e"
  unfolding wp_handle
proof (rule wp_mono [OF snapshot_body_outcome [OF assms]])
  fix x t assume t: "unseen (ee_config env) t0 t"
  have "wp (snapshot_failed env sid x) (\<lambda>_ t'. unseen (ee_config env) t0 t' \<and> False) (\<lambda>_ t'. unseen (ee_config env) t0 t' \<and> True) t"
    unfolding wp_conj using snapshot_failed_unseen snapshot_failed_raises t by (simp add: keeps_wp)
  then show "wp (snapshot_failed env sid x) (\<lambda>_. announced (ee_config env) t0 sid) (\<lambda>_. unseen (ee_config env) t0) t"
    by (rule wp_mono) simp_all
qed

lemma announced_progress [simp]: "announced cfg t0 sid (e\<lparr>eg_progress := a\<rparr>) = announced cfg t0 sid e"
  by (simp add: announced_def)

lemma keeps_announced: "keeps (announced cfg t0 sid) (in_progress m)"
  by (auto simp: keeps_def in_progress_def split: prod.split)

lemma create_pending_ok:
  "gives (engine_ok cfg t0) (\<lambda>i. \<not> snapshot_has_status t0 i [''complete'']) (in_metadata (create_pending_snapshot root msg at_ns))"
  using sound_metadata_gives [OF create_pending_gives, where M = "{#}"] by (simp add: gives_def engine_ok_sound)

lemma gives_wp: "gives I G m \<Longrightarrow> I s \<Longrightarrow> wp m (\<lambda>a t. I t \<and> G a) (\<lambda>_. I) s"
  by (auto simp: gives_def wp_def split: prod.split sum.split)

text \<open>Before the operation starts no cache exists.\<close>

abbreviation cacheless :: "engine \<Rightarrow> engine" where
  "cacheless e \<equiv> e\<lparr>eg_caches := (\<lambda>_. [])\<rparr>"

lemma fresh_caches_ok: "engine_ok cfg t0 (cacheless e) \<Longrightarrow> engine_ok cfg t0 (e\<lparr>eg_totals := a, eg_skipped := b, eg_caches := (\<lambda>_. [])\<rparr>)"
  by (simp add: engine_ok_def)

lemma cacheless_caller: "keeps (\<lambda>e. engine_ok cfg t0 (cacheless e)) check_caller"
  by (simp add: keeps_def check_caller_def engine_ok_def)

lemma cacheless_unseen: "engine_ok cfg t0 (cacheless e) \<Longrightarrow> unseen cfg t0 e"
  by (simp add: engine_ok_def unseen_def stage_def)

lemma create_snapshot_outcome:
  assumes cfg: "config_ok (ee_config env)" and e: "engine_ok (ee_config env) t0 (cacheless e)"
  shows "wp (create_snapshot env root options) (\<lambda>x. announced (ee_config env) t0 (rs_snapshot_id x))
    (\<lambda>_. unseen (ee_config env) t0) e"
proof -
  let ?I = "engine_ok (ee_config env) t0" and ?cold = "\<lambda>e. engine_ok (ee_config env) t0 (cacheless e)"
  let ?Q = "\<lambda>x. announced (ee_config env) t0 (rs_snapshot_id x)" and ?E = "\<lambda>_. unseen (ee_config env) t0"
  have pending: "wp (bindp (in_metadata (create_pending_snapshot source msg started)) (\<lambda>sid.
      seqp (handle (snapshot_body env options source sid started) (snapshot_failed env sid)) (k sid))) ?Q ?E e"
    if ok: "?I e" and k: "\<And>sid e. announced (ee_config env) t0 sid e \<Longrightarrow> wp (k sid) ?Q ?E e"
    for source msg started e and k :: "SnapshotId \<Rightarrow> (engine, SnapshotResult) proc"
    unfolding wp_bindp
  proof (rule wp_mono [OF gives_wp [OF create_pending_ok ok]])
    fix sid e assume "?I e \<and> \<not> snapshot_has_status t0 sid [''complete'']"
    then show "wp (seqp (handle (snapshot_body env options source sid started) (snapshot_failed env sid)) (k sid)) ?Q ?E e"
      unfolding wp_seqp by (intro wp_mono [OF handled_outcome [OF cfg]]) (simp_all add: k)
  qed (rule engine_ok_unseen)
  have finish: "wp (bindp (gets g) (\<lambda>(a, b). seqp (handle (in_progress m) (\<lambda>_. ret ())) (ret (x a b)))) ?Q ?E e"
    if "announced (ee_config env) t0 sid e" "\<And>a b. rs_snapshot_id (x a b) = sid"
    for sid e g m and x :: "'b \<Rightarrow> 'c \<Rightarrow> SnapshotResult"
    unfolding wp_bindp wp_gets wp_seqp wp_handle wp_ret case_prod_unfold
    using keeps_announced [of "ee_config env" t0 sid m] that unfolding keeps_wp by simp
  have start: "wp (seqp (modifyp (\<lambda>e. e\<lparr>eg_totals := a, eg_skipped := b, eg_caches := (\<lambda>_. [])\<rparr>)) n) ?Q ?E e"
    if "?cold e" "\<And>e. ?I e \<Longrightarrow> wp n ?Q ?E e" for a b n e
    unfolding wp_seqp wp_modifyp by (rule that(2)) (rule fresh_caches_ok [OF that(1)])
  have lock: "wp (seqp (in_progress m) (seqp (liftp x) (seqp (recover env) (bindp now_ns k)))) ?Q ?E e"
    if "?I e" "\<And>a e. ?I e \<Longrightarrow> wp (k a) ?Q ?E e" for m x k e
    by (intro wp_seqp_keeps [where I = ?I] wp_bindp_keeps [where I = ?I] keeps_liftp ok_aside recover_ok that)
      (auto intro: engine_ok_unseen)
  show ?thesis
    unfolding create_snapshot_def
    by (intro finish pending lock start wp_seqp_keeps [where I = ?cold] wp_bindp_keeps [where I = ?cold] keeps_gets
        keeps_guardp keeps_liftp cacheless_caller e) (auto intro: cacheless_unseen)
qed

text \<open>
  [C1] A snapshot is all or nothing. Whatever the source, the options, the failures of SQLite, of the file
  system and of the progress callback, the moments of cancellation and the interleaving of the threads
  may be, after \<^verbatim>\<open>create_snapshot\<close> the committed tables satisfy the schema and every chunk row names a
  durable, verified object; the snapshots that were complete before are complete and unchanged; and the
  snapshots that are newly complete are exactly the one whose identifier the call returned, so none if
  it raised.
\<close>

theorem create_snapshot_all_or_nothing:
  assumes "config_ok (ee_config env)" and "fs_ok (eg_fs e)"
    and "rows_good (ee_config env) (eg_fs e) (db (r_conn (eg_repository e)))"
    and "saved (r_conn (eg_repository e)) = None"
    and "create_snapshot env root options e = (r, e')"
  shows "let t = db (r_conn (eg_repository e)); t' = committed (r_conn (eg_repository e')) in
    rows_good (ee_config env) (eg_fs e') t' \<and>
    (\<forall>s. snapshot_has_status t s [''complete''] \<longrightarrow>
       snapshot_has_status t' s [''complete''] \<and> published_view s t' = published_view s t) \<and>
    (\<forall>s. snapshot_has_status t' s [''complete''] \<and> \<not> snapshot_has_status t s [''complete''] \<longrightarrow>
       (\<exists>x. r = Inr x \<and> rs_snapshot_id x = s)) \<and>
    (\<forall>x. r = Inr x \<longrightarrow> snapshot_has_status t' (rs_snapshot_id x) [''complete''] \<and>
       \<not> snapshot_has_status t (rs_snapshot_id x) [''complete''])"
proof -
  let ?t = "db (r_conn (eg_repository e))" and ?cfg = "ee_config env"
  let ?t' = "committed (r_conn (eg_repository e'))"
  have "engine_ok ?cfg ?t (cacheless e)"
    using assms(2-4) spared_refl [of ?t]
    by (simp add: engine_ok_def caches_good_def on_db_def committed_def tables_ok_def rows_good_def)
  note outcome = create_snapshot_outcome [OF assms(1) this, of root options]
  show ?thesis
  proof (cases r)
    case (Inl x)
    have "unseen ?cfg ?t e'" using wp_raises [OF outcome] assms(5) Inl by simp
    then have "tables_ok ?cfg ?t (eg_fs e') ?t'" unfolding unseen_def by (rule stage_committed)
    then show ?thesis using Inl by (auto simp: tables_ok_def spared_def frozen_def Let_def)
  next
    case (Inr x)
    have "announced ?cfg ?t (rs_snapshot_id x) e'" using wp_returns [OF outcome] assms(5) Inr by simp
    then show ?thesis using Inr by (auto simp: announced_def committed_def frozen_def Let_def)
  qed
qed

text \<open>A repository with a complete snapshot of one file, a source tree, and a scheduler that serves the threads
  in turn.\<close>

definition demo_vault_tables :: tables where
  "demo_vault_tables = demo_tables\<lparr>
     chunks := [\<lparr>ck_hash = demo_chunk_hash, ck_raw_size = 3, ck_compressed_size = 4,
        ck_object_path = derived_path demo_chunk_hash, ck_created_at_ns = 5\<rparr>],
     entry_chunks := [\<lparr>ec_entry_id = 1, ec_sequence_number = 0, ec_chunk_hash = demo_chunk_hash,
        ec_raw_offset = 0, ec_raw_length = 3\<rparr>]\<rparr>"

definition demo_engine :: engine where
  "demo_engine = \<lparr>eg_repository = crashed_repository\<lparr>r_conn := quiet demo_vault_tables\<rparr>, eg_fs = demo_known_fs,
     eg_caches = (\<lambda>_. []), eg_stop = (\<lambda>_. False), eg_polls = 0, eg_cancel = (\<lambda>_. False), eg_cancel_polls = 0,
     eg_clock = int, eg_readings = 0,
     eg_progress = new_aggregator None int,
     eg_totals = fresh_totals, eg_skipped = [], eg_batch_record_count = 0, eg_batch_logical_bytes = 0,
     eg_batch_has_records = False\<rparr>"

definition demo_engine_env :: engine_env where
  "demo_engine_env = \<lparr>ee_config = demo_config, ee_repository_root = ''/r'', ee_absolute = Inr,
     ee_symlink_status = (\<lambda>_. Inr ft_directory), ee_canonical = Inr, ee_lock = Inr (), ee_now = (\<lambda>_. 9),
     ee_hardware_concurrency = 2, ee_scan = demo_scan_request, ee_before = we_before demo_worker_env,
     ee_open = we_open demo_worker_env, ee_after = we_after demo_worker_env, ee_spool_names = [''s''],
     ee_result_base = 300, ee_batch_entry_limit = 10000, ee_batch_logical_byte_limit = 67108864,
     ee_job_queue_capacity = 64, ee_result_queue_capacity = 64, ee_result_queue_byte_capacity = 1048576,
     ee_choices = []\<rparr>"

definition demo_snapshot_options :: SnapshotOptions where
  "demo_snapshot_options = \<lparr>op_message = ''second'', op_worker_count = 2, op_retry_unstable_files = True,
     op_force_rehash = False, op_include_hidden = True, op_one_file_system = False, op_ignore_file = None\<rparr>"

lemma demo_vault_ok: "fs_ok demo_known_fs" "rows_good demo_config demo_known_fs demo_vault_tables"
proof -
  have known: "fs_ok demo_known_fs" "good_object demo_config demo_known_fs demo_known"
    using demo_worker_ok(2) by (simp_all add: store_inv_def known_good_def demo_worker_def demo_worker_env_def)
  then show "fs_ok demo_known_fs" by blast
  have "schema_ok demo_vault_tables"
    by (simp add: schema_defs demo_vault_tables_def demo_tables_def status_values_def entry_type_values_def)
  moreover have "row_object (hd (chunks demo_vault_tables)) = demo_known" "chunks demo_vault_tables \<noteq> []"
    "tl (chunks demo_vault_tables) = []"
    by (simp_all add: row_object_def demo_vault_tables_def demo_known_def)
  ultimately show "rows_good demo_config demo_known_fs demo_vault_tables"
    using known(2) by (cases "chunks demo_vault_tables") (simp_all add: rows_good_def)
qed

theorem create_snapshot_all_or_nothing_witness:
  "let t' = committed (r_conn (eg_repository (snd (create_snapshot demo_engine_env ''/s'' demo_snapshot_options demo_engine)))) in
   snapshot_has_status t' 1 [''complete''] \<and> published_view 1 t' = published_view 1 demo_vault_tables"
  using create_snapshot_all_or_nothing [of demo_engine_env demo_engine "''/s''" demo_snapshot_options,
      OF _ _ _ _ prod.collapse [symmetric]] demo_config_ok demo_vault_ok
  by (simp add: demo_engine_env_def demo_engine_def Let_def)
    (simp add: snapshot_has_status_def demo_vault_tables_def demo_tables_def)

end
