(* ===== verification/Sqlite_Session.thy ===== *)
theory Sqlite_Session
  imports LV_Types "HOL-Library.Char_ord"
begin

text \<open>
  The wrapper around SQLite's programming interface: prepared statements
  (\<^verbatim>\<open>src/core/database/statement.cpp\<close>) and the opening and setting up of a connection
  (\<^verbatim>\<open>src/core/database/database.cpp\<close>). SQLite itself is a parameter: what its functions answer on a
  connection is arbitrary.
\<close>

section \<open>SQLite\<close>

text \<open>What \<^verbatim>\<open>sqlite3_column_int64\<close>, \<^verbatim>\<open>sqlite3_column_text\<close> and \<^verbatim>\<open>sqlite3_column_type\<close> report of a
  column of the current row.\<close>

record cell =
  cl_int64 :: int
  cl_text :: "string option"
  cl_null :: bool

datatype bound_value = Bound_int int | Bound_text string | Bound_null

text \<open>The results of the steps of a statement before it is done.\<close>

datatype step_result = Row "cell list" | Failed int

text \<open>A compiled statement: whether there is one at all, the length of the text it was compiled from, its
  parameters and the number of its columns.\<close>

record prepared =
  pd_exists :: bool
  pd_used :: nat
  pd_parameters :: "string list"
  pd_columns :: nat

datatype open_flag = OPEN_READWRITE | OPEN_CREATE | OPEN_READONLY | OPEN_FULLMUTEX | OPEN_URI

text \<open>The functions of the library on connections of type \<open>'d\<close>; result code 0 is \<^verbatim>\<open>SQLITE_OK\<close>.\<close>

record 'd sqlite =
  sq_prepare :: "string \<Rightarrow> 'd \<Rightarrow> int + prepared"
  sq_bind :: "string \<Rightarrow> bound_value \<Rightarrow> 'd \<Rightarrow> int"
  sq_execute :: "string \<Rightarrow> (string \<times> bound_value) list \<Rightarrow> 'd \<Rightarrow> step_result list \<times> 'd"
  sq_reset :: "'d \<Rightarrow> int"
  sq_clear_bindings :: "'d \<Rightarrow> int"
  sq_errmsg :: "'d \<Rightarrow> string"
  sq_errcode :: "'d \<Rightarrow> int"
  sq_set_persist_wal :: "'d \<Rightarrow> int \<times> 'd"
  sq_get_persist_wal :: "'d \<Rightarrow> int \<times> int"
  sq_cacheflush :: "'d \<Rightarrow> int \<times> 'd"
  sq_open :: "string \<Rightarrow> open_flag list \<Rightarrow> (int \<times> 'd option) + 'd"

section \<open>Statements\<close>

text \<open>\<^verbatim>\<open>std::to_string\<close>\<close>

fun nat_text :: "nat \<Rightarrow> string" where
  "nat_text n = (if n < 10 then [''0123456789'' ! n] else nat_text (n div 10) @ [''0123456789'' ! (n mod 10)])"

declare nat_text.simps [simp del]

definition to_string :: "int \<Rightarrow> string" where
  "to_string n = (if n < 0 then CHR ''-'' # nat_text (nat (- n)) else nat_text (nat n))"

record statement =
  sm_sql :: string
  sm_prepared :: prepared
  sm_bound :: "(string \<times> bound_value) list"
  sm_left :: "step_result list option"
  sm_row :: "cell list"

definition throw_sqlite_error :: "'d sqlite \<Rightarrow> string \<Rightarrow> string \<Rightarrow> int \<Rightarrow> ('d, 'a) proc" where
  "throw_sqlite_error api action sql result =
     bindp (gets (sq_errmsg api)) (\<lambda>errmsg.
     raise_lv E_database_error
       (action @ '' failed (SQLite result '' @ to_string result @ ''): '' @ errmsg @
        (if sql \<noteq> [] then ''; SQL: '' @ sql else [])))"

definition is_space :: "char \<Rightarrow> bool" where
  "is_space c \<longleftrightarrow> c \<in> {CHR '' '', CHR 0x09, CHR 0x0A, CHR 0x0B, CHR 0x0C, CHR 0x0D}"

text \<open>The constructor; the connection is there.\<close>

definition new_statement :: "'d sqlite \<Rightarrow> string \<Rightarrow> ('d, statement) proc" where
  "new_statement api sql =
     seqp (guardp (length sql \<le> 2147483647) E_database_error ''SQLite statement is too large'')
     (bindp (gets (sq_prepare api sql)) (\<lambda>r.
      case r of
        Inl result \<Rightarrow> throw_sqlite_error api ''preparing statement'' sql result
      | Inr p \<Rightarrow>
          if \<not> pd_exists p then raise_lv E_database_error ''SQLite statement is empty''
          else
            let tail = dropWhile is_space (drop (pd_used p) sql) in
            seqp (guardp (tail = []) E_database_error (''multiple SQL statements are not allowed: '' @ sql))
              (ret \<lparr>sm_sql = sql, sm_prepared = p, sm_bound = [], sm_left = None, sm_row = []\<rparr>)))"

definition parameter_index :: "statement \<Rightarrow> string \<Rightarrow> ('d, unit) proc" where
  "parameter_index s name =
     guardp (name \<in> set (pd_parameters (sm_prepared s))) E_database_error
       (''unknown SQLite parameter '' @ [CHR 0x27] @ name @ [CHR 0x27] @ ''; SQL: '' @ sm_sql s)"

definition bind_value :: "'d sqlite \<Rightarrow> string \<Rightarrow> statement \<Rightarrow> string \<Rightarrow> bound_value \<Rightarrow> ('d, statement) proc" where
  "bind_value api action s name v =
     seqp (parameter_index s name)
     (bindp (gets (sq_bind api name v)) (\<lambda>result.
      if result \<noteq> 0 then throw_sqlite_error api action (sm_sql s) result
      else ret (s\<lparr>sm_bound := sm_bound s @ [(name, v)]\<rparr>)))"

definition bind_int64 :: "'d sqlite \<Rightarrow> statement \<Rightarrow> string \<Rightarrow> int \<Rightarrow> ('d, statement) proc" where
  "bind_int64 api s name v = bind_value api ''binding integer'' s name (Bound_int v)"

definition bind_string :: "'d sqlite \<Rightarrow> statement \<Rightarrow> string \<Rightarrow> string \<Rightarrow> ('d, statement) proc" where
  "bind_string api s name v =
     seqp (guardp (length v \<le> 2147483647) E_database_error ''SQLite text value is too large'')
       (bind_value api ''binding text'' s name (Bound_text v))"

definition bind_null :: "'d sqlite \<Rightarrow> statement \<Rightarrow> string \<Rightarrow> ('d, statement) proc" where
  "bind_null api s name = bind_value api ''binding null'' s name Bound_null"

text \<open>The first step runs the statement; each step reports a row, the end or an error.\<close>

definition run_statement :: "'d sqlite \<Rightarrow> statement \<Rightarrow> ('d, step_result list) proc" where
  "run_statement api s d =
     (case sm_left s of
        Some left \<Rightarrow> (Inr left, d)
      | None \<Rightarrow> (case sq_execute api (sm_sql s) (sm_bound s) d of (left, d') \<Rightarrow> (Inr left, d')))"

definition step :: "'d sqlite \<Rightarrow> statement \<Rightarrow> ('d, bool \<times> statement) proc" where
  "step api s =
     bindp (run_statement api s) (\<lambda>left.
     case left of
       [] \<Rightarrow> ret (False, s\<lparr>sm_left := Some [], sm_row := []\<rparr>)
     | Row cells # later \<Rightarrow> ret (True, s\<lparr>sm_left := Some later, sm_row := cells\<rparr>)
     | Failed result # later \<Rightarrow> throw_sqlite_error api ''stepping statement'' (sm_sql s) result)"

definition execute :: "'d sqlite \<Rightarrow> statement \<Rightarrow> ('d, unit) proc" where
  "execute api s =
     bindp (step api s) (\<lambda>(row, s').
     guardp (\<not> row) E_database_error (''statement unexpectedly returned rows; SQL: '' @ sm_sql s))"

definition reset_statement :: "'d sqlite \<Rightarrow> statement \<Rightarrow> ('d, statement) proc" where
  "reset_statement api s =
     bindp (gets (sq_reset api)) (\<lambda>reset_result.
     if reset_result \<noteq> 0 then throw_sqlite_error api ''resetting statement'' (sm_sql s) reset_result
     else
       bindp (gets (sq_clear_bindings api)) (\<lambda>clear_result.
       if clear_result \<noteq> 0 then throw_sqlite_error api ''clearing statement bindings'' (sm_sql s) clear_result
       else ret (s\<lparr>sm_bound := [], sm_left := None, sm_row := []\<rparr>)))"

definition check_column_index :: "statement \<Rightarrow> nat \<Rightarrow> exn + unit" where
  "check_column_index s index =
     (if index \<ge> pd_columns (sm_prepared s)
      then throw_lv E_database_error (''SQLite column index '' @ to_string (int index) @ '' is out of range'') else Inr ())"

text \<open>A column of the current row; without one SQLite reports a null value.\<close>

definition cell_at :: "statement \<Rightarrow> nat \<Rightarrow> cell" where
  "cell_at s index =
     (if index < length (sm_row s) then sm_row s ! index else \<lparr>cl_int64 = 0, cl_text = None, cl_null = True\<rparr>)"

definition column_int64 :: "statement \<Rightarrow> nat \<Rightarrow> ('d, int) proc" where
  "column_int64 s index =
     seqp (liftp (check_column_index s index)) (ret (cl_int64 (cell_at s index)))"

definition column_text :: "'d sqlite \<Rightarrow> statement \<Rightarrow> nat \<Rightarrow> ('d, string) proc" where
  "column_text api s index =
     seqp (liftp (check_column_index s index))
     (case cl_text (cell_at s index) of
        Some t \<Rightarrow> ret t
      | None \<Rightarrow>
          if cl_null (cell_at s index)
          then raise_lv E_database_error ''cannot read a NULL SQLite column as text''
          else bindp (gets (sq_errcode api)) (throw_sqlite_error api ''reading text column'' (sm_sql s)))"

definition column_is_null :: "statement \<Rightarrow> nat \<Rightarrow> ('d, bool) proc" where
  "column_is_null s index =
     seqp (liftp (check_column_index s index)) (ret (cl_null (cell_at s index)))"

definition execute_sql :: "'d sqlite \<Rightarrow> string \<Rightarrow> ('d, unit) proc" where
  "execute_sql api sql = bindp (new_statement api sql) (execute api)"

section \<open>The URI of an immutable database\<close>

definition is_uri_path_character :: "char \<Rightarrow> bool" where
  "is_uri_path_character character \<longleftrightarrow>
     (character \<ge> CHR ''a'' \<and> character \<le> CHR ''z'') \<or> (character \<ge> CHR ''A'' \<and> character \<le> CHR ''Z'') \<or>
     (character \<ge> CHR ''0'' \<and> character \<le> CHR ''9'') \<or> character = CHR ''-'' \<or> character = CHR ''.'' \<or>
     character = CHR ''_'' \<or> character = CHR 0x7E \<or> character = CHR ''/'' \<or> character = CHR '':''"

definition uri_hexadecimal :: string where
  "uri_hexadecimal = ''0123456789ABCDEF''"

definition percent_encode_uri_path :: "string \<Rightarrow> string" where
  "percent_encode_uri_path path =
     concat (map (\<lambda>c. if is_uri_path_character c then [c]
        else [CHR 0x25, uri_hexadecimal ! (of_char c div 16), uri_hexadecimal ! (of_char c mod 16)]) path)"

text \<open>On POSIX the generic form of a path in normal form is the path itself.\<close>

definition immutable_database_uri :: "string \<Rightarrow> string" where
  "immutable_database_uri path = ''file:'' @ percent_encode_uri_path path @ ''?immutable=1''"

section \<open>Connections\<close>

datatype DatabaseAccess = DA_read_write | DA_read_only | DA_immutable_read_only

definition enable_persistent_wal :: "'d sqlite \<Rightarrow> ('d, unit) proc" where
  "enable_persistent_wal api d =
     (let (set_result, d') = sq_set_persist_wal api d in
      if set_result \<noteq> 0
      then (throw_lv E_database_error (''enabling persistent SQLite WAL files failed (SQLite result '' @
              to_string set_result @ ''): '' @ sq_errmsg api d'), d')
      else
        let (query_result, enabled) = sq_get_persist_wal api d' in
        if query_result \<noteq> 0
        then (throw_lv E_database_error (''verifying persistent SQLite WAL files failed (SQLite result '' @
                to_string query_result @ ''): '' @ sq_errmsg api d'), d')
        else if enabled \<noteq> 1
        then (throw_lv E_database_error ''persistent SQLite WAL files could not be enabled'', d')
        else (Inr (), d'))"

text \<open>\<^verbatim>\<open>while (pragma.step()) {}\<close>\<close>

fun step_to_end :: "'d sqlite \<Rightarrow> string \<Rightarrow> step_result list \<Rightarrow> ('d, unit) proc" where
  "step_to_end api sql [] = ret ()"
| "step_to_end api sql (Row cells # later) = step_to_end api sql later"
| "step_to_end api sql (Failed result # later) = throw_sqlite_error api ''stepping statement'' sql result"

definition run_pragma :: "'d sqlite \<Rightarrow> string \<Rightarrow> ('d, unit) proc" where
  "run_pragma api sql =
     bindp (new_statement api sql) (\<lambda>pragma.
     bindp (run_statement api pragma) (step_to_end api sql))"

definition single_pragma :: "'d sqlite \<Rightarrow> (statement \<Rightarrow> ('d, 'a) proc) \<Rightarrow> string \<Rightarrow> ('d, 'a) proc" where
  "single_pragma api column sql =
     bindp (new_statement api sql) (\<lambda>pragma.
     bindp (step api pragma) (\<lambda>(row, pragma).
     seqp (guardp row E_database_error (''SQLite pragma returned no value; SQL: '' @ sql))
     (bindp (column pragma) (\<lambda>value.
      bindp (step api pragma) (\<lambda>(row, _).
      seqp (guardp (\<not> row) E_database_error (''SQLite pragma returned multiple values; SQL: '' @ sql))
        (ret value))))))"

definition integer_pragma :: "'d sqlite \<Rightarrow> string \<Rightarrow> ('d, int) proc" where
  "integer_pragma api = single_pragma api (\<lambda>pragma. column_int64 pragma 0)"

definition text_pragma :: "'d sqlite \<Rightarrow> string \<Rightarrow> ('d, string) proc" where
  "text_pragma api = single_pragma api (\<lambda>pragma. column_text api pragma 0)"

definition initialize_connection :: "'d sqlite \<Rightarrow> DatabaseAccess \<Rightarrow> ('d, unit) proc" where
  "initialize_connection api access =
     seqp (run_pragma api ''PRAGMA foreign_keys = ON'')
     (seqp (if access = DA_read_write
            then seqp (run_pragma api ''PRAGMA journal_mode = WAL'') (enable_persistent_wal api) else ret ())
     (seqp (run_pragma api ''PRAGMA synchronous = FULL'')
     (seqp (run_pragma api ''PRAGMA busy_timeout = 5000'')
     (bindp (integer_pragma api ''PRAGMA foreign_keys'') (\<lambda>foreign_keys.
      seqp (guardp (foreign_keys = 1) E_database_error ''SQLite foreign keys could not be enabled'')
      (seqp (if access \<noteq> DA_immutable_read_only
             then bindp (text_pragma api ''PRAGMA journal_mode'') (\<lambda>journal_mode.
               guardp (journal_mode = ''wal'') E_database_error ''SQLite WAL journal mode is required'')
             else ret ())
      (bindp (integer_pragma api ''PRAGMA synchronous'') (\<lambda>synchronous.
       seqp (guardp (synchronous = 2) E_database_error ''SQLite FULL synchronous mode is required'')
       (bindp (integer_pragma api ''PRAGMA busy_timeout'') (\<lambda>busy_timeout.
        guardp (busy_timeout = 5000) E_database_error ''SQLite busy timeout could not be set''))))))))))"

text \<open>The constructor of \<^verbatim>\<open>Database\<close>; a connection that is not returned is closed.\<close>

definition open_flags :: "DatabaseAccess \<Rightarrow> open_flag list" where
  "open_flags access =
     (if access = DA_read_write then [OPEN_READWRITE, OPEN_CREATE, OPEN_FULLMUTEX]
      else [OPEN_READONLY, OPEN_FULLMUTEX] @ (if access = DA_immutable_read_only then [OPEN_URI] else []))"

definition open_database :: "'d sqlite \<Rightarrow> string \<Rightarrow> DatabaseAccess \<Rightarrow> exn + 'd" where
  "open_database api path access =
     (let sqlite_path = (if access = DA_immutable_read_only then immutable_database_uri path else path) in
      case sq_open api sqlite_path (open_flags access) of
        Inl (result, failed) \<Rightarrow>
          throw_lv E_database_error (''opening SQLite database failed (SQLite result '' @ to_string result @ ''): '' @
            (case failed of None \<Rightarrow> ''unknown SQLite error'' | Some d \<Rightarrow> sq_errmsg api d))
      | Inr d \<Rightarrow>
          (case initialize_connection api access d of
             (Inl e, _) \<Rightarrow> Inl e
           | (Inr _, d') \<Rightarrow> Inr d'))"

section \<open>What the URI denotes\<close>

text \<open>Percent escapes are replaced by the bytes they stand for, as RFC 3986 has it.\<close>

definition hex_value :: "char \<Rightarrow> nat option" where
  "hex_value c =
     (if CHR ''0'' \<le> c \<and> c \<le> CHR ''9'' then Some (of_char c - 48)
      else if CHR ''A'' \<le> c \<and> c \<le> CHR ''F'' then Some (of_char c - 55)
      else if CHR ''a'' \<le> c \<and> c \<le> CHR ''f'' then Some (of_char c - 87) else None)"

fun percent_decode :: "string \<Rightarrow> string" where
  "percent_decode [] = []"
| "percent_decode (c # cs) =
     (case cs of
        a # b # later \<Rightarrow>
          (if c = CHR 0x25 then
             case (hex_value a, hex_value b) of
               (Some x, Some y) \<Rightarrow> char_of (16 * x + y) # percent_decode later
             | _ \<Rightarrow> c # percent_decode cs
           else c # percent_decode cs)
      | _ \<Rightarrow> c # percent_decode cs)"

text \<open>What SQLite documents of the URIs it opens, as a law about its reading of them: in \<^verbatim>\<open>file:\<close>, a path without
  an authority, a question mark and a query, the name of the file is the path with its escapes resolved, up to the
  first zero byte. A path that starts with two separators would be an authority; nothing is said about it.\<close>

definition reads_file_uris :: "(string \<Rightarrow> string \<times> string) \<Rightarrow> bool" where
  "reads_file_uris parse \<longleftrightarrow> (\<forall>path query.
     (\<forall>c \<in> set path. c \<noteq> CHR ''?'' \<and> c \<noteq> CHR 0x23) \<and> take 2 path \<noteq> ''//'' \<and> CHR 0x23 \<notin> set query \<longrightarrow>
     parse (''file:'' @ path @ ''?'' @ query) = (takeWhile (\<lambda>c. c \<noteq> CHR 0x00) (percent_decode path), query))"

lemma hex_value_digit: "n < 16 \<Longrightarrow> hex_value (uri_hexadecimal ! n) = Some n"
proof -
  have "list_all (\<lambda>n. hex_value (uri_hexadecimal ! n) = Some n) [0..<16]" by code_simp
  then show "n < 16 \<Longrightarrow> hex_value (uri_hexadecimal ! n) = Some n" by (simp add: list_all_iff)
qed

lemma uri_digit_plain: "n < 16 \<Longrightarrow> uri_hexadecimal ! n \<noteq> CHR ''?'' \<and> uri_hexadecimal ! n \<noteq> CHR 0x23"
proof -
  have "list_all (\<lambda>n. uri_hexadecimal ! n \<noteq> CHR ''?'' \<and> uri_hexadecimal ! n \<noteq> CHR 0x23) [0..<16]" by code_simp
  then show "n < 16 \<Longrightarrow> uri_hexadecimal ! n \<noteq> CHR ''?'' \<and> uri_hexadecimal ! n \<noteq> CHR 0x23" by (simp add: list_all_iff)
qed

lemma char_halves: "of_char (c :: char) div 16 < (16 :: nat)" "of_char (c :: char) mod 16 < (16 :: nat)"
  using nat_of_char_less_256 [of c] by (simp_all add: div_less_iff_less_mult)

lemma percent_decode_plain: "c \<noteq> CHR 0x25 \<Longrightarrow> percent_decode (c # cs) = c # percent_decode cs"
  by (auto split: list.split)

lemma percent_decode_escape:
  "hex_value a = Some x \<Longrightarrow> hex_value b = Some y \<Longrightarrow>
   percent_decode (CHR 0x25 # a # b # cs) = char_of (16 * x + y) # percent_decode cs"
  by simp

lemma percent_round_trip: "percent_decode (percent_encode_uri_path path) = path"
proof (induction path)
  case (Cons c path)
  show ?case
  proof (cases "is_uri_path_character c")
    case True
    then have "c \<noteq> CHR 0x25" by (auto simp: is_uri_path_character_def)
    then show ?thesis using True Cons by (simp add: percent_encode_uri_path_def percent_decode_plain del: percent_decode.simps)
  next
    case False
    have "16 * (of_char c div 16) + of_char c mod 16 = (of_char c :: nat)" by simp
    then have "percent_decode (CHR 0x25 # uri_hexadecimal ! (of_char c div 16) # uri_hexadecimal ! (of_char c mod 16) # cs) =
        c # percent_decode cs" for cs
      using percent_decode_escape [OF hex_value_digit [OF char_halves(1) [of c]] hex_value_digit [OF char_halves(2) [of c]]]
      by (simp del: percent_decode.simps)
    then show ?thesis using False Cons by (simp add: percent_encode_uri_path_def del: percent_decode.simps)
  qed
qed (simp add: percent_encode_uri_path_def)

lemma encoded_plain: "c \<in> set (percent_encode_uri_path path) \<Longrightarrow> c \<noteq> CHR ''?'' \<and> c \<noteq> CHR 0x23"
proof -
  assume "c \<in> set (percent_encode_uri_path path)"
  then obtain x where x: "c \<in> set (if is_uri_path_character x then [x]
      else [CHR 0x25, uri_hexadecimal ! (of_char x div 16), uri_hexadecimal ! (of_char x mod 16)])"
    unfolding percent_encode_uri_path_def set_concat set_map by blast
  show "c \<noteq> CHR ''?'' \<and> c \<noteq> CHR 0x23"
  proof (cases "is_uri_path_character x")
    case True
    have "\<not> is_uri_path_character (CHR ''?'')" "\<not> is_uri_path_character (CHR 0x23)" by code_simp+
    then show ?thesis using x True by auto
  next
    case False
    then show ?thesis using x uri_digit_plain [OF char_halves(1) [of x]] uri_digit_plain [OF char_halves(2) [of x]] by auto
  qed
qed

lemma encoded_leading:
  assumes "take 2 path \<noteq> ''//''"
  shows "take 2 (percent_encode_uri_path path) \<noteq> ''//''"
proof -
  have slash: "is_uri_path_character (CHR ''/'')" by code_simp
  have first: "percent_encode_uri_path (c # cs) = (if is_uri_path_character c then c # percent_encode_uri_path cs
      else CHR 0x25 # uri_hexadecimal ! (of_char c div 16) # uri_hexadecimal ! (of_char c mod 16) # percent_encode_uri_path cs)" for c cs
    by (simp add: percent_encode_uri_path_def)
  have nil: "percent_encode_uri_path [] = []" by (simp add: percent_encode_uri_path_def)
  consider "path = []" | c where "path = [c]" | c d cs where "path = c # d # cs" by (cases path rule: remdups_adj.cases) auto
  then show ?thesis using assms slash by cases (auto simp: first nil numeral_2_eq_2)
qed

lemma immutable_uri_read:
  assumes "reads_file_uris parse" and "CHR 0x00 \<notin> set path" and "take 2 path \<noteq> ''//''"
  shows "parse (immutable_database_uri path) = (path, ''immutable=1'')"
proof -
  have "parse (''file:'' @ percent_encode_uri_path path @ ''?'' @ ''immutable=1'') =
      (takeWhile (\<lambda>c. c \<noteq> CHR 0x00) (percent_decode (percent_encode_uri_path path)), ''immutable=1'')"
    using assms(1) encoded_plain encoded_leading [OF assms(3)] unfolding reads_file_uris_def by simp
  moreover have "takeWhile (\<lambda>c. c \<noteq> CHR 0x00) path = path" using assms(2) by (auto simp: takeWhile_eq_all_conv)
  ultimately show ?thesis by (simp add: percent_round_trip immutable_database_uri_def)
qed

section \<open>The settings of a connection\<close>

definition reports_int :: "'d sqlite \<Rightarrow> string \<Rightarrow> 'd \<Rightarrow> int \<Rightarrow> bool" where
  "reports_int api sql d v \<longleftrightarrow> (\<exists>c cells. fst (sq_execute api sql [] d) = [Row (c # cells)] \<and> cl_int64 c = v)"

definition reports_text :: "'d sqlite \<Rightarrow> string \<Rightarrow> 'd \<Rightarrow> string \<Rightarrow> bool" where
  "reports_text api sql d v \<longleftrightarrow> (\<exists>c cells. fst (sq_execute api sql [] d) = [Row (c # cells)] \<and> cl_text c = Some v)"

text \<open>Asking for a setting does not change the connection.\<close>

definition settings_readable :: "'d sqlite \<Rightarrow> bool" where
  "settings_readable api \<longleftrightarrow>
     (\<forall>sql \<in> {''PRAGMA foreign_keys'', ''PRAGMA journal_mode'', ''PRAGMA synchronous'', ''PRAGMA busy_timeout''}.
        \<forall>d. snd (sq_execute api sql [] d) = d)"

lemma step_cases:
  assumes "step api s d = (Inr (row, s'), d')"
  obtains "row" "sm_left s' \<noteq> None" "run_statement api s d = (Inr (Row (sm_row s') # the (sm_left s')), d')"
      "sm_prepared s' = sm_prepared s" "sm_sql s' = sm_sql s"
    | "\<not> row" "run_statement api s d = (Inr [], d')"
  using assms by (auto simp: step_def proc_defs run_statement_def throw_sqlite_error_def
      split: option.splits prod.splits list.splits step_result.splits)

lemma new_statement_Inr:
  "new_statement api sql d = (Inr s, d') \<Longrightarrow> sm_sql s = sql \<and> sm_bound s = [] \<and> sm_left s = None \<and> d' = d"
  by (auto simp: new_statement_def proc_defs throw_sqlite_error_def Let_def split: sum.splits if_splits)

lemma single_pragma_Inr:
  assumes run: "single_pragma api column sql d = (Inr v, d')"
    and column: "\<And>s x d d'. column s d = (Inr x, d') \<Longrightarrow> d' = d \<and> get (sm_row s) x"
  shows "\<exists>cells. sq_execute api sql [] d = ([Row cells], d') \<and> get cells v"
proof -
  obtain s where s: "new_statement api sql d = (Inr s, d)"
    using run new_statement_Inr by (fastforce simp: single_pragma_def bindp_def split: prod.splits sum.splits)
  note fresh = new_statement_Inr [OF s]
  obtain s1 d1 where s1: "step api s d = (Inr (True, s1), d1)"
    using run s by (auto simp: single_pragma_def bindp_def seqp_def guardp_def raise_lv_def raise_def split: prod.splits sum.splits if_splits)
  obtain x where x: "column s1 d1 = (Inr x, d1)"
    using run s s1 column by (fastforce simp: single_pragma_def bindp_def seqp_def guardp_def ret_def split: prod.splits sum.splits)
  obtain s2 d2 where s2: "step api s1 d1 = (Inr (False, s2), d2)" and v: "v = x" "d' = d2"
    using run s s1 x by (auto simp: single_pragma_def bindp_def seqp_def guardp_def raise_lv_def raise_def ret_def split: prod.splits sum.splits if_splits)
  from s1 have "run_statement api s d = (Inr (Row (sm_row s1) # the (sm_left s1)), d1)" "sm_left s1 \<noteq> None"
    by (auto elim: step_cases)
  moreover from s2 have "run_statement api s1 d1 = (Inr [], d2)" by (auto elim: step_cases)
  ultimately have "sq_execute api sql [] d = ([Row (sm_row s1)], d2)"
    using fresh by (auto simp: run_statement_def split: prod.splits)
  moreover have "get (sm_row s1) v" using column x v by blast
  ultimately show ?thesis using v by blast
qed

lemma integer_pragma_Inr:
  assumes "integer_pragma api sql d = (Inr v, d')" and "v \<noteq> 0"
  shows "reports_int api sql d v \<and> d' = snd (sq_execute api sql [] d)"
proof -
  have "\<exists>cells. sq_execute api sql [] d = ([Row cells], d') \<and> (cells \<noteq> [] \<and> cl_int64 (hd cells) = v \<or> v = 0)"
    by (rule single_pragma_Inr [OF assms(1) [unfolded integer_pragma_def]])
      (auto simp: column_int64_def check_column_index_def cell_at_def proc_defs hd_conv_nth split: if_splits)
  then show ?thesis using assms(2) by (auto simp: reports_int_def neq_Nil_conv)
qed

lemma text_pragma_Inr:
  assumes "text_pragma api sql d = (Inr v, d')"
  shows "reports_text api sql d v \<and> d' = snd (sq_execute api sql [] d)"
proof -
  have "\<exists>cells. sq_execute api sql [] d = ([Row cells], d') \<and> cells \<noteq> [] \<and> cl_text (hd cells) = Some v"
    by (rule single_pragma_Inr [OF assms [unfolded text_pragma_def]])
      (auto simp: column_text_def check_column_index_def cell_at_def proc_defs throw_sqlite_error_def hd_conv_nth
        split: if_splits option.splits)
  then show ?thesis by (auto simp: reports_text_def neq_Nil_conv)
qed

lemma wp_integer_pragma:
  assumes "settings_readable api" and "sql \<in> {''PRAGMA foreign_keys'', ''PRAGMA journal_mode'', ''PRAGMA synchronous'', ''PRAGMA busy_timeout''}"
    and "v \<noteq> 0"
  shows "wp (integer_pragma api sql) (\<lambda>n d'. n = v \<longrightarrow> d' = d \<and> reports_int api sql d v) (\<lambda>_ _. True) d"
  using integer_pragma_Inr [of api sql d] assms by (auto simp: wp_def settings_readable_def split: prod.splits sum.splits)

lemma wp_text_pragma:
  assumes "settings_readable api"
  shows "wp (text_pragma api ''PRAGMA journal_mode'') (\<lambda>t d'. d' = d \<and> reports_text api ''PRAGMA journal_mode'' d t) (\<lambda>_ _. True) d"
  using text_pragma_Inr [of api "''PRAGMA journal_mode''" d] assms
  by (auto simp: wp_def settings_readable_def split: prod.splits sum.splits)

definition connection_settings :: "'d sqlite \<Rightarrow> DatabaseAccess \<Rightarrow> 'd \<Rightarrow> bool" where
  "connection_settings api access d \<longleftrightarrow>
     reports_int api ''PRAGMA foreign_keys'' d 1 \<and> reports_int api ''PRAGMA synchronous'' d 2 \<and>
     reports_int api ''PRAGMA busy_timeout'' d 5000 \<and>
     (access \<noteq> DA_immutable_read_only \<longrightarrow> reports_text api ''PRAGMA journal_mode'' d ''wal'')"

lemma wp_any: "(\<And>d. wp n Q (\<lambda>_ _. True) d) \<Longrightarrow> wp (seqp m n) Q (\<lambda>_ _. True) d"
  by (cases "m d"; cases "fst (m d)") (simp_all add: wp_def seqp_def bindp_def)

lemma asked_int:
  assumes "settings_readable api" and "sql \<in> {''PRAGMA foreign_keys'', ''PRAGMA journal_mode'', ''PRAGMA synchronous'', ''PRAGMA busy_timeout''}"
    and "v \<noteq> 0"
  shows "(reports_int api sql d v \<Longrightarrow> wp n Q (\<lambda>_ _. True) d) \<Longrightarrow>
      wp (bindp (integer_pragma api sql) (\<lambda>x. seqp (guardp (x = v) c m) n)) Q (\<lambda>_ _. True) d"
    and "(reports_int api sql d v \<Longrightarrow> R () d) \<Longrightarrow>
      wp (bindp (integer_pragma api sql) (\<lambda>x. guardp (x = v) c m)) R (\<lambda>_ _. True) d"
  unfolding wp_bindp wp_seqp wp_guardp
  by (rule wp_mono [OF wp_integer_pragma [OF assms, of d]]; simp)+

lemma asked_text:
  "settings_readable api \<Longrightarrow> (reports_text api ''PRAGMA journal_mode'' d v \<Longrightarrow> wp n Q (\<lambda>_ _. True) d) \<Longrightarrow>
   wp (seqp (bindp (text_pragma api ''PRAGMA journal_mode'') (\<lambda>t. guardp (t = v) c m)) n) Q (\<lambda>_ _. True) d"
  unfolding wp_bindp wp_seqp wp_guardp by (rule wp_mono [OF wp_text_pragma, of api d]) auto

lemma initialize_connection_checks:
  assumes r: "settings_readable api"
  shows "wp (initialize_connection api access) (\<lambda>_. connection_settings api access) (\<lambda>_ _. True) d"
proof (cases "access = DA_immutable_read_only")
  case True
  then show ?thesis
    unfolding initialize_connection_def
    by (simp, intro wp_any asked_int [OF r]) (simp_all add: connection_settings_def)
next
  case False
  then show ?thesis
    unfolding initialize_connection_def
    by (simp only: if_True simp_thms, intro wp_any asked_int [OF r] asked_text [OF r]) (simp_all add: connection_settings_def)
qed

text \<open>
  [C38] A connection is handed out only with the settings that durability and the schema depend on: if
  \<^verbatim>\<open>Database\<close> can be constructed, the connection reports that foreign keys are enforced, that commits
  are fully synchronous, that it waits five seconds for a lock, and, unless it is immutable, that the
  journal is a write-ahead log.
\<close>

theorem opened_connection_settings:
  assumes "settings_readable api" and "open_database api path access = Inr d"
  shows "connection_settings api access d"
  using assms(2) wp_returns [OF initialize_connection_checks [OF assms(1), of access]]
  by (auto simp: open_database_def Let_def split: sum.splits prod.splits)

definition demo_sqlite :: "unit sqlite" where
  "demo_sqlite = \<lparr>sq_prepare = (\<lambda>sql d. Inr \<lparr>pd_exists = True, pd_used = length sql, pd_parameters = [], pd_columns = 1\<rparr>),
     sq_bind = (\<lambda>_ _ _. 0),
     sq_execute = (\<lambda>sql bound d.
       (if sql = ''PRAGMA foreign_keys'' then [Row [\<lparr>cl_int64 = 1, cl_text = Some ''1'', cl_null = False\<rparr>]]
        else if sql = ''PRAGMA journal_mode'' then [Row [\<lparr>cl_int64 = 0, cl_text = Some ''wal'', cl_null = False\<rparr>]]
        else if sql = ''PRAGMA synchronous'' then [Row [\<lparr>cl_int64 = 2, cl_text = Some ''2'', cl_null = False\<rparr>]]
        else if sql = ''PRAGMA busy_timeout'' then [Row [\<lparr>cl_int64 = 5000, cl_text = Some ''5000'', cl_null = False\<rparr>]]
        else [], d)),
     sq_reset = (\<lambda>_. 0), sq_clear_bindings = (\<lambda>_. 0), sq_errmsg = (\<lambda>_. []), sq_errcode = (\<lambda>_. 0), sq_set_persist_wal = (\<lambda>d. (0, d)), sq_get_persist_wal = (\<lambda>_. (0, 1)),
     sq_cacheflush = (\<lambda>d. (0, d)), sq_open = (\<lambda>_ _. Inr ())\<rparr>"

theorem opened_connection_settings_witness: "connection_settings demo_sqlite DA_read_write ()"
proof -
  have "open_database demo_sqlite ''/r/repository.db'' DA_read_write = Inr ()"
    by (simp add: open_database_def open_flags_def initialize_connection_def run_pragma_def integer_pragma_def text_pragma_def
        single_pragma_def new_statement_def step_def run_statement_def column_int64_def column_text_def
        check_column_index_def cell_at_def enable_persistent_wal_def demo_sqlite_def run_simps cong: run_congs)
  moreover have "settings_readable demo_sqlite" by (simp add: settings_readable_def demo_sqlite_def)
  ultimately show ?thesis by (rule opened_connection_settings [rotated])
qed

end
