(* ===== verification/Repository_Open.thy ===== *)
theory Repository_Open
  imports Sqlite_Session Recovery File_Scanner Object_Store Chunker
begin

text \<open>
  Opening a repository (\<^verbatim>\<open>Repository::open\<close> of \<^verbatim>\<open>src/core/repository.cpp\<close>): the checks of the root and
  of the layout, how the database may be accessed, and the validation of the schema and of
  \<^verbatim>\<open>repository_info\<close>. The file system is asked through the answers of \<^verbatim>\<open>symlink_status\<close>; SQLite is the
  parameter of \<open>Sqlite_Session\<close>.
\<close>

section \<open>Inspecting paths\<close>

text \<open>The answer of \<^verbatim>\<open>symlink_status\<close>: a type, or an error, which may be \<^verbatim>\<open>ENOENT\<close> and may come with the type
  \<^verbatim>\<open>not_found\<close>.\<close>

datatype file_status =
    Status file_type
  | Status_error (enoent: bool) (not_found: bool) (message: string)

type_synonym inspector = "string \<Rightarrow> file_status"

definition normalized_root :: "(string \<Rightarrow> string + string) \<Rightarrow> string \<Rightarrow> exn + string" where
  "normalized_root absolute root =
     (if root = [] then throw_lv E_invalid_argument ''repository root path must not be empty''
      else case absolute root of
        Inl m \<Rightarrow> throw_lv E_filesystem_error (''failed to make repository path absolute: '' @ m)
      | Inr full \<Rightarrow>
          let normalized = lexically_normal full in
          if path_eq normalized (root_path normalized)
          then throw_lv E_invalid_argument ''a filesystem root cannot be used as a repository root''
          else Inr normalized)"

definition path_exists :: "inspector \<Rightarrow> string \<Rightarrow> exn + bool" where
  "path_exists status path =
     (case status path of
        Status_error missing _ m \<Rightarrow>
          if missing then Inr False
          else throw_lv E_filesystem_error (''failed to inspect repository path: '' @ m)
      | Status _ \<Rightarrow> Inr True)"

definition require_directory :: "inspector \<Rightarrow> string \<Rightarrow> string \<Rightarrow> exn + unit" where
  "require_directory status path description =
     (let refuse = (\<lambda>detail. throw_lv E_invalid_repository
            (''repository '' @ description @ '' is missing or is not a directory'' @ detail)) in
      case status path of
        Status_error _ _ m \<Rightarrow> refuse ('': '' @ m)
      | Status t \<Rightarrow> if t = ft_directory then Inr () else refuse [])"

definition require_regular_file :: "inspector \<Rightarrow> string \<Rightarrow> string \<Rightarrow> exn + unit" where
  "require_regular_file status path description =
     (let refuse = (\<lambda>detail. throw_lv E_invalid_repository
            (''repository '' @ description @ '' is missing or is not a regular file'' @ detail)) in
      case status path of
        Status_error _ _ m \<Rightarrow> refuse ('': '' @ m)
      | Status t \<Rightarrow> if t = ft_regular then Inr () else refuse [])"

definition regular_file_exists_no_follow :: "inspector \<Rightarrow> string \<Rightarrow> exn + bool" where
  "regular_file_exists_no_follow status path =
     (case status path of
        Status_error missing absent m \<Rightarrow>
          if missing \<or> absent then Inr False
          else throw_lv E_filesystem_error (''failed to inspect SQLite sidecar: '' @ m)
      | Status t \<Rightarrow>
          if t = ft_regular then Inr True
          else throw_lv E_invalid_repository ''SQLite sidecar is not a regular non-symlink file'')"

definition validate_layout :: "inspector \<Rightarrow> string \<Rightarrow> exn + unit" where
  "validate_layout status root =
     bindE (require_directory status (path_join root ''objects'') ''objects directory'') (\<lambda>_.
     bindE (require_directory status (path_join root ''temporary'') ''temporary directory'') (\<lambda>_.
     bindE (require_directory status (path_join (path_join root ''temporary'') ''objects'') ''temporary objects directory'') (\<lambda>_.
     bindE (require_directory status (path_join (path_join root ''temporary'') ''restores'') ''temporary restores directory'') (\<lambda>_.
     bindE (require_directory status (path_join root ''logs'') ''logs directory'') (\<lambda>_.
     bindE (require_regular_file status (path_join root ''repository.lock'') ''lock file'') (\<lambda>_.
       require_regular_file status (path_join root ''repository.db'') ''database file''))))))"

text \<open>\<^verbatim>\<open>statvfs\<close> answers the flags of the file system, of which bit 0 is \<^verbatim>\<open>ST_RDONLY\<close>.\<close>

definition repository_storage_is_proven_read_only :: "(string \<Rightarrow> u64 option) \<Rightarrow> string \<Rightarrow> bool" where
  "repository_storage_is_proven_read_only statvfs root =
     (case statvfs root of None \<Rightarrow> False | Some f_flag \<Rightarrow> bit f_flag 0)"

definition database_access_for_open ::
  "inspector \<Rightarrow> (string \<Rightarrow> u64 option) \<Rightarrow> string \<Rightarrow> OpenMode \<Rightarrow> exn + DatabaseAccess" where
  "database_access_for_open status statvfs root mode =
     bindE (regular_file_exists_no_follow status (path_join root ''repository.db-wal'')) (\<lambda>wal_exists.
     bindE (regular_file_exists_no_follow status (path_join root ''repository.db-shm'')) (\<lambda>shm_exists.
     if mode = read_write then Inr DA_read_write
     else if wal_exists \<and> shm_exists then Inr DA_read_only
     else if wal_exists \<noteq> shm_exists
     then throw_lv E_invalid_repository ''read-only open requires both SQLite WAL sidecars or neither''
     else if \<not> repository_storage_is_proven_read_only statvfs root
     then throw_lv E_invalid_repository
       ''read-only open without SQLite WAL sidecars is allowed only on proven read-only storage''
     else Inr DA_immutable_read_only))"

section \<open>Validating the database\<close>

definition info_uint32 :: "int \<Rightarrow> string \<Rightarrow> exn + u32" where
  "info_uint32 value field =
     (if value < 0 \<or> value > 4294967295
      then throw_lv E_invalid_repository (''repository '' @ field @ '' is out of range'') else Inr (word_of_int value))"

definition info_uint64 :: "int \<Rightarrow> string \<Rightarrow> exn + u64" where
  "info_uint64 value field =
     (if value < 0
      then throw_lv E_invalid_repository (''repository '' @ field @ '' is out of range'') else Inr (word_of_int value))"

definition info_int :: "int \<Rightarrow> string \<Rightarrow> exn + int" where
  "info_int value field =
     (if value < - 2147483648 \<or> value > 2147483647
      then throw_lv E_invalid_repository (''repository '' @ field @ '' is out of range'') else Inr value)"

text \<open>\<^verbatim>\<open>!step() || column_int64(0) != count || step()\<close>\<close>

definition single_count :: "'d sqlite \<Rightarrow> string \<Rightarrow> int \<Rightarrow> string \<Rightarrow> ('d, unit) proc" where
  "single_count api asked count missing =
     (let invalid = raise_lv E_invalid_repository missing in
      bindp (new_statement api asked) (\<lambda>s.
      bindp (step api s) (\<lambda>(row, s).
      if \<not> row then invalid
      else bindp (column_int64 s 0) (\<lambda>n.
        if n \<noteq> count then invalid
        else bindp (step api s) (\<lambda>(row, _). if row then invalid else ret ())))))"

text \<open>An SQL string literal, and a parenthesised list of them.\<close>

definition sql_literal :: "string \<Rightarrow> string" where
  "sql_literal s = [CHR 0x27] @ s @ [CHR 0x27]"

fun sql_literals :: "string list \<Rightarrow> string" where
  "sql_literals [] = []"
| "sql_literals [s] = sql_literal s"
| "sql_literals (s # ss) = sql_literal s @ '', '' @ sql_literals ss"

definition required_tables :: "string list" where
  "required_tables = [''schema_migrations'', ''repository_info'', ''snapshots'', ''entries'', ''chunks'',
     ''entry_chunks'', ''snapshot_warnings'', ''repository_settings'']"

definition required_indexes :: "string list" where
  "required_indexes = [''idx_snapshots_status_created'', ''idx_entries_snapshot_parent_name'',
     ''idx_entries_snapshot_path'', ''idx_entry_chunks_hash'', ''idx_snapshot_warnings_snapshot'']"

definition schema_count_sql :: "string \<Rightarrow> string list \<Rightarrow> string" where
  "schema_count_sql kind names =
     ''SELECT COUNT(*) FROM sqlite_schema WHERE type = '' @ sql_literal kind @ '' AND name IN ('' @
     sql_literals names @ '')''"

definition validate_schema :: "'d sqlite \<Rightarrow> ('d, unit) proc" where
  "validate_schema api =
     (let invalid = raise_lv E_invalid_repository ''repository must contain exactly migration version 1'' in
      seqp
       (bindp (new_statement api ''SELECT version, typeof(version) FROM schema_migrations'') (\<lambda>migration.
        bindp (step api migration) (\<lambda>(row, migration).
        if \<not> row then invalid
        else bindp (column_text api migration 1) (\<lambda>type.
          if type \<noteq> ''integer'' then invalid
          else bindp (column_int64 migration 0) (\<lambda>version.
            if version \<noteq> 1 then invalid
            else bindp (step api migration) (\<lambda>(row, _). if row then invalid else ret ()))))))
       (seqp (single_count api (schema_count_sql ''table'' required_tables) 8 ''repository is missing a required table'')
         (single_count api (schema_count_sql ''index'' required_indexes) 5 ''repository is missing a required index'')))"

record RepositoryInfo =
  ri_repository_uuid :: string
  ri_format_version :: u32
  ri_chunk_size_bytes :: u64
  ri_zstd_level :: int
  ri_hash_algorithm :: string

definition repository_info_sql :: string where
  "repository_info_sql =
     ''SELECT repository_uuid, format_version, chunk_size_bytes, zstd_level, '' @
     ''hash_algorithm, path_encoding, singleton_id, created_at_ns, application_version, '' @
     ''typeof(repository_uuid), typeof(format_version), typeof(chunk_size_bytes), '' @
     ''typeof(zstd_level), typeof(hash_algorithm), typeof(path_encoding), '' @
     ''typeof(singleton_id), typeof(created_at_ns), typeof(application_version) '' @
     ''FROM repository_info''"

definition expected_storage_types :: "string list" where
  "expected_storage_types =
     [''text'', ''integer'', ''integer'', ''integer'', ''text'', ''text'', ''integer'', ''integer'', ''text'']"

text \<open>The checks on the values of the only row, in the order of the code.\<close>

record stored_info =
  si_uuid :: string
  si_format_version :: int
  si_chunk_size :: int
  si_zstd_level :: int
  si_hash_algorithm :: string
  si_path_encoding :: string
  si_singleton_id :: int
  si_storage_types :: "string list"

definition check_stored_info :: "stored_info \<Rightarrow> exn + RepositoryInfo" where
  "check_stored_info row =
     (if si_storage_types row \<noteq> expected_storage_types
      then throw_lv E_invalid_repository ''repository_info contains an invalid SQLite storage type''
      else if si_singleton_id row \<noteq> 1
      then throw_lv E_invalid_repository ''repository_info singleton identifier is invalid''
      else if si_format_version row \<noteq> 1
      then throw_lv E_unsupported_repository_version (''unsupported repository format version '' @
             to_string (si_format_version row) @ ''; this application supports format version '' @ to_string 1)
      else if si_uuid row = [] then throw_lv E_invalid_repository ''repository UUID must not be empty''
      else if si_chunk_size row \<le> 0 \<or> si_chunk_size row > 4194304
      then throw_lv E_invalid_repository ''repository chunk size must be between 1 byte and 4 MiB''
      else if si_hash_algorithm row \<noteq> ''blake3''
      then throw_lv E_invalid_repository (''repository hash algorithm is not supported: '' @ si_hash_algorithm row)
      else if si_path_encoding row \<noteq> ''utf-8''
      then throw_lv E_invalid_repository (''repository path encoding is not supported: '' @ si_path_encoding row)
      else
        bindE (info_uint32 (si_format_version row) ''format version'') (\<lambda>format_version.
        bindE (info_uint64 (si_chunk_size row) ''chunk size'') (\<lambda>chunk_size.
        bindE (info_int (si_zstd_level row) ''zstd level'') (\<lambda>zstd_level.
        Inr \<lparr>ri_repository_uuid = si_uuid row, ri_format_version = format_version, ri_chunk_size_bytes = chunk_size,
             ri_zstd_level = zstd_level, ri_hash_algorithm = si_hash_algorithm row\<rparr>))))"

definition read_stored_info :: "'d sqlite \<Rightarrow> ('d, stored_info) proc" where
  "read_stored_info api =
     (let invalid = raise_lv E_invalid_repository ''repository_info must contain exactly one row'' in
      bindp (new_statement api repository_info_sql) (\<lambda>query.
      bindp (step api query) (\<lambda>(row, query).
      if \<not> row then invalid
      else
        bindp (column_text api query 0) (\<lambda>uuid.
        bindp (column_int64 query 1) (\<lambda>format_version.
        bindp (column_int64 query 2) (\<lambda>chunk_size.
        bindp (column_int64 query 3) (\<lambda>zstd_level.
        bindp (column_text api query 4) (\<lambda>hash_algorithm.
        bindp (column_text api query 5) (\<lambda>path_encoding.
        bindp (column_int64 query 6) (\<lambda>singleton_id.
        bindp (column_int64 query 7) (\<lambda>created_at_ns.
        bindp (column_text api query 8) (\<lambda>application_version.
        bindp (mapp (column_text api query) [9..<18]) (\<lambda>storage_types.
        bindp (step api query) (\<lambda>(row, _).
        if row then invalid
        else ret \<lparr>si_uuid = uuid, si_format_version = format_version, si_chunk_size = chunk_size,
                  si_zstd_level = zstd_level, si_hash_algorithm = hash_algorithm, si_path_encoding = path_encoding,
                  si_singleton_id = singleton_id, si_storage_types = storage_types\<rparr>))))))))))))))"

definition load_repository_info :: "'d sqlite \<Rightarrow> ('d, RepositoryInfo) proc" where
  "load_repository_info api =
     handle
       (seqp (validate_schema api) (bindp (read_stored_info api) (\<lambda>row. liftp (check_stored_info row))))
       (\<lambda>e. case e of
          Lv err \<Rightarrow>
            if error_code err \<noteq> E_database_error then raise e
            else raise_lv E_invalid_repository (''repository database has an invalid format: '' @ what err)
        | _ \<Rightarrow> raise e)"

section \<open>Opening\<close>

record 'd open_env =
  oe_absolute :: "string \<Rightarrow> string + string"
  oe_status :: inspector
  oe_statvfs :: "string \<Rightarrow> u64 option"
  oe_sqlite :: "'d sqlite"

definition open_repository :: "'d open_env \<Rightarrow> string \<Rightarrow> OpenMode \<Rightarrow> exn + (string \<times> RepositoryInfo \<times> 'd)" where
  "open_repository env requested_root mode =
     bindE (normalized_root (oe_absolute env) requested_root) (\<lambda>root.
     case oe_status env root of
       Status_error missing absent m \<Rightarrow>
         if missing \<or> absent then throw_lv E_repository_not_found ''repository root does not exist''
         else throw_lv E_filesystem_error (''failed to inspect repository root: '' @ m)
     | Status t \<Rightarrow>
         if t \<noteq> ft_directory
         then throw_lv E_invalid_repository ''repository root is not a non-symlink directory''
         else
           bindE (validate_layout (oe_status env) root) (\<lambda>_.
           bindE (database_access_for_open (oe_status env) (oe_statvfs env) root mode) (\<lambda>access.
           bindE (open_database (oe_sqlite env) (path_join root ''repository.db'') access) (\<lambda>database.
           case load_repository_info (oe_sqlite env) database of
             (Inl e, _) \<Rightarrow> Inl e
           | (Inr info, database') \<Rightarrow> Inr (root, info, database')))))"

section \<open>What an open repository promises\<close>

definition repository_info_ok :: "RepositoryInfo \<Rightarrow> bool" where
  "repository_info_ok info \<longleftrightarrow>
     ri_repository_uuid info \<noteq> [] \<and> ri_format_version info = 1 \<and>
     1 \<le> unat (ri_chunk_size_bytes info) \<and> unat (ri_chunk_size_bytes info) \<le> 4194304 \<and>
     - 2147483648 \<le> ri_zstd_level info \<and> ri_zstd_level info \<le> 2147483647 \<and> ri_hash_algorithm info = ''blake3''"

lemma stored_info_ok: "check_stored_info row = Inr info \<Longrightarrow> repository_info_ok info"
proof -
  assume "check_stored_info row = Inr info"
  then have row: "info = \<lparr>ri_repository_uuid = si_uuid row, ri_format_version = 1,
      ri_chunk_size_bytes = word_of_int (si_chunk_size row), ri_zstd_level = si_zstd_level row, ri_hash_algorithm = ''blake3''\<rparr>"
    and bounds: "si_uuid row \<noteq> []" "1 \<le> si_chunk_size row" "si_chunk_size row \<le> 4194304"
      "- 2147483648 \<le> si_zstd_level row" "si_zstd_level row \<le> 2147483647"
    by (auto simp: check_stored_info_def info_uint32_def info_uint64_def info_int_def split: if_splits)
  have "uint (word_of_int (si_chunk_size row) :: u64) = si_chunk_size row"
    using bounds by (simp add: uint_word_of_int take_bit_int_eq_self_iff)
  then have "unat (word_of_int (si_chunk_size row) :: u64) = nat (si_chunk_size row)" by (simp flip: nat_uint_eq)
  then show ?thesis using row bounds by (simp add: repository_info_ok_def nat_le_iff le_nat_iff)
qed

lemma load_repository_info_Inr: "load_repository_info api d = (Inr info, d') \<Longrightarrow> repository_info_ok info"
  using stored_info_ok
  by (auto simp: load_repository_info_def handle_def seqp_def bindp_def liftp_def raise_def raise_lv_def
      split: prod.splits sum.splits exn.splits if_splits)

lemma accepted_chunk_size:
  assumes "repository_info_ok info"
  shows "checked_maximum_chunk_size (ri_chunk_size_bytes info) = Inr (ri_chunk_size_bytes info) \<and>
    new_chunker (ri_chunk_size_bytes info) = Inr (ri_chunk_size_bytes info)"
proof -
  have n: "ri_chunk_size_bytes info \<noteq> 0" "ri_chunk_size_bytes info \<le> 4194304"
    using assms by (auto simp: repository_info_ok_def word_le_nat_alt)
  then show ?thesis
    by (auto simp: checked_maximum_chunk_size_def new_chunker_def kMaximumSupportedChunkSize_def word_le_nat_alt word_less_nat_alt)
qed

definition layout_ok :: "inspector \<Rightarrow> string \<Rightarrow> bool" where
  "layout_ok status root \<longleftrightarrow> status root = Status ft_directory \<and>
     (\<forall>p \<in> {path_join root ''objects'', path_join root ''temporary'', path_join (path_join root ''temporary'') ''objects'',
          path_join (path_join root ''temporary'') ''restores'', path_join root ''logs''}. status p = Status ft_directory) \<and>
     (\<forall>p \<in> {path_join root ''repository.lock'', path_join root ''repository.db''}. status p = Status ft_regular)"

lemma require_Inr:
  "require_directory status p m = Inr u \<longleftrightarrow> status p = Status ft_directory"
  "require_regular_file status p m = Inr u \<longleftrightarrow> status p = Status ft_regular"
  by (auto simp: require_directory_def require_regular_file_def Let_def split: file_status.splits)

lemma validate_layout_Inr:
  "status root = Status ft_directory \<Longrightarrow> validate_layout status root = Inr u \<Longrightarrow> layout_ok status root"
  by (auto simp: validate_layout_def bindE_Inr_iff require_Inr layout_ok_def)

text \<open>A database that SQLite is told not to change is opened only where nothing can change it.\<close>

lemma immutable_access:
  "database_access_for_open status statvfs root mode = Inr DA_immutable_read_only \<Longrightarrow>
   mode = read_only \<and> repository_storage_is_proven_read_only statvfs root"
  by (cases mode) (auto simp: database_access_for_open_def bindE_Inr_iff split: if_splits)

lemma writable_access:
  "database_access_for_open status statvfs root mode = Inr access \<Longrightarrow> access = DA_read_write \<longleftrightarrow> mode = read_write"
  by (auto simp: database_access_for_open_def bindE_Inr_iff split: if_splits)

lemma open_repository_Inr:
  assumes "open_repository env requested_root mode = Inr (root, info, d)"
  shows "normalized_root (oe_absolute env) requested_root = Inr root \<and> layout_ok (oe_status env) root \<and>
    repository_info_ok info \<and>
    (\<exists>access d0. database_access_for_open (oe_status env) (oe_statvfs env) root mode = Inr access \<and>
       open_database (oe_sqlite env) (path_join root ''repository.db'') access = Inr d0 \<and>
       load_repository_info (oe_sqlite env) d0 = (Inr info, d))"
  using assms validate_layout_Inr load_repository_info_Inr
  by (auto simp: open_repository_def bindE_def split: file_status.split_asm if_split_asm prod.split_asm sum.split_asm)

text \<open>
  [C12] A repository that has been opened is well formed, whatever is on the disk and in the database: its
  root is a directory with the five directories and the two files of the layout, none of them a symbolic
  link; it has format version 1, an identifier that is not empty, the hash algorithm BLAKE3, a compression
  level that fits a C \<^verbatim>\<open>int\<close>, and a chunk size between one byte and four MiB, which the object store and
  the chunker both accept. The connection that is handed out is the one to the database of this root whose
  row has passed these checks. It was opened for writing exactly in the read-write mode, and as immutable only
  on storage that is proven read-only.
\<close>

theorem open_repository_well_formed:
  assumes "open_repository env requested_root mode = Inr (root, info, d)"
  shows "normalized_root (oe_absolute env) requested_root = Inr root \<and>
    layout_ok (oe_status env) root \<and> repository_info_ok info \<and>
    checked_maximum_chunk_size (ri_chunk_size_bytes info) = Inr (ri_chunk_size_bytes info) \<and>
    new_chunker (ri_chunk_size_bytes info) = Inr (ri_chunk_size_bytes info) \<and>
    (\<exists>access d0. open_database (oe_sqlite env) (path_join root ''repository.db'') access = Inr d0 \<and>
       load_repository_info (oe_sqlite env) d0 = (Inr info, d) \<and>
       (access = DA_read_write \<longleftrightarrow> mode = read_write) \<and>
       (access = DA_immutable_read_only \<longrightarrow> repository_storage_is_proven_read_only (oe_statvfs env) root))"
  using open_repository_Inr [OF assms] accepted_chunk_size immutable_access writable_access by blast

text \<open>A repository as \<^verbatim>\<open>Repository::create\<close> leaves it, opened for writing.\<close>

definition text_cell :: "string \<Rightarrow> cell" where
  "text_cell t = \<lparr>cl_int64 = 0, cl_text = Some t, cl_null = False\<rparr>"

definition int_cell :: "int \<Rightarrow> cell" where
  "int_cell n = \<lparr>cl_int64 = n, cl_text = Some (to_string n), cl_null = False\<rparr>"

definition demo_info_row :: "cell list" where
  "demo_info_row = [text_cell ''u'', int_cell 1, int_cell 4194304, int_cell 3, text_cell ''blake3'', text_cell ''utf-8'',
     int_cell 1, int_cell 5, text_cell ''0.1''] @ map text_cell expected_storage_types"

definition demo_vault_sqlite :: "unit sqlite" where
  "demo_vault_sqlite = demo_sqlite\<lparr>
     sq_prepare := (\<lambda>sql d. Inr \<lparr>pd_exists = True, pd_used = length sql, pd_parameters = [], pd_columns = 18\<rparr>),
     sq_execute := (\<lambda>sql bound d.
       (if take 6 sql = ''PRAGMA'' then fst (sq_execute demo_sqlite sql bound d)
        else if take 14 sql = ''SELECT version'' then [Row [int_cell 1, text_cell ''integer'']]
        else if take 14 sql = ''SELECT reposit'' then [Row demo_info_row]
        else if sql = schema_count_sql ''table'' required_tables then [Row [int_cell 8]] else [Row [int_cell 5]], d))\<rparr>"

definition demo_open_env :: "unit open_env" where
  "demo_open_env = \<lparr>oe_absolute = Inr,
     oe_status = (\<lambda>p. if p \<in> {''/r/repository.lock'', ''/r/repository.db'', ''/r/repository.db-wal'', ''/r/repository.db-shm''}
        then Status ft_regular else Status ft_directory),
     oe_statvfs = (\<lambda>_. None), oe_sqlite = demo_vault_sqlite\<rparr>"

lemma demo_statement:
  "length q \<le> 2147483647 \<Longrightarrow> new_statement demo_vault_sqlite q d =
     (Inr \<lparr>sm_sql = q, sm_prepared = \<lparr>pd_exists = True, pd_used = length q, pd_parameters = [], pd_columns = 18\<rparr>,
        sm_bound = [], sm_left = None, sm_row = []\<rparr>, d)"
  by (simp add: new_statement_def demo_vault_sqlite_def run_simps cong: run_congs)

lemma demo_answers:
  "sq_execute demo_vault_sqlite q b d =
     (if take 6 q = ''PRAGMA'' then
        (if q = ''PRAGMA foreign_keys'' then [Row [\<lparr>cl_int64 = 1, cl_text = Some ''1'', cl_null = False\<rparr>]]
         else if q = ''PRAGMA journal_mode'' then [Row [\<lparr>cl_int64 = 0, cl_text = Some ''wal'', cl_null = False\<rparr>]]
         else if q = ''PRAGMA synchronous'' then [Row [\<lparr>cl_int64 = 2, cl_text = Some ''2'', cl_null = False\<rparr>]]
         else if q = ''PRAGMA busy_timeout'' then [Row [\<lparr>cl_int64 = 5000, cl_text = Some ''5000'', cl_null = False\<rparr>]]
         else [])
      else if take 14 q = ''SELECT version'' then [Row [int_cell 1, text_cell ''integer'']]
      else if take 14 q = ''SELECT reposit'' then [Row demo_info_row]
      else if q = schema_count_sql ''table'' required_tables then [Row [int_cell 8]] else [Row [int_cell 5]], d)"
  "sq_set_persist_wal demo_vault_sqlite d = (0, d)" "sq_get_persist_wal demo_vault_sqlite d = (0, 1)"
  "sq_open demo_vault_sqlite p fl = Inr ()"
  by (simp_all add: demo_vault_sqlite_def demo_sqlite_def)

lemmas demo_columns = demo_statement demo_answers step_def run_statement_def column_int64_def column_text_def
  check_column_index_def cell_at_def run_simps

lemma demo_database: "open_database demo_vault_sqlite path DA_read_write = Inr ()"
proof -
  have "initialize_connection demo_vault_sqlite DA_read_write () = (Inr (), ())"
    by (simp add: initialize_connection_def run_pragma_def integer_pragma_def text_pragma_def single_pragma_def
        enable_persistent_wal_def demo_columns cong: run_congs)
  then show ?thesis by (simp add: open_database_def demo_answers)
qed

lemma demo_schema: "validate_schema demo_vault_sqlite () = (Inr (), ())"
  by (simp add: validate_schema_def single_count_def schema_count_sql_def required_tables_def required_indexes_def
      sql_literal_def text_cell_def int_cell_def demo_columns cong: run_congs)

lemma demo_stored: "load_repository_info demo_vault_sqlite () =
    (Inr \<lparr>ri_repository_uuid = ''u'', ri_format_version = 1, ri_chunk_size_bytes = 4194304, ri_zstd_level = 3,
       ri_hash_algorithm = ''blake3''\<rparr>, ())"
proof -
  have columns: "[9 ..< 18] = [9, 10, 11, 12, 13, 14, 15, 16, 17 :: nat]" by (simp add: upt_rec)
  have "read_stored_info demo_vault_sqlite () = (Inr \<lparr>si_uuid = ''u'', si_format_version = 1, si_chunk_size = 4194304,
      si_zstd_level = 3, si_hash_algorithm = ''blake3'', si_path_encoding = ''utf-8'', si_singleton_id = 1,
      si_storage_types = expected_storage_types\<rparr>, ())"
    by (simp add: read_stored_info_def repository_info_sql_def demo_info_row_def expected_storage_types_def columns
        text_cell_def int_cell_def demo_columns cong: run_congs)
  then show ?thesis
    by (simp add: load_repository_info_def demo_schema check_stored_info_def info_uint32_def info_uint64_def info_int_def
        run_simps cong: run_congs)
qed

theorem open_repository_well_formed_witness:
  "layout_ok (oe_status demo_open_env) ''/r''"
proof -
  have "open_repository demo_open_env ''/r'' read_write = Inr (''/r'', \<lparr>ri_repository_uuid = ''u'', ri_format_version = 1,
      ri_chunk_size_bytes = 4194304, ri_zstd_level = 3, ri_hash_algorithm = ''blake3''\<rparr>, ())"
  proof -
    have root: "normalized_root Inr ''/r'' = Inr ''/r''" by code_simp
    have "validate_layout (oe_status demo_open_env) ''/r'' = Inr ()"
      "database_access_for_open (oe_status demo_open_env) (oe_statvfs demo_open_env) ''/r'' read_write = Inr DA_read_write"
      by code_simp+
    then show ?thesis
      using root demo_database demo_stored by (simp add: open_repository_def demo_open_env_def)
  qed
  from open_repository_well_formed [OF this] show ?thesis by blast
qed

section \<open>The name of an immutable database\<close>

text \<open>
  [C39] An immutable database is opened under the name of the right file. For every repository root that
  \<^verbatim>\<open>Repository::open\<close> accepts and that contains no zero byte, as no path does, SQLite reads the URI that is
  built for the database as the path of \<^verbatim>\<open>repository.db\<close> below this root, byte for byte, with
  \<^verbatim>\<open>immutable=1\<close> as its whole query: no byte of the path can end the name early, be taken for an authority or
  add a parameter. What SQLite reads is a parameter that obeys the documented law.
\<close>

theorem immutable_uri_denotes_path:
  assumes "reads_file_uris parse" and "normalized_root absolute requested_root = Inr root" and "CHR 0x00 \<notin> set root"
  shows "parse (immutable_database_uri (path_join root ''repository.db'')) =
    (path_join root ''repository.db'', ''immutable=1'')"
proof (rule immutable_uri_read [OF assms(1)])
  show "CHR 0x00 \<notin> set (path_join root ''repository.db'')" using assms(3) by (simp add: path_join_def)
  have "take 2 root \<noteq> ''//''"
    using assms(2) lexically_normal_leading
    by (auto simp: normalized_root_def Let_def split: if_splits sum.splits)
  then show "take 2 (path_join root ''repository.db'') \<noteq> ''//''"
    by (rule path_join_leading) (simp add: is_absolute_def)
qed

definition demo_parse :: "string \<Rightarrow> string \<times> string" where
  "demo_parse uri =
     (let path = takeWhile (\<lambda>c. c \<noteq> CHR ''?'' \<and> c \<noteq> CHR 0x23) (drop 5 uri) in
      (takeWhile (\<lambda>c. c \<noteq> CHR 0x00) (percent_decode path), drop (Suc (length path)) (drop 5 uri)))"

theorem immutable_uri_denotes_path_witness:
  "demo_parse (immutable_database_uri (path_join ''/my vault?#'' ''repository.db'')) =
   (''/my vault?#/repository.db'', ''immutable=1'')"
proof -
  have stop: "takeWhile (\<lambda>c. c \<noteq> CHR ''?'' \<and> c \<noteq> CHR 0x23) (path @ ''?'' @ query) = path"
    if "\<forall>c \<in> set path. c \<noteq> CHR ''?'' \<and> c \<noteq> CHR 0x23" for path query
    using that by (subst takeWhile_append2) auto
  have "reads_file_uris demo_parse"
    unfolding reads_file_uris_def
  proof (intro allI impI, elim conjE)
    fix path query :: string
    assume "\<forall>c \<in> set path. c \<noteq> CHR ''?'' \<and> c \<noteq> CHR 0x23"
    from stop [OF this, of query] show "demo_parse (''file:'' @ path @ ''?'' @ query) =
        (takeWhile (\<lambda>c. c \<noteq> CHR 0x00) (percent_decode path), query)"
      by (simp add: demo_parse_def Let_def del: percent_decode.simps)
  qed
  moreover have "normalized_root Inr ''//my vault?#'' = Inr ''/my vault?#''" by code_simp
  moreover have "CHR 0x00 \<notin> set ''/my vault?#''" by code_simp
  ultimately show ?thesis
    by (subst immutable_uri_denotes_path [where root = "''/my vault?#''"]) (simp_all add: path_join_def is_absolute_def)
qed

end
