(* ===== verification/Migrations.thy ===== *)
theory Migrations
  imports Repository_Open
begin

text \<open>
  The schema migrations (\<^verbatim>\<open>src/core/database/migrations.cpp\<close>) and transactions at the level of SQL text
  (\<^verbatim>\<open>src/core/database/transaction.cpp\<close>), as they are run when a repository is created.
\<close>

section \<open>Transactions\<close>

text \<open>The scope of a \<^verbatim>\<open>Transaction\<close>: unless it has been committed it is rolled back, and a failing rollback is
  reported and swallowed.\<close>

definition sql_transaction :: "'d sqlite \<Rightarrow> bool \<Rightarrow> ('d, unit) proc \<Rightarrow> ('d, unit) proc" where
  "sql_transaction api exclusive body =
     seqp (execute_sql api (if exclusive then ''BEGIN EXCLUSIVE'' else ''BEGIN''))
       (handle (seqp body (execute_sql api ''COMMIT''))
          (\<lambda>e. seqp (handle (execute_sql api ''ROLLBACK'') (\<lambda>_. ret ())) (raise e)))"

section \<open>The statements of migration 1\<close>

text \<open>The text of a statement by lines; a back quote stands for an apostrophe.\<close>

fun sql_lines :: "string list \<Rightarrow> string" where
  "sql_lines [] = []"
| "sql_lines [l] = l"
| "sql_lines (l # ls) = l @ [CHR 0x0A] @ sql_lines ls"

definition sql_text :: "string list \<Rightarrow> string" where
  "sql_text ls = map (\<lambda>c. if c = CHR 0x60 then CHR 0x27 else c) (sql_lines ls)"

definition migration_001_sql :: "string list" where
  "migration_001_sql = [
     sql_text [''CREATE TABLE repository_info ('',
       ''        singleton_id INTEGER PRIMARY KEY CHECK (singleton_id = 1),'',
       ''        repository_uuid TEXT NOT NULL UNIQUE,'',
       ''        format_version INTEGER NOT NULL,'',
       ''        created_at_ns INTEGER NOT NULL,'',
       ''        application_version TEXT NOT NULL,'',
       ''        chunk_size_bytes INTEGER NOT NULL CHECK (chunk_size_bytes > 0),'',
       ''        zstd_level INTEGER NOT NULL,'',
       ''        hash_algorithm TEXT NOT NULL CHECK (hash_algorithm = `blake3`),'',
       ''        path_encoding TEXT NOT NULL DEFAULT `utf-8`'',
       ''    )''],
     sql_text [''CREATE TABLE snapshots ('',
       ''        id INTEGER PRIMARY KEY AUTOINCREMENT,'',
       ''        created_at_ns INTEGER NOT NULL,'',
       ''        completed_at_ns INTEGER,'',
       ''        source_root TEXT NOT NULL,'',
       ''        message TEXT NOT NULL DEFAULT ``,'',
       ''        status TEXT NOT NULL'',
       ''            CHECK (status IN (`pending`, `complete`, `failed`, `cancelled`, `deleting`)),'',
       ''        file_count INTEGER NOT NULL DEFAULT 0,'',
       ''        directory_count INTEGER NOT NULL DEFAULT 0,'',
       ''        symlink_count INTEGER NOT NULL DEFAULT 0,'',
       ''        logical_size INTEGER NOT NULL DEFAULT 0,'',
       ''        new_stored_size INTEGER NOT NULL DEFAULT 0,'',
       ''        new_chunk_count INTEGER NOT NULL DEFAULT 0,'',
       ''        reused_chunk_count INTEGER NOT NULL DEFAULT 0,'',
       ''        duration_ms INTEGER NOT NULL DEFAULT 0,'',
       ''        failure_message TEXT'',
       ''    )''],
     sql_text [''CREATE INDEX idx_snapshots_status_created ON snapshots(status, created_at_ns DESC)''],
     sql_text [''CREATE TABLE entries ('',
       ''        id INTEGER PRIMARY KEY AUTOINCREMENT,'',
       ''        snapshot_id INTEGER NOT NULL REFERENCES snapshots(id) ON DELETE CASCADE,'',
       ''        relative_path TEXT NOT NULL,'',
       ''        parent_path TEXT NOT NULL,'',
       ''        name TEXT NOT NULL,'',
       ''        entry_type TEXT NOT NULL CHECK (entry_type IN (`file`, `directory`, `symlink`)),'',
       ''        logical_size INTEGER NOT NULL DEFAULT 0,'',
       ''        modified_time_ns INTEGER NOT NULL DEFAULT 0,'',
       ''        change_time_ns INTEGER,'',
       ''        posix_mode INTEGER NOT NULL DEFAULT 0,'',
       ''        windows_attributes INTEGER,'',
       ''        file_hash TEXT,'',
       ''        symlink_target TEXT,'',
       ''        source_device INTEGER,'',
       ''        source_inode INTEGER,'',
       ''        UNIQUE(snapshot_id, relative_path)'',
       ''    )''],
     sql_text [''CREATE INDEX idx_entries_snapshot_parent_name ON entries(snapshot_id, parent_path, name)''],
     sql_text [''CREATE INDEX idx_entries_snapshot_path ON entries(snapshot_id, relative_path)''],
     sql_text [''CREATE TABLE chunks ('',
       ''        hash TEXT PRIMARY KEY,'',
       ''        raw_size INTEGER NOT NULL CHECK (raw_size > 0),'',
       ''        compressed_size INTEGER NOT NULL CHECK (compressed_size > 0),'',
       ''        object_path TEXT NOT NULL UNIQUE,'',
       ''        created_at_ns INTEGER NOT NULL'',
       ''    )''],
     sql_text [''CREATE TABLE entry_chunks ('',
       ''        entry_id INTEGER NOT NULL REFERENCES entries(id) ON DELETE CASCADE,'',
       ''        sequence_number INTEGER NOT NULL CHECK (sequence_number >= 0),'',
       ''        chunk_hash TEXT NOT NULL REFERENCES chunks(hash),'',
       ''        raw_offset INTEGER NOT NULL CHECK (raw_offset >= 0),'',
       ''        raw_length INTEGER NOT NULL CHECK (raw_length > 0),'',
       ''        PRIMARY KEY(entry_id, sequence_number)'',
       ''    )''],
     sql_text [''CREATE INDEX idx_entry_chunks_hash ON entry_chunks(chunk_hash)''],
     sql_text [''CREATE TABLE snapshot_warnings ('',
       ''        id INTEGER PRIMARY KEY AUTOINCREMENT,'',
       ''        snapshot_id INTEGER NOT NULL REFERENCES snapshots(id) ON DELETE CASCADE,'',
       ''        relative_path TEXT NOT NULL,'',
       ''        warning_code TEXT NOT NULL,'',
       ''        message TEXT NOT NULL'',
       ''    )''],
     sql_text [''CREATE INDEX idx_snapshot_warnings_snapshot ON snapshot_warnings(snapshot_id)''],
     sql_text [''CREATE TABLE repository_settings ('',
       ''        key TEXT PRIMARY KEY,'',
       ''        value TEXT NOT NULL,'',
       ''        updated_at_ns INTEGER NOT NULL'',
       ''    )'']]"

definition schema_migrations_sql :: string where
  "schema_migrations_sql =
     sql_text [''CREATE TABLE IF NOT EXISTS schema_migrations ('',
       ''        version INTEGER PRIMARY KEY,'',
       ''        applied_at_ns INTEGER NOT NULL,'',
       ''        description TEXT NOT NULL'',
       ''    )'']"

section \<open>Running the migrations\<close>

record 'd migration =
  mg_version :: int
  mg_description :: string
  mg_apply :: "('d, unit) proc"

definition apply_migration_001 :: "'d sqlite \<Rightarrow> ('d, unit) proc" where
  "apply_migration_001 api = iterp (execute_sql api) migration_001_sql"

definition migrations :: "'d sqlite \<Rightarrow> 'd migration list" where
  "migrations api = [\<lparr>mg_version = 1, mg_description = ''Initial schema'', mg_apply = apply_migration_001 api\<rparr>]"

definition current_version :: "'d sqlite \<Rightarrow> ('d, int) proc" where
  "current_version api =
     bindp (new_statement api ''SELECT COALESCE(MAX(version), 0) FROM schema_migrations'') (\<lambda>s.
     bindp (step api s) (\<lambda>(row, s).
     seqp (guardp row E_database_error ''schema migration version query returned no row'')
     (bindp (column_int64 s 0) (\<lambda>version.
      bindp (step api s) (\<lambda>(row, _).
      seqp (guardp (\<not> row) E_database_error ''schema migration version query returned multiple rows'')
        (ret version))))))"

definition run_migration :: "'d sqlite \<Rightarrow> int \<Rightarrow> int \<Rightarrow> 'd migration \<Rightarrow> ('d, unit) proc" where
  "run_migration api now installed_version m =
     (if mg_version m \<le> installed_version then ret ()
      else
        seqp (mg_apply m)
        (bindp (new_statement api (''INSERT INTO schema_migrations (version, applied_at_ns, description) '' @
                  ''VALUES (:version, :applied_at_ns, :description)'')) (\<lambda>s.
         bindp (bind_int64 api s '':version'' (mg_version m)) (\<lambda>s.
         bindp (bind_int64 api s '':applied_at_ns'' now) (\<lambda>s.
         bindp (bind_string api s '':description'' (mg_description m)) (execute api))))))"

definition run_migrations :: "'d sqlite \<Rightarrow> int \<Rightarrow> ('d, unit) proc" where
  "run_migrations api now =
     sql_transaction api True
       (seqp (execute_sql api schema_migrations_sql)
       (bindp (current_version api) (\<lambda>installed_version.
        iterp (run_migration api now installed_version) (migrations api))))"

section \<open>The schema that an open repository is checked for\<close>

definition created_names :: "string \<Rightarrow> string list \<Rightarrow> string list" where
  "created_names create statements =
     map (\<lambda>s. takeWhile (\<lambda>c. c \<noteq> CHR '' '') (drop (length create) s))
       (filter (\<lambda>s. take (length create) s = create) statements)"

text \<open>Migration 1 creates all the tables and indexes, and only those, that \<^verbatim>\<open>validate_schema\<close> counts.\<close>

lemma migrated_tables:
  "created_names ''CREATE TABLE IF NOT EXISTS '' [schema_migrations_sql] @ created_names ''CREATE TABLE '' migration_001_sql =
   required_tables"
  by code_simp

lemma migrated_indexes: "created_names ''CREATE INDEX '' migration_001_sql = required_indexes"
  by code_simp

end
