(* ===== verification/Filesystem_Class.thy ===== *)
theory Filesystem_Class
  imports Paths Sqlite_Session
begin

text \<open>
  Which kind of file system a repository would lie on
  (\<^verbatim>\<open>src/core/filesystem/filesystem_classifier.cpp\<close>, and the mount table of
  \<^verbatim>\<open>src/core/filesystem/platform/posix_repository_support.cpp\<close> on Linux).
\<close>

section \<open>Names of file systems\<close>

datatype FilesystemClass = fc_local | fc_network | fc_fat | fc_unknown

record FilesystemPolicy =
  fp_allowed :: bool
  fp_warn :: bool

text \<open>\<^verbatim>\<open>std::tolower\<close> in the C locale.\<close>

definition lowercase :: "string \<Rightarrow> string" where
  "lowercase value =
     map (\<lambda>c. if CHR ''A'' \<le> c \<and> c \<le> CHR ''Z'' then char_of (of_char c + 32 :: nat) else c) value"

definition is_one_of :: "string \<Rightarrow> string list \<Rightarrow> bool" where
  "is_one_of value choices = (value \<in> set choices)"

fun contains_text :: "string \<Rightarrow> string \<Rightarrow> bool" where
  "contains_text needle [] = (needle = [])"
| "contains_text needle (c # cs) = (take (length needle) (c # cs) = needle \<or> contains_text needle cs)"

definition classify_filesystem_name :: "string \<Rightarrow> FilesystemClass" where
  "classify_filesystem_name name =
     (let normalized = lowercase name in
      if is_one_of normalized [''nfs'', ''nfs4'', ''smb'', ''smb2'', ''smb3'', ''smbfs'', ''cifs'', ''9p'', ''afs'',
           ''coda'', ''ncp'', ''ncpfs'', ''davfs'', ''davfs2'', ''drive_remote''] \<or>
         contains_text ''sshfs'' normalized \<or>
         is_one_of normalized [''fuse.rclone'', ''fuse.s3fs'', ''fuse.gcsfuse'']
      then fc_network
      else if is_one_of normalized [''fat'', ''fat12'', ''fat16'', ''fat32'', ''vfat'', ''msdos'', ''msdosfs'', ''exfat'']
      then fc_fat
      else if is_one_of normalized [''ext2'', ''ext3'', ''ext4'', ''xfs'', ''btrfs'', ''zfs'', ''apfs'', ''hfs'',
           ''hfsplus'', ''ufs'', ''ntfs'', ''refs'', ''tmpfs'', ''ramfs'', ''overlay'', ''aufs'']
      then fc_local
      else fc_unknown)"

definition filesystem_policy :: "FilesystemClass \<Rightarrow> bool \<Rightarrow> FilesystemPolicy" where
  "filesystem_policy classification allow_risky_filesystem =
     (if classification = fc_network then \<lparr>fp_allowed = allow_risky_filesystem, fp_warn = False\<rparr>
      else if classification = fc_fat then \<lparr>fp_allowed = True, fp_warn = True\<rparr>
      else \<lparr>fp_allowed = True, fp_warn = False\<rparr>)"

section \<open>The nearest path that exists\<close>

lemma parent_path_shorter:
  assumes "p \<noteq> []" and "\<not> path_eq (parent_path p) p"
  shows "length (parent_path p) < length p"
proof -
  let ?q = "dropWhile (\<lambda>c. c \<noteq> CHR ''/'') (rev p)"
  let ?r = "dropWhile (\<lambda>c. c = CHR ''/'') ?q"
  have shorter: "length ?r < length p"
  proof (cases "?q")
    case Nil
    then have "length ?r = 0" by (simp only: dropWhile.simps list.size)
    then show ?thesis using assms(1) by (simp only: length_greater_0_conv not_False_eq_True)
  next
    case (Cons c cs)
    then have c: "c = CHR ''/''" by (meson dropWhile_eq_Cons_conv)
    have "length ?r \<le> length cs" using Cons c length_dropWhile_le [of _ cs] by simp
    moreover have "length (c # cs) \<le> length p" using Cons length_dropWhile_le [of _ "rev p"] by (metis length_rev)
    ultimately show ?thesis by simp
  qed
  show ?thesis
  proof (cases "?r = [] \<and> is_absolute p")
    case True
    then have parent: "parent_path p = ''/''" by (simp only: parent_path_def Let_def simp_thms if_True)
    then have "p \<noteq> ''/''" using assms(2) by (auto simp: path_eq_def)
    then have "length p \<noteq> 1" using True by (cases p) (auto simp: is_absolute_def)
    then show ?thesis using parent assms(1) by (cases p) auto
  next
    case False
    then have "parent_path p = rev ?r" unfolding parent_path_def Let_def by (rule if_not_P)
    then show ?thesis using shorter by simp
  qed
qed

function nearest_existing_ancestor :: "(string \<Rightarrow> bool) \<Rightarrow> string \<Rightarrow> string" where
  "nearest_existing_ancestor exists path =
     (if path = [] then []
      else if exists path then path
      else if path_eq (parent_path path) path then []
      else nearest_existing_ancestor exists (parent_path path))"
  by pat_completeness auto
termination
  by (relation "measure (\<lambda>(_, path). length path)") (simp_all add: parent_path_shorter)

declare nearest_existing_ancestor.simps [simp del]

definition classify_destination_filesystem ::
  "(string \<Rightarrow> bool) \<Rightarrow> (string \<Rightarrow> string option) \<Rightarrow> string \<Rightarrow> FilesystemClass" where
  "classify_destination_filesystem exists platform_name destination =
     (let existing = nearest_existing_ancestor exists destination in
      if existing = [] then fc_unknown
      else case platform_name existing of Some name \<Rightarrow> classify_filesystem_name name | None \<Rightarrow> fc_unknown)"

section \<open>The mount table\<close>

abbreviation backslash :: char where "backslash \<equiv> CHR 0x5C"

definition octal :: "char \<Rightarrow> bool" where
  "octal c \<longleftrightarrow> CHR ''0'' \<le> c \<and> c \<le> CHR ''7''"

definition octal_value :: "char \<Rightarrow> nat" where
  "octal_value c = of_char c - 48"

fun decode_mount_path :: "string \<Rightarrow> string" where
  "decode_mount_path [] = []"
| "decode_mount_path (c # cs) =
     (case cs of
        x # y # z # later \<Rightarrow>
          if c = backslash \<and> octal x \<and> octal y \<and> octal z
          then char_of (octal_value x * 64 + octal_value y * 8 + octal_value z) # decode_mount_path later
          else c # decode_mount_path cs
      | _ \<Rightarrow> c # decode_mount_path cs)"

definition is_path_within :: "string \<Rightarrow> string \<Rightarrow> bool" where
  "is_path_within path mount_point \<longleftrightarrow>
     path = mount_point \<or> mount_point = ''/'' \<or>
     length mount_point < length path \<and> take (length mount_point) path = mount_point \<and> path ! length mount_point = CHR ''/''"

text \<open>\<^verbatim>\<open>std::getline\<close>, \<^verbatim>\<open>operator>>\<close> on strings, and \<^verbatim>\<open>find(" - ")\<close>: the text before and after.\<close>

fun text_lines :: "string \<Rightarrow> string list" where
  "text_lines [] = []"
| "text_lines (c # cs) =
     (if c = CHR 0x0A then [] # text_lines cs
      else case text_lines cs of [] \<Rightarrow> [[c]] | l # ls \<Rightarrow> (c # l) # ls)"

fun text_words :: "string \<Rightarrow> string list" where
  "text_words [] = []"
| "text_words (c # cs) =
     (if is_space c then text_words cs
      else case cs of
        [] \<Rightarrow> [[c]]
      | d # _ \<Rightarrow> if is_space d then [c] # text_words cs
          else (case text_words cs of [] \<Rightarrow> [[c]] | w # ws \<Rightarrow> (c # w) # ws))"

fun split_mount_line :: "string \<Rightarrow> (string \<times> string) option" where
  "split_mount_line [] = None"
| "split_mount_line (c # cs) =
     (if take 3 (c # cs) = '' - '' then Some ([], drop 3 (c # cs))
      else map_option (\<lambda>(left, right). (c # left, right)) (split_mount_line cs))"

text \<open>The mount point and the type that a line gives; an incomplete line gives an empty mount point.\<close>

definition parse_mount :: "string \<Rightarrow> (string \<times> string) option" where
  "parse_mount line =
     map_option (\<lambda>(left, right).
       (let fields = text_words left in if 5 \<le> length fields then decode_mount_path (fields ! 4) else [],
        case text_words right of [] \<Rightarrow> [] | w # _ \<Rightarrow> w)) (split_mount_line line)"

definition consider_mount :: "string \<Rightarrow> string \<Rightarrow> nat \<times> string option \<Rightarrow> nat \<times> string option" where
  "consider_mount path line best =
     (case parse_mount line of
        None \<Rightarrow> best
      | Some (mount_point, filesystem_type) \<Rightarrow>
          if mount_point \<noteq> [] \<and> is_path_within path mount_point \<and> fst best \<le> length mount_point
          then (length mount_point, Some filesystem_type) else best)"

definition linux_mount_type :: "(string \<Rightarrow> string + string) \<Rightarrow> string \<Rightarrow> string \<Rightarrow> string option" where
  "linux_mount_type canonical mountinfo existing_path =
     (case canonical existing_path of
        Inl _ \<Rightarrow> None
      | Inr path \<Rightarrow> snd (fold (consider_mount path) (text_lines mountinfo) (0, None)))"

definition platform_filesystem_name ::
  "(string \<Rightarrow> string + string) \<Rightarrow> string \<Rightarrow> (string \<Rightarrow> u64 option) \<Rightarrow> string \<Rightarrow> string option" where
  "platform_filesystem_name canonical mountinfo statfs_type existing_path =
     (case linux_mount_type canonical mountinfo existing_path of
        Some mount_type \<Rightarrow> Some mount_type
      | None \<Rightarrow>
          (case statfs_type existing_path of
             None \<Rightarrow> None
           | Some f_type \<Rightarrow>
               if f_type = 0x6969 then Some ''nfs''
               else if f_type = 0xFF534D42 \<or> f_type = 0xFE534D42 then Some ''cifs''
               else if f_type = 0x4D44 then Some ''fat''
               else if f_type = 0x2011BAB0 then Some ''exfat''
               else None))"

section \<open>Mount points are decoded as the kernel encodes them\<close>

text \<open>The kernel writes white space and backslashes of a mount point as three octal digits.\<close>

definition mangle_char :: "char \<Rightarrow> string" where
  "mangle_char c =
     (if c \<in> {CHR '' '', CHR 0x09, CHR 0x0A, backslash}
      then let n = of_char c :: nat in
        [backslash, char_of (48 + n div 64), char_of (48 + n div 8 mod 8), char_of (48 + n mod 8)]
      else [c])"

definition mangle :: "string \<Rightarrow> string" where
  "mangle p = concat (map mangle_char p)"

lemma decode_other: "c \<noteq> backslash \<Longrightarrow> decode_mount_path (c # cs) = c # decode_mount_path cs"
  by (auto split: list.split)

lemma decode_mangled: "decode_mount_path (mangle_char c @ cs) = c # decode_mount_path cs"
proof (cases "c \<in> {CHR '' '', CHR 0x09, CHR 0x0A, backslash}")
  case True
  have "list_all (\<lambda>c. case mangle_char c of [b, x, y, z] \<Rightarrow> b = backslash \<and> octal x \<and> octal y \<and> octal z \<and>
      char_of (octal_value x * 64 + octal_value y * 8 + octal_value z) = c | _ \<Rightarrow> False)
      [CHR '' '', CHR 0x09, CHR 0x0A, backslash]" by code_simp
  then have "case mangle_char c of [b, x, y, z] \<Rightarrow> b = backslash \<and> octal x \<and> octal y \<and> octal z \<and>
      char_of (octal_value x * 64 + octal_value y * 8 + octal_value z) = c | _ \<Rightarrow> False"
    using True by (auto simp: list_all_iff)
  then show ?thesis by (simp split: list.split_asm)
next
  case False
  then show ?thesis using decode_other [of c cs] by (simp add: mangle_char_def del: decode_mount_path.simps)
qed

lemma mount_path_round_trip: "decode_mount_path (mangle p) = p"
  by (induction p) (simp_all add: mangle_def decode_mangled del: decode_mount_path.simps(2))

section \<open>The mount that counts\<close>

definition mount_candidates :: "string \<Rightarrow> string \<Rightarrow> (string \<times> string) list" where
  "mount_candidates path mountinfo =
     filter (\<lambda>(mount_point, _). mount_point \<noteq> [] \<and> is_path_within path mount_point) (List.map_filter parse_mount (text_lines mountinfo))"

lemma consider_mounts:
  "fold (consider_mount path) ls best = fold (\<lambda>(mp, ty) best. if fst best \<le> length mp then (length mp, Some ty) else best)
     (filter (\<lambda>(mount_point, _). mount_point \<noteq> [] \<and> is_path_within path mount_point) (List.map_filter parse_mount ls)) best"
  by (induction ls arbitrary: best) (auto simp: consider_mount_def List.map_filter_simps split: option.split)

lemma longest_wins:
  fixes ms :: "(string \<times> string) list"
  defines "pick \<equiv> fold (\<lambda>(mp, ty) best. if fst best \<le> length mp then (length mp, Some ty) else best)"
  shows "pick ms (n, t) = (n', t') \<Longrightarrow> n \<le> n' \<and> (\<forall>(mp, ty) \<in> set ms. length mp \<le> n') \<and>
     (t' \<noteq> t \<or> n' \<noteq> n \<longrightarrow> (\<exists>(mp, ty) \<in> set ms. length mp = n' \<and> t' = Some ty))"
proof (induction ms arbitrary: n t)
  case (Cons m ms)
  obtain mp ty where m: "m = (mp, ty)" by fastforce
  show ?case
  proof (cases "n \<le> length mp")
    case True
    then have "pick ms (length mp, Some ty) = (n', t')" using Cons.prems by (simp add: pick_def m)
    from Cons.IH [OF this] show ?thesis using True by (fastforce simp: m)
  next
    case False
    then have "pick ms (n, t) = (n', t')" using Cons.prems by (simp add: pick_def m)
    from Cons.IH [OF this] show ?thesis using False by (fastforce simp: m)
  qed
qed (simp add: pick_def)

text \<open>The type is that of a longest mount point above the path.\<close>

lemma linux_mount_type_longest:
  assumes "linux_mount_type canonical mountinfo existing = Some ty" and "canonical existing = Inr path"
  shows "\<exists>(mp, ty') \<in> set (mount_candidates path mountinfo). ty' = ty \<and>
    (\<forall>(other, _) \<in> set (mount_candidates path mountinfo). length other \<le> length mp)"
proof -
  let ?best = "fold (\<lambda>(mp, ty) best. if fst best \<le> length mp then (length mp, Some ty) else best)
      (mount_candidates path mountinfo) (0, None)"
  obtain n t where best: "?best = (n, t)" by fastforce
  then have "t = Some ty" using assms by (simp add: linux_mount_type_def consider_mounts mount_candidates_def)
  with longest_wins [OF best] have "\<exists>(mp, ty') \<in> set (mount_candidates path mountinfo). length mp = n \<and> Some ty = Some ty'"
    "\<forall>(mp, ty) \<in> set (mount_candidates path mountinfo). length mp \<le> n" by blast+
  then show ?thesis by auto
qed

end
