(* ===== verification/Repository_Lock.thy ===== *)
theory Repository_Lock
  imports Sqlite_Session
begin

text \<open>
  The writer lock of a repository (\<^verbatim>\<open>src/core/filesystem/platform/posix_lock.cpp\<close>): an advisory lock on
  \<^verbatim>\<open>repository.lock\<close>, taken without waiting, and the diagnostics written into the file.
\<close>

section \<open>The lock file\<close>

datatype pwrite_outcome = PW_wrote nat | PW_interrupted | PW_error string

text \<open>The contents of the file, which process holds the lock, and how the calls on the file turn out: \<open>lf_writes\<close>
  scripts the outcomes of \<^verbatim>\<open>pwrite\<close>; once it is used up, calls take all they are offered.\<close>

record lock_file =
  lf_content :: string
  lf_holder :: "nat option"
  lf_open_error :: "string option"
  lf_flock_error :: "string option"
  lf_truncate_error :: "string option"
  lf_writes :: "pwrite_outcome list"

definition diagnostics_text :: "nat \<Rightarrow> int \<Rightarrow> string" where
  "diagnostics_text pid start_time =
     ''pid='' @ to_string (int pid) @ [CHR 0x0A] @ ''acquired_at_unix_seconds='' @ to_string start_time @ [CHR 0x0A]"

text \<open>One call of \<^verbatim>\<open>pwrite\<close> at offset \<open>written\<close>: the new offset, or an error.\<close>

definition pwrite_once :: "string \<Rightarrow> nat \<Rightarrow> (lock_file, nat) proc" where
  "pwrite_once diagnostics written l =
     (let left = length diagnostics - written;
          outcome = (case lf_writes l of [] \<Rightarrow> PW_wrote left | w # _ \<Rightarrow> w);
          m = l\<lparr>lf_writes := tl (lf_writes l)\<rparr>
      in case outcome of
           PW_interrupted \<Rightarrow> (Inr written, m)
         | PW_error e \<Rightarrow> (throw_lv E_filesystem_error (''failed to write repository lock diagnostics: '' @ e), m)
         | PW_wrote k \<Rightarrow>
             if k = 0
             then (throw_lv E_filesystem_error ''failed to write repository lock diagnostics: no bytes written'', m)
             else
               let n = min k left in
               (Inr (written + n),
                m\<lparr>lf_content := take written (lf_content l) @ take n (drop written diagnostics) @
                     drop (written + n) (lf_content l)\<rparr>))"

lemma pwrite_once_progress:
  assumes "pwrite_once diagnostics written l = (Inr written', m)" and "written < length diagnostics"
  shows "length (lf_writes m) < length (lf_writes l) \<or>
    length (lf_writes m) = length (lf_writes l) \<and> length diagnostics - written' < length diagnostics - written"
  using assms by (auto simp: pwrite_once_def Let_def split: list.splits pwrite_outcome.splits if_splits)

function write_diagnostics_loop :: "string \<Rightarrow> nat \<Rightarrow> (lock_file, unit) proc" where
  "write_diagnostics_loop diagnostics written l =
     (if written < length diagnostics then
        case pwrite_once diagnostics written l of
          (Inl e, m) \<Rightarrow> (Inl e, m)
        | (Inr written', m) \<Rightarrow> write_diagnostics_loop diagnostics written' m
      else (Inr (), l))"
  by pat_completeness auto
termination
  by (relation "measures [\<lambda>(_, _, l). length (lf_writes l), \<lambda>(d, w, _). length d - w]")
    (use pwrite_once_progress in \<open>auto dest!: sym [of "(_, _)"]\<close>)

declare write_diagnostics_loop.simps [simp del]

definition write_diagnostics :: "nat \<Rightarrow> int \<Rightarrow> (lock_file, unit) proc" where
  "write_diagnostics pid start_time l =
     (case lf_truncate_error l of
        Some e \<Rightarrow> (throw_lv E_filesystem_error (''failed to truncate repository lock file: '' @ e), l)
      | None \<Rightarrow> write_diagnostics_loop (diagnostics_text pid start_time) 0 (l\<lparr>lf_content := []\<rparr>))"

text \<open>The destructor of the lock.\<close>

definition release_lock :: "nat \<Rightarrow> lock_file \<Rightarrow> lock_file" where
  "release_lock pid l = (if lf_holder l = Some pid then l\<lparr>lf_holder := None\<rparr> else l)"

text \<open>If anything fails after the lock was taken, it is released again.\<close>

definition acquire_exclusive :: "nat \<Rightarrow> int \<Rightarrow> (lock_file, unit) proc" where
  "acquire_exclusive pid start_time l =
     (case lf_open_error l of
        Some e \<Rightarrow> (throw_lv E_filesystem_error (''failed to open repository lock file: '' @ e), l)
      | None \<Rightarrow>
          if lf_holder l \<noteq> None
          then (throw_lv E_repository_busy ''repository is already locked by another process'', l)
          else case lf_flock_error l of
            Some e \<Rightarrow> (throw_lv E_filesystem_error (''failed to acquire repository lock: '' @ e), l)
          | None \<Rightarrow>
              (case write_diagnostics pid start_time (l\<lparr>lf_holder := Some pid\<rparr>) of
                 (Inl e, m) \<Rightarrow> (Inl e, release_lock pid m)
               | (Inr u, m) \<Rightarrow> (Inr u, m)))"

section \<open>What a holder knows\<close>

lemma pwrite_once_Inr:
  assumes "pwrite_once diagnostics written l = (Inr written', m)" and "lf_content l = take written diagnostics"
    and "written \<le> length diagnostics"
  shows "lf_content m = take written' diagnostics \<and> written' \<le> length diagnostics"
  using assms
  by (auto simp: pwrite_once_def Let_def take_add min_def split: list.splits pwrite_outcome.splits if_splits)

lemma pwrite_once_holder: "pwrite_once diagnostics written l = (r, m) \<Longrightarrow> lf_holder m = lf_holder l"
  by (auto simp: pwrite_once_def Let_def split: list.splits pwrite_outcome.splits if_splits)

lemma write_diagnostics_loop_laws:
  "write_diagnostics_loop diagnostics written l = (r, m) \<Longrightarrow> lf_content l = take written diagnostics \<Longrightarrow>
   written \<le> length diagnostics \<Longrightarrow> lf_holder m = lf_holder l \<and> (r = Inr () \<longrightarrow> lf_content m = diagnostics)"
proof (induction diagnostics written l rule: write_diagnostics_loop.induct)
  case (1 diagnostics written l)
  show ?case
  proof (cases "written < length diagnostics")
    case True
    obtain x k where x: "pwrite_once diagnostics written l = (x, k)" by fastforce
    show ?thesis
    proof (cases x)
      case (Inl e)
      then show ?thesis using "1.prems"(1) True x pwrite_once_holder [OF x] by (subst (asm) write_diagnostics_loop.simps) auto
    next
      case (Inr w)
      then have "write_diagnostics_loop diagnostics w k = (r, m)"
        using "1.prems"(1) True x by (subst (asm) write_diagnostics_loop.simps) simp
      then show ?thesis
        using "1.IH" [OF True x [symmetric, unfolded Inr]] Inr pwrite_once_Inr [OF x [unfolded Inr] "1.prems"(2,3)]
          pwrite_once_holder [OF x] by simp
    qed
  next
    case False
    then show ?thesis using "1.prems" by (subst (asm) write_diagnostics_loop.simps) auto
  qed
qed

text \<open>Short and interrupted writes do not stop the loop; errors and empty writes would.\<close>

fun harmless :: "pwrite_outcome \<Rightarrow> bool" where
  "harmless (PW_wrote k) \<longleftrightarrow> 0 < k"
| "harmless PW_interrupted \<longleftrightarrow> True"
| "harmless (PW_error e) \<longleftrightarrow> False"

lemma pwrite_once_harmless:
  assumes "list_all harmless (lf_writes l)" and "written < length diagnostics"
  shows "\<exists>written' m. pwrite_once diagnostics written l = (Inr written', m) \<and> list_all harmless (lf_writes m)"
  using assms by (auto simp: pwrite_once_def Let_def split: list.split pwrite_outcome.split)

lemma write_diagnostics_loop_harmless:
  "list_all harmless (lf_writes l) \<Longrightarrow> \<exists>m. write_diagnostics_loop diagnostics written l = (Inr (), m)"
proof (induction diagnostics written l rule: write_diagnostics_loop.induct)
  case (1 diagnostics written l)
  show ?case
  proof (cases "written < length diagnostics")
    case True
    obtain written' m where once: "pwrite_once diagnostics written l = (Inr written', m)" "list_all harmless (lf_writes m)"
      using pwrite_once_harmless [OF "1.prems" True] by blast
    show ?thesis
      using "1.IH" [OF True once(1) [symmetric] refl once(2)] True once(1)
      by (subst write_diagnostics_loop.simps) simp
  next
    case False
    then show ?thesis by (subst write_diagnostics_loop.simps) simp
  qed
qed

text \<open>
  [C40] The writer lock excludes. A process gets the lock only when nobody holds it; when it has it, it is the holder
  and the file consists of exactly its diagnostics, whatever short and interrupted writes happened; an attempt that
  fails, at whatever call, leaves the holder as it was. While somebody holds the lock, an attempt is refused as busy and
  leaves the file alone, the diagnostics of the holder included. When nobody holds it and no call fails, the lock is
  obtained.
\<close>

theorem writer_lock_exclusive:
  assumes "acquire_exclusive pid start_time l = (r, m)"
  shows "(case r of Inr _ \<Rightarrow> lf_holder l = None \<and> lf_holder m = Some pid \<and> lf_content m = diagnostics_text pid start_time
      | Inl _ \<Rightarrow> lf_holder m = lf_holder l) \<and>
    (lf_holder l \<noteq> None \<and> lf_open_error l = None \<longrightarrow>
      r = throw_lv E_repository_busy ''repository is already locked by another process'' \<and> m = l) \<and>
    (lf_holder l = None \<and> lf_open_error l = None \<and> lf_flock_error l = None \<and> lf_truncate_error l = None \<and>
      list_all harmless (lf_writes l) \<longrightarrow> r = Inr ())"
proof (intro conjI impI)
  show "case r of Inr _ \<Rightarrow> lf_holder l = None \<and> lf_holder m = Some pid \<and> lf_content m = diagnostics_text pid start_time
      | Inl _ \<Rightarrow> lf_holder m = lf_holder l"
    using assms write_diagnostics_loop_laws [of "diagnostics_text pid start_time" 0 "l\<lparr>lf_holder := Some pid, lf_content := []\<rparr>"]
    by (auto simp: acquire_exclusive_def write_diagnostics_def release_lock_def split: option.splits prod.splits sum.splits if_splits)
next
  assume "lf_holder l = None \<and> lf_open_error l = None \<and> lf_flock_error l = None \<and> lf_truncate_error l = None \<and>
    list_all harmless (lf_writes l)"
  then show "r = Inr ()"
    using assms write_diagnostics_loop_harmless [of "l\<lparr>lf_holder := Some pid, lf_content := []\<rparr>" "diagnostics_text pid start_time" 0]
    by (auto simp: acquire_exclusive_def write_diagnostics_def)
qed (use assms in \<open>auto simp: acquire_exclusive_def\<close>)

definition demo_lock :: lock_file where
  "demo_lock = \<lparr>lf_content = ''pid=7'', lf_holder = None, lf_open_error = None, lf_flock_error = None,
     lf_truncate_error = None, lf_writes = [PW_wrote 3, PW_interrupted]\<rparr>"

theorem writer_lock_exclusive_witness:
  "\<exists>m. acquire_exclusive 8 9 demo_lock = (Inr (), m) \<and> lf_content m = diagnostics_text 8 9 \<and> lf_holder m = Some 8 \<and>
     acquire_exclusive 5 6 (demo_lock\<lparr>lf_holder := Some 8\<rparr>) =
       (throw_lv E_repository_busy ''repository is already locked by another process'', demo_lock\<lparr>lf_holder := Some 8\<rparr>)"
proof -
  obtain r m where run: "acquire_exclusive 8 9 demo_lock = (r, m)" by fastforce
  have "r = Inr ()" using writer_lock_exclusive [OF run] by (simp add: demo_lock_def)
  then have m: "lf_content m = diagnostics_text 8 9" "lf_holder m = Some 8" using writer_lock_exclusive [OF run] by simp_all
  obtain r' m' where again: "acquire_exclusive 5 6 (demo_lock\<lparr>lf_holder := Some 8\<rparr>) = (r', m')" by fastforce
  then have "r' = throw_lv E_repository_busy ''repository is already locked by another process'' \<and> m' = demo_lock\<lparr>lf_holder := Some 8\<rparr>"
    using writer_lock_exclusive [OF again] by (simp add: demo_lock_def)
  then show ?thesis using run \<open>r = Inr ()\<close> m again by simp
qed

end
