(* ===== verification/Repository_Create.thy ===== *)
theory Repository_Create
  imports Migrations Filesystem_Class Repository_Lock Codec "HOL-Library.AList"
begin

text \<open>
  Creating a repository (\<^verbatim>\<open>Repository::create\<close> of \<^verbatim>\<open>src/core/repository.cpp\<close>, with the ledger of
  \<^verbatim>\<open>src/core/filesystem/creation_ledger.hpp\<close>): the checks of the destination, the directories and files that
  are made, the new database, the checks of the result, and the clean-up after a failure.
\<close>

section \<open>The destination\<close>

text \<open>The names along an absolute path in normal form.\<close>

definition path_names :: "string \<Rightarrow> string list" where
  "path_names p = filter (\<lambda>w. w \<noteq> []) (split_slash p)"

record CreationRecord =
  cr_path :: string
  cr_created :: bool
  cr_protected_while_locked :: bool

text \<open>The tree that surrounds the destination, by the names along each path, the permission bits, the failures of
  calls, and the local variables of \<^verbatim>\<open>create\<close>. The \<open>n\<close>-th call may fail; so may the removal of any path.\<close>

record creation =
  cn_nodes :: "(string list \<times> file_type) list"
  cn_modes :: "string list \<Rightarrow> u32"
  cn_call_error :: "nat \<Rightarrow> string option"
  cn_calls :: nat
  cn_remove_error :: "string list \<Rightarrow> string option"
  cn_mode_error :: "string option"
  cn_ledger :: "CreationRecord list"
  cn_locked :: bool
  cn_permissions_changed :: bool
  cn_published :: bool

abbreviation node_at :: "creation \<Rightarrow> string list \<Rightarrow> file_type option" where
  "node_at c k \<equiv> map_of (cn_nodes c) k"

definition status_of :: "(string list \<times> file_type) list \<Rightarrow> inspector" where
  "status_of nodes p =
     (case map_of nodes (path_names p) of
        None \<Rightarrow> Status_error True True ''No such file or directory''
      | Some t \<Rightarrow> Status t)"

text \<open>A call, which may fail.\<close>

definition call :: "(string option \<Rightarrow> creation \<Rightarrow> (exn + 'a) \<times> creation) \<Rightarrow> (creation, 'a) proc" where
  "call op c = op (cn_call_error c (cn_calls c)) (c\<lparr>cn_calls := Suc (cn_calls c)\<rparr>)"

definition status_call :: "string \<Rightarrow> (creation, file_status) proc" where
  "status_call p = call (\<lambda>fault c.
     (Inr (case fault of Some m \<Rightarrow> Status_error False False m | None \<Rightarrow> status_of (cn_nodes c) p), c))"

definition exists_call :: "string \<Rightarrow> (creation, bool) proc" where
  "exists_call p = bindp (status_call p) (\<lambda>st. liftp (path_exists (\<lambda>_. st) p))"

definition is_empty_directory :: "string list \<Rightarrow> (string list \<times> file_type) list \<Rightarrow> bool" where
  "is_empty_directory k nodes = list_all (\<lambda>(q, _). q = [] \<or> butlast q \<noteq> k) nodes"

section \<open>The ledger\<close>

definition mark_created :: "nat \<Rightarrow> creation \<Rightarrow> creation" where
  "mark_created index c = c\<lparr>cn_ledger := (cn_ledger c)[index := (cn_ledger c ! index)\<lparr>cr_created := True\<rparr>]\<rparr>"

text \<open>\<^verbatim>\<open>std::filesystem::remove\<close> with an error code: true unless it fails, which it does for a directory that is
  not empty.\<close>

definition remove_path :: "(string list \<Rightarrow> string option) \<Rightarrow> string list \<Rightarrow> (string list \<times> file_type) list \<Rightarrow>
    bool \<times> (string list \<times> file_type) list" where
  "remove_path remove_error k nodes =
     (case map_of nodes k of
        None \<Rightarrow> (True, nodes)
      | Some t \<Rightarrow>
          if remove_error k \<noteq> None \<or> t = ft_directory \<and> \<not> is_empty_directory k nodes then (False, nodes)
          else (True, AList.delete k nodes))"

text \<open>\<^verbatim>\<open>CreationLedger::cleanup\<close>, from the last record to the first.\<close>

fun cleanup_records :: "bool \<Rightarrow> (string list \<Rightarrow> string option) \<Rightarrow> CreationRecord list \<Rightarrow> (string list \<times> file_type) list \<Rightarrow>
    CreationRecord list \<times> (string list \<times> file_type) list" where
  "cleanup_records lock_held remove_error [] nodes = ([], nodes)"
| "cleanup_records lock_held remove_error (r # rs) nodes =
     (let (rs', nodes') = cleanup_records lock_held remove_error rs nodes in
      if \<not> cr_created r \<or> lock_held \<and> cr_protected_while_locked r then (r # rs', nodes')
      else
        let (removed, nodes'') = remove_path remove_error (path_names (cr_path r)) nodes' in
        (if removed then r\<lparr>cr_created := False\<rparr> # rs' else r # rs', nodes''))"

definition ledger_cleanup :: "bool \<Rightarrow> creation \<Rightarrow> creation" where
  "ledger_cleanup lock_held c =
     (case cleanup_records lock_held (cn_remove_error c) (cn_ledger c) (cn_nodes c) of
        (rs, nodes) \<Rightarrow> c\<lparr>cn_ledger := rs, cn_nodes := nodes\<rparr>)"

section \<open>Making directories and files\<close>

definition create_directory :: "nat \<Rightarrow> (creation, unit) proc" where
  "create_directory index = call (\<lambda>fault c.
     let k = path_names (cr_path (cn_ledger c ! index));
         failed = (\<lambda>detail. (throw_lv E_filesystem_error (''failed to create repository directory: '' @ detail), c)) in
     case fault of
       Some m \<Rightarrow> failed m
     | None \<Rightarrow>
         (case node_at c k of
            Some t \<Rightarrow> if t = ft_directory then failed ''path already exists'' else failed ''File exists''
          | None \<Rightarrow>
              if node_at c (butlast k) \<noteq> Some ft_directory then failed ''No such file or directory''
              else (Inr (), mark_created index (c\<lparr>cn_nodes := AList.update k ft_directory (cn_nodes c)\<rparr>))))"

definition create_exclusive_file :: "string \<Rightarrow> (creation, unit) proc" where
  "create_exclusive_file path = call (\<lambda>fault c.
     let k = path_names path;
         failed = (\<lambda>detail. (throw_lv E_filesystem_error (''failed to exclusively create repository file: '' @ detail), c)) in
     case fault of
       Some m \<Rightarrow> failed m
     | None \<Rightarrow>
         if node_at c k \<noteq> None then failed ''File exists''
         else if node_at c (butlast k) \<noteq> Some ft_directory then failed ''No such file or directory''
         else (Inr (), c\<lparr>cn_nodes := AList.update k ft_regular (cn_nodes c)\<rparr>))"

definition chmod_call :: "string \<Rightarrow> string \<Rightarrow> u32 \<Rightarrow> (creation, unit) proc" where
  "chmod_call text path m = call (\<lambda>fault c.
     case fault of
       Some e \<Rightarrow> (throw_lv E_filesystem_error (text @ '': '' @ e), c)
     | None \<Rightarrow> (Inr (), c\<lparr>cn_modes := (cn_modes c)(path_names path := m)\<rparr>))"

definition apply_restrictive_repository_permissions :: "string \<Rightarrow> (creation, unit) proc" where
  "apply_restrictive_repository_permissions root = chmod_call ''failed to set repository permissions'' root 0x1C0"

definition apply_restrictive_file_permissions :: "string \<Rightarrow> (creation, unit) proc" where
  "apply_restrictive_file_permissions path = chmod_call ''failed to set repository file permissions'' path 0x180"

definition create_empty_file :: "nat \<Rightarrow> (creation, unit) proc" where
  "create_empty_file index =
     bindp (gets (\<lambda>c. cr_path (cn_ledger c ! index))) (\<lambda>path.
     seqp (create_exclusive_file path)
     (seqp (modifyp (mark_created index)) (apply_restrictive_file_permissions path)))"

lemma parent_path_length: "\<not> path_eq (parent_path p) p \<Longrightarrow> length (parent_path p) < length p"
  using parent_path_shorter [of p] by (cases "p = []") (auto simp: parent_path_def path_eq_def is_absolute_def)

function missing_root_paths :: "string \<Rightarrow> (creation, string list) proc" where
  "missing_root_paths candidate c =
     (case exists_call candidate c of
        (Inl e, c') \<Rightarrow> (Inl e, c')
      | (Inr there, c') \<Rightarrow>
          if there then (Inr [], c')
          else if path_eq (parent_path candidate) candidate \<or> parent_path candidate = [] then (Inr [candidate], c')
          else case missing_root_paths (parent_path candidate) c' of
            (Inl e, c'') \<Rightarrow> (Inl e, c'')
          | (Inr missing, c'') \<Rightarrow> (Inr (missing @ [candidate]), c''))"
  by pat_completeness auto
termination
  by (relation "measure (\<lambda>(candidate, _). length candidate)") (simp_all add: parent_path_length)

declare missing_root_paths.simps [simp del]

definition validate_creation_root :: "string \<Rightarrow> (creation, unit) proc" where
  "validate_creation_root root =
     bindp (status_call root) (\<lambda>st.
     let changed = (\<lambda>detail. raise_lv E_filesystem_error (''repository root changed during creation'' @ detail)) in
     case st of
       Status_error _ _ m \<Rightarrow> changed ('': '' @ m)
     | Status t \<Rightarrow> if t = ft_directory then ret () else changed [])"

section \<open>The new database\<close>

definition secure_random_uuid_bytes :: "string + bytes \<Rightarrow> exn + bytes" where
  "secure_random_uuid_bytes entropy =
     (case entropy of
        Inl m \<Rightarrow> throw_lv E_internal_error (''secure random number generation failed: '' @ m)
      | Inr bytes \<Rightarrow> Inr bytes)"

definition make_uuid_v4 :: "string + bytes \<Rightarrow> exn + string" where
  "make_uuid_v4 entropy =
     bindE (secure_random_uuid_bytes entropy) (\<lambda>random.
     let with_version = random[6 := or (and (random ! 6) 0x0F) 0x40];
         bytes = with_version[8 := or (and (with_version ! 8) 0x3F) 0x80]
     in Inr (concat (map (\<lambda>index.
          (if index \<in> {4, 6, 8, 10} then ''-'' else []) @ to_hex [bytes ! index]) [0 ..< length bytes])))"

record RepositoryCreateOptions =
  ro_chunk_size_bytes :: u64
  ro_zstd_level :: int
  ro_allow_risky_filesystem :: bool
  ro_allow_existing_non_empty :: bool

definition insert_repository_info ::
  "'d sqlite \<Rightarrow> string + bytes \<Rightarrow> int \<Rightarrow> string \<Rightarrow> RepositoryCreateOptions \<Rightarrow> ('d, unit) proc" where
  "insert_repository_info api entropy now version options =
     bindp (new_statement api (''INSERT INTO repository_info '' @
       ''(singleton_id, repository_uuid, format_version, created_at_ns, '' @
       ''application_version, chunk_size_bytes, zstd_level, hash_algorithm) '' @
       ''VALUES (1, :uuid, :format_version, :created_at_ns, :application_version, '' @
       '':chunk_size_bytes, :zstd_level, '' @ sql_literal ''blake3'' @ '')'')) (\<lambda>s.
     bindp (liftp (make_uuid_v4 entropy)) (\<lambda>uuid.
     bindp (bind_string api s '':uuid'' uuid) (\<lambda>s.
     bindp (bind_int64 api s '':format_version'' 1) (\<lambda>s.
     bindp (bind_int64 api s '':created_at_ns'' now) (\<lambda>s.
     bindp (bind_string api s '':application_version'' version) (\<lambda>s.
     bindp (bind_int64 api s '':chunk_size_bytes'' (sint (ro_chunk_size_bytes options))) (\<lambda>s.
     bindp (bind_int64 api s '':zstd_level'' (ro_zstd_level options)) (execute api))))))))"

definition checkpoint :: "'d sqlite \<Rightarrow> ('d, unit) proc" where
  "checkpoint api =
     (let failed = raise_lv E_database_error ''checkpointing the repository database failed'' in
      bindp (new_statement api ''PRAGMA wal_checkpoint(TRUNCATE)'') (\<lambda>s.
      bindp (step api s) (\<lambda>(row, s).
      if \<not> row then failed
      else bindp (column_int64 s 0) (\<lambda>busy.
        if busy \<noteq> 0 then failed
        else bindp (step api s) (\<lambda>(row, _). if row then failed else ret ())))))"

definition flush_database :: "'d sqlite \<Rightarrow> ('d, unit) proc" where
  "flush_database api d =
     (case sq_cacheflush api d of (flush_result, d') \<Rightarrow>
        (if flush_result \<noteq> 0
         then throw_lv E_database_error (''flushing repository database failed (SQLite result '' @
                to_string flush_result @ '')'')
         else Inr (), d'))"

definition setup_database ::
  "'d sqlite \<Rightarrow> string \<Rightarrow> string + bytes \<Rightarrow> int \<Rightarrow> string \<Rightarrow> RepositoryCreateOptions \<Rightarrow> exn + unit" where
  "setup_database api database_path entropy now version options =
     bindE (open_database api database_path DA_read_write) (\<lambda>d.
     fst (seqp (run_migrations api now)
         (seqp (sql_transaction api True (insert_repository_info api entropy now version options))
         (seqp (checkpoint api) (flush_database api))) d))"

section \<open>Creation\<close>

text \<open>The surroundings: what the system reports of the destination, the lock, SQLite as it is met when the database
  is set up and when the new repository is opened to check it, and which of the database files SQLite leaves.\<close>

record 'd create_env =
  ce_absolute :: "string \<Rightarrow> string + string"
  ce_exists :: "string \<Rightarrow> bool"
  ce_filesystem_name :: "string \<Rightarrow> string option"
  ce_statvfs :: "string \<Rightarrow> u64 option"
  ce_lock :: "exn + unit"
  ce_setup_sqlite :: "'d sqlite"
  ce_locked_sqlite :: "'d sqlite"
  ce_final_sqlite :: "'d sqlite"
  ce_leaves :: "string list \<Rightarrow> bool"
  ce_entropy :: "string + bytes"
  ce_now :: int
  ce_version :: string

definition inspect_existing_root :: "string \<Rightarrow> bool \<Rightarrow> (creation, u32) proc" where
  "inspect_existing_root root allow_non_empty =
     bindp (status_call root) (\<lambda>st.
     case st of
       Status_error _ _ m \<Rightarrow> raise_lv E_filesystem_error (''failed to inspect repository root: '' @ m)
     | Status t \<Rightarrow>
         seqp (guardp (t = ft_directory) E_invalid_argument
                 ''repository root already exists and is not a non-symlink directory'')
         (bindp (gets (\<lambda>c. cn_modes c (path_names root))) (\<lambda>original_permissions.
          bindp (call (\<lambda>fault c. case fault of
              Some m \<Rightarrow> (throw_lv E_filesystem_error (''failed to inspect repository directory: '' @ m), c)
            | None \<Rightarrow> (Inr (is_empty_directory (path_names root) (cn_nodes c)), c))) (\<lambda>empty.
          seqp (guardp (empty \<or> allow_non_empty) E_invalid_argument
                  ''repository root is an existing non-empty directory; explicit approval is required'')
            (ret original_permissions)))))"

definition database_paths :: "string \<Rightarrow> string list" where
  "database_paths root = map (path_join root) [''repository.db'', ''repository.db-wal'', ''repository.db-shm'', ''repository.db-journal'']"

definition reserved_paths :: "string \<Rightarrow> string list" where
  "reserved_paths root = map (path_join root) [''objects'', ''temporary'', ''logs'', ''repository.lock''] @ database_paths root"

definition refuse_collision :: "string \<Rightarrow> (creation, unit) proc" where
  "refuse_collision path =
     bindp (exists_call path) (\<lambda>there.
     guardp (\<not> there) E_invalid_argument ''repository path collides with existing content'')"

definition creation_records :: "string list \<Rightarrow> string \<Rightarrow> CreationRecord list" where
  "creation_records missing_roots root =
     map (\<lambda>p. \<lparr>cr_path = p, cr_created = False, cr_protected_while_locked = True\<rparr>) missing_roots @
     map (\<lambda>p. \<lparr>cr_path = p, cr_created = False, cr_protected_while_locked = False\<rparr>)
       [path_join root ''objects'', path_join root ''temporary'', path_join (path_join root ''temporary'') ''objects'',
        path_join (path_join root ''temporary'') ''restores'', path_join root ''logs''] @
     [\<lparr>cr_path = path_join root ''repository.lock'', cr_created = False, cr_protected_while_locked = True\<rparr>] @
     map (\<lambda>p. \<lparr>cr_path = p, cr_created = False, cr_protected_while_locked = False\<rparr>) (database_paths root)"

text \<open>The clean-up handler; restoring the permissions is attempted and its failure ignored.\<close>

definition cleanup_creation :: "string \<Rightarrow> u32 option \<Rightarrow> creation \<Rightarrow> creation" where
  "cleanup_creation root original_permissions c =
     (let c1 = ledger_cleanup (cn_locked c) c;
          c2 = ledger_cleanup False (c1\<lparr>cn_locked := False\<rparr>)
      in case original_permissions of
           Some m \<Rightarrow>
             if cn_permissions_changed c2 \<and> cn_mode_error c2 = None
             then c2\<lparr>cn_modes := (cn_modes c2)(path_names root := m)\<rparr> else c2
         | None \<Rightarrow> c2)"

text \<open>What SQLite leaves of its own files.\<close>

definition sqlite_files :: "(string list \<Rightarrow> bool) \<Rightarrow> string list list \<Rightarrow> creation \<Rightarrow> creation" where
  "sqlite_files leaves keys c =
     c\<lparr>cn_nodes := fold (\<lambda>k nodes. if leaves k then AList.update k ft_regular nodes else AList.delete k nodes) keys (cn_nodes c)\<rparr>"

definition check_created :: "'d create_env \<Rightarrow> 'd sqlite \<Rightarrow> string \<Rightarrow> (creation, unit) proc" where
  "check_created env api root c =
     (case open_repository \<lparr>oe_absolute = ce_absolute env, oe_status = status_of (cn_nodes c), oe_statvfs = ce_statvfs env,
             oe_sqlite = api\<rparr> root read_only of
        Inl e \<Rightarrow> (Inl e, c)
      | Inr _ \<Rightarrow> (Inr (), c))"

definition create_body :: "'d create_env \<Rightarrow> RepositoryCreateOptions \<Rightarrow> string \<Rightarrow> bool \<Rightarrow> nat \<Rightarrow> (creation, unit) proc" where
  "create_body env options root root_existed base =
     (let database_path = path_join root ''repository.db'' in
      seqp (iterp create_directory [0 ..< base])
      (seqp (validate_creation_root root)
      (seqp (apply_restrictive_repository_permissions root)
      (seqp (modifyp (\<lambda>c. c\<lparr>cn_permissions_changed := root_existed\<rparr>))
      (seqp (iterp create_directory [base ..< base + 5])
      (seqp (create_empty_file (base + 5))
      (seqp (liftp (ce_lock env))
      (seqp (modifyp (\<lambda>c. c\<lparr>cn_locked := True\<rparr>))
      (seqp (iterp create_empty_file [base + 6 ..< base + 10])
      (seqp (modifyp (sqlite_files (ce_leaves env) (map path_names (database_paths root))))
      (seqp (liftp (setup_database (ce_setup_sqlite env) database_path (ce_entropy env) (ce_now env) (ce_version env) options))
      (seqp (call (\<lambda>fault c. case fault of
               Some m \<Rightarrow> (throw_lv E_filesystem_error (''failed to flush repository directory: '' @ m), c)
             | None \<Rightarrow> (Inr (), c)))
      (seqp (check_created env (ce_locked_sqlite env) root)
      (seqp (modifyp (\<lambda>c. c\<lparr>cn_published := True, cn_locked := False\<rparr>))
        (check_created env (ce_final_sqlite env) root)))))))))))))))"

definition create :: "'d create_env \<Rightarrow> string \<Rightarrow> RepositoryCreateOptions \<Rightarrow> (creation, unit) proc" where
  "create env requested_root options =
     bindp (liftp (normalized_root (ce_absolute env) requested_root)) (\<lambda>root.
     seqp (guardp (ro_chunk_size_bytes options \<noteq> 0 \<and> ro_chunk_size_bytes options \<le> 4194304) E_invalid_argument
             ''repository chunk size must be between 1 byte and 4 MiB'')
     (bindp (exists_call root) (\<lambda>root_existed.
      bindp (if root_existed then bindp (inspect_existing_root root (ro_allow_existing_non_empty options)) (\<lambda>m. ret (Some m))
             else ret None) (\<lambda>original_permissions.
      let policy = filesystem_policy (classify_destination_filesystem (ce_exists env) (ce_filesystem_name env) root)
            (ro_allow_risky_filesystem options) in
      seqp (guardp (fp_allowed policy) E_filesystem_error (''repository destination is on a network filesystem; set '' @
              ''allow_risky_filesystem to accept reduced safety''))
      (seqp (iterp refuse_collision (reserved_paths root))
      (bindp (if root_existed then ret [] else missing_root_paths root) (\<lambda>missing_roots.
       seqp (modifyp (\<lambda>c. c\<lparr>cn_ledger := creation_records missing_roots root, cn_locked := False,
               cn_permissions_changed := False, cn_published := False\<rparr>))
       (handle (create_body env options root root_existed (length missing_roots))
          (\<lambda>e. seqp (modifyp (\<lambda>c. if cn_published c then c else cleanup_creation root original_permissions c)) (raise e))))))))))"

end
