(* ===== verification/Create_Laws.thy ===== *)
theory Create_Laws
  imports Repository_Create
begin

text \<open>
  The creation of a repository touches nothing that was there before, and a creation that fails before the
  repository is published leaves nothing behind.
\<close>

section \<open>What has been made is in the ledger\<close>

abbreviation record_key :: "CreationRecord \<Rightarrow> string list" where
  "record_key r \<equiv> path_names (cr_path r)"

text \<open>\<open>n0\<close> is the tree before the creation.\<close>

definition tracked :: "(string list \<times> file_type) list \<Rightarrow> CreationRecord list \<Rightarrow> (string list \<times> file_type) list \<Rightarrow> bool" where
  "tracked n0 ledger nodes \<longleftrightarrow>
     (\<forall>k. map_of nodes k \<noteq> map_of n0 k \<longrightarrow> (\<exists>r \<in> set ledger. cr_created r \<and> record_key r = k)) \<and>
     (\<forall>r \<in> set ledger. cr_created r \<longrightarrow> map_of n0 (record_key r) = None)"

abbreviation on_track :: "(string list \<times> file_type) list \<Rightarrow> creation \<Rightarrow> bool" where
  "on_track n0 c \<equiv> tracked n0 (cn_ledger c) (cn_nodes c)"

lemma tracked_spares: "tracked n0 ledger nodes \<Longrightarrow> map_of n0 k = Some t \<Longrightarrow> map_of nodes k = Some t"
  unfolding tracked_def by (metis option.distinct(1))

lemma map_of_delete: "map_of (AList.delete k xs) q = (if q = k then None else map_of xs q)"
  by (simp add: delete_conv')

lemma map_of_update: "map_of (AList.update k v xs) q = (if q = k then Some v else map_of xs q)"
  by (simp add: update_conv')

subsection \<open>Clean-up\<close>

lemma cleanup_records_shape:
  "cleanup_records held err rs nodes = (rs', nodes') \<Longrightarrow>
   map cr_path rs' = map cr_path rs \<and> length rs' = length rs"
  by (induction rs arbitrary: rs' nodes') (auto simp: Let_def split: prod.splits if_splits)

lemma remove_path_cases:
  assumes "remove_path err k nodes = (removed, nodes')"
  shows "(removed \<longrightarrow> map_of nodes' k = None) \<and> (\<forall>q. q \<noteq> k \<longrightarrow> map_of nodes' q = map_of nodes q) \<and>
    (\<not> removed \<longrightarrow> nodes' = nodes)"
  using assms by (auto simp: remove_path_def map_of_delete split: option.splits if_splits)

lemma cleanup_records_tracked:
  "tracked n0 (pre @ rs) nodes \<Longrightarrow> cleanup_records held err rs nodes = (rs', nodes') \<Longrightarrow> tracked n0 (pre @ rs') nodes'"
proof (induction rs arbitrary: pre rs' nodes')
  case (Cons r rs)
  obtain rs1 n1 where rec: "cleanup_records held err rs nodes = (rs1, n1)" by fastforce
  have mid: "tracked n0 (pre @ r # rs1) n1" using Cons.IH [of "pre @ [r]", OF _ rec] Cons.prems(1) by simp
  show ?case
  proof (cases "\<not> cr_created r \<or> held \<and> cr_protected_while_locked r")
    case True
    then show ?thesis using Cons.prems(2) rec mid by (simp split: if_splits)
  next
    case False
    obtain removed n2 where rem: "remove_path err (record_key r) n1 = (removed, n2)" by fastforce
    note cases = remove_path_cases [OF rem]
    have out: "nodes' = n2" "rs' = (if removed then r\<lparr>cr_created := False\<rparr> # rs1 else r # rs1)"
      using Cons.prems(2) rec rem False by (auto split: if_splits)
    have free: "map_of n0 (record_key r) = None" using mid False by (simp add: tracked_def)
    show ?thesis
    proof (cases removed)
      case True
      have "\<exists>x \<in> set (pre @ rs1). cr_created x \<and> record_key x = k" if "map_of n2 k \<noteq> map_of n0 k" for k
      proof -
        have "k \<noteq> record_key r" using that cases True free by auto
        then show ?thesis using that cases mid unfolding tracked_def by fastforce
      qed
      then show ?thesis using out True mid by (fastforce simp: tracked_def)
    next
      case False
      then show ?thesis using out cases mid by simp
    qed
  qed
qed simp

text \<open>Every record comes after the record of the directory it lies in.\<close>

definition parents_first :: "string list list \<Rightarrow> bool" where
  "parents_first ks = sorted_wrt (\<lambda>inner outer. \<not> (inner \<noteq> [] \<and> butlast inner = outer)) ks"

definition tree_ok :: "(string list \<times> file_type) list \<Rightarrow> bool" where
  "tree_ok nodes \<longleftrightarrow> (\<forall>k. k \<noteq> [] \<longrightarrow> map_of nodes k \<noteq> None \<longrightarrow> map_of nodes (butlast k) \<noteq> None)"

lemma empty_directoryI: "(\<And>q. q \<noteq> [] \<Longrightarrow> butlast q = k \<Longrightarrow> map_of nodes q = None) \<Longrightarrow> is_empty_directory k nodes"
  by (auto simp: is_empty_directory_def list_all_iff map_of_eq_None_iff) force

lemma butlast_not_same: "k \<noteq> [] \<Longrightarrow> butlast k \<noteq> k"
  by (metis append_butlast_last_id not_Cons_self2 self_append_conv)

lemma cleanup_removes_all:
  assumes n0: "tree_ok n0" and err: "\<And>k. err k = None"
  shows "tracked n0 (pre @ rs) nodes \<Longrightarrow> parents_first (map record_key (pre @ rs)) \<Longrightarrow>
    cleanup_records False err rs nodes = (rs', nodes') \<Longrightarrow>
    tracked n0 (pre @ rs') nodes' \<and> (\<forall>r \<in> set rs'. \<not> cr_created r)"
proof (induction rs arbitrary: pre rs' nodes')
  case (Cons r rs)
  obtain rs1 n1 where rec: "cleanup_records False err rs nodes = (rs1, n1)" by fastforce
  have mid: "tracked n0 (pre @ r # rs1) n1" "\<forall>r \<in> set rs1. \<not> cr_created r"
    using Cons.IH [of "pre @ [r]", OF _ _ rec] Cons.prems(1,2) by simp_all
  obtain removed n2 where rem: "remove_path err (record_key r) n1 = (removed, n2)" by fastforce
  have "removed" if created: "cr_created r"
  proof -
    have free: "map_of n0 (record_key r) = None" using mid(1) created by (simp add: tracked_def)
    have "map_of n1 q = None" if q: "q \<noteq> []" "butlast q = record_key r" for q
    proof (rule ccontr)
      assume present: "map_of n1 q \<noteq> None"
      have "map_of n0 q = None" using n0 q free unfolding tree_ok_def by metis
      then obtain x where x: "x \<in> set (pre @ r # rs1)" "cr_created x" "record_key x = q"
        using mid(1) present unfolding tracked_def by metis
      then have "x \<in> set pre" using mid(2) q butlast_not_same [OF q(1)] by auto
      then obtain i where i: "i < length pre" "pre ! i = x" by (auto simp: in_set_conv_nth)
      let ?ks = "map record_key (pre @ r # rs)"
      have "?ks ! i = q" "?ks ! length pre = record_key r" using i x(3) by (simp_all add: nth_append)
      moreover have "i < length pre" "length pre < length ?ks" using i by simp_all
      ultimately show False using Cons.prems(2) q unfolding parents_first_def sorted_wrt_iff_nth_less by metis
    qed
    then show ?thesis using rem err empty_directoryI [of "record_key r" n1]
      by (auto simp: remove_path_def split: option.splits if_splits)
  qed
  then have "\<not> cr_created (hd rs') \<and> tl rs' = rs1" using Cons.prems(3) rec rem by (auto split: if_splits)
  moreover have "tracked n0 (pre @ rs') nodes'" by (rule cleanup_records_tracked [OF Cons.prems(1,3)])
  moreover have "rs' \<noteq> []" using cleanup_records_shape [OF Cons.prems(3)] by auto
  ultimately show ?case using mid(2) by (cases rs') auto
qed simp

section \<open>The identifier of a repository\<close>

lemma to_hex_pair: "to_hex [b] = [hexadecimal ! (unat b div 16), hexadecimal ! (unat b mod 16)]"
  by (simp add: to_hex_def)

lemma uuid_version_bits: "unat (or (and b 0x0F) 0x40 :: u8) div 16 = 4" "unat (or (and b 0x3F) 0x80 :: u8) div 16 \<in> {8, 9, 10, 11}"
proof -
  let ?n = "unat b" and ?m = "drop_bit 4 (unat b)"
  have "drop_bit 4 (or (and ?n 0x0F) 0x40) = or (and ?m (drop_bit 4 0x0F)) (drop_bit 4 0x40)"
    "drop_bit 4 (or (and ?n 0x3F) 0x80) = or (and ?m (drop_bit 4 0x3F)) (drop_bit 4 0x80)"
    by (simp_all only: drop_bit_or drop_bit_and)
  then have shifted: "drop_bit 4 (or (and ?n 0x0F) 0x40) = 4" "drop_bit 4 (or (and ?n 0x3F) 0x80) = or (and ?m 3) 8"
    by simp_all
  have "and ?m 3 = ?m mod 4" using take_bit_eq_mask [of 2 ?m] by (simp add: take_bit_eq_mod mask_eq_exp_minus_1)
  then have "and ?m 3 \<in> {0, 1, 2, 3}" by auto
  then have "or (and ?m 3) 8 \<in> {8, 9, 10, 11}" by auto
  then show "unat (or (and b 0x0F) 0x40 :: u8) div 16 = 4" "unat (or (and b 0x3F) 0x80 :: u8) div 16 \<in> {8, 9, 10, 11}"
    using shifted by (simp_all add: unsigned_or_eq unsigned_and_eq drop_bit_eq_div)
qed

lemma uuid_v4_format:
  assumes "length random = 16"
  shows "\<exists>u. make_uuid_v4 (Inr random) = Inr u \<and> length u = 36 \<and> u ! 14 = CHR ''4'' \<and>
    u ! 19 \<in> set ''89ab'' \<and> (\<forall>i \<in> {8, 13, 18, 23}. u ! i = CHR ''-'')"
proof -
  have idx: "[0 ..< 16] = [0, 1, 2, 3, 4, 5, 6, 7, 8, 9, 10, 11, 12, 13, 14, 15 :: nat]" by (simp add: upt_rec)
  let ?v = "or (and (random ! 6) 0x0F) 0x40" and ?w = "or (and (random ! 8) 0x3F) 0x80"
  have "unat ?w div 16 \<in> {8, 9, 10, 11}" "unat ?v div 16 = 4" using uuid_version_bits by blast+
  then have "hexadecimal ! (unat ?w div 16) \<in> set ''89ab''" "hexadecimal ! (unat ?v div 16) = CHR ''4''"
    by (auto simp: hexadecimal_def)
  then show ?thesis using assms by (simp add: make_uuid_v4_def secure_random_uuid_bytes_def idx to_hex_pair Let_def)
qed

section \<open>The paths of the ledger\<close>

lemma split_slash_shared:
  "split_slash (q @ r) = butlast (split_slash q) @ (last (split_slash q) @ hd (split_slash r)) # tl (split_slash r)"
proof (induction q)
  case Nil
  then show ?case using split_slash_not_Nil [of r] by (cases "split_slash r") simp_all
next
  case (Cons c q)
  then show ?case using split_slash_not_Nil [of q] by (cases "split_slash q") (auto split: list.split)
qed

lemma path_names_prefix: "length (path_names q) \<le> length (path_names (q @ r))"
proof -
  let ?n = "\<lambda>w. w \<noteq> ([] :: string)"
  have "split_slash q = butlast (split_slash q) @ [last (split_slash q)]" by simp
  then have "length (path_names q) = length (filter ?n (butlast (split_slash q))) + length (filter ?n [last (split_slash q)])"
    unfolding path_names_def by (metis filter_append length_append)
  also have "\<dots> \<le> length (path_names (q @ r))" unfolding path_names_def split_slash_shared [of q r] by auto
  finally show ?thesis .
qed

lemma path_names_parent: "length (path_names (parent_path p)) \<le> length (path_names p)"
proof -
  let ?r = "dropWhile (\<lambda>c. c = CHR ''/'') (dropWhile (\<lambda>c. c \<noteq> CHR ''/'') (rev p))"
  obtain s where "rev p = s @ ?r" by (metis append.assoc takeWhile_dropWhile_id)
  then have "p = rev ?r @ rev s" by (metis rev_append rev_rev_ident)
  then have "length (path_names (rev ?r)) \<le> length (path_names p)" using path_names_prefix [of "rev ?r" "rev s"] by metis
  then show ?thesis
  proof (cases "?r = [] \<and> is_absolute p")
    case True
    then have "parent_path p = ''/''" by (simp only: parent_path_def Let_def simp_thms if_True)
    moreover have "path_names ''/'' = []" by code_simp
    ultimately show ?thesis by simp
  next
    case False
    then have "parent_path p = rev ?r" unfolding parent_path_def Let_def by (rule if_not_P)
    then show ?thesis using \<open>length (path_names (rev ?r)) \<le> length (path_names p)\<close> by simp
  qed
qed

lemma path_names_join:
  assumes "p \<noteq> []" and "w \<noteq> []" and "CHR ''/'' \<notin> set w"
  shows "path_names (path_join p w) = path_names p @ [w]"
proof -
  have rel: "\<not> is_absolute w" using assms(2,3) by (cases w) (auto simp: is_absolute_def)
  show ?thesis
  proof (cases "last p = CHR ''/''")
    case True
    then obtain q where p: "p = q @ ''/''" using assms(1) by (metis append_butlast_last_id)
    have "path_join p w = q @ CHR ''/'' # w" using rel by (simp add: p path_join_def)
    moreover have "split_slash p = split_slash q @ [[]]" using split_slash_snoc [of "[]" q] by (simp add: p)
    ultimately show ?thesis using split_slash_snoc [OF assms(3), of q] assms(2) by (simp add: path_names_def)
  next
    case False
    then show ?thesis using rel assms split_slash_snoc [of w p] by (simp add: path_join_def path_names_def)
  qed
qed

lemma path_join_not_Nil: "p \<noteq> [] \<Longrightarrow> path_join p w \<noteq> [] \<or> w = []"
  by (auto simp: path_join_def)

lemma creation_keys:
  assumes "root \<noteq> []"
  shows "map record_key (creation_records missing root) =
    map path_names missing @ map (\<lambda>ws. path_names root @ ws)
      [[''objects''], [''temporary''], [''temporary'', ''objects''], [''temporary'', ''restores''], [''logs''],
       [''repository.lock''], [''repository.db''], [''repository.db-wal''], [''repository.db-shm''], [''repository.db-journal'']]"
proof -
  have "path_join root ''temporary'' \<noteq> []" using path_join_not_Nil [OF assms, of "''temporary''"] by simp
  then show ?thesis using assms by (simp add: creation_records_def database_paths_def path_names_join comp_def)
qed

definition rising :: "nat \<Rightarrow> string list \<Rightarrow> bool" where
  "rising n ps \<longleftrightarrow> sorted_wrt (\<lambda>p q. length (path_names p) \<le> length (path_names q)) ps \<and> (\<forall>p \<in> set ps. length (path_names p) \<le> n)"

lemma creation_parents_first:
  assumes "root \<noteq> []" and "rising (length (path_names root)) missing"
  shows "parents_first (map record_key (creation_records missing root))"
proof -
  have "sorted_wrt (\<lambda>p q. \<not> (path_names p \<noteq> [] \<and> butlast (path_names p) = path_names q)) missing"
    by (rule sorted_wrt_mono_rel [OF _ assms(2) [unfolded rising_def, THEN conjunct1]])
      (metis One_nat_def Suc_pred diff_less length_butlast length_greater_0_conv less_irrefl less_le_trans zero_less_one)
  moreover have "\<not> (path_names p \<noteq> [] \<and> butlast (path_names p) = path_names root @ w # ws)" if "p \<in> set missing" for p w ws
  proof
    assume "path_names p \<noteq> [] \<and> butlast (path_names p) = path_names root @ w # ws"
    then have "length (path_names root @ w # ws) \<le> length (path_names p)" by (metis diff_le_self length_butlast)
    then show False using assms(2) that by (auto simp: rising_def)
  qed
  ultimately show ?thesis
    unfolding parents_first_def creation_keys [OF assms(1)] sorted_wrt_append sorted_wrt_map
    by (auto simp: butlast_append)
qed

section \<open>The steps of the creation\<close>

text \<open>The surroundings before the creation, and the place of the root.\<close>

record origin =
  og_nodes :: "(string list \<times> file_type) list"
  og_modes :: "string list \<Rightarrow> u32"
  og_remove_error :: "string list \<Rightarrow> string option"
  og_mode_error :: "string option"
  og_root :: "string list"

abbreviation existed_at :: "origin \<Rightarrow> string list \<Rightarrow> bool" where
  "existed_at og k \<equiv> map_of (og_nodes og) k \<noteq> None"

text \<open>While the creation runs, everything new is in the ledger, and what was there before has its permissions, except
  for the root once it has been noted that they were changed.\<close>

definition creating :: "origin \<Rightarrow> string list \<Rightarrow> creation \<Rightarrow> bool" where
  "creating og ps c \<longleftrightarrow> on_track (og_nodes og) c \<and> cn_remove_error c = og_remove_error og \<and>
     cn_mode_error c = og_mode_error og \<and> map cr_path (cn_ledger c) = ps \<and>
     (\<forall>k. existed_at og k \<longrightarrow> cn_modes c k = og_modes og k \<or> k = og_root og \<and> cn_permissions_changed c)"

lemma creating_fields [simp]:
  "creating og ps (c\<lparr>cn_calls := n\<rparr>) = creating og ps c"
  "creating og ps (c\<lparr>cn_locked := b\<rparr>) = creating og ps c"
  "creating og ps (c\<lparr>cn_published := b\<rparr>) = creating og ps c"
  by (simp_all add: creating_def)

lemma keeps_call: "(\<And>fault c. I c \<Longrightarrow> I (snd (op fault c))) \<Longrightarrow> (\<And>c n. I c \<Longrightarrow> I (c\<lparr>cn_calls := n\<rparr>)) \<Longrightarrow> keeps I (call op)"
  by (simp add: keeps_def call_def)

lemma creating_status [keeps_intros]: "keeps (creating og ps) (status_call p)"
  unfolding status_call_def by (rule keeps_call) simp_all

lemma creating_mode:
  "\<not> existed_at og (path_names p) \<Longrightarrow> creating og ps c \<Longrightarrow>
   wp (chmod_call m p x) (\<lambda>_ c'. creating og ps c' \<and> cn_ledger c' = cn_ledger c) (\<lambda>_. creating og ps) c"
  by (auto simp: wp_def chmod_call_def call_def creating_def split: option.split)

text \<open>The permissions of the root, and the note that follows.\<close>

lemma creating_root_mode:
  assumes "og_root og = path_names root" and "existed \<or> \<not> existed_at og (path_names root)" and "keeps (creating og ps) n"
  shows "keeps (creating og ps) (seqp (apply_restrictive_repository_permissions root)
    (seqp (modifyp (\<lambda>c. c\<lparr>cn_permissions_changed := existed\<rparr>)) n))"
  unfolding keeps_wp wp_seqp wp_modifyp
proof (intro allI impI)
  fix c assume c: "creating og ps c"
  show "wp (apply_restrictive_repository_permissions root)
      (\<lambda>_ c. wp n (\<lambda>_. creating og ps) (\<lambda>_. creating og ps) (c\<lparr>cn_permissions_changed := existed\<rparr>)) (\<lambda>_. creating og ps) c"
  proof (rule wp_mono [where Q = "\<lambda>_ d. creating og ps (d\<lparr>cn_permissions_changed := existed\<rparr>)" and E = "\<lambda>_. creating og ps"])
    show "wp (apply_restrictive_repository_permissions root)
        (\<lambda>_ d. creating og ps (d\<lparr>cn_permissions_changed := existed\<rparr>)) (\<lambda>_. creating og ps) c"
      using c assms(1,2)
      by (auto simp: wp_def apply_restrictive_repository_permissions_def chmod_call_def call_def creating_def split: option.split)
  qed (use assms(3) in \<open>simp_all add: keeps_wp\<close>)
qed

lemma marked_created:
  assumes "tracked n0 ledger nodes" and "i < length ledger" and "k = record_key (ledger ! i)" and "map_of nodes k = None"
  shows "tracked n0 (ledger[i := (ledger ! i)\<lparr>cr_created := True\<rparr>]) (AList.update k t nodes)"
proof -
  let ?r = "(ledger ! i)\<lparr>cr_created := True\<rparr>"
  have free: "map_of n0 k = None" using tracked_spares [OF assms(1), of k] assms(4) by (cases "map_of n0 k") auto
  have old: "\<exists>x \<in> set (ledger[i := ?r]). cr_created x \<and> record_key x = q" if x: "x \<in> set ledger" "cr_created x" "record_key x = q" for x q
  proof -
    obtain j where j: "j < length ledger" "ledger ! j = x" using x(1) by (auto simp: in_set_conv_nth)
    show ?thesis
    proof (cases "j = i")
      case True
      then have "record_key ?r = q" using j x(3) by simp
      then show ?thesis using assms(2) by (intro bexI [of _ ?r]) (simp_all add: set_update_memI)
    next
      case False
      then have "ledger[i := ?r] ! j = x" using j by simp
      then show ?thesis using j x by (metis length_list_update nth_mem)
    qed
  qed
  have new: "\<exists>x \<in> set (ledger[i := ?r]). cr_created x \<and> record_key x = k"
    using assms(2,3) by (intro bexI [of _ ?r]) (simp_all add: set_update_memI)
  have "map_of n0 (record_key x) = None" if x: "x \<in> set (ledger[i := ?r])" "cr_created x" for x
  proof -
    have "x = ?r \<or> x \<in> set ledger" using x(1) set_update_subset_insert [of ledger i ?r] by blast
    then show ?thesis using assms(1,3) free x(2) by (auto simp: tracked_def)
  qed
  moreover have "\<exists>x \<in> set (ledger[i := ?r]). cr_created x \<and> record_key x = q"
    if q: "map_of (AList.update k t nodes) q \<noteq> map_of n0 q" for q
  proof (cases "q = k")
    case False
    then have "map_of nodes q \<noteq> map_of n0 q" using q by (simp add: map_of_update)
    then obtain x where "x \<in> set ledger" "cr_created x" "record_key x = q" using assms(1) unfolding tracked_def by blast
    then show ?thesis by (rule old)
  qed (simp add: new)
  ultimately show ?thesis unfolding tracked_def by blast
qed

lemma created_paths: "map cr_path (ledger[i := (ledger ! i)\<lparr>cr_created := True\<rparr>]) = map cr_path ledger"
  by (simp add: map_update list_update_same_conv) (metis length_map list_update_beyond list_update_id not_le nth_map)

lemma creating_directory:
  assumes "i < length ps"
  shows "keeps (creating og ps) (create_directory i)"
  unfolding create_directory_def
proof (rule keeps_call)
  fix fault c assume c: "creating og ps c"
  then have len: "i < length (cn_ledger c)" using assms unfolding creating_def by (metis length_map)
  show "creating og ps (snd (let k = path_names (cr_path (cn_ledger c ! i));
         failed = (\<lambda>detail. (throw_lv E_filesystem_error (''failed to create repository directory: '' @ detail), c)) in
     case fault of
       Some m \<Rightarrow> failed m
     | None \<Rightarrow>
         (case node_at c k of
            Some t \<Rightarrow> if t = ft_directory then failed ''path already exists'' else failed ''File exists''
          | None \<Rightarrow>
              if node_at c (butlast k) \<noteq> Some ft_directory then failed ''No such file or directory''
              else (Inr (), mark_created i (c\<lparr>cn_nodes := AList.update k ft_directory (cn_nodes c)\<rparr>)))))"
    using c marked_created [OF _ len refl] created_paths [of "cn_ledger c" i]
    by (auto simp: Let_def creating_def mark_created_def split: option.split)
qed simp

text \<open>A file is created and then recorded.\<close>

lemma create_empty_file_wp:
  assumes i: "i < length ps" and c: "creating og ps c"
  shows "wp (create_empty_file i)
    (\<lambda>_ c'. creating og ps c' \<and> cr_created (cn_ledger c' ! i) \<and>
       (\<forall>j. cr_created (cn_ledger c ! j) \<longrightarrow> cr_created (cn_ledger c' ! j)))
    (\<lambda>_. creating og ps) c"
proof -
  have len: "i < length (cn_ledger c)" using i c unfolding creating_def by (metis length_map)
  let ?p = "cr_path (cn_ledger c ! i)"
  have made: "wp (create_exclusive_file ?p) (\<lambda>_ c'. node_at c (path_names ?p) = None \<and> cn_ledger c' = cn_ledger c \<and>
      cn_remove_error c' = cn_remove_error c \<and> cn_mode_error c' = cn_mode_error c \<and> cn_modes c' = cn_modes c \<and>
      cn_permissions_changed c' = cn_permissions_changed c \<and> cn_nodes c' = AList.update (path_names ?p) ft_regular (cn_nodes c))
    (\<lambda>_. creating og ps) c"
    using c by (auto simp: wp_def create_exclusive_file_def call_def Let_def split: option.split)
  have mode: "wp (apply_restrictive_file_permissions ?p) (\<lambda>_ c'. creating og ps c' \<and> cn_ledger c' = cn_ledger d)
      (\<lambda>_. creating og ps) d" if "creating og ps d" "node_at c (path_names ?p) = None" for d
  proof -
    have "\<not> existed_at og (path_names ?p)"
      using that(2) c tracked_spares [of "og_nodes og" "cn_ledger c" "cn_nodes c" "path_names ?p"]
      by (cases "map_of (og_nodes og) (path_names ?p)") (auto simp: creating_def)
    then show ?thesis unfolding apply_restrictive_file_permissions_def using that(1) by (rule creating_mode)
  qed
  show ?thesis
    unfolding create_empty_file_def wp_bindp wp_gets wp_seqp wp_modifyp
  proof (rule wp_mono [OF made])
    fix u :: unit and d :: creation assume d: "node_at c (path_names ?p) = None \<and> cn_ledger d = cn_ledger c \<and> cn_remove_error d = cn_remove_error c \<and>
        cn_mode_error d = cn_mode_error c \<and> cn_modes d = cn_modes c \<and> cn_permissions_changed d = cn_permissions_changed c \<and>
        cn_nodes d = AList.update (path_names ?p) ft_regular (cn_nodes c)"
    have "creating og ps (mark_created i d)"
      using d c marked_created [OF _ len refl, of "og_nodes og" "cn_nodes c" ft_regular] created_paths [of "cn_ledger c" i]
      by (simp add: creating_def mark_created_def)
    moreover have "cr_created (cn_ledger (mark_created i d) ! i)" using d len by (simp add: mark_created_def)
    moreover have "cr_created (cn_ledger c ! j) \<longrightarrow> cr_created (cn_ledger (mark_created i d) ! j)" for j
      using d len by (cases "i = j") (simp_all add: mark_created_def)
    ultimately show "wp (apply_restrictive_file_permissions ?p) (\<lambda>_ c'. creating og ps c' \<and> cr_created (cn_ledger c' ! i) \<and>
       (\<forall>j. cr_created (cn_ledger c ! j) \<longrightarrow> cr_created (cn_ledger c' ! j))) (\<lambda>_. creating og ps) (mark_created i d)"
      using d by (auto intro!: wp_mono [OF mode])
  qed
qed

lemma creating_file: "i < length ps \<Longrightarrow> keeps (creating og ps) (create_empty_file i)"
  unfolding keeps_wp by (auto intro: wp_mono [OF create_empty_file_wp])

lemma create_files_wp:
  assumes "\<And>i. i \<in> set is \<Longrightarrow> i < length ps" and "creating og ps c"
  shows "wp (iterp create_empty_file is)
    (\<lambda>_ c'. creating og ps c' \<and> (\<forall>i \<in> set is. cr_created (cn_ledger c' ! i)) \<and>
       (\<forall>j. cr_created (cn_ledger c ! j) \<longrightarrow> cr_created (cn_ledger c' ! j)))
    (\<lambda>_. creating og ps) c"
  using assms
proof (induction "is" arbitrary: c)
  case (Cons i "is")
  show ?case
    unfolding iterp.simps wp_seqp
    by (rule wp_mono [OF create_empty_file_wp [of i ps og c]])
      (use Cons.prems in \<open>auto intro!: wp_mono [OF Cons.IH]\<close>)
qed (simp add: wp_ret)

lemma sqlite_files_other:
  "q \<notin> set ks \<Longrightarrow> map_of (fold (\<lambda>k nodes. if leaves k then AList.update k t nodes else AList.delete k nodes) ks nodes) q = map_of nodes q"
  by (induction ks arbitrary: nodes) (auto simp: map_of_update map_of_delete)

lemma creating_sqlite_files:
  assumes "creating og ps c" and "\<And>k. k \<in> set ks \<Longrightarrow> \<exists>r \<in> set (cn_ledger c). cr_created r \<and> record_key r = k"
  shows "creating og ps (sqlite_files leaves ks c)"
proof -
  have other: "node_at (sqlite_files leaves ks c) q = node_at c q" if "q \<notin> set ks" for q
    using sqlite_files_other [OF that] by (simp add: sqlite_files_def)
  have c: "on_track (og_nodes og) c" using assms(1) by (simp add: creating_def)
  have "\<exists>r \<in> set (cn_ledger c). cr_created r \<and> record_key r = q" if q: "node_at (sqlite_files leaves ks c) q \<noteq> map_of (og_nodes og) q" for q
  proof (cases "q \<in> set ks")
    case False
    then show ?thesis using other q c by (simp add: tracked_def)
  qed (rule assms(2))
  then have "on_track (og_nodes og) (sqlite_files leaves ks c)" using c by (simp add: tracked_def sqlite_files_def)
  then show ?thesis using assms(1) by (simp add: creating_def sqlite_files_def)
qed

lemma creation_paths:
  "length (creation_records missing root) = length missing + 10"
  "j < 4 \<Longrightarrow> map cr_path (creation_records missing root) ! (length missing + 6 + j) = database_paths root ! j"
  by (simp_all add: creation_records_def database_paths_def nth_append nth_Cons')

lemma database_records:
  assumes "creating og (map cr_path (creation_records missing root)) c"
    and "\<forall>i \<in> {length missing + 6 ..< length missing + 10}. cr_created (cn_ledger c ! i)" and "k \<in> set (map path_names (database_paths root))"
  shows "\<exists>r \<in> set (cn_ledger c). cr_created r \<and> record_key r = k"
proof -
  let ?b = "length missing + 6"
  have "length (database_paths root) = 4" by (simp add: database_paths_def)
  moreover obtain p where p: "p \<in> set (database_paths root)" "k = path_names p" using assms(3) by auto
  ultimately obtain j where j: "j < 4" "k = path_names (database_paths root ! j)" by (auto simp: in_set_conv_nth)
  have "length (cn_ledger c) = length missing + 10"
    using assms(1) creation_paths(1) [of missing root] unfolding creating_def by (metis length_map)
  then have len: "?b + j < length (cn_ledger c)" using j(1) by simp
  have "cr_path (cn_ledger c ! (?b + j)) = database_paths root ! j"
    using assms(1) creation_paths(2) [OF j(1), of missing root] len unfolding creating_def by (metis nth_map)
  then show ?thesis using assms(2) j len by (intro bexI [of _ "cn_ledger c ! (?b + j)"]) auto
qed

lemma creating_check [keeps_intros]: "keeps (creating og ps) (check_created env api root)"
  by (auto simp: keeps_def check_created_def split: sum.split)

lemma create_body_creating:
  assumes root: "og_root og = path_names root" "existed \<or> \<not> existed_at og (path_names root)"
  shows "keeps (creating og (map cr_path (creation_records missing root))) (create_body env options root existed (length missing))"
proof -
  let ?ps = "map cr_path (creation_records missing root)" and ?b = "length missing"
  let ?I = "creating og ?ps"
  have database: "keeps ?I (seqp (iterp create_empty_file [?b + 6 ..< ?b + 10])
      (seqp (modifyp (sqlite_files (ce_leaves env) (map path_names (database_paths root)))) n))"
    if "keeps ?I n" for n :: "(creation, unit) proc"
    unfolding keeps_wp wp_seqp wp_modifyp
  proof (intro allI impI)
    fix c assume c: "?I c"
    show "wp (iterp create_empty_file [?b + 6 ..< ?b + 10])
       (\<lambda>_ c. wp n (\<lambda>_. ?I) (\<lambda>_. ?I) (sqlite_files (ce_leaves env) (map path_names (database_paths root)) c)) (\<lambda>_. ?I) c"
    proof (rule wp_mono [OF create_files_wp [OF _ c]])
      fix u :: unit and d :: creation
      assume d: "?I d \<and> (\<forall>i \<in> set [?b + 6 ..< ?b + 10]. cr_created (cn_ledger d ! i)) \<and>
          (\<forall>j. cr_created (cn_ledger c ! j) \<longrightarrow> cr_created (cn_ledger d ! j))"
      have "?I (sqlite_files (ce_leaves env) (map path_names (database_paths root)) d)"
        by (rule creating_sqlite_files, use d in blast, rule database_records) (use d in \<open>auto simp del: map_map\<close>)
      then show "wp n (\<lambda>_. ?I) (\<lambda>_. ?I) (sqlite_files (ce_leaves env) (map path_names (database_paths root)) d)"
        using that by (simp add: keeps_wp)
    qed (simp_all add: creation_paths)
  qed
  have dirs: "keeps ?I (iterp create_directory is)" if "\<forall>i \<in> set is. i < ?b + 10" for "is"
    using that creation_paths(1) [of missing root] by (induction "is") (auto intro!: keeps_seqp keeps_ret creating_directory)
  show ?thesis
    unfolding create_body_def Let_def validate_creation_root_def
    by (intro database creating_root_mode [OF root] keeps_seqp keeps_bindp dirs creating_file keeps_liftp keeps_modifyp keeps_call
        creating_status creating_check) (auto simp: creation_paths intro!: keeps_intros split: file_status.split option.split)
qed

section \<open>The whole creation\<close>

text \<open>Until the ledger is set up nothing changes.\<close>

definition untouched :: "origin \<Rightarrow> creation \<Rightarrow> bool" where
  "untouched og c \<longleftrightarrow> cn_nodes c = og_nodes og \<and> cn_modes c = og_modes og \<and> cn_remove_error c = og_remove_error og \<and>
     cn_mode_error c = og_mode_error og"

lemma untouched_calls [simp]: "untouched og (c\<lparr>cn_calls := n\<rparr>) = untouched og c"
  by (simp add: untouched_def)

lemma untouched_status: "keeps (untouched og) (status_call p)"
  unfolding status_call_def by (rule keeps_call) simp_all

lemma untouched_exists: "keeps (untouched og) (exists_call p)"
  unfolding exists_call_def by (intro keeps_bindp untouched_status keeps_liftp)

text \<open>If the root is not found, it is not there; if it is found, its permissions are remembered.\<close>

lemma exists_call_finds:
  "untouched og c \<Longrightarrow> wp (exists_call p) (\<lambda>b c'. untouched og c' \<and> (b \<or> \<not> existed_at og (path_names p))) (\<lambda>_. untouched og) c"
  by (auto simp: wp_def exists_call_def status_call_def call_def path_exists_def status_of_def bindp_def liftp_def
      untouched_def split: option.splits if_splits file_status.splits sum.splits)

lemma inspect_remembers:
  assumes "untouched og c"
  shows "wp (inspect_existing_root root b) (\<lambda>m c'. untouched og c' \<and> m = og_modes og (path_names root)) (\<lambda>_. untouched og) c"
proof -
  have status: "wp (status_call root) (\<lambda>_. untouched og) (\<lambda>_. untouched og) c"
    using untouched_status assms unfolding keeps_wp by blast
  have empty: "wp (call (\<lambda>fault c. case fault of
        Some m \<Rightarrow> (throw_lv E_filesystem_error (''failed to inspect repository directory: '' @ m), c)
      | None \<Rightarrow> (Inr (is_empty_directory (path_names root) (cn_nodes c)), c)))
      (\<lambda>_. untouched og) (\<lambda>_. untouched og) d" if "untouched og d" for d
    using that by (auto simp: wp_def call_def split: option.split)
  show ?thesis
    unfolding inspect_existing_root_def wp_bindp
  proof (rule wp_mono [OF status])
    fix st and d :: creation assume d: "untouched og d"
    then have mode: "cn_modes d (path_names root) = og_modes og (path_names root)" by (simp add: untouched_def)
    show "wp (case st of
        Status t \<Rightarrow> seqp (guardp (t = ft_directory) E_invalid_argument
            ''repository root already exists and is not a non-symlink directory'')
          (bindp (gets (\<lambda>c. cn_modes c (path_names root))) (\<lambda>original_permissions.
           bindp (call (\<lambda>fault c. case fault of
               None \<Rightarrow> (Inr (is_empty_directory (path_names root) (cn_nodes c)), c)
             | Some m \<Rightarrow> (throw_lv E_filesystem_error (''failed to inspect repository directory: '' @ m), c))) (\<lambda>empty.
           seqp (guardp (empty \<or> b) E_invalid_argument
               ''repository root is an existing non-empty directory; explicit approval is required'')
             (ret original_permissions))))
      | Status_error _ _ m \<Rightarrow> raise_lv E_filesystem_error (''failed to inspect repository root: '' @ m))
      (\<lambda>m c'. untouched og c' \<and> m = og_modes og (path_names root)) (\<lambda>_. untouched og) d"
      using d mode by (cases st) (auto simp: wp_bindp wp_seqp wp_gets wp_guardp wp_ret wp_raise_lv intro!: wp_mono [OF empty [OF d]])
  qed
qed

lemma untouched_collisions: "keeps (untouched og) (iterp refuse_collision ps)"
  unfolding refuse_collision_def by (intro keeps_iterp keeps_bindp untouched_exists keeps_guardp)

lemma missing_root_paths_laws:
  "missing_root_paths candidate c = (r, c') \<Longrightarrow> untouched og c \<Longrightarrow>
   untouched og c' \<and> (\<forall>missing. r = Inr missing \<longrightarrow> rising (length (path_names candidate)) missing)"
proof (induction candidate c arbitrary: r c' rule: missing_root_paths.induct)
  case (1 candidate c)
  obtain x d where x: "exists_call candidate c = (x, d)" by fastforce
  have d: "untouched og d" using keepsD [OF untouched_exists "1.prems"(2) x] .
  let ?parent = "parent_path candidate"
  show ?case
  proof (cases "x = Inr False \<and> \<not> (path_eq ?parent candidate \<or> ?parent = [])")
    case True
    obtain y e where y: "missing_root_paths ?parent d = (y, e)" by fastforce
    note rec = "1.IH" [OF x [symmetric], of False, OF _ _ _ y d]
    show ?thesis
    proof (cases y)
      case (Inl m)
      then show ?thesis using "1.prems"(1) x y True rec by (subst (asm) missing_root_paths.simps) auto
    next
      case (Inr missing)
      then have "r = Inr (missing @ [candidate])" "c' = e"
        using "1.prems"(1) x y True by (subst (asm) missing_root_paths.simps; simp)+
      moreover have "rising (length (path_names ?parent)) missing" "untouched og e" using rec True Inr by simp_all
      moreover from this(1) have "rising (length (path_names candidate)) (missing @ [candidate])"
        using path_names_parent [of candidate] by (auto simp: rising_def sorted_wrt_append intro: le_trans)
      ultimately show ?thesis by simp
    qed
  next
    case False
    then show ?thesis
      using "1.prems"(1) x d by (subst (asm) missing_root_paths.simps) (auto simp: rising_def split: sum.splits if_splits)
  qed
qed

text \<open>What was there before is spared; after a failure everything is as it was.\<close>

definition spared_by :: "origin \<Rightarrow> creation \<Rightarrow> bool" where
  "spared_by og c \<longleftrightarrow> (\<forall>k t. map_of (og_nodes og) k = Some t \<longrightarrow> node_at c k = Some t) \<and>
     (\<forall>k. existed_at og k \<and> k \<noteq> og_root og \<longrightarrow> cn_modes c k = og_modes og k)"

definition settled :: "origin \<Rightarrow> creation \<Rightarrow> bool" where
  "settled og c \<longleftrightarrow> spared_by og c \<and> (\<not> cn_published c \<longrightarrow>
     (tree_ok (og_nodes og) \<and> (\<forall>k. og_remove_error og k = None) \<longrightarrow> (\<forall>k. node_at c k = map_of (og_nodes og) k)) \<and>
     (og_mode_error og = None \<longrightarrow> (\<forall>k. existed_at og k \<longrightarrow> cn_modes c k = og_modes og k)))"

lemma untouched_settled: "untouched og c \<Longrightarrow> settled og c"
  by (simp add: untouched_def settled_def spared_by_def)

lemma creating_spares: "creating og ps c \<Longrightarrow> spared_by og c"
  using tracked_spares by (auto simp: creating_def spared_by_def)

lemma ledger_cleanup_fields [simp]:
  "cn_modes (ledger_cleanup held c) = cn_modes c" "cn_mode_error (ledger_cleanup held c) = cn_mode_error c"
  "cn_permissions_changed (ledger_cleanup held c) = cn_permissions_changed c" "cn_published (ledger_cleanup held c) = cn_published c"
  by (simp_all add: ledger_cleanup_def split: prod.split)

lemma ledger_cleanup_creating: "creating og ps c \<Longrightarrow> creating og ps (ledger_cleanup held c)"
  using cleanup_records_tracked [of "og_nodes og" "[]" "cn_ledger c" "cn_nodes c" held "cn_remove_error c"]
    cleanup_records_shape [of held "cn_remove_error c" "cn_ledger c" "cn_nodes c"]
  by (cases "cleanup_records held (cn_remove_error c) (cn_ledger c) (cn_nodes c)")
    (simp add: creating_def ledger_cleanup_def)

lemma ledger_cleanup_removes:
  assumes "creating og ps c" and "tree_ok (og_nodes og)" and "\<And>k. og_remove_error og k = None" and "parents_first (map path_names ps)"
  shows "node_at (ledger_cleanup False c) k = map_of (og_nodes og) k"
proof -
  obtain rs nodes where out: "cleanup_records False (og_remove_error og) (cn_ledger c) (cn_nodes c) = (rs, nodes)" by fastforce
  have c: "tracked (og_nodes og) ([] @ cn_ledger c) (cn_nodes c)" "cn_remove_error c = og_remove_error og"
    "map record_key ([] @ cn_ledger c) = map path_names ps"
    using assms(1) by (auto simp: creating_def)
  have "tracked (og_nodes og) ([] @ rs) nodes \<and> (\<forall>r \<in> set rs. \<not> cr_created r)"
    by (rule cleanup_removes_all [OF assms(2,3) c(1) _ out]) (simp only: c(3) assms(4))
  then show ?thesis using out c(2) by (auto simp: ledger_cleanup_def tracked_def)
qed

lemma cleanup_settled:
  assumes c: "creating og ps c" and ps: "parents_first (map path_names ps)" and root: "og_root og = path_names root"
    and m: "m = Some (og_modes og (path_names root)) \<or> \<not> existed_at og (path_names root)"
  shows "settled og (cleanup_creation root m c)"
proof -
  let ?c1 = "(ledger_cleanup (cn_locked c) c)\<lparr>cn_locked := False\<rparr>"
  let ?c2 = "ledger_cleanup False ?c1" and ?out = "cleanup_creation root m c"
  have c1: "creating og ps ?c1" using ledger_cleanup_creating [OF c] by simp
  have nodes: "cn_nodes ?out = cn_nodes ?c2" by (simp add: cleanup_creation_def Let_def split: option.split)
  have c2: "creating og ps ?c2" by (rule ledger_cleanup_creating [OF c1])
  have modes: "cn_modes ?out k = og_modes og k" if "existed_at og k" "k \<noteq> og_root og \<or> og_mode_error og = None" for k
    using c2 that root m by (auto simp: cleanup_creation_def Let_def creating_def split: option.split)
  moreover have "node_at ?out k = Some t" if "map_of (og_nodes og) k = Some t" for k t
    using creating_spares [OF c2] that by (simp add: spared_by_def nodes)
  ultimately show ?thesis
    using ledger_cleanup_removes [OF c1 _ _ ps] by (auto simp: settled_def spared_by_def nodes)
qed

lemma created_or_settled:
  fixes missing :: "string list"
  assumes "root \<noteq> []" and "rising (length (path_names root)) missing" and c: "untouched og c" and root: "og_root og = path_names root"
    and known: "existed \<and> m = Some (og_modes og (path_names root)) \<or> \<not> existed_at og (path_names root)"
  shows "wp (seqp (modifyp (\<lambda>c. c\<lparr>cn_ledger := creation_records missing root, cn_locked := False,
               cn_permissions_changed := False, cn_published := False\<rparr>))
       (handle (create_body env options root existed (length missing))
          (\<lambda>e. seqp (modifyp (\<lambda>c. if cn_published c then c else cleanup_creation root m c)) (raise e))))
    (\<lambda>_. spared_by og) (\<lambda>_. settled og) c"
proof -
  let ?rs = "creation_records missing root" and ?I = "creating og (map cr_path (creation_records missing root))"
  let ?c = "c\<lparr>cn_ledger := ?rs, cn_locked := False, cn_permissions_changed := False, cn_published := False\<rparr>"
  have none: "\<not> cr_created r" if "r \<in> set ?rs" for r using that by (auto simp: creation_records_def)
  have "?I ?c" using c none by (auto simp: creating_def tracked_def untouched_def)
  then have body: "wp (create_body env options root existed (length missing)) (\<lambda>_. ?I) (\<lambda>_. ?I) ?c"
    using create_body_creating [OF root, of existed missing env options] known unfolding keeps_wp by blast
  have first: "parents_first (map path_names (map cr_path ?rs))"
    using creation_parents_first [OF assms(1,2)] by (simp add: comp_def)
  have failed: "settled og (if cn_published d then d else cleanup_creation root m d)" if "?I d" for d
    using cleanup_settled [OF that first root] known creating_spares [OF that] by (auto simp: settled_def)
  show ?thesis
    unfolding wp_seqp wp_modifyp wp_handle wp_raise
    by (rule wp_mono [OF body]) (erule creating_spares, erule failed)
qed

lemma normalized_root_not_Nil: "normalized_root absolute p = Inr root \<Longrightarrow> root \<noteq> []"
  by (auto simp: normalized_root_def Let_def path_eq_def root_path_def is_absolute_def split: sum.splits if_splits)

text \<open>From the listing of the missing directories on.\<close>

lemma missing_wp:
  assumes "untouched og c"
    and "\<And>missing c. untouched og c \<Longrightarrow> rising (length (path_names root)) missing \<Longrightarrow> wp (k missing) Q (\<lambda>_. settled og) c"
  shows "wp (bindp (if existed then ret [] else missing_root_paths root) k) Q (\<lambda>_. settled og) c"
proof (cases existed)
  case True
  then show ?thesis using assms by (simp add: rising_def)
next
  case False
  obtain r c' where run: "missing_root_paths root c = (r, c')" by fastforce
  have "wp (missing_root_paths root) (\<lambda>missing c. untouched og c \<and> rising (length (path_names root)) missing) (\<lambda>_. untouched og) c"
    using missing_root_paths_laws [OF run assms(1)] by (cases r) (simp_all add: wp_def run)
  then show ?thesis
    using False unfolding wp_bindp by (auto intro: assms(2) untouched_settled elim!: wp_mono)
qed

lemma create_outcome:
  assumes c: "untouched og c" and normal: "normalized_root (ce_absolute env) requested_root = Inr root"
    and root: "og_root og = path_names root"
  shows "wp (create env requested_root options) (\<lambda>_. spared_by og) (\<lambda>_. settled og) c"
proof -
  let ?U = "untouched og" and ?Q = "\<lambda>_ :: unit. spared_by og" and ?E = "\<lambda>_ :: exn. settled og"
  note steps = wp_bindp_keeps [where I = ?U] wp_seqp_keeps [where I = ?U]
  have returned: "bindp (liftp (Inr a)) k = k a" for a and k :: "'x \<Rightarrow> (creation, unit) proc"
    by (simp add: bindp_def liftp_def fun_eq_iff)
  have failed: "?E e d" if "?U d" for e d using untouched_settled [OF that] .
  let ?known = "\<lambda>existed m. existed \<and> m = Some (og_modes og (path_names root)) \<or> \<not> existed_at og (path_names root)"
  have found: "wp (bindp (exists_call root) k) ?Q ?E c"
    if "?U c" and k: "\<And>existed c. ?U c \<Longrightarrow> existed \<or> \<not> existed_at og (path_names root) \<Longrightarrow> wp (k existed) ?Q ?E c" for k c
    unfolding wp_bindp by (rule wp_mono [OF exists_call_finds [OF that(1)]]) (auto intro: k failed)
  have remembered: "wp (bindp (if existed then bindp (inspect_existing_root root b) (\<lambda>m. ret (Some m)) else ret None) k) ?Q ?E c"
    if "?U c" "existed \<or> \<not> existed_at og (path_names root)"
      and k: "\<And>m c. ?U c \<Longrightarrow> ?known existed m \<Longrightarrow> wp (k m) ?Q ?E c" for existed b k c
  proof (cases existed)
    case True
    show ?thesis
      unfolding wp_bindp if_P [OF True] wp_ret
      by (rule wp_mono [OF inspect_remembers [OF that(1)]]) (use True in \<open>auto intro: k failed\<close>)
  next
    case False
    then show ?thesis using that by (simp add: wp_bindp wp_ret)
  qed
  show ?thesis
    unfolding create_def Let_def normal returned
    by (intro found remembered missing_wp created_or_settled [OF normalized_root_not_Nil [OF normal] _ _ root] steps keeps_guardp
        untouched_collisions c) (auto intro: failed)
qed

text \<open>
  [C11] Creating a repository is harmless. Whatever call, lock, SQLite function or check fails, everything that
  existed around the destination before is still there, of the same kind and, except for the root itself, with the
  same permissions. If \<^verbatim>\<open>Repository::create\<close> raises before it has published the repository, then the tree is
  exactly as it was, provided that what it made can be removed, and all permissions are as they were, those of
  a root that existed included, provided that they can be set back.
\<close>

theorem create_leaves_nothing_behind:
  assumes "create env requested_root options c = (r, c')"
  shows "(\<forall>k t. node_at c k = Some t \<longrightarrow> node_at c' k = Some t \<and> (cn_modes c' k = cn_modes c k \<or>
       (\<exists>root. normalized_root (ce_absolute env) requested_root = Inr root \<and> k = path_names root))) \<and>
    (\<forall>e. r = Inl e \<and> \<not> cn_published c' \<longrightarrow>
       (tree_ok (cn_nodes c) \<and> (\<forall>k. cn_remove_error c k = None) \<longrightarrow> (\<forall>k. node_at c' k = node_at c k)) \<and>
       (cn_mode_error c = None \<longrightarrow> (\<forall>k t. node_at c k = Some t \<longrightarrow> cn_modes c' k = cn_modes c k)))"
proof (cases "normalized_root (ce_absolute env) requested_root")
  case (Inl e)
  then have "c' = c" using assms by (simp add: create_def bindp_def liftp_def)
  then show ?thesis by simp
next
  case (Inr root)
  define og where "og = \<lparr>og_nodes = cn_nodes c, og_modes = cn_modes c, og_remove_error = cn_remove_error c,
    og_mode_error = cn_mode_error c, og_root = path_names root\<rparr>"
  have "untouched og c" "og_root og = path_names root" by (simp_all add: untouched_def og_def)
  from create_outcome [OF this(1) Inr this(2), of options] show ?thesis
    using assms Inr by (cases r) (auto simp: wp_def settled_def spared_by_def og_def)
qed

text \<open>A destination below an existing directory, and surroundings in which the lock is not to be had.\<close>

definition demo_creation :: creation where
  "demo_creation = \<lparr>cn_nodes = [([], ft_directory), ([''home''], ft_directory), ([''home'', ''notes''], ft_regular)], cn_modes = (\<lambda>_. 0x1ED),
     cn_call_error = (\<lambda>_. None), cn_calls = 0, cn_remove_error = (\<lambda>_. None), cn_mode_error = None,
     cn_ledger = [], cn_locked = False, cn_permissions_changed = False, cn_published = False\<rparr>"

definition demo_create_env :: "unit create_env" where
  "demo_create_env = \<lparr>ce_absolute = Inr, ce_exists = (\<lambda>p. p = ''/''), ce_filesystem_name = (\<lambda>_. Some ''ext4''), ce_statvfs = (\<lambda>_. None),
     ce_lock = throw_lv E_repository_busy ''repository is already locked by another process'',
     ce_setup_sqlite = demo_vault_sqlite, ce_locked_sqlite = demo_vault_sqlite, ce_final_sqlite = demo_vault_sqlite,
     ce_leaves = (\<lambda>_. True), ce_entropy = Inr (replicate 16 0), ce_now = 5, ce_version = ''0.1''\<rparr>"

definition demo_create_options :: RepositoryCreateOptions where
  "demo_create_options = \<lparr>ro_chunk_size_bytes = 4194304, ro_zstd_level = 3, ro_allow_risky_filesystem = False,
     ro_allow_existing_non_empty = False\<rparr>"

lemmas demo_run = call_def status_call_def exists_call_def path_exists_def status_of_def refuse_collision_def
  create_directory_def mark_created_def validate_creation_root_def apply_restrictive_repository_permissions_def
  chmod_call_def create_empty_file_def create_exclusive_file_def apply_restrictive_file_permissions_def run_simps

lemma demo_keys:
  "path_names ''/home/vault'' = [''home'', ''vault'']" "path_names ''/home'' = [''home'']" "parent_path ''/home/vault'' = ''/home''"
  "\<not> path_eq ''/home'' ''/home/vault''" "normalized_root Inr ''/home/vault'' = Inr ''/home/vault''"
  "normalized_root Inr ''/home/vault/'' = Inr ''/home/vault/''" "parent_path ''/home/vault/'' = ''/home/vault''"
  "\<not> path_eq ''/home/vault'' ''/home/vault/''" "path_names ''/home/vault/'' = [''home'', ''vault'']"
  by code_simp+

lemma demo_joined:
  "w \<noteq> [] \<Longrightarrow> CHR ''/'' \<notin> set w \<Longrightarrow> path_names (path_join ''/home/vault'' w) = [''home'', ''vault'', w]"
  "w \<noteq> [] \<Longrightarrow> CHR ''/'' \<notin> set w \<Longrightarrow> path_names (path_join ''/home/vault/'' w) = [''home'', ''vault'', w]"
  using path_names_join [of "''/home/vault''" w] path_names_join [of "''/home/vault/''" w] by (simp_all add: demo_keys)

lemma demo_class: "fp_allowed (filesystem_policy (classify_destination_filesystem (\<lambda>p. p = ''/'') (\<lambda>_. Some ''ext4'') ''/home/vault'') False)"
  "fp_allowed (filesystem_policy (classify_destination_filesystem (\<lambda>p. p = ''/'') (\<lambda>_. Some ''ext4'') ''/home/vault/'') False)"
  by code_simp+

lemmas demo_defs = create_def demo_create_env_def demo_create_options_def demo_creation_def demo_keys demo_joined demo_class
  reserved_paths_def database_paths_def missing_root_paths.simps create_body_def creation_records_def upt_rec

text \<open>A root that does not exist and is given with a trailing separator cannot be created: the normal form keeps the
  separator, the parent of the root is then the root itself, and making it a second time fails.\<close>

lemma trailing_separator_refused:
  "fst (create demo_create_env ''/home/vault/'' demo_create_options demo_creation) =
   throw_lv E_filesystem_error ''failed to create repository directory: path already exists''"
  by (simp add: demo_defs demo_run cong: run_congs)

lemma demo_nested: "path_names (path_join (path_join ''/home/vault'' ''temporary'') w) = [''home'', ''vault'', ''temporary'', w]"
  if "w \<noteq> []" "CHR ''/'' \<notin> set w"
  using path_names_join [OF _ that, of "path_join ''/home/vault'' ''temporary''"] path_join_not_Nil [of "''/home/vault''" "''temporary''"]
    demo_joined(1) [of "''temporary''"] by simp

lemma demo_create_fails:
  "case create demo_create_env ''/home/vault'' demo_create_options demo_creation of (r, c') \<Rightarrow>
     r = throw_lv E_repository_busy ''repository is already locked by another process'' \<and> \<not> cn_published c'"
  by (simp add: demo_defs demo_nested demo_run cong: run_congs)
    (simp add: cleanup_creation_def ledger_cleanup_def Let_def split: prod.split)

theorem create_leaves_nothing_behind_witness:
  "node_at (snd (create demo_create_env ''/home/vault'' demo_create_options demo_creation)) [''home'', ''vault''] = None"
proof -
  obtain r c' where run: "create demo_create_env ''/home/vault'' demo_create_options demo_creation = (r, c')" by fastforce
  have "tree_ok (cn_nodes demo_creation)" by (auto simp: tree_ok_def demo_creation_def split: if_splits)
  then have "node_at c' [''home'', ''vault''] = node_at demo_creation [''home'', ''vault'']"
    using create_leaves_nothing_behind [OF run] demo_create_fails run by (simp add: demo_creation_def)
  moreover have "node_at demo_creation [''home'', ''vault''] = None" by (simp add: demo_creation_def)
  ultimately show ?thesis by (simp add: run)
qed

end
