(* ===== verification/Spec2Isabelle.thy ===== *)
theory Spec2Isabelle
  imports Bounded_Queue Chunker Store_Runs Recovery Object_Store
    Restore_Content Engine_Snapshot Create_Laws
begin

text \<open>
  LocalVault keeps snapshots of directory trees in a repository: a content-addressed object store on disk
  and an SQLite database that says which objects make up which file of which snapshot. The library
  follows the sources under \<^verbatim>\<open>src/src/core\<close> and \<^verbatim>\<open>src/include/localvault\<close> function by function; every
  definition that translates code keeps the name of the function or type where it can.

  \<^bold>\<open>How the program works.\<close> \<^verbatim>\<open>Repository::create\<close> lays out a directory and its database and checks the result;
  \<^verbatim>\<open>Repository::open\<close> accepts only a well-formed one. Under the writer lock, \<^verbatim>\<open>SnapshotEngine::create_snapshot\<close>
  first recovers from a crash, records a pending snapshot, and then runs three kinds of threads: the scanner
  walks the source and pushes jobs into a bounded queue, workers read files in chunks, store every chunk in
  the object store and push results into a second queue, and the one writer moves the results into the
  database in batches. Only when all of them have ended well is the snapshot published by one transaction.
  \<^verbatim>\<open>RestoreEngine::restore\<close> reads a published snapshot, checks every stored path and chunk list, plans what to
  do about conflicts in the destination, and writes directories, files and links, verifying every object
  and every file. Readers and restores see complete snapshots only.

  \<^bold>\<open>How it is modelled.\<close> A function that can raise is a procedure \<^verbatim>\<open>'s => (exn + 'a) * 's\<close> on an explicit
  state (\<^verbatim>\<open>LV_Prelude\<close>): \<^verbatim>\<open>bindp\<close>, \<^verbatim>\<open>seqp\<close>, \<^verbatim>\<open>handle\<close> and the rest compose them as the source does, and a
  destructor that has an effect is written out on both exits. Exceptions carry the error code and message
  of \<^verbatim>\<open>LocalVaultError\<close>; the display path is left out. \<^verbatim>\<open>wp\<close> and \<^verbatim>\<open>keeps\<close> are the two ways to speak
  about all exits of a procedure at once. 64-bit counters are words, with the wrap-around and the overflow
  checks of the code; signed database integers are \<^verbatim>\<open>int\<close> with the checked conversions of the code written
  out. What the code does not contain is a parameter of the model: SQLite is either the tables of migration 1
  with an arbitrary choice of failing statements (below the metadata store) or a record of the API functions that
  are called (when a connection or a repository is opened); BLAKE3 and zstd are functions with their
  documented laws (\<^verbatim>\<open>config_ok\<close>); the operating system answers each call, or fails it, as an argument says;
  the scheduler is a sequence of choices; clocks, random names, cancellation and progress callbacks are
  arguments too. The laws of the parameters that a theorem needs are hypotheses of the theorem, and its witness
  shows that they can hold.

  \<^bold>\<open>The theories.\<close>

  \<^item> \<^verbatim>\<open>LV_Prelude\<close>, \<^verbatim>\<open>LV_Types\<close>: errors, machine integers, procedures, and the types of
    \<^verbatim>\<open>error.hpp\<close>, \<^verbatim>\<open>types.hpp\<close>, \<^verbatim>\<open>failure_injector.hpp\<close>. Locale \<^verbatim>\<open>checked_adder\<close>: a 64-bit addition that refuses
    to wrap; its instances are the three counters of the code.
  \<^item> \<^verbatim>\<open>Bounded_Queue\<close> (\<^verbatim>\<open>concurrency/bounded_queue.hpp\<close>): locale \<^verbatim>\<open>fifo_channel\<close> is the contract of an
    unbounded channel; the queue with its item and byte budgets refines it and is never stuck for everyone.
  \<^item> \<^verbatim>\<open>Chunker\<close> (\<^verbatim>\<open>storage/chunker.cpp\<close>): the read loop against the partition of a byte string.
  \<^item> \<^verbatim>\<open>Database\<close>, \<^verbatim>\<open>Metadata_Store\<close> (\<^verbatim>\<open>database/*.cpp\<close>): the tables with keys, checks and foreign keys (locale
    \<^verbatim>\<open>keyed_table\<close>), transactions, and every member function of the metadata store, statement by statement.
    \<^verbatim>\<open>Metadata_Invariants\<close> has one lemma for every statement and the locale \<^verbatim>\<open>drain\<close> for the loops that delete in
    batches. In \<^verbatim>\<open>Metadata_Safety\<close> the locale \<^verbatim>\<open>store_invariant\<close> says what a predicate on the tables has to
    satisfy to be kept by every operation on every exit, and \<^verbatim>\<open>maintenance_invariant\<close>, a part of it, what
    recovery asks for. The schema, the rows of a complete snapshot, the life cycle of snapshots and
    the hashes of unpublished files are its instances. \<^verbatim>\<open>Store_Runs\<close> turns them into statements about all
    histories with failures and crashes; \<^verbatim>\<open>Publication\<close> is about \<^verbatim>\<open>mark_snapshot_complete\<close>.
  \<^item> \<^verbatim>\<open>Recovery\<close> (\<^verbatim>\<open>Repository::recover_after_writer_lock\<close> in \<^verbatim>\<open>repository.cpp\<close>): it spares complete snapshots
    wherever it is interrupted, and finishes when nothing fails.
  \<^item> \<^verbatim>\<open>Codec\<close>, \<^verbatim>\<open>Vault_FS\<close>, \<^verbatim>\<open>Object_Store\<close> (\<^verbatim>\<open>storage/*.cpp\<close>, \<^verbatim>\<open>posix_*.cpp\<close>): a file system that knows which
    contents and which names are durable, and the object store on it, with other writers interfering
    between any two system calls: rows name durable, verified objects; reads return verified bytes only.
  \<^item> \<^verbatim>\<open>Utf8_Text\<close>, \<^verbatim>\<open>Paths\<close>, \<^verbatim>\<open>Posix_Metadata\<close>: the UTF-8 check against the encodings of scalar values, the part of
    \<^verbatim>\<open>std::filesystem::path\<close> that is used, modes, times and path inspection.
  \<^item> \<^verbatim>\<open>Restore_Plan\<close>, \<^verbatim>\<open>Restore_Checks\<close>, \<^verbatim>\<open>Restore_Engine\<close>, \<^verbatim>\<open>Restore_Safety\<close>, \<^verbatim>\<open>Restore_Content\<close>
    (\<^verbatim>\<open>restore_engine.cpp\<close>): the checks decide exactly what they are meant to; nothing is overwritten without
    permission; a restore that returns has delivered; the repository is spared.
  \<^item> \<^verbatim>\<open>Ignore_Rules\<close>, \<^verbatim>\<open>File_Scanner\<close>, \<^verbatim>\<open>Scan_Laws\<close> (\<^verbatim>\<open>ignore_rules.cpp\<close>, \<^verbatim>\<open>file_scanner.cpp\<close>): the backtracking
    matcher against recursive glob patterns, and the scan against an admission policy.
  \<^item> \<^verbatim>\<open>Progress\<close>, \<^verbatim>\<open>Snapshot_Worker\<close>, \<^verbatim>\<open>Worker_Laws\<close> (\<^verbatim>\<open>snapshot_engine.cpp\<close>): the thinning of progress callbacks,
    reading a file in attempts, the spool of chunk references.
  \<^item> \<^verbatim>\<open>Pipeline\<close>, \<^verbatim>\<open>Pipeline_Laws\<close>, \<^verbatim>\<open>Pipeline_Contract\<close> (the threads of \<^verbatim>\<open>create_snapshot\<close>): a step
    relation over any procedures for the three roles: termination, no deadlock, each job and result exactly
    once, the first error wins. Locale \<^verbatim>\<open>pipeline_contract\<close> lifts what every procedure keeps to every
    interleaving.
  \<^item> \<^verbatim>\<open>Snapshot_Engine\<close>, \<^verbatim>\<open>Engine_Workers\<close>, \<^verbatim>\<open>Engine_Tables\<close>, \<^verbatim>\<open>Engine_Safety\<close>, \<^verbatim>\<open>Engine_Snapshot\<close>
    (\<^verbatim>\<open>create_snapshot\<close> as a whole): the procedures of the threads meet the contract, so a snapshot is all or
    nothing.
  \<^item> \<^verbatim>\<open>Sqlite_Session\<close>, \<^verbatim>\<open>Repository_Open\<close>, \<^verbatim>\<open>Migrations\<close> (\<^verbatim>\<open>database.cpp\<close>, \<^verbatim>\<open>statement.cpp\<close>, \<^verbatim>\<open>migrations.cpp\<close>,
    \<^verbatim>\<open>repository.cpp\<close>): statements and connections with every result code, the URI of an immutable database,
    the checks of an opened repository, the migration runner and the SQL it is given. How SQLite reads a URI is
    a parameter with the documented law \<^verbatim>\<open>reads_file_uris\<close>.
  \<^item> \<^verbatim>\<open>Filesystem_Class\<close>, \<^verbatim>\<open>Repository_Lock\<close>, \<^verbatim>\<open>Repository_Create\<close>, \<^verbatim>\<open>Create_Laws\<close> (\<^verbatim>\<open>filesystem_classifier.cpp\<close>,
    \<^verbatim>\<open>posix_lock.cpp\<close>, \<^verbatim>\<open>creation_ledger.hpp\<close>, \<^verbatim>\<open>repository.cpp\<close>): the kind of the destination, the advisory lock, and
    creation with its ledger: the lock excludes, and a failed creation leaves nothing behind and restores permissions.

  \<^bold>\<open>Loops and bounds.\<close> Loops over lists are structural. The chunk loop, the write loops, the walk to
  the nearest existing directory and the deletion in batches have measures (bytes left, bytes to write,
  length of the path, rows left), so they are total. The matcher of ignore rules backtracks and is a partial
  function into an option; that it always returns is a theorem. The threads are a step
  relation; the measure \<^verbatim>\<open>work_left\<close> bounds every run, and \<^verbatim>\<open>run_threads\<close> follows any sequence of scheduler
  choices and then runs for \<^verbatim>\<open>work_left\<close> steps, which is enough for every thread to end
  (\<^verbatim>\<open>run_on_joins\<close>). \<^verbatim>\<open>add_ancestors\<close> of the restore selection counts down from the length of the path,
  which is at least the number of its ancestors. No other definition has fuel. The limits of the code are those of the source: chunks of at
  most 4 MiB, 64 remembered objects, 64 KiB of allowance for compression.

  \<^bold>\<open>Concurrency.\<close> Critical sections under one mutex are single steps; a call that has to wait takes no step until its
  condition holds, so the notifications of the condition variables, and the loss of one, are outside the model. Threads
  interleave at their queue operations; the progress counters at every operation. What a worker does between two queue
  operations is one step of the pipeline, because it touches only its own cache, its own temporary files and the object
  store, whose own theorems allow other writers between any two system calls. \<^verbatim>\<open>shutdown\<close> is one step, although the code
  records the first error under a mutex and then requests the stop, closes both queues and cancels the progress
  one after the other.

  \<^bold>\<open>Simplifications.\<close> Starting a thread does not fail, and neither do the constructors of chunker and object store
  inside a thread, whose arguments \<^verbatim>\<open>Repository::open\<close> has checked. The object representation of a spooled record is that
  of a little-endian machine. On POSIX the generic form of a path in normal form is the path itself, so \<^verbatim>\<open>path_key\<close> and the
  path in a URI are the stored bytes. \<^verbatim>\<open>ensure_directory\<close> is one system call. Destructors that remove a temporary
  file succeed in removing it; the clean-up of the temporary tree and of a failed creation may fail.

  \<^bold>\<open>Not modelled.\<close> The Windows layer (\<^verbatim>\<open>win32_*.cpp\<close>), whose meaning is that of the Win32 calls it makes; the
  command line and the desktop front end, which only print; the hooks for tests; messages on the standard error
  stream; the display path of errors; allocation failure; failure to start a thread; accessors, moves and destructors without an effect;
  and the translation of \<^verbatim>\<open>std::filesystem::filesystem_error\<close> in \<^verbatim>\<open>Repository::create\<close>, which calls with an error code do
  not raise.
  A create call that fails after publication reports the error and keeps the repository, as the code does.

  \<^bold>\<open>What modelling showed.\<close> \<^verbatim>\<open>trailing_separator_refused\<close>: a repository root that does not exist cannot be created
  when its path ends in a separator. Two options have no effect: \<^verbatim>\<open>SnapshotOptions::force_rehash\<close> and
  \<^verbatim>\<open>RestoreRequest::verify_final_file_hash\<close> are read nowhere, so every file is hashed and every restored file
  is verified.
\<close>

end
